(* ===== verification/Prelude.thy ===== *)
theory Prelude
  imports Main "HOL-Library.Word"
begin

text \<open>
  Shared vocabulary of the development: the machine integer types of the code, the C++ library
  functions the code calls on them (\<open>std::clamp\<close>, shifts of a one bit), the rings of fixed
  size indexed by a sequence number, and the generic lemmas about words, options and maps that
  the component theories use.  Signed 64-bit quantities are \<open>int\<close> (signed overflow is undefined
  in C++; bounds lemmas show where it cannot happen); unsigned quantities are words, so that
  \<open>+\<close>, \<open>-\<close> and \<open>*\<close> wrap as in the code.
\<close>

unbundle bit_operations_syntax

type_synonym u8 = "8 word"
type_synonym u16 = "16 word"
type_synonym u32 = "32 word"
type_synonym u64 = "64 word"

named_theorems policy_defs \<open>definitions of the decision functions, unfolded together\<close>
named_theorems frame_simps \<open>fields an operation leaves unchanged\<close>

section \<open>Library functions of the source language\<close>

definition clamp :: "'a::linorder \<Rightarrow> 'a \<Rightarrow> 'a \<Rightarrow> 'a" where
  "clamp x lo hi = (if x < lo then lo else if hi < x then hi else x)"

definition shl1 :: "nat \<Rightarrow> 'a::len word" where
  "shl1 n = push_bit n 1"

abbreviation u64_max :: u64 where "u64_max \<equiv> - 1"
abbreviation u32_max :: u32 where "u32_max \<equiv> - 1"

definition int64_max :: int where "int64_max = 9223372036854775807"
definition int64_min :: int where "int64_min = - 9223372036854775808"

definition u8_of_bool :: "bool \<Rightarrow> u8" where
  "u8_of_bool b = (if b then 1 else 0)"

lemma clamp_bounds: "lo \<le> hi \<Longrightarrow> lo \<le> clamp x lo hi \<and> clamp x lo hi \<le> hi"
  by (auto simp: clamp_def)

lemma clamp_id: "lo \<le> x \<Longrightarrow> x \<le> hi \<Longrightarrow> clamp x lo hi = x"
  by (auto simp: clamp_def)

lemma clamp_eq_min_max: "lo \<le> hi \<Longrightarrow> clamp x lo hi = max lo (min x hi)"
  by (auto simp: clamp_def max_def min_def)

section \<open>Bit flags\<close>

lemma and_shl1_eq_0_iff: "(x AND shl1 n = 0) \<longleftrightarrow> \<not> bit x n" for x :: "'a::len word"
  by (simp add: shl1_def bit_iff_and_push_bit_not_eq_0)

lemma bit_shl1: "bit (shl1 n :: 'a::len word) m \<longleftrightarrow> m = n \<and> n < LENGTH('a)"
  by (auto simp: shl1_def bit_simps)

lemma bit_or_shl1: "bit (x OR shl1 n) m \<longleftrightarrow> bit x m \<or> (m = n \<and> n < LENGTH('a))" for x :: "'a::len word"
  by (simp add: bit_or_iff bit_shl1)

section \<open>Words read as natural numbers\<close>

lemma unat_u64_max: "unat (u64_max) = 18446744073709551615"
  by (simp add: unsigned_minus_1_eq_mask mask_eq_exp_minus_1)

lemma unat_u32_max: "unat (u32_max) = 4294967295"
  by (simp add: unsigned_minus_1_eq_mask mask_eq_exp_minus_1)

lemma unat_lt_u64: "unat (x :: u64) < 18446744073709551616"
  using unsigned_less [of x, where ?'a = nat] by simp

lemma unat_lt_u32: "unat (x :: u32) < 4294967296"
  using unsigned_less [of x, where ?'a = nat] by simp

lemma unat_lt_u16: "unat (x :: u16) < 65536"
  using unsigned_less [of x, where ?'a = nat] by simp

lemma unat_lt_u8: "unat (x :: u8) < 256"
  using unsigned_less [of x, where ?'a = nat] by simp

lemma unat_add_no_overflow:
  "unat a + unat b < 2 ^ LENGTH('a) \<Longrightarrow> unat (a + b) = unat a + unat b" for a b :: "'a::len word"
  by (simp add: unat_word_ariths)

lemma unat_mult_no_overflow:
  "unat a * unat b < 2 ^ LENGTH('a) \<Longrightarrow> unat (a * b) = unat a * unat b" for a b :: "'a::len word"
  by (simp add: unat_word_ariths)

lemma unat_sub_le: "b \<le> a \<Longrightarrow> unat (a - b) = unat a - unat b" for a b :: "'a::len word"
  by (simp add: unat_sub)

lemma unat_min: "unat (min a b) = min (unat a) (unat b)" for a b :: "'a::len word"
  by (auto simp: min_def word_le_nat_alt)

lemma unat_max: "unat (max a b) = max (unat a) (unat b)" for a b :: "'a::len word"
  by (auto simp: max_def word_le_nat_alt)

lemma unat_clamp: "unat (clamp x lo hi) = clamp (unat x) (unat lo) (unat hi)" for x :: "'a::len word"
  by (auto simp: clamp_def word_less_nat_alt)

lemma unat_ucast_up: "LENGTH('a) \<le> LENGTH('b) \<Longrightarrow> unat (ucast x :: 'b::len word) = unat x" for x :: "'a::len word"
proof -
  assume le: "LENGTH('a) \<le> LENGTH('b)"
  have "unat x < 2 ^ LENGTH('a)" by (rule unsigned_less)
  also have "(2 :: nat) ^ LENGTH('a) \<le> 2 ^ LENGTH('b)" using le by simp
  finally show ?thesis by (simp add: unsigned_ucast_eq take_bit_nat_eq_self)
qed

lemma unat_plus_one: "x \<noteq> - 1 \<Longrightarrow> unat (x + 1) = Suc (unat x)" for x :: "'a::len word"
  by (metis Suc_eq_plus1 add.right_inverse add.commute eq_neg_iff_add_eq_0 unatSuc)

lemma less_plus_one: "x \<noteq> - 1 \<Longrightarrow> x < x + 1" for x :: "'a::len word"
  by (simp add: word_less_nat_alt unat_plus_one)

lemmas word_nat_defs = word_less_nat_alt word_le_nat_alt

section \<open>Rings indexed by a sequence number\<close>

text \<open>
  The code keeps its recent history in arrays of a fixed number of slots and places the entry with
  sequence number \<open>s\<close> in slot \<open>s % slots\<close>.  Arrays are total functions from slot numbers here:
  every index the code computes is a remainder or a tag index, so none is out of range.
\<close>

definition slot :: "nat \<Rightarrow> u64 \<Rightarrow> nat" where
  "slot n s = unat s mod n"

lemma slot_less: "0 < n \<Longrightarrow> slot n s < n"
  by (simp add: slot_def)

lemma slot_eq_close:
  assumes "slot n a = slot n b" and "a \<le> b" and "unat b - unat a < n"
  shows "a = b"
proof -
  from assms have "n dvd unat b - unat a"
    by (metis mod_eq_dvd_iff_nat slot_def word_le_nat_alt)
  with assms have "unat a = unat b"
    by (metis dvd_imp_le word_le_nat_alt diff_is_0_eq le_antisym linorder_not_le neq0_conv)
  then show ?thesis by (simp add: word_unat_eq_iff)
qed

end
