(* ===== verification/RuntimePolicy.thy ===== *)
theory RuntimePolicy
  imports Prelude
begin

text \<open>
  The policy data of \<open>src/runtime_policy.h\<close> and the routing signature of
  \<open>src/runtime_policy.cpp\<close>: enumerations as datatypes with their underlying values, the fixed
  capacity lists \<open>FixedOrder\<close>, the nested policy structs with their defaults, and the FNV-1a
  signature by which the runtime notices that a reloaded configuration routes differently.
\<close>

section \<open>Enumerations\<close>

datatype logging_level = Log_Off | Log_Info | Log_Trace

datatype graphics_api = D3D11 | D3D12 | Vulkan

datatype input_frontend = FE_Auto | Reflex | VkNvLowLatency2 | XeLL | AntiLag2

datatype backend =
  BE_Auto | BE_AntiLag2 | BE_XeLL | AmdAntiLagVk | LatencyFlex | NativeReflex | VulkanFlex

datatype auto_bool = AB_Auto | AB_Disabled | AB_Enabled

datatype vulkan_spoofing = Spoof_Off | Spoof_Selective | Spoof_Aggressive

datatype normalized_marker =
    SimulationStart | SimulationEnd | RenderSubmitStart | RenderSubmitEnd
  | PresentStart | PresentEnd | InputSample | TriggerFlash | PcLatencyPing
  | OutOfBandRenderSubmitStart | OutOfBandRenderSubmitEnd
  | OutOfBandPresentStart | OutOfBandPresentEnd

fun frontend_code :: "input_frontend \<Rightarrow> nat" where
  "frontend_code FE_Auto = 0"
| "frontend_code Reflex = 1"
| "frontend_code VkNvLowLatency2 = 2"
| "frontend_code XeLL = 3"
| "frontend_code AntiLag2 = 4"

fun backend_code :: "backend \<Rightarrow> nat" where
  "backend_code BE_Auto = 0"
| "backend_code BE_AntiLag2 = 1"
| "backend_code BE_XeLL = 2"
| "backend_code AmdAntiLagVk = 3"
| "backend_code LatencyFlex = 4"
| "backend_code NativeReflex = 5"
| "backend_code VulkanFlex = 6"

fun auto_bool_code :: "auto_bool \<Rightarrow> nat" where
  "auto_bool_code AB_Auto = 0"
| "auto_bool_code AB_Disabled = 1"
| "auto_bool_code AB_Enabled = 2"

fun spoofing_code :: "vulkan_spoofing \<Rightarrow> nat" where
  "spoofing_code Spoof_Off = 0"
| "spoofing_code Spoof_Selective = 1"
| "spoofing_code Spoof_Aggressive = 2"

fun marker_code :: "normalized_marker \<Rightarrow> nat" where
  "marker_code SimulationStart = 0"
| "marker_code SimulationEnd = 1"
| "marker_code RenderSubmitStart = 2"
| "marker_code RenderSubmitEnd = 3"
| "marker_code PresentStart = 4"
| "marker_code PresentEnd = 5"
| "marker_code InputSample = 6"
| "marker_code TriggerFlash = 7"
| "marker_code PcLatencyPing = 8"
| "marker_code OutOfBandRenderSubmitStart = 9"
| "marker_code OutOfBandRenderSubmitEnd = 10"
| "marker_code OutOfBandPresentStart = 11"
| "marker_code OutOfBandPresentEnd = 12"

text \<open>
  A \<open>static_cast\<close> from an integer back to the enumeration.  Values that name no enumerator are
  read as \<open>Auto\<close>; no component stores one (see the round trip and the owner-word lemmas).
\<close>

definition frontend_of_code :: "nat \<Rightarrow> input_frontend" where
  "frontend_of_code n =
     (if n = 1 then Reflex else if n = 2 then VkNvLowLatency2
      else if n = 3 then XeLL else if n = 4 then AntiLag2 else FE_Auto)"

lemma frontend_of_code_code [simp]: "frontend_of_code (frontend_code f) = f"
  by (cases f) (simp_all add: frontend_of_code_def)

lemma frontend_code_less: "frontend_code f < 5"
  by (cases f) simp_all

lemma frontend_code_inj [simp]: "frontend_code f = frontend_code g \<longleftrightarrow> f = g"
  by (metis frontend_of_code_code)

lemma backend_code_less: "backend_code b < 7"
  by (cases b) simp_all

lemma backend_code_inj [simp]: "backend_code a = backend_code b \<longleftrightarrow> a = b"
  by (cases a; cases b) simp_all

lemma marker_code_less: "marker_code m < 13"
  by (cases m) simp_all

lemma marker_code_inj [simp]: "marker_code a = marker_code b \<longleftrightarrow> a = b"
  by (cases a; cases b) simp_all

section \<open>Names\<close>

fun logging_to_string :: "logging_level \<Rightarrow> string" where
  "logging_to_string Log_Off = ''off''"
| "logging_to_string Log_Info = ''info''"
| "logging_to_string Log_Trace = ''trace''"

fun api_to_string :: "graphics_api \<Rightarrow> string" where
  "api_to_string D3D11 = ''d3d11''"
| "api_to_string D3D12 = ''d3d12''"
| "api_to_string Vulkan = ''vulkan''"

fun frontend_to_string :: "input_frontend \<Rightarrow> string" where
  "frontend_to_string FE_Auto = ''auto''"
| "frontend_to_string Reflex = ''reflex''"
| "frontend_to_string VkNvLowLatency2 = ''vk_nv_low_latency2''"
| "frontend_to_string XeLL = ''xell''"
| "frontend_to_string AntiLag2 = ''antilag2''"

fun backend_to_string :: "backend \<Rightarrow> string" where
  "backend_to_string BE_Auto = ''auto''"
| "backend_to_string BE_AntiLag2 = ''antilag2''"
| "backend_to_string BE_XeLL = ''xell''"
| "backend_to_string AmdAntiLagVk = ''amd_anti_lag''"
| "backend_to_string LatencyFlex = ''latencyflex''"
| "backend_to_string NativeReflex = ''native_reflex''"
| "backend_to_string VulkanFlex = ''vulkanflex''"

section \<open>FixedOrder\<close>

text \<open>
  \<open>FixedOrder<T, Capacity>\<close> holds an array of \<open>Capacity\<close> values and a count.  \<open>push_back\<close> drops
  the value when the array is full.  \<open>fo_list\<close> is what it represents.
\<close>

record 'a fixed_order =
  fo_values :: "'a list"
  fo_size :: nat

definition fo_empty :: "'a \<Rightarrow> nat \<Rightarrow> 'a fixed_order" where
  "fo_empty z cap = \<lparr>fo_values = replicate cap z, fo_size = 0\<rparr>"

definition fo_push_back :: "'a \<Rightarrow> 'a fixed_order \<Rightarrow> 'a fixed_order" where
  "fo_push_back v q =
     (if fo_size q < length (fo_values q)
      then q\<lparr>fo_values := (fo_values q)[fo_size q := v], fo_size := fo_size q + 1\<rparr>
      else q)"

fun fo_contains_from :: "nat \<Rightarrow> 'a fixed_order \<Rightarrow> 'a \<Rightarrow> bool" where
  "fo_contains_from 0 q v = False"
| "fo_contains_from (Suc n) q v =
     (if fo_values q ! (fo_size q - Suc n) = v then True else fo_contains_from n q v)"

definition fo_contains :: "'a fixed_order \<Rightarrow> 'a \<Rightarrow> bool" where
  "fo_contains q v = fo_contains_from (fo_size q) q v"

definition fo_list :: "'a fixed_order \<Rightarrow> 'a list" where
  "fo_list q = take (fo_size q) (fo_values q)"

definition fo_ok :: "'a fixed_order \<Rightarrow> bool" where
  "fo_ok q \<longleftrightarrow> fo_size q \<le> length (fo_values q)"

lemma fo_ok_empty [simp]: "fo_ok (fo_empty z cap)"
  by (simp add: fo_ok_def fo_empty_def)

lemma fo_list_empty [simp]: "fo_list (fo_empty z cap) = []"
  by (simp add: fo_list_def fo_empty_def)

lemma fo_cap_empty [simp]: "length (fo_values (fo_empty z cap)) = cap"
  by (simp add: fo_empty_def)

lemma fo_cap_push [simp]: "length (fo_values (fo_push_back v q)) = length (fo_values q)"
  by (simp add: fo_push_back_def)

lemma fo_ok_push [simp]: "fo_ok q \<Longrightarrow> fo_ok (fo_push_back v q)"
  by (simp add: fo_ok_def fo_push_back_def)

lemma length_fo_list: "fo_ok q \<Longrightarrow> length (fo_list q) = fo_size q"
  by (simp add: fo_ok_def fo_list_def)

lemma fo_list_push:
  assumes "fo_ok q"
  shows "fo_list (fo_push_back v q) =
    (if length (fo_list q) < length (fo_values q) then fo_list q @ [v] else fo_list q)"
proof (cases "fo_size q < length (fo_values q)")
  case True
  then have "take (Suc (fo_size q)) ((fo_values q)[fo_size q := v]) = take (fo_size q) (fo_values q) @ [v]"
    by (simp add: take_Suc_conv_app_nth)
  with True assms show ?thesis
    by (simp add: fo_list_def fo_push_back_def fo_ok_def)
next
  case False
  with assms show ?thesis by (simp add: fo_list_def fo_push_back_def fo_ok_def)
qed

lemma fo_contains_from_iff:
  "n \<le> fo_size q \<Longrightarrow> fo_contains_from n q v \<longleftrightarrow> (\<exists>i. fo_size q - n \<le> i \<and> i < fo_size q \<and> fo_values q ! i = v)"
proof (induction n)
  case 0
  then show ?case by auto
next
  case (Suc n)
  then have split: "fo_size q - Suc n \<le> i \<longleftrightarrow> i = fo_size q - Suc n \<or> fo_size q - n \<le> i" for i
    by linarith
  have first: "fo_size q - Suc n < fo_size q"
    using Suc.prems by simp
  have "fo_contains_from n q v \<longleftrightarrow> (\<exists>i. fo_size q - n \<le> i \<and> i < fo_size q \<and> fo_values q ! i = v)"
    using Suc by simp
  then show ?case using first by (auto simp: split)
qed

lemma fo_contains_iff: "fo_ok q \<Longrightarrow> fo_contains q v \<longleftrightarrow> v \<in> set (fo_list q)"
  by (auto simp: fo_contains_def fo_contains_from_iff fo_list_def in_set_conv_nth fo_ok_def)

section \<open>Policy structs\<close>

record general_policy =
  gp_logging :: logging_level
  gp_allow_fallback :: bool
  gp_runtime_switching :: bool

record input_policy =
  ip_mode :: input_frontend
  ip_priority :: "input_frontend fixed_order"
  ip_minimum_quality :: u8

record output_policy =
  op_d3d11 :: backend
  op_d3d12 :: backend
  op_vulkan :: backend

record backend_order_policy =
  bo_d3d11 :: "backend fixed_order"
  bo_d3d12 :: "backend fixed_order"
  bo_vulkan :: "backend fixed_order"

record vulkan_policy =
  vp_spoofing :: vulkan_spoofing
  vp_expose_nv_low_latency2 :: auto_bool
  vp_expose_amd_anti_lag :: auto_bool
  vp_prefer_native_extensions :: bool

record vulkanflex_policy =
  vf_enabled :: bool
  vf_core_pacing :: bool
  vf_only_native_vulkan :: bool
  vf_vkd3d_bridge :: bool
  vf_dxvk_bridge :: bool
  vf_dxvk_execution :: auto_bool
  vf_present_precision :: auto_bool
  vf_queue_pressure :: auto_bool
  vf_queue_target_presents :: u8
  vf_queue_max_delay_us :: u32
  vf_structural_stall :: auto_bool
  vf_pipeline_threshold_us :: u32
  vf_stall_max_compensation_us :: u32
  vf_minimum_interval_us :: u32
  vf_max_sleep_us :: u32

record openxr_policy =
  xp_enabled :: bool
  xp_timeline :: bool
  xp_clock_sync :: bool

record audio_policy =
  ap_enabled :: bool
  ap_wasapi_observer :: bool
  ap_clock :: bool
  ap_active_probe :: bool
  ap_queue_model :: bool
  ap_clock_probe_interval_ms :: u32
  ap_adaptive_period :: auto_bool
  ap_period_target_us :: u32
  ap_period_max_reduction_percent :: u8

record hybrid_policy =
  hp_xell_fusion :: bool
  hp_vulkan_fusion :: bool
  hp_startup_locked :: bool
  hp_startup_observations :: u16
  hp_aspect_minimum_quality :: u8
  hp_aspect_adaptive :: bool
  hp_aspect_switch_margin :: u8
  hp_fill_missing_signals :: bool
  hp_secondary_minimum_quality :: u8

record overlay_policy =
  ov_startup_status :: bool
  ov_duration_ms :: u32

record legacy_policy =
  lg_force_latencyflex :: bool
  lg_force_reflex :: u8
  lg_latencyflex_mode :: u8
  lg_save_pcl_to_file :: bool
  lg_legacy_keys_seen :: bool

record snapshot =
  sn_generation :: u64
  sn_routing_signature :: u64
  sn_general :: general_policy
  sn_input :: input_policy
  sn_output :: output_policy
  sn_backend_order :: backend_order_policy
  sn_hybrid :: hybrid_policy
  sn_vulkan :: vulkan_policy
  sn_vulkanflex :: vulkanflex_policy
  sn_openxr :: openxr_policy
  sn_audio :: audio_policy
  sn_overlay :: overlay_policy
  sn_legacy :: legacy_policy

text \<open>Default member initialisers.\<close>

definition default_input_priority :: "input_frontend fixed_order" where
  "default_input_priority =
     fo_push_back VkNvLowLatency2 (fo_push_back AntiLag2 (fo_push_back XeLL
       (fo_push_back Reflex (fo_empty FE_Auto 4))))"

definition default_input :: input_policy where
  "default_input = \<lparr>ip_mode = FE_Auto, ip_priority = default_input_priority, ip_minimum_quality = 60\<rparr>"

definition default_backend_order :: backend_order_policy where
  "default_backend_order = \<lparr>
     bo_d3d11 = fo_push_back LatencyFlex (fo_push_back BE_AntiLag2 (fo_empty BE_Auto 6)),
     bo_d3d12 = fo_push_back LatencyFlex (fo_push_back BE_XeLL
                  (fo_push_back BE_AntiLag2 (fo_empty BE_Auto 6))),
     bo_vulkan = fo_push_back LatencyFlex (fo_push_back AmdAntiLagVk
                   (fo_push_back VulkanFlex (fo_empty BE_Auto 6)))\<rparr>"

definition default_general :: general_policy where
  "default_general = \<lparr>gp_logging = Log_Info, gp_allow_fallback = True, gp_runtime_switching = True\<rparr>"

definition default_output :: output_policy where
  "default_output = \<lparr>op_d3d11 = BE_Auto, op_d3d12 = BE_Auto, op_vulkan = BE_Auto\<rparr>"

definition default_vulkan :: vulkan_policy where
  "default_vulkan = \<lparr>vp_spoofing = Spoof_Selective, vp_expose_nv_low_latency2 = AB_Auto,
     vp_expose_amd_anti_lag = AB_Auto, vp_prefer_native_extensions = True\<rparr>"

definition default_vulkanflex :: vulkanflex_policy where
  "default_vulkanflex = \<lparr>vf_enabled = True, vf_core_pacing = True, vf_only_native_vulkan = True,
     vf_vkd3d_bridge = True, vf_dxvk_bridge = True, vf_dxvk_execution = AB_Auto,
     vf_present_precision = AB_Auto, vf_queue_pressure = AB_Auto, vf_queue_target_presents = 1,
     vf_queue_max_delay_us = 2000, vf_structural_stall = AB_Auto, vf_pipeline_threshold_us = 2000,
     vf_stall_max_compensation_us = 50000, vf_minimum_interval_us = 0, vf_max_sleep_us = 50000\<rparr>"

definition default_openxr :: openxr_policy where
  "default_openxr = \<lparr>xp_enabled = True, xp_timeline = True, xp_clock_sync = True\<rparr>"

definition default_audio :: audio_policy where
  "default_audio = \<lparr>ap_enabled = True, ap_wasapi_observer = True, ap_clock = True,
     ap_active_probe = True, ap_queue_model = True, ap_clock_probe_interval_ms = 250,
     ap_adaptive_period = AB_Auto, ap_period_target_us = 5000,
     ap_period_max_reduction_percent = 50\<rparr>"

definition default_hybrid :: hybrid_policy where
  "default_hybrid = \<lparr>hp_xell_fusion = True, hp_vulkan_fusion = True, hp_startup_locked = True,
     hp_startup_observations = 64, hp_aspect_minimum_quality = 60, hp_aspect_adaptive = True,
     hp_aspect_switch_margin = 6, hp_fill_missing_signals = True,
     hp_secondary_minimum_quality = 60\<rparr>"

definition default_overlay :: overlay_policy where
  "default_overlay = \<lparr>ov_startup_status = True, ov_duration_ms = 4000\<rparr>"

definition default_legacy :: legacy_policy where
  "default_legacy = \<lparr>lg_force_latencyflex = False, lg_force_reflex = 0, lg_latencyflex_mode = 0,
     lg_save_pcl_to_file = False, lg_legacy_keys_seen = False\<rparr>"

definition default_snapshot :: snapshot where
  "default_snapshot = \<lparr>sn_generation = 0, sn_routing_signature = 0, sn_general = default_general,
     sn_input = default_input, sn_output = default_output, sn_backend_order = default_backend_order,
     sn_hybrid = default_hybrid, sn_vulkan = default_vulkan, sn_vulkanflex = default_vulkanflex,
     sn_openxr = default_openxr, sn_audio = default_audio, sn_overlay = default_overlay,
     sn_legacy = default_legacy\<rparr>"

lemmas default_defs = default_snapshot_def default_general_def default_input_def
  default_input_priority_def default_output_def default_backend_order_def default_hybrid_def
  default_vulkan_def default_vulkanflex_def default_openxr_def default_audio_def
  default_overlay_def default_legacy_def fo_push_back_def fo_empty_def

end
