(* ===== verification/RoutingSignature.thy ===== *)
theory RoutingSignature
  imports RuntimePolicy
begin

text \<open>
  \<open>compute_routing_signature\<close> of \<open>src/runtime_policy.cpp\<close>: an FNV-1a hash over the bytes of the
  policy fields that influence routing, in the order in which the code feeds them.  The lemmas show
  that one step of the hash is injective in the running hash and in the byte, so that a change of
  exactly one hashed byte always changes the signature.
\<close>

definition kFnvOffset :: u64 where "kFnvOffset = 1469598103934665603"
definition kFnvPrime :: u64 where "kFnvPrime = 1099511628211"

definition hash_byte :: "u64 \<Rightarrow> u8 \<Rightarrow> u64" where
  "hash_byte hash value = (hash XOR ucast value) * kFnvPrime"

definition order_bytes :: "('a \<Rightarrow> nat) \<Rightarrow> 'a fixed_order \<Rightarrow> u8 list" where
  "order_bytes code q =
     word_of_nat (fo_size q) # map (\<lambda>i. word_of_nat (code (fo_values q ! i))) [0..<fo_size q]"

definition byte_at :: "'a::len word \<Rightarrow> nat \<Rightarrow> u8" where
  "byte_at x shift = ucast (drop_bit shift x AND 0xff)"

definition routing_bytes :: "snapshot \<Rightarrow> u8 list" where
  "routing_bytes sn =
     (let g = sn_general sn; i = sn_input sn; out = sn_output sn; bo = sn_backend_order sn;
          h = sn_hybrid sn; v = sn_vulkan sn; vf = sn_vulkanflex sn; lg = sn_legacy sn in
      [u8_of_bool (gp_allow_fallback g),
       u8_of_bool (gp_runtime_switching g),
       word_of_nat (frontend_code (ip_mode i)),
       ip_minimum_quality i]
      @ order_bytes frontend_code (ip_priority i)
      @ [word_of_nat (backend_code (op_d3d11 out)),
         word_of_nat (backend_code (op_d3d12 out)),
         word_of_nat (backend_code (op_vulkan out))]
      @ order_bytes backend_code (bo_d3d11 bo)
      @ order_bytes backend_code (bo_d3d12 bo)
      @ order_bytes backend_code (bo_vulkan bo)
      @ [u8_of_bool (hp_xell_fusion h),
         u8_of_bool (hp_vulkan_fusion h),
         u8_of_bool (hp_startup_locked h),
         ucast (hp_startup_observations h AND 0xff),
         ucast (drop_bit 8 (hp_startup_observations h) AND 0xff),
         u8_of_bool (hp_aspect_adaptive h),
         hp_aspect_minimum_quality h,
         hp_aspect_switch_margin h,
         u8_of_bool (hp_fill_missing_signals h),
         hp_secondary_minimum_quality h]
      @ [word_of_nat (spoofing_code (vp_spoofing v)),
         word_of_nat (auto_bool_code (vp_expose_nv_low_latency2 v)),
         word_of_nat (auto_bool_code (vp_expose_amd_anti_lag v)),
         u8_of_bool (vp_prefer_native_extensions v)]
      @ [u8_of_bool (vf_enabled vf),
         u8_of_bool (vf_core_pacing vf),
         u8_of_bool (vf_only_native_vulkan vf),
         u8_of_bool (vf_vkd3d_bridge vf),
         u8_of_bool (vf_dxvk_bridge vf),
         word_of_nat (auto_bool_code (vf_dxvk_execution vf)),
         word_of_nat (auto_bool_code (vf_present_precision vf)),
         word_of_nat (auto_bool_code (vf_queue_pressure vf)),
         vf_queue_target_presents vf,
         word_of_nat (auto_bool_code (vf_structural_stall vf))]
      @ concat (map (\<lambda>shift.
          [byte_at (vf_queue_max_delay_us vf) shift,
           byte_at (vf_pipeline_threshold_us vf) shift,
           byte_at (vf_stall_max_compensation_us vf) shift]) [0, 8, 16, 24])
      @ concat (map (\<lambda>shift.
          [byte_at (vf_minimum_interval_us vf) shift,
           byte_at (vf_max_sleep_us vf) shift]) [0, 8, 16, 24])
      @ [lg_force_reflex lg, lg_latencyflex_mode lg])"

definition compute_routing_signature :: "snapshot \<Rightarrow> u64" where
  "compute_routing_signature sn = foldl hash_byte kFnvOffset (routing_bytes sn)"

section \<open>One step of the hash is injective\<close>

lemma prime_mult_inj: "x * kFnvPrime = y * kFnvPrime \<Longrightarrow> x = y"
proof -
  assume eq: "x * kFnvPrime = y * kFnvPrime"
  have inv: "kFnvPrime * 14886173955864302971 = 1"
    by (simp add: kFnvPrime_def)
  have "x = x * (kFnvPrime * 14886173955864302971)" by (simp add: inv)
  also have "\<dots> = y * (kFnvPrime * 14886173955864302971)"
    by (simp only: mult.assoc [symmetric] eq)
  finally show "x = y" by (simp add: inv)
qed

lemma xor_cancel_left: "h XOR a = h XOR b \<longleftrightarrow> a = b" for h a b :: "'a::len word"
  by (metis xor.assoc xor_self_eq xor.left_neutral)

lemma xor_cancel_right: "a XOR h = b XOR h \<longleftrightarrow> a = b" for h a b :: "'a::len word"
  by (metis xor.commute xor_cancel_left)

lemma ucast_u8_inj: "(ucast (a :: u8) :: u64) = ucast b \<longleftrightarrow> a = b"
proof
  assume "(ucast a :: u64) = ucast b"
  then have "unat (ucast a :: u64) = unat (ucast b :: u64)" by simp
  then show "a = b" by (simp add: unat_ucast_up word_unat_eq_iff)
qed simp

lemma hash_byte_inj_hash: "hash_byte g v = hash_byte h v \<longleftrightarrow> g = h"
  by (auto simp: hash_byte_def xor_cancel_right dest: prime_mult_inj)

lemma hash_byte_inj_byte: "hash_byte h v = hash_byte h w \<longleftrightarrow> v = w"
  by (auto simp: hash_byte_def xor_cancel_left ucast_u8_inj dest: prime_mult_inj)

lemma hash_suffix_inj: "foldl hash_byte g bs = foldl hash_byte h bs \<longleftrightarrow> g = h"
  by (induction bs arbitrary: g h) (simp_all add: hash_byte_inj_hash)

lemma hash_one_byte:
  "foldl hash_byte h (ps @ v # ss) = foldl hash_byte h (ps @ w # ss) \<longleftrightarrow> v = w"
  by (simp add: hash_suffix_inj hash_byte_inj_byte)

lemma lists_differ_at_one:
  assumes "length xs = length ys" and "i < length xs"
    and "\<forall>j. j < length xs \<longrightarrow> j \<noteq> i \<longrightarrow> xs ! j = ys ! j"
  shows "xs = take i xs @ xs ! i # drop (Suc i) xs" and "ys = take i xs @ ys ! i # drop (Suc i) xs"
proof -
  show "xs = take i xs @ xs ! i # drop (Suc i) xs"
    using assms(2) by (rule id_take_nth_drop)
  have "take i ys = take i xs" and "drop (Suc i) ys = drop (Suc i) xs"
    using assms by (auto simp: list_eq_iff_nth_eq)
  with assms(1,2) show "ys = take i xs @ ys ! i # drop (Suc i) xs"
    by (metis id_take_nth_drop)
qed

section \<open>What the signature distinguishes\<close>

text \<open>C20
  Two snapshots whose hashed fields have the same layout and differ in exactly one hashed byte have
  different routing signatures, so that a single changed routing byte is always noticed.
\<close>

theorem signature_detects_one_byte:
  assumes "length (routing_bytes s) = length (routing_bytes t)"
    and "i < length (routing_bytes s)"
    and "\<forall>j. j < length (routing_bytes s) \<longrightarrow> j \<noteq> i \<longrightarrow> routing_bytes s ! j = routing_bytes t ! j"
    and "routing_bytes s ! i \<noteq> routing_bytes t ! i"
  shows "compute_routing_signature s \<noteq> compute_routing_signature t"
  using lists_differ_at_one [OF assms(1-3)] assms(4) hash_one_byte
  unfolding compute_routing_signature_def by metis

theorem signature_detects_one_byte_witness:
  "compute_routing_signature default_snapshot \<noteq>
   compute_routing_signature (default_snapshot\<lparr>sn_general := (sn_general default_snapshot)\<lparr>gp_allow_fallback := False\<rparr>\<rparr>)"
proof (rule signature_detects_one_byte [where i = 0])
  let ?t = "default_snapshot\<lparr>sn_general := (sn_general default_snapshot)\<lparr>gp_allow_fallback := False\<rparr>\<rparr>"
  have tail: "tl (routing_bytes default_snapshot) = tl (routing_bytes ?t)"
    by (simp add: routing_bytes_def Let_def default_general_def default_snapshot_def)
  have cons: "routing_bytes s = u8_of_bool (gp_allow_fallback (sn_general s)) # tl (routing_bytes s)" for s
    by (simp add: routing_bytes_def Let_def)
  show "length (routing_bytes default_snapshot) = length (routing_bytes ?t)"
    using tail by (subst (1 2) cons) simp
  show "0 < length (routing_bytes default_snapshot)"
    by (subst cons) simp
  show "\<forall>j. j < length (routing_bytes default_snapshot) \<longrightarrow> j \<noteq> 0 \<longrightarrow>
      routing_bytes default_snapshot ! j = routing_bytes ?t ! j"
    using tail by (subst (2 3) cons) (simp add: nth_Cons')
  show "routing_bytes default_snapshot ! 0 \<noteq> routing_bytes ?t ! 0"
    by (subst (1 2) cons) (simp add: default_defs u8_of_bool_def)
qed

text \<open>
  The signature depends on the routing fields only: a snapshot that differs from another in its
  generation, its stored signature, its logging level, its audio, OpenXR or overlay policy has the
  same signature.
\<close>

lemma signature_ignores_presentation:
  "compute_routing_signature (sn\<lparr>sn_generation := n, sn_routing_signature := g,
     sn_general := (sn_general sn)\<lparr>gp_logging := lg\<rparr>,
     sn_audio := au, sn_openxr := xr, sn_overlay := ov\<rparr>) = compute_routing_signature sn"
  by (simp add: compute_routing_signature_def routing_bytes_def Let_def)

end
