(* ===== verification/Interfaces.thy ===== *)
theory Interfaces
  imports Prelude
begin

text \<open>
  The contracts several components share, stated once as locales and interpreted on each
  component's own definitions in its theory:
  \<^item> \<open>machine\<close>: a component as a state and a total step function, with an invariant every step
    keeps; \<open>monotone_machine\<close> adds an order in which no step goes back; \<open>simulation\<close> an abstract
    machine every step commutes with;
  \<^item> \<open>bounded_fifo\<close>: a bounded queue whose representation invariant and list abstraction determine
    which operations succeed;
  \<^item> \<open>slot_ring\<close>: a ring of slots that publishes entries under increasing sequence numbers.
\<close>

section \<open>Machines\<close>

locale machine =
  fixes step :: "'s \<Rightarrow> 'e \<Rightarrow> 's"
    and inv :: "'s \<Rightarrow> bool"
  assumes inv_step: "inv s \<Longrightarrow> inv (step s e)"
begin

lemma inv_run: "inv s \<Longrightarrow> inv (foldl step s es)"
  by (induction es arbitrary: s) (simp_all add: inv_step)

end

locale monotone_machine = machine +
  fixes le :: "'s \<Rightarrow> 's \<Rightarrow> bool"
  assumes le_refl: "le s s"
    and le_trans: "le s t \<Longrightarrow> le t u \<Longrightarrow> le s u"
    and le_step: "inv s \<Longrightarrow> le s (step s e)"
begin

lemma le_run: "inv s \<Longrightarrow> le s (foldl step s es)"
proof (induction es arbitrary: s)
  case Nil
  show ?case by (simp add: le_refl)
next
  case (Cons e es)
  have "le (step s e) (foldl step (step s e) es)"
    using Cons.prems by (intro Cons.IH inv_step)
  then show ?case
    using le_trans [OF le_step [OF Cons.prems]] by simp
qed

end

text \<open>A machine that simulates an abstract one: every step commutes with the abstraction.\<close>

locale simulation = machine +
  fixes astep :: "'a \<Rightarrow> 'e \<Rightarrow> 'a"
    and abs :: "'s \<Rightarrow> 'a"
  assumes abs_step: "inv s \<Longrightarrow> abs (step s e) = astep (abs s) e"
begin

lemma abs_run: "inv s \<Longrightarrow> abs (foldl step s es) = foldl astep (abs s) es"
  by (induction es arbitrary: s) (simp_all add: inv_step abs_step)

end

text \<open>
  The same with an invariant that holds for a bounded number of steps, as the counters of the code do not
  wrap before then: \<open>inv n\<close> after at most \<open>n\<close> steps.
\<close>

locale bounded_simulation =
  fixes step :: "'s \<Rightarrow> 'e \<Rightarrow> 's"
    and inv :: "nat \<Rightarrow> 's \<Rightarrow> bool"
    and limit :: nat
    and astep :: "'a \<Rightarrow> 'e \<Rightarrow> 'a"
    and abs :: "'s \<Rightarrow> 'a"
  assumes bounded_inv_step: "inv n s \<Longrightarrow> n < limit \<Longrightarrow> inv (Suc n) (step s e)"
    and bounded_abs_step: "inv n s \<Longrightarrow> n < limit \<Longrightarrow> abs (step s e) = astep (abs s) e"
begin

lemma bounded_run:
  "inv n s \<Longrightarrow> n + length es \<le> limit \<Longrightarrow>
   inv (n + length es) (foldl step s es) \<and> abs (foldl step s es) = foldl astep (abs s) es"
proof (induction es arbitrary: n s)
  case (Cons e es)
  then have n: "n < limit" by simp
  show ?case
    using Cons.IH [OF bounded_inv_step [OF Cons.prems(1) n, of e]] Cons.prems
    by (simp add: bounded_abs_step [OF Cons.prems(1) n])
qed simp

end

section \<open>Bounded queues\<close>

text \<open>
  The abstract queue: a list, the operations on it and the answers they give, and the run of a list
  of operations.
\<close>

datatype 'a queue_op = Enq 'a | Deq

datatype 'a answer = Taken bool | Given "'a option"

fun queue_step :: "nat \<Rightarrow> 'a list \<Rightarrow> 'a queue_op \<Rightarrow> 'a list \<times> 'a answer" where
  "queue_step cap q (Enq x) = (if length q < cap then (q @ [x], Taken True) else (q, Taken False))"
| "queue_step cap [] Deq = ([], Given None)"
| "queue_step cap (y # ys) Deq = (ys, Given (Some y))"

fun queue_run :: "nat \<Rightarrow> 'a list \<Rightarrow> 'a queue_op list \<Rightarrow> 'a list \<times> 'a answer list" where
  "queue_run cap q [] = (q, [])"
| "queue_run cap q (p # ps) =
     (let (q', a) = queue_step cap q p; (q'', as) = queue_run cap q' ps in (q'', a # as))"

text \<open>
  \<open>enq\<close> returns the new queue and whether the element was taken; \<open>deq\<close> returns the new queue and
  the element, if there was one; either is None if the operation does not return.  \<open>budget\<close> counts
  the insertions that remain before the queue's position counters leave the range in which its
  comparisons are defined.
\<close>

locale bounded_fifo =
  fixes enq :: "'q \<Rightarrow> 'a \<Rightarrow> ('q \<times> bool) option"
    and deq :: "'q \<Rightarrow> ('q \<times> 'a option) option"
    and contents :: "'q \<Rightarrow> 'a list"
    and ok :: "'q \<Rightarrow> bool"
    and budget :: "'q \<Rightarrow> nat"
    and cap :: nat
  assumes enq_takes: "ok q \<Longrightarrow> 0 < budget q \<Longrightarrow> length (contents q) < cap \<Longrightarrow>
      \<exists>q'. enq q x = Some (q', True) \<and> contents q' = contents q @ [x] \<and> ok q' \<and>
        Suc (budget q') = budget q"
    and enq_full: "ok q \<Longrightarrow> length (contents q) = cap \<Longrightarrow> enq q x = Some (q, False)"
    and deq_gives: "ok q \<Longrightarrow> contents q = y # ys \<Longrightarrow>
      \<exists>q'. deq q = Some (q', Some y) \<and> contents q' = ys \<and> ok q' \<and> budget q' = budget q"
    and deq_empty: "ok q \<Longrightarrow> contents q = [] \<Longrightarrow> deq q = Some (q, None)"
    and within_cap: "ok q \<Longrightarrow> length (contents q) \<le> cap"
begin

fun step :: "'q \<Rightarrow> 'a queue_op \<Rightarrow> ('q \<times> 'a answer) option" where
  "step q (Enq x) = map_option (map_prod id Taken) (enq q x)"
| "step q Deq = map_option (map_prod id Given) (deq q)"

fun run :: "'q \<Rightarrow> 'a queue_op list \<Rightarrow> ('q \<times> 'a answer list) option" where
  "run q [] = Some (q, [])"
| "run q (p # ps) =
     (case step q p of
        None \<Rightarrow> None
      | Some (q', a) \<Rightarrow> map_option (map_prod id ((#) a)) (run q' ps))"

lemma step_refines:
  assumes "ok q" "0 < budget q"
  shows "\<exists>q' a. step q p = Some (q', a) \<and> queue_step cap (contents q) p = (contents q', a) \<and>
    ok q' \<and> budget q \<le> Suc (budget q')"
proof (cases p)
  case (Enq x)
  then show ?thesis
    using enq_takes [OF assms, of x] enq_full [OF assms(1), of x] within_cap [OF assms(1)] assms
    by (cases "length (contents q) < cap") fastforce+
next
  case Deq
  then show ?thesis
    using deq_gives [OF assms(1)] deq_empty [OF assms(1)] assms
    by (cases "contents q") fastforce+
qed

text \<open>Every sequence of operations the budget allows returns, and answers as the list does.\<close>

lemma run_refines:
  "ok q \<Longrightarrow> length ps \<le> budget q \<Longrightarrow>
   \<exists>q' as. run q ps = Some (q', as) \<and> queue_run cap (contents q) ps = (contents q', as) \<and> ok q'"
proof (induction ps arbitrary: q)
  case Nil
  then show ?case by simp
next
  case (Cons p ps)
  then have "0 < budget q" by simp
  from step_refines [OF Cons.prems(1) this, of p] obtain q' a where
    s: "step q p = Some (q', a)" "queue_step cap (contents q) p = (contents q', a)"
       "ok q'" "budget q \<le> Suc (budget q')" by blast
  with Cons.prems have "length ps \<le> budget q'" by simp
  from Cons.IH [OF s(3) this] s show ?case by auto
qed

end

section \<open>Rings of published entries\<close>

text \<open>
  \<open>publish r s x\<close> stores entry \<open>x\<close> under sequence number \<open>s\<close>; \<open>fetch r s\<close> reads it back as long as
  its slot has not been reused.  \<open>fits s x\<close> says that \<open>x\<close> is an entry for \<open>s\<close>.
\<close>

locale slot_ring =
  fixes publish :: "'r \<Rightarrow> u64 \<Rightarrow> 'x \<Rightarrow> 'r"
    and fetch :: "'r \<Rightarrow> u64 \<Rightarrow> 'x option"
    and n :: nat
    and fits :: "u64 \<Rightarrow> 'x \<Rightarrow> bool"
  assumes fetch_same: "fits s x \<Longrightarrow> fetch (publish r s x) s = Some x"
    and fetch_other: "slot n s \<noteq> slot n t \<Longrightarrow> fetch (publish r t x) s = fetch r s"
    and fetch_reused: "s \<noteq> t \<Longrightarrow> fits t x \<Longrightarrow> slot n s = slot n t \<Longrightarrow> fetch (publish r t x) s = None"
begin

text \<open>An entry survives the publication of later numbers less than a lap ahead.\<close>

lemma fetch_later:
  "fetch r s = Some x \<Longrightarrow> s < t \<Longrightarrow> unat t - unat s < n \<Longrightarrow> fetch (publish r t y) s = Some x"
proof -
  assume f: "fetch r s = Some x" and l: "s < t" and n: "unat t - unat s < n"
  have "slot n s \<noteq> slot n t" using slot_eq_close [of n s t] l n by (metis less_imp_le less_irrefl)
  with f fetch_other show ?thesis by simp
qed

lemma fetch_all_later:
  "fetch r s = Some x \<Longrightarrow> (\<And>t. t \<in> fst ` set ps \<Longrightarrow> s < t \<and> unat t - unat s < n) \<Longrightarrow>
   fetch (foldl (\<lambda>r p. publish r (fst p) (snd p)) r ps) s = Some x"
  by (induction ps arbitrary: r) (simp_all add: fetch_later)

end

end
