(* ===== verification/OutputRecognizer.thy ===== *)
theory OutputRecognizer
  imports RuntimePolicy Interfaces
begin

text \<open>
  The tri-state output capability recognizer of \<open>src/output_recognizer.h\<close> and
  \<open>src/output_recognizer.cpp\<close>: what the startup probes said about each backend, merged so that
  positive proof wins, negative proof replaces only ignorance, and evidence and confidence grow.
\<close>

datatype output_availability = Unknown | Unavailable | Available

record backend_recognition =
  br_availability :: output_availability
  br_confidence :: u8
  br_evidence :: u16

type_synonym recognizer = "nat \<Rightarrow> backend_recognition"

definition default_recognition :: backend_recognition where
  "default_recognition = \<lparr>br_availability = Unknown, br_confidence = 0, br_evidence = 0\<rparr>"

fun availability_to_string :: "output_availability \<Rightarrow> string" where
  "availability_to_string Unknown = ''unknown''"
| "availability_to_string Unavailable = ''unavailable''"
| "availability_to_string Available = ''available''"

fun recognizer_index :: "backend \<Rightarrow> nat option" where
  "recognizer_index BE_AntiLag2 = Some 0"
| "recognizer_index BE_XeLL = Some 1"
| "recognizer_index AmdAntiLagVk = Some 2"
| "recognizer_index LatencyFlex = Some 3"
| "recognizer_index NativeReflex = Some 4"
| "recognizer_index VulkanFlex = Some 5"
| "recognizer_index BE_Auto = None"

definition recognizer_reset :: recognizer where
  "recognizer_reset = (\<lambda>_. default_recognition)"

definition recognizer_observe ::
  "recognizer \<Rightarrow> backend \<Rightarrow> output_availability \<Rightarrow> u8 \<Rightarrow> u16 \<Rightarrow> recognizer" where
  "recognizer_observe st b availability_value confidence_value evidence_value =
     (case recognizer_index b of
        None \<Rightarrow> st
      | Some i \<Rightarrow>
          let s = st i;
              s = s\<lparr>br_evidence := br_evidence s OR evidence_value,
                    br_confidence := max (br_confidence s) confidence_value\<rparr>;
              s = (if availability_value = Available \<or>
                      (availability_value = Unavailable \<and> br_availability s = Unknown)
                   then s\<lparr>br_availability := availability_value\<rparr> else s)
          in st(i := s))"

definition recognition :: "recognizer \<Rightarrow> backend \<Rightarrow> backend_recognition" where
  "recognition st b = (case recognizer_index b of Some i \<Rightarrow> st i | None \<Rightarrow> default_recognition)"

definition availability :: "recognizer \<Rightarrow> backend \<Rightarrow> output_availability" where
  "availability st b = br_availability (recognition st b)"

definition confidence :: "recognizer \<Rightarrow> backend \<Rightarrow> u8" where
  "confidence st b = br_confidence (recognition st b)"

definition evidence :: "recognizer \<Rightarrow> backend \<Rightarrow> u16" where
  "evidence st b = br_evidence (recognition st b)"

definition usable :: "recognizer \<Rightarrow> backend \<Rightarrow> bool" where
  "usable st b \<longleftrightarrow> availability st b \<noteq> Unavailable"

section \<open>Merging observations\<close>

lemma recognizer_index_inj:
  "recognizer_index a = Some i \<Longrightarrow> recognizer_index b = Some i \<Longrightarrow> a = b"
  by (cases a; cases b) auto

lemma recognizer_index_None [simp]: "recognizer_index b = None \<longleftrightarrow> b = BE_Auto"
  by (cases b) simp_all

text \<open>The rule by which a new probe result replaces an old one.\<close>

definition merge_availability :: "output_availability \<Rightarrow> output_availability \<Rightarrow> output_availability" where
  "merge_availability old new =
     (if new = Available \<or> (new = Unavailable \<and> old = Unknown) then new else old)"

lemma recognition_observe:
  "recognition (recognizer_observe st b av c e) b' =
     (if b' = b \<and> b \<noteq> BE_Auto
      then \<lparr>br_availability = merge_availability (availability st b) av,
            br_confidence = max (confidence st b) c, br_evidence = evidence st b OR e\<rparr>
      else recognition st b')"
  by (cases "recognizer_index b"; cases "recognizer_index b'")
     (auto simp: recognition_def recognizer_observe_def availability_def confidence_def evidence_def
        merge_availability_def Let_def dest: recognizer_index_inj)

text \<open>One probe result, and a session of them.\<close>

type_synonym observation = "backend \<times> output_availability \<times> u8 \<times> u16"

definition recognizer_step :: "recognizer \<Rightarrow> observation \<Rightarrow> recognizer" where
  "recognizer_step st ob = (case ob of (b, av, c, e) \<Rightarrow> recognizer_observe st b av c e)"

definition said :: "observation list \<Rightarrow> backend \<Rightarrow> output_availability \<Rightarrow> bool" where
  "said obs b av \<longleftrightarrow> (\<exists>c e. (b, av, c, e) \<in> set obs)"

definition merged :: "bool \<Rightarrow> bool \<Rightarrow> output_availability" where
  "merged pos neg = (if pos then Available else if neg then Unavailable else Unknown)"

lemma said_Nil [simp]: "\<not> said [] b av"
  by (simp add: said_def)

lemma said_snoc: "said (obs @ [(b', av', c, e)]) b av \<longleftrightarrow> said obs b av \<or> (b' = b \<and> av' = av)"
  by (auto simp: said_def)

lemma availability_run:
  assumes "b \<noteq> BE_Auto"
  shows "availability (foldl recognizer_step recognizer_reset obs) b =
    merged (said obs b Available) (said obs b Unavailable)"
proof (induction obs rule: rev_induct)
  case Nil
  show ?case
    using assms by (cases b) (simp_all add: availability_def recognition_def recognizer_reset_def
      default_recognition_def merged_def)
next
  case (snoc ob obs)
  obtain b' av c e where ob: "ob = (b', av, c, e)" by (cases ob) auto
  show ?case
    using snoc.IH assms
    by (cases av) (auto simp: ob recognizer_step_def availability_def recognition_observe said_snoc
      merge_availability_def merged_def split: if_splits)
qed

lemma confidence_grows: "confidence st b \<le> confidence (recognizer_observe st b' av c e) b"
  by (simp add: confidence_def recognition_observe)

lemma evidence_grows: "bit (evidence st b) n \<Longrightarrow> bit (evidence (recognizer_observe st b' av c e) b) n"
  by (auto simp: evidence_def recognition_observe bit_or_iff)

text \<open>No probe takes positive proof, confidence or evidence away.\<close>

definition recognizer_le :: "recognizer \<Rightarrow> recognizer \<Rightarrow> bool" where
  "recognizer_le s t \<longleftrightarrow>
     (\<forall>b. (availability s b = Available \<longrightarrow> availability t b = Available) \<and>
          (availability s b \<noteq> Unknown \<longrightarrow> availability t b \<noteq> Unknown) \<and>
          confidence s b \<le> confidence t b \<and> (\<forall>n. bit (evidence s b) n \<longrightarrow> bit (evidence t b) n))"

interpretation rec: monotone_machine recognizer_step "\<lambda>_. True" recognizer_le
proof unfold_locales
  fix s t u :: recognizer and ob :: observation
  show "recognizer_le s s" by (simp add: recognizer_le_def)
  show "recognizer_le s t \<Longrightarrow> recognizer_le t u \<Longrightarrow> recognizer_le s u"
    unfolding recognizer_le_def by (meson order_trans)
  obtain b' av c e where ob: "ob = (b', av, c, e)" by (cases ob) auto
  show "recognizer_le s (recognizer_step s ob)"
    by (cases av) (auto simp: ob recognizer_le_def recognizer_step_def confidence_grows evidence_grows
      availability_def recognition_observe merge_availability_def)
qed simp

text \<open>C19
  After any sequence of probe results, a backend's availability is a function of what was said about
  it and not of the order: available if any probe said so, otherwise unavailable if any probe said
  that, otherwise unknown; and it is usable unless every verdict was negative.
\<close>

theorem recognizer_verdict:
  assumes "b \<noteq> BE_Auto"
  shows "availability (foldl recognizer_step recognizer_reset obs) b =
      (if said obs b Available then Available else if said obs b Unavailable then Unavailable else Unknown) \<and>
    (usable (foldl recognizer_step recognizer_reset obs) b \<longleftrightarrow>
      said obs b Available \<or> \<not> said obs b Unavailable)"
  using availability_run [OF assms, of obs] by (auto simp: usable_def merged_def)

theorem recognizer_verdict_witness:
  "availability (foldl recognizer_step recognizer_reset
     [(BE_XeLL, Unavailable, 90, 1), (BE_XeLL, Available, 60, 2), (BE_XeLL, Unavailable, 99, 4)]) BE_XeLL = Available"
  using recognizer_verdict [of BE_XeLL
    "[(BE_XeLL, Unavailable, 90, 1), (BE_XeLL, Available, 60, 2), (BE_XeLL, Unavailable, 99, 4)]"]
  by (auto simp: said_def)

text \<open>
  Recognition never goes back: over any further probe results, positive proof stays, a known backend
  does not become unknown, and confidence and evidence bits only grow.
\<close>

lemma recognizer_monotone:
  "recognizer_le st (foldl recognizer_step st obs)"
  by (rule rec.le_run) simp

end
