(* ===== verification/PolicyEngine.thy ===== *)
theory PolicyEngine
  imports OutputRecognizer
begin

text \<open>
  The backend policy of \<open>src/policy_engine.cpp\<close>: which backend each API admits, which one the
  configuration requests, and the ordered candidate list that the runtime tries.  The recognizer is
  an optional pointer in the code and an option here.
\<close>

fun backend_supported :: "graphics_api \<Rightarrow> backend \<Rightarrow> bool" where
  "backend_supported D3D11 b \<longleftrightarrow> b = VulkanFlex \<or> b = BE_AntiLag2 \<or> b = LatencyFlex"
| "backend_supported D3D12 b \<longleftrightarrow> b = VulkanFlex \<or> b = AmdAntiLagVk \<or> b = BE_AntiLag2 \<or>
     b = BE_XeLL \<or> b = LatencyFlex"
| "backend_supported Vulkan b \<longleftrightarrow> b = VulkanFlex \<or> b = AmdAntiLagVk \<or> b = LatencyFlex"

fun requested_backend :: "snapshot \<Rightarrow> graphics_api \<Rightarrow> backend" where
  "requested_backend sn D3D11 = op_d3d11 (sn_output sn)"
| "requested_backend sn D3D12 = op_d3d12 (sn_output sn)"
| "requested_backend sn Vulkan = op_vulkan (sn_output sn)"

fun fallback_order :: "snapshot \<Rightarrow> graphics_api \<Rightarrow> backend fixed_order" where
  "fallback_order sn D3D11 = bo_d3d11 (sn_backend_order sn)"
| "fallback_order sn D3D12 = bo_d3d12 (sn_backend_order sn)"
| "fallback_order sn Vulkan = bo_vulkan (sn_backend_order sn)"

definition recognized_usable :: "recognizer option \<Rightarrow> backend \<Rightarrow> bool" where
  "recognized_usable r b = (case r of None \<Rightarrow> True | Some st \<Rightarrow> usable st b)"

definition recognized_available :: "recognizer option \<Rightarrow> backend \<Rightarrow> bool" where
  "recognized_available r b =
     (case r of None \<Rightarrow> False | Some st \<Rightarrow> br_availability (recognition st b) = Available)"

text \<open>One round of the closing loop over the configured order.\<close>

definition push_fallback ::
  "graphics_api \<Rightarrow> recognizer option \<Rightarrow> backend \<Rightarrow> backend fixed_order \<Rightarrow> backend fixed_order" where
  "push_fallback api r b order =
     (if b = BE_Auto \<or> \<not> backend_supported api b \<or> \<not> recognized_usable r b \<or> fo_contains order b
      then order else fo_push_back b order)"

definition build_backend_candidates ::
  "snapshot \<Rightarrow> graphics_api \<Rightarrow> recognizer option \<Rightarrow> backend fixed_order" where
  "build_backend_candidates sn api r =
     (let result = fo_empty BE_Auto 6;
          explicit = requested_backend sn api;
          result = (if explicit \<noteq> BE_Auto \<and> backend_supported api explicit \<and> recognized_usable r explicit
                    then fo_push_back explicit result else result) in
      if explicit \<noteq> BE_Auto \<and> \<not> gp_allow_fallback (sn_general sn) then result
      else
        let result = (if explicit = BE_Auto \<and> api = D3D11 \<and>
                         vf_enabled (sn_vulkanflex sn) \<and> vf_dxvk_bridge (sn_vulkanflex sn) \<and>
                         vf_dxvk_execution (sn_vulkanflex sn) \<noteq> AB_Disabled \<and>
                         recognized_available r VulkanFlex
                      then fo_push_back VulkanFlex result else result);
            result = (if explicit = BE_Auto \<and> api = D3D12 \<and>
                         vp_prefer_native_extensions (sn_vulkan sn) \<and> recognized_usable r AmdAntiLagVk
                      then fo_push_back AmdAntiLagVk result else result);
            result = (if explicit = BE_Auto \<and> api = D3D12 \<and>
                         hp_xell_fusion (sn_hybrid sn) \<and> hp_startup_locked (sn_hybrid sn) \<and>
                         recognized_usable r BE_XeLL
                      then fo_push_back BE_XeLL result else result);
            result = (if explicit = BE_Auto \<and> api = D3D12 \<and> recognized_usable r BE_AntiLag2
                      then fo_push_back BE_AntiLag2 result else result);
            result = (if explicit = BE_Auto \<and> api = D3D12 \<and>
                         vf_enabled (sn_vulkanflex sn) \<and> vf_vkd3d_bridge (sn_vulkanflex sn) \<and>
                         hp_vulkan_fusion (sn_hybrid sn) \<and> hp_startup_locked (sn_hybrid sn) \<and>
                         recognized_available r VulkanFlex
                      then fo_push_back VulkanFlex result else result)
        in fold (push_fallback api r) (fo_list (fallback_order sn api)) result)"

section \<open>What every candidate list satisfies\<close>

text \<open>
  A well-formed list has room for six backends and holds distinct backends that the API admits and
  the recognizer does not rule out.  At most five backends are admitted by any API, so a well-formed
  list to which a further admitted backend is pushed is never full: no candidate is dropped.
\<close>

definition cand_ok :: "graphics_api \<Rightarrow> recognizer option \<Rightarrow> backend fixed_order \<Rightarrow> bool" where
  "cand_ok api r q \<longleftrightarrow> fo_ok q \<and> length (fo_values q) = 6 \<and> distinct (fo_list q) \<and>
     (\<forall>b \<in> set (fo_list q). b \<noteq> BE_Auto \<and> backend_supported api b \<and> recognized_usable r b)"

lemma recognized_available_usable: "recognized_available r b \<Longrightarrow> recognized_usable r b"
  by (auto simp: recognized_available_def recognized_usable_def usable_def availability_def
      split: option.splits)

lemma supported_not_auto: "backend_supported api b \<Longrightarrow> b \<noteq> BE_Auto"
  by (cases api) auto

lemma admitted_five: "backend_supported api b \<Longrightarrow>
  b \<in> {VulkanFlex, AmdAntiLagVk, BE_AntiLag2, BE_XeLL, LatencyFlex}"
  by (cases api) auto

lemma cand_ok_empty: "cand_ok api r (fo_empty BE_Auto 6)"
  by (simp add: cand_ok_def)

lemma cand_ok_room:
  assumes "cand_ok api r q"
  shows "length (fo_list q) < length (fo_values q)"
proof -
  have "set (fo_list q) \<subseteq> {VulkanFlex, AmdAntiLagVk, BE_AntiLag2, BE_XeLL, LatencyFlex}"
    using assms admitted_five unfolding cand_ok_def by blast
  then have "card (set (fo_list q)) \<le> card {VulkanFlex, AmdAntiLagVk, BE_AntiLag2, BE_XeLL, LatencyFlex}"
    by (intro card_mono) auto
  with assms show ?thesis by (simp add: cand_ok_def distinct_card)
qed

lemma cand_push:
  assumes "cand_ok api r q"
  shows "fo_list (fo_push_back b q) = fo_list q @ [b]"
  using assms cand_ok_room [OF assms] by (simp add: cand_ok_def fo_list_push)

lemma cand_ok_push:
  assumes "cand_ok api r q" "backend_supported api b" "recognized_usable r b" "b \<notin> set (fo_list q)"
  shows "cand_ok api r (fo_push_back b q)"
  using assms supported_not_auto [OF assms(2)] by (auto simp: cand_ok_def cand_push [OF assms(1)])

lemma cand_ok_fallback:
  "cand_ok api r q \<Longrightarrow> cand_ok api r (push_fallback api r b q)"
  by (auto simp: push_fallback_def fo_contains_iff cand_ok_def [of api r q] intro: cand_ok_push)

lemma fallback_list:
  "cand_ok api r q \<Longrightarrow> fo_list (push_fallback api r b q) =
     (if b \<noteq> BE_Auto \<and> backend_supported api b \<and> recognized_usable r b \<and> b \<notin> set (fo_list q)
      then fo_list q @ [b] else fo_list q)"
proof -
  assume ok: "cand_ok api r q"
  then have "fo_ok q" by (simp add: cand_ok_def)
  then show ?thesis by (auto simp: push_fallback_def fo_contains_iff cand_push [OF ok])
qed

lemma fallback_loop:
  assumes "cand_ok api r q"
  shows "cand_ok api r (fold (push_fallback api r) bs q) \<and>
    (\<exists>ys. fo_list (fold (push_fallback api r) bs q) = fo_list q @ ys \<and> set ys \<subseteq> set bs) \<and>
    (\<forall>b \<in> set bs. backend_supported api b \<longrightarrow> recognized_usable r b \<longrightarrow>
       b \<in> set (fo_list (fold (push_fallback api r) bs q)))"
  using assms
proof (induction bs arbitrary: q)
  case Nil
  then show ?case by simp
next
  case (Cons b bs)
  let ?q = "push_fallback api r b q"
  have ok: "cand_ok api r ?q" using Cons.prems by (rule cand_ok_fallback)
  have lst: "\<exists>zs. fo_list ?q = fo_list q @ zs \<and> set zs \<subseteq> {b}"
    using fallback_list [OF Cons.prems, of b] by auto
  have here: "backend_supported api b \<Longrightarrow> recognized_usable r b \<Longrightarrow> b \<in> set (fo_list ?q)"
    using fallback_list [OF Cons.prems, of b] supported_not_auto by auto
  from Cons.IH [OF ok] lst here show ?case by (fastforce simp: subset_insertI2)
qed

text \<open>The part of the list before the configured order, by API.\<close>

definition native_prefix :: "snapshot \<Rightarrow> graphics_api \<Rightarrow> recognizer option \<Rightarrow> backend list" where
  "native_prefix sn api r =
     (let vf = sn_vulkanflex sn; h = sn_hybrid sn in
      case api of
        D3D11 \<Rightarrow> (if vf_enabled vf \<and> vf_dxvk_bridge vf \<and> vf_dxvk_execution vf \<noteq> AB_Disabled \<and>
                     recognized_available r VulkanFlex then [VulkanFlex] else [])
      | D3D12 \<Rightarrow>
          (if vp_prefer_native_extensions (sn_vulkan sn) \<and> recognized_usable r AmdAntiLagVk
           then [AmdAntiLagVk] else []) @
          (if hp_xell_fusion h \<and> hp_startup_locked h \<and> recognized_usable r BE_XeLL
           then [BE_XeLL] else []) @
          (if recognized_usable r BE_AntiLag2 then [BE_AntiLag2] else []) @
          (if vf_enabled vf \<and> vf_vkd3d_bridge vf \<and> hp_vulkan_fusion h \<and> hp_startup_locked h \<and>
              recognized_available r VulkanFlex then [VulkanFlex] else [])
      | Vulkan \<Rightarrow> [])"

definition pushes :: "backend list \<Rightarrow> backend fixed_order \<Rightarrow> backend fixed_order" where
  "pushes bs q = fold fo_push_back bs q"

lemma pushes_list:
  "cand_ok api r q \<Longrightarrow> distinct (fo_list q @ bs) \<Longrightarrow>
   (\<forall>b \<in> set bs. backend_supported api b \<and> recognized_usable r b) \<Longrightarrow>
   cand_ok api r (pushes bs q) \<and> fo_list (pushes bs q) = fo_list q @ bs"
proof (induction bs arbitrary: q)
  case Nil
  then show ?case by (simp add: pushes_def)
next
  case (Cons b bs)
  have ok: "cand_ok api r (fo_push_back b q)"
    using Cons.prems by (intro cand_ok_push) auto
  have l: "fo_list (fo_push_back b q) = fo_list q @ [b]"
    using Cons.prems(1) by (rule cand_push)
  from Cons.IH [OF ok] Cons.prems l show ?case by (simp add: pushes_def)
qed

lemma native_prefix_ok:
  "distinct (native_prefix sn api r) \<and>
   (\<forall>b \<in> set (native_prefix sn api r). backend_supported api b \<and> recognized_usable r b)"
  by (cases api) (auto simp: native_prefix_def Let_def recognized_available_usable)

lemma pushes_Nil [simp]: "pushes [] q = q"
  by (simp add: pushes_def)

lemma pushes_Cons [simp]: "pushes (b # bs) q = pushes bs (fo_push_back b q)"
  by (simp add: pushes_def)

text \<open>The list before the configured order is walked, with and without an explicit choice.\<close>

definition explicit_start :: "graphics_api \<Rightarrow> recognizer option \<Rightarrow> backend \<Rightarrow> backend fixed_order" where
  "explicit_start api r e = (if backend_supported api e \<and> recognized_usable r e
     then fo_push_back e (fo_empty BE_Auto 6) else fo_empty BE_Auto 6)"

definition native_start :: "snapshot \<Rightarrow> graphics_api \<Rightarrow> recognizer option \<Rightarrow> backend fixed_order" where
  "native_start sn api r = pushes (native_prefix sn api r) (fo_empty BE_Auto 6)"

lemma build_cases:
  "build_backend_candidates sn api r =
     (let e = requested_backend sn api;
          walk = fold (push_fallback api r) (fo_list (fallback_order sn api))
      in if e = BE_Auto then walk (native_start sn api r)
         else if gp_allow_fallback (sn_general sn) then walk (explicit_start api r e)
         else explicit_start api r e)"
proof (cases "requested_backend sn api = BE_Auto")
  case True
  then show ?thesis
    by (cases api) (simp_all add: build_backend_candidates_def native_prefix_def native_start_def Let_def)
next
  case False
  then show ?thesis
    by (simp add: build_backend_candidates_def explicit_start_def Let_def)
qed

lemma explicit_start_ok: "cand_ok api r (explicit_start api r e)"
  by (auto simp: explicit_start_def intro: cand_ok_push cand_ok_empty)

lemma explicit_start_list:
  "fo_list (explicit_start api r e) = (if backend_supported api e \<and> recognized_usable r e then [e] else [])"
  by (simp add: explicit_start_def cand_push [OF cand_ok_empty])

lemma native_start_ok:
  "cand_ok api r (native_start sn api r)" "fo_list (native_start sn api r) = native_prefix sn api r"
  using pushes_list [OF cand_ok_empty, of "native_prefix sn api r" api r] native_prefix_ok [of sn api r]
  by (simp_all add: native_start_def)

lemma walk_ok:
  assumes "cand_ok api r q"
  shows "cand_ok api r (fold (push_fallback api r) bs q)"
    and "\<exists>ys. fo_list (fold (push_fallback api r) bs q) = fo_list q @ ys \<and> set ys \<subseteq> set bs"
    and "set (filter (\<lambda>b. backend_supported api b \<and> recognized_usable r b) bs)
      \<subseteq> set (fo_list (fold (push_fallback api r) bs q))"
  using fallback_loop [OF assms, of bs] by auto

section \<open>The candidate list\<close>

lemma candidates_ok: "cand_ok api r (build_backend_candidates sn api r)"
  unfolding build_cases Let_def by (simp add: walk_ok(1) explicit_start_ok native_start_ok(1))

text \<open>C17
  Whatever the configuration and the recognizer say, the candidate list names each backend at most
  once, names only backends that the API admits and the recognizer has not ruled out, never the
  automatic choice, and stays below the six slots of its array, so that no push is silently dropped.
\<close>

theorem candidates_sound:
  "let q = build_backend_candidates sn api r in
   fo_ok q \<and> distinct (fo_list q) \<and> length (fo_list q) < 6 \<and>
   set (fo_list q) \<subseteq> {b. b \<noteq> BE_Auto \<and> backend_supported api b \<and> recognized_usable r b}"
  using candidates_ok [of api r sn] cand_ok_room [OF candidates_ok [of api r sn]]
  by (auto simp: cand_ok_def Let_def)

text \<open>C18
  Every backend of the configured order that the API admits and the recognizer has not ruled out is
  a candidate, unless an explicit choice forbids fallbacks.
\<close>

theorem candidates_complete:
  assumes "requested_backend sn api = BE_Auto \<or> gp_allow_fallback (sn_general sn)"
  shows "set (filter (\<lambda>b. backend_supported api b \<and> recognized_usable r b) (fo_list (fallback_order sn api)))
    \<subseteq> set (fo_list (build_backend_candidates sn api r))"
  using assms walk_ok(3) [OF explicit_start_ok] walk_ok(3) [OF native_start_ok(1)]
  unfolding build_cases Let_def by presburger

theorem candidates_complete_witness:
  "LatencyFlex \<in> set (fo_list (fallback_order default_snapshot Vulkan)) \<and>
   LatencyFlex \<in> set (fo_list (build_backend_candidates default_snapshot Vulkan None))"
proof -
  have r: "requested_backend default_snapshot Vulkan = BE_Auto" by (simp add: default_defs)
  have "LatencyFlex \<in> set (fo_list (fallback_order default_snapshot Vulkan))"
    by (simp add: default_defs fo_list_def numeral_eq_Suc)
  with candidates_complete [of default_snapshot Vulkan None] r show ?thesis
    by (auto simp: recognized_usable_def)
qed

text \<open>
  An explicit backend is authoritative: with fallbacks disabled it is the only candidate, or there is
  none when the API or the recognizer rules it out; with fallbacks enabled it comes first.
\<close>

lemma explicit_backend_authoritative:
  assumes "requested_backend sn api = e" "e \<noteq> BE_Auto"
  shows "fo_list (build_backend_candidates sn api r) =
    (if backend_supported api e \<and> recognized_usable r e then [e] else []) @
    (if gp_allow_fallback (sn_general sn)
     then drop (if backend_supported api e \<and> recognized_usable r e then 1 else 0)
            (fo_list (build_backend_candidates sn api r)) else [])"
  using assms walk_ok(2) [OF explicit_start_ok [of api r e], of "fo_list (fallback_order sn api)"]
  unfolding build_cases Let_def by (auto simp: explicit_start_list)

lemma explicit_backend_authoritative_sample:
  "let sn = default_snapshot\<lparr>sn_output := (sn_output default_snapshot)\<lparr>op_vulkan := LatencyFlex\<rparr>,
       sn_general := (sn_general default_snapshot)\<lparr>gp_allow_fallback := False\<rparr>\<rparr>
   in fo_list (build_backend_candidates sn Vulkan None) = [LatencyFlex]"
  unfolding Let_def
  by (subst explicit_backend_authoritative [of _ Vulkan LatencyFlex])
    (simp_all add: default_defs recognized_usable_def)

text \<open>
  Without an explicit choice the native backends come first, in the order the code states for the
  API, and after them only backends of the configured order.
\<close>

lemma automatic_order:
  assumes "requested_backend sn api = BE_Auto"
  shows "\<exists>rest. fo_list (build_backend_candidates sn api r) = native_prefix sn api r @ rest \<and>
    set rest \<subseteq> set (fo_list (fallback_order sn api))"
  using assms walk_ok(2) [OF native_start_ok(1) [of api r sn], of "fo_list (fallback_order sn api)"]
  unfolding build_cases Let_def by (simp add: native_start_ok(2))

end
