(* ===== verification/MpmcRing.thy ===== *)
theory MpmcRing
  imports Interfaces
begin

text \<open>
  The bounded multi-producer multi-consumer ring of \<open>src/fixed_mpmc_ring.h\<close>, operations run one at
  a time.  Every cell carries a sequence word that says which position may use it next; a producer
  or a consumer reserves a position by compare-and-swap, moves the payload and publishes the next
  sequence word.  The retry loops are \<open>partial_function\<close>s, so that their termination is a theorem.
  The comparison subtracts signed readings of the words, which is undefined in C++ once the
  positions pass \<open>2 ^ 63\<close>; the invariant keeps them below it.
\<close>

record 'a cell =
  cl_sequence :: u64
  cl_value :: 'a

record 'a ring =
  rg_cells :: "nat \<Rightarrow> 'a cell"
  rg_enqueue_pos :: u64
  rg_dequeue_pos :: u64

definition kMask :: "u64 \<Rightarrow> u64" where
  "kMask cap = cap - 1"

definition cell_index :: "u64 \<Rightarrow> u64 \<Rightarrow> nat" where
  "cell_index cap pos = unat (pos AND kMask cap)"

definition ring_reset :: "u64 \<Rightarrow> 'a ring \<Rightarrow> 'a ring" where
  "ring_reset cap r = r\<lparr>rg_enqueue_pos := 0, rg_dequeue_pos := 0,
     rg_cells := (\<lambda>i. if i < unat cap then (rg_cells r i)\<lparr>cl_sequence := word_of_nat i\<rparr> else rg_cells r i)\<rparr>"

text \<open>One pass of the producer's loop for the position \<open>pos\<close> loaded before it.\<close>

partial_function (option) enqueue_loop ::
  "u64 \<Rightarrow> 'a ring \<Rightarrow> 'a \<Rightarrow> u64 \<Rightarrow> ('a ring \<times> bool) option" where
  "enqueue_loop cap r value pos =
     (let i = cell_index cap pos;
          sequence = cl_sequence (rg_cells r i);
          difference = sint sequence - sint pos in
      if difference = 0
      then (if rg_enqueue_pos r = pos
            then Some (r\<lparr>rg_enqueue_pos := pos + 1,
                         rg_cells := (rg_cells r)(i := \<lparr>cl_sequence = pos + 1, cl_value = value\<rparr>)\<rparr>, True)
            else enqueue_loop cap r value (rg_enqueue_pos r))
      else if difference < 0 then Some (r, False)
      else enqueue_loop cap r value (rg_enqueue_pos r))"

partial_function (option) dequeue_loop ::
  "u64 \<Rightarrow> 'a ring \<Rightarrow> u64 \<Rightarrow> ('a ring \<times> 'a option) option" where
  "dequeue_loop cap r pos =
     (let i = cell_index cap pos;
          c = rg_cells r i;
          difference = sint (cl_sequence c) - sint (pos + 1) in
      if difference = 0
      then (if rg_dequeue_pos r = pos
            then Some (r\<lparr>rg_dequeue_pos := pos + 1,
                         rg_cells := (rg_cells r)(i := c\<lparr>cl_sequence := pos + cap\<rparr>)\<rparr>, Some (cl_value c))
            else dequeue_loop cap r (rg_dequeue_pos r))
      else if difference < 0 then Some (r, None)
      else dequeue_loop cap r (rg_dequeue_pos r))"

definition try_enqueue :: "u64 \<Rightarrow> 'a ring \<Rightarrow> 'a \<Rightarrow> ('a ring \<times> bool) option" where
  "try_enqueue cap r value = enqueue_loop cap r value (rg_enqueue_pos r)"

text \<open>\<open>out\<close> says whether the caller passed a place for the result; the code refuses a null one.\<close>

definition try_dequeue :: "u64 \<Rightarrow> bool \<Rightarrow> 'a ring \<Rightarrow> ('a ring \<times> 'a option) option" where
  "try_dequeue cap out r =
     (if \<not> out then Some (r, None) else dequeue_loop cap r (rg_dequeue_pos r))"

section \<open>Positions below half the word range\<close>

text \<open>
  The template's \<open>static_assert\<close>s ask for a capacity that is a power of two and at least two;
  \<open>k\<close> is its logarithm.
\<close>

definition log2_of :: "u64 \<Rightarrow> nat \<Rightarrow> bool" where
  "log2_of cap k \<longleftrightarrow> cap = 2 ^ k \<and> 0 < k \<and> k < 62"

lemma unat_two_power: "k < 64 \<Longrightarrow> unat (2 ^ k :: u64) = 2 ^ k"
proof -
  assume "k < 64"
  then have "(2 :: nat) ^ k < 2 ^ 64" by (rule power_strict_increasing) simp
  moreover have "unat (of_nat (2 ^ k) :: u64) = 2 ^ k mod 2 ^ 64"
    by (simp only: unsigned_of_nat take_bit_eq_mod) simp
  ultimately show ?thesis by simp
qed

lemma unat_cap: "log2_of cap k \<Longrightarrow> unat cap = 2 ^ k"
  by (simp add: log2_of_def unat_two_power)

lemma cell_index_mod: "log2_of cap k \<Longrightarrow> cell_index cap pos = unat pos mod 2 ^ k"
  by (simp add: cell_index_def kMask_def log2_of_def mask_eq_exp_minus_1 [symmetric]
      take_bit_eq_mask [symmetric] unsigned_take_bit_eq take_bit_eq_mod unat_mod_distrib unat_two_power)

lemma unat_word_of_nat: "n < 9223372036854775808 \<Longrightarrow> unat (word_of_nat n :: u64) = n"
proof -
  assume "n < 9223372036854775808"
  then have "n mod 2 ^ 64 = n" by simp
  then show ?thesis by (simp only: unsigned_of_nat take_bit_eq_mod) simp
qed

lemma sint_of_pos: "unat w < 9223372036854775808 \<Longrightarrow> sint (w :: u64) = int (unat w)"
proof -
  assume "unat w < 9223372036854775808"
  then have "int (unat w) < int 9223372036854775808" by (simp only: of_nat_less_iff)
  then have "uint w < 2 ^ 63" by simp
  then have "signed_take_bit 63 (uint w) = uint w"
    by (intro signed_take_bit_int_eq_self) (auto intro: order_trans [OF _ uint_ge_0])
  then show ?thesis by (simp add: sint_uint)
qed

lemma sint_less_pos:
  "unat v < 9223372036854775808 \<Longrightarrow> unat w < 9223372036854775808 \<Longrightarrow>
   (sint v < sint w) = (unat v < unat w)" for v w :: u64
  by (simp only: sint_of_pos of_nat_less_iff)

lemma unat_add_pos: "unat a + unat b < 9223372036854775808 \<Longrightarrow> unat (a + b) = unat a + unat b"
  for a b :: u64
  by (rule unat_add_no_overflow) simp

lemma mod_close: "a mod n = b mod n \<Longrightarrow> a \<le> b \<Longrightarrow> b < a + n \<Longrightarrow> a = b" for a b n :: nat
  by (metis add_diff_inverse_nat dvd_imp_le less_diff_conv2 linorder_not_le mod_eq_dvd_iff_nat
      nat_less_le zero_less_diff diff_is_0_eq add.commute)

section \<open>The sequence words, and the queue they describe\<close>

definition ring_ok :: "nat \<Rightarrow> 'a ring \<Rightarrow> bool" where
  "ring_ok k r \<longleftrightarrow>
     (let e = unat (rg_enqueue_pos r); d = unat (rg_dequeue_pos r) in
      d \<le> e \<and> e \<le> d + 2 ^ k \<and> e + 2 ^ k < 9223372036854775808 \<and>
      (\<forall>p. d \<le> p \<and> p < e \<longrightarrow> unat (cl_sequence (rg_cells r (p mod 2 ^ k))) = p + 1) \<and>
      (\<forall>p. e \<le> p \<and> p < d + 2 ^ k \<longrightarrow> unat (cl_sequence (rg_cells r (p mod 2 ^ k))) = p))"

definition ring_contents :: "nat \<Rightarrow> 'a ring \<Rightarrow> 'a list" where
  "ring_contents k r = map (\<lambda>p. cl_value (rg_cells r (p mod 2 ^ k)))
     [unat (rg_dequeue_pos r) ..< unat (rg_enqueue_pos r)]"

definition ring_budget :: "nat \<Rightarrow> 'a ring \<Rightarrow> nat" where
  "ring_budget k r = 9223372036854775807 - 2 ^ k - unat (rg_enqueue_pos r)"

lemma length_ring_contents:
  "length (ring_contents k r) = unat (rg_enqueue_pos r) - unat (rg_dequeue_pos r)"
  by (simp add: ring_contents_def)

lemma ring_reset_ok:
  assumes "log2_of cap k"
  shows "ring_ok k (ring_reset cap r) \<and> ring_contents k (ring_reset cap r) = []"
proof -
  have "k < 62" using assms by (simp add: log2_of_def)
  then have "(2 :: nat) ^ k < 2 ^ 62" by (rule power_strict_increasing) simp
  then have k: "(2 :: nat) ^ k < 4611686018427387904" by simp
  then have "p < 2 ^ k \<Longrightarrow> unat (word_of_nat p :: u64) = p" for p
    by (intro unat_word_of_nat) simp
  with k show ?thesis
    by (simp add: ring_ok_def ring_reset_def ring_contents_def unat_cap [OF assms])
qed

text \<open>The four ways one call can go when no other call interferes.\<close>

definition enqueued :: "nat \<Rightarrow> 'a \<Rightarrow> 'a ring \<Rightarrow> 'a ring" where
  "enqueued k v r = r\<lparr>rg_enqueue_pos := rg_enqueue_pos r + 1,
     rg_cells := (rg_cells r)(unat (rg_enqueue_pos r) mod 2 ^ k :=
       \<lparr>cl_sequence = rg_enqueue_pos r + 1, cl_value = v\<rparr>)\<rparr>"

definition dequeued :: "nat \<Rightarrow> u64 \<Rightarrow> 'a ring \<Rightarrow> 'a ring" where
  "dequeued k cap r = (let i = unat (rg_dequeue_pos r) mod 2 ^ k in
     r\<lparr>rg_dequeue_pos := rg_dequeue_pos r + 1,
       rg_cells := (rg_cells r)(i := (rg_cells r i)\<lparr>cl_sequence := rg_dequeue_pos r + cap\<rparr>)\<rparr>)"

lemma try_enqueue_room:
  assumes "log2_of cap k"
    and "cl_sequence (rg_cells r (unat (rg_enqueue_pos r) mod 2 ^ k)) = rg_enqueue_pos r"
  shows "try_enqueue cap r v = Some (enqueued k v r, True)"
  unfolding try_enqueue_def using assms(2)
  by (subst enqueue_loop.simps) (simp add: cell_index_mod [OF assms(1)] enqueued_def Let_def)

lemma try_enqueue_none:
  assumes "log2_of cap k"
    and "sint (cl_sequence (rg_cells r (unat (rg_enqueue_pos r) mod 2 ^ k))) < sint (rg_enqueue_pos r)"
  shows "try_enqueue cap r v = Some (r, False)"
  unfolding try_enqueue_def using assms(2)
  by (subst enqueue_loop.simps) (simp add: cell_index_mod [OF assms(1)] Let_def)

lemma try_dequeue_some:
  assumes "log2_of cap k"
    and "cl_sequence (rg_cells r (unat (rg_dequeue_pos r) mod 2 ^ k)) = rg_dequeue_pos r + 1"
  shows "try_dequeue cap True r =
    Some (dequeued k cap r, Some (cl_value (rg_cells r (unat (rg_dequeue_pos r) mod 2 ^ k))))"
  unfolding try_dequeue_def using assms(2)
  by (simp, subst dequeue_loop.simps) (simp add: cell_index_mod [OF assms(1)] dequeued_def Let_def)

lemma try_dequeue_none:
  assumes "log2_of cap k"
    and "sint (cl_sequence (rg_cells r (unat (rg_dequeue_pos r) mod 2 ^ k))) < sint (rg_dequeue_pos r + 1)"
  shows "try_dequeue cap True r = Some (r, None)"
  unfolding try_dequeue_def using assms(2)
  by (simp, subst dequeue_loop.simps) (simp add: cell_index_mod [OF assms(1)] Let_def)

text \<open>What the sequence words say at the two ends of the queue.\<close>

lemma ring_okD:
  assumes "ring_ok k r"
  shows "unat (rg_dequeue_pos r) \<le> unat (rg_enqueue_pos r)"
    and "unat (rg_enqueue_pos r) \<le> unat (rg_dequeue_pos r) + 2 ^ k"
    and "unat (rg_enqueue_pos r) + 2 ^ k < 9223372036854775808"
    and "unat (rg_dequeue_pos r) \<le> p \<Longrightarrow> p < unat (rg_enqueue_pos r) \<Longrightarrow>
      unat (cl_sequence (rg_cells r (p mod 2 ^ k))) = p + 1"
    and "unat (rg_enqueue_pos r) \<le> p \<Longrightarrow> p < unat (rg_dequeue_pos r) + 2 ^ k \<Longrightarrow>
      unat (cl_sequence (rg_cells r (p mod 2 ^ k))) = p"
  using assms by (simp_all add: ring_ok_def Let_def)

lemma unat_pos_plus_one: "unat w < 9223372036854775807 \<Longrightarrow> unat (w + 1 :: u64) = unat w + 1"
  using unat_add_pos [of w 1] by simp

lemma enqueue_succeeds:
  assumes "log2_of cap k" "ring_ok k r" "unat (rg_enqueue_pos r) < unat (rg_dequeue_pos r) + 2 ^ k"
  shows "try_enqueue cap r v = Some (enqueued k v r, True)"
  using ring_okD(5) [OF assms(2), of "unat (rg_enqueue_pos r)"] assms(3)
  by (intro try_enqueue_room [OF assms(1)]) (simp add: word_unat_eq_iff)

lemma one_less_cap: "log2_of cap k \<Longrightarrow> (1 :: nat) < 2 ^ k \<and> (1 :: int) < 2 ^ k"
  by (simp add: log2_of_def one_less_power del: One_nat_def)

lemma enqueue_fails:
  assumes "log2_of cap k" "ring_ok k r" "unat (rg_enqueue_pos r) = unat (rg_dequeue_pos r) + 2 ^ k"
  shows "try_enqueue cap r v = Some (r, False)"
proof (rule try_enqueue_none [OF assms(1)])
  let ?d = "unat (rg_dequeue_pos r)" and ?e = "unat (rg_enqueue_pos r)"
  have idx: "?e mod 2 ^ k = ?d mod 2 ^ k" using assms(3) by simp
  have "unat (cl_sequence (rg_cells r (?d mod 2 ^ k))) = ?d + 1"
    using assms(3) by (intro ring_okD(4) [OF assms(2)]) simp_all
  moreover have "?e < 9223372036854775808" using ring_okD(3) [OF assms(2)] by simp
  ultimately show "sint (cl_sequence (rg_cells r (?e mod 2 ^ k))) < sint (rg_enqueue_pos r)"
    using one_less_cap [OF assms(1)] assms(3) by (simp add: idx sint_of_pos)
qed

lemma dequeue_succeeds:
  assumes "log2_of cap k" "ring_ok k r" "unat (rg_dequeue_pos r) < unat (rg_enqueue_pos r)"
  shows "try_dequeue cap True r =
    Some (dequeued k cap r, Some (cl_value (rg_cells r (unat (rg_dequeue_pos r) mod 2 ^ k))))"
  using ring_okD(3) [OF assms(2)] ring_okD(4) [OF assms(2), of "unat (rg_dequeue_pos r)"] assms(3)
  by (intro try_dequeue_some [OF assms(1)]) (simp add: word_unat_eq_iff unat_pos_plus_one)

lemma dequeue_fails:
  assumes "log2_of cap k" "ring_ok k r" "unat (rg_dequeue_pos r) = unat (rg_enqueue_pos r)"
  shows "try_dequeue cap True r = Some (r, None)"
proof (rule try_dequeue_none [OF assms(1)])
  let ?d = "unat (rg_dequeue_pos r)"
  have "unat (cl_sequence (rg_cells r (?d mod 2 ^ k))) = ?d"
    using assms(3) by (intro ring_okD(5) [OF assms(2)]) simp_all
  moreover have "?d + 2 < 9223372036854775808"
    using ring_okD(3) [OF assms(2)] one_less_cap [OF assms(1)] assms(3) by simp
  ultimately show "sint (cl_sequence (rg_cells r (?d mod 2 ^ k))) < sint (rg_dequeue_pos r + 1)"
    by (simp add: sint_of_pos unat_pos_plus_one)
qed

section \<open>The invariant is kept, and the contents change as a queue's\<close>

lemma enqueued_keeps:
  assumes "log2_of cap k" "ring_ok k r" "0 < ring_budget k r"
    and "unat (rg_enqueue_pos r) < unat (rg_dequeue_pos r) + 2 ^ k"
  shows "ring_ok k (enqueued k v r)" (is ?ok)
    and "ring_contents k (enqueued k v r) = ring_contents k r @ [v]" (is ?contents)
    and "Suc (ring_budget k (enqueued k v r)) = ring_budget k r" (is ?budget)
proof -
  let ?d = "unat (rg_dequeue_pos r)" and ?e = "unat (rg_enqueue_pos r)"
  have b: "?e + 2 ^ k < 9223372036854775807" using assms(3) by (simp add: ring_budget_def)
  then have e1: "unat (rg_enqueue_pos r + 1) = ?e + 1" by (intro unat_pos_plus_one) simp
  have other: "(p mod 2 ^ k = ?e mod 2 ^ k) = (p = ?e)" if "?d \<le> p" "p < ?d + 2 ^ k" for p
    using mod_close [of p "2 ^ k" ?e] mod_close [of ?e "2 ^ k" p] that assms(4) ring_okD(1) [OF assms(2)]
    by (cases "p \<le> ?e") auto
  have "unat (cl_sequence (rg_cells (enqueued k v r) (p mod 2 ^ k))) = p"
    if "?e + 1 \<le> p" "p < ?d + 2 ^ k" for p
    using ring_okD(1,5) [OF assms(2)] other [of p] that by (auto simp: enqueued_def)
  moreover have "unat (cl_sequence (rg_cells (enqueued k v r) (p mod 2 ^ k))) = p + 1"
    if "?d \<le> p" "p < ?e + 1" for p
    using ring_okD(4) [OF assms(2), of p] other [of p] that assms(4) by (auto simp: enqueued_def e1)
  ultimately show ?ok
    using ring_okD [OF assms(2)] b assms(4) unfolding ring_ok_def by (simp add: enqueued_def Let_def e1)
  show ?contents
    using other ring_okD(1) [OF assms(2)] assms(4)
    by (auto simp: ring_contents_def enqueued_def e1)
  show ?budget
    using b by (simp add: ring_budget_def enqueued_def e1)
qed

lemma dequeued_keeps:
  assumes "log2_of cap k" "ring_ok k r" "unat (rg_dequeue_pos r) < unat (rg_enqueue_pos r)"
  shows "ring_ok k (dequeued k cap r)" (is ?ok)
    and "ring_contents k r = cl_value (rg_cells r (unat (rg_dequeue_pos r) mod 2 ^ k)) #
      ring_contents k (dequeued k cap r)" (is ?contents)
    and "ring_budget k (dequeued k cap r) = ring_budget k r" (is ?budget)
proof -
  let ?d = "unat (rg_dequeue_pos r)" and ?e = "unat (rg_enqueue_pos r)"
  note D = ring_okD [OF assms(2)]
  have d1: "unat (rg_dequeue_pos r + 1) = ?d + 1"
    using D(3) assms(3) by (intro unat_pos_plus_one) simp
  have dc: "unat (rg_dequeue_pos r + cap) = ?d + 2 ^ k"
    using D(3) assms(3) by (subst unat_add_pos) (simp_all add: unat_cap [OF assms(1)])
  have other: "(p mod 2 ^ k = ?d mod 2 ^ k) = (p = ?d)" if "?d \<le> p" "p < ?d + 2 ^ k" for p
    using mod_close [of ?d "2 ^ k" p] that by auto
  have last: "p = ?d + 2 ^ k \<or> p \<noteq> ?d \<and> p < ?d + 2 ^ k" if "?e \<le> p" "p < ?d + 1 + 2 ^ k" for p
    using that assms(3) by auto
  have "unat (cl_sequence (rg_cells (dequeued k cap r) (p mod 2 ^ k))) = p"
    if "?e \<le> p" "p < ?d + 1 + 2 ^ k" for p
    using last [OF that] D(5) [of p] other [of p] that assms(3)
    by (auto simp: dequeued_def Let_def dc)
  moreover have "unat (cl_sequence (rg_cells (dequeued k cap r) (p mod 2 ^ k))) = p + 1"
    if "?d + 1 \<le> p" "p < ?e" for p
    using D(2) D(4) [of p] other [of p] that by (auto simp: dequeued_def Let_def)
  ultimately show ?ok
    using D assms(3) unfolding ring_ok_def by (simp add: dequeued_def Let_def d1)
  show ?contents
    using other D(1,2) assms(3)
    by (auto simp: ring_contents_def dequeued_def Let_def d1 upt_conv_Cons)
  show ?budget
    by (simp add: ring_budget_def dequeued_def Let_def)
qed

section \<open>The ring is a bounded queue\<close>

definition ring_valid :: "u64 \<Rightarrow> nat \<Rightarrow> 'a ring \<Rightarrow> bool" where
  "ring_valid cap k r \<longleftrightarrow> log2_of cap k \<and> ring_ok k r"

interpretation fifo: bounded_fifo "try_enqueue cap" "try_dequeue cap True" "ring_contents k"
  "ring_valid cap k" "ring_budget k" "2 ^ k" for cap k
proof
  fix q :: "'a ring" and x y ys
  let ?d = "unat (rg_dequeue_pos q)" and ?e = "unat (rg_enqueue_pos q)"
  assume v: "ring_valid cap k q"
  then have l: "log2_of cap k" and ok: "ring_ok k q" by (simp_all add: ring_valid_def)
  note D = ring_okD [OF ok]
  show "length (ring_contents k q) \<le> 2 ^ k"
    using D(2) by (simp add: length_ring_contents)
  show "try_enqueue cap q x = Some (q, False)" if "length (ring_contents k q) = 2 ^ k"
    using that D(1) by (intro enqueue_fails [OF l ok]) (simp add: length_ring_contents)
  show "try_dequeue cap True q = Some (q, None)" if "ring_contents k q = []"
    using that D(1) by (intro dequeue_fails [OF l ok]) (auto simp: ring_contents_def)
  show "\<exists>q'. try_enqueue cap q x = Some (q', True) \<and> ring_contents k q' = ring_contents k q @ [x] \<and>
      ring_valid cap k q' \<and> Suc (ring_budget k q') = ring_budget k q"
    if "0 < ring_budget k q" "length (ring_contents k q) < 2 ^ k"
  proof -
    from that(2) have "?e < ?d + 2 ^ k" by (simp add: length_ring_contents)
    with l enqueue_succeeds [OF l ok this] enqueued_keeps [OF l ok that(1) this] show ?thesis
      by (simp add: ring_valid_def)
  qed
  show "\<exists>q'. try_dequeue cap True q = Some (q', Some y) \<and> ring_contents k q' = ys \<and>
      ring_valid cap k q' \<and> ring_budget k q' = ring_budget k q"
    if "ring_contents k q = y # ys"
  proof -
    from that length_ring_contents [of k q] have "?d < ?e" by simp
    with l dequeue_succeeds [OF l ok this] dequeued_keeps [OF l ok this] that show ?thesis
      by (simp add: ring_valid_def)
  qed
qed

text \<open>C5
  Run one after the other, any sequence of insertions and removals on a fresh ring returns, and it
  answers exactly as a bounded first-in first-out list of the ring's capacity: insertions succeed
  until the list is full, removals give the oldest element or nothing.  The bound keeps the position
  counters in the range where the signed comparison of sequence words is defined.
\<close>

theorem ring_refines_queue:
  assumes "log2_of cap k" and "length ops + 2 ^ k \<le> 9223372036854775807"
  shows "\<exists>r'. fifo.run cap (ring_reset cap r) ops = Some (r', snd (queue_run (2 ^ k) [] ops)) \<and>
    ring_contents k r' = fst (queue_run (2 ^ k) [] ops)"
proof -
  note reset = ring_reset_ok [OF assms(1), of r]
  have "length ops \<le> ring_budget k (ring_reset cap r)"
    using assms(2) by (simp add: ring_budget_def ring_reset_def)
  with fifo.run_refines [of cap k "ring_reset cap r" ops] assms(1) reset
  obtain r' as where "fifo.run cap (ring_reset cap r) ops = Some (r', as)"
    "queue_run (2 ^ k) [] ops = (ring_contents k r', as)"
    by (auto simp: ring_valid_def)
  then show ?thesis by simp
qed

theorem ring_refines_queue_witness:
  "\<exists>r'. fifo.run 2 (ring_reset 2 \<lparr>rg_cells = (\<lambda>_. \<lparr>cl_sequence = 0, cl_value = 0 :: nat\<rparr>),
       rg_enqueue_pos = 0, rg_dequeue_pos = 0\<rparr>) [Enq 7, Enq 8, Enq 9, Deq]
     = Some (r', [Taken True, Taken True, Taken False, Given (Some 7)])"
  using ring_refines_queue [of 2 1 "[Enq 7, Enq 8, Enq 9, Deq]"
      "\<lparr>rg_cells = (\<lambda>_. \<lparr>cl_sequence = 0, cl_value = 0\<rparr>), rg_enqueue_pos = 0, rg_dequeue_pos = 0\<rparr>"]
  by (simp add: log2_of_def) blast

end
