(* ===== verification/MpmcConcurrent.thy ===== *)
theory MpmcConcurrent
  imports MpmcRing
begin

text \<open>
  The ring of \<open>src/fixed_mpmc_ring.h\<close> under any interleaving of any number of threads.  A thread's
  program counter says which atomic access of \<open>try_enqueue\<close> or \<open>try_dequeue\<close> it performs next; a
  move performs one access of one thread, so a schedule is a list of moves.  The weak
  compare-and-swap may fail without cause; the move carries that choice.  Accesses are sequentially
  consistent (the code's acquire loads and release stores order exactly the accesses on which the
  proofs rely: the payload copy before the sequence store, the sequence load before the payload
  copy).  Two histories that the code does not keep record the values in the order of the successful
  reservations and the positions and values that removals returned.
\<close>

datatype 'a pc =
    Idle
  | E_Pos 'a u64      \<comment> \<open>holds a position, next the load of the cell's sequence word\<close>
  | E_Reload 'a       \<comment> \<open>next the load of \<open>enqueue_pos_\<close> at the end of the loop body\<close>
  | E_Cas 'a u64      \<comment> \<open>next the compare-and-swap of \<open>enqueue_pos_\<close>\<close>
  | E_Write 'a u64    \<comment> \<open>next the copy into the cell\<close>
  | E_Publish u64     \<comment> \<open>next the store of the sequence word\<close>
  | D_Pos u64
  | D_Reload
  | D_Cas u64
  | D_Read u64        \<comment> \<open>next the copy out of the cell\<close>
  | D_Publish u64 'a

record 'a conf =
  cf_ring :: "'a ring"
  cf_pc :: "nat \<Rightarrow> 'a pc"
  cf_in :: "'a list"
  cf_out :: "(nat \<times> 'a) list"

datatype 'a move = Call_enqueue nat 'a | Call_dequeue nat | Advance nat bool

definition goto :: "nat \<Rightarrow> 'a pc \<Rightarrow> 'a conf \<Rightarrow> 'a conf" where
  "goto t l c = c\<lparr>cf_pc := (cf_pc c)(t := l)\<rparr>"

definition set_cell :: "nat \<Rightarrow> 'a cell \<Rightarrow> 'a conf \<Rightarrow> 'a conf" where
  "set_cell i x c = c\<lparr>cf_ring := (cf_ring c)\<lparr>rg_cells := (rg_cells (cf_ring c))(i := x)\<rparr>\<rparr>"

text \<open>One access of thread \<open>t\<close>; \<open>spurious\<close> makes a weak compare-and-swap fail.\<close>

definition advance :: "u64 \<Rightarrow> nat \<Rightarrow> bool \<Rightarrow> 'a conf \<Rightarrow> 'a conf" where
  "advance cap t spurious c =
     (let r = cf_ring c in
      case cf_pc c t of
        Idle \<Rightarrow> c
      | E_Pos v pos \<Rightarrow>
          (let difference = sint (cl_sequence (rg_cells r (cell_index cap pos))) - sint pos in
           if difference = 0 then goto t (E_Cas v pos) c
           else if difference < 0 then goto t Idle c
           else goto t (E_Reload v) c)
      | E_Reload v \<Rightarrow> goto t (E_Pos v (rg_enqueue_pos r)) c
      | E_Cas v pos \<Rightarrow>
          (if rg_enqueue_pos r = pos \<and> \<not> spurious
           then goto t (E_Write v pos)
                  (c\<lparr>cf_ring := r\<lparr>rg_enqueue_pos := pos + 1\<rparr>, cf_in := cf_in c @ [v]\<rparr>)
           else goto t (E_Pos v (rg_enqueue_pos r)) c)
      | E_Write v pos \<Rightarrow>
          (let i = cell_index cap pos in
           goto t (E_Publish pos) (set_cell i ((rg_cells r i)\<lparr>cl_value := v\<rparr>) c))
      | E_Publish pos \<Rightarrow>
          (let i = cell_index cap pos in
           goto t Idle (set_cell i ((rg_cells r i)\<lparr>cl_sequence := pos + 1\<rparr>) c))
      | D_Pos pos \<Rightarrow>
          (let difference = sint (cl_sequence (rg_cells r (cell_index cap pos))) - sint (pos + 1) in
           if difference = 0 then goto t (D_Cas pos) c
           else if difference < 0 then goto t Idle c
           else goto t D_Reload c)
      | D_Reload \<Rightarrow> goto t (D_Pos (rg_dequeue_pos r)) c
      | D_Cas pos \<Rightarrow>
          (if rg_dequeue_pos r = pos \<and> \<not> spurious
           then goto t (D_Read pos) (c\<lparr>cf_ring := r\<lparr>rg_dequeue_pos := pos + 1\<rparr>\<rparr>)
           else goto t (D_Pos (rg_dequeue_pos r)) c)
      | D_Read pos \<Rightarrow> goto t (D_Publish pos (cl_value (rg_cells r (cell_index cap pos)))) c
      | D_Publish pos v \<Rightarrow>
          (let i = cell_index cap pos in
           goto t Idle (set_cell i ((rg_cells r i)\<lparr>cl_sequence := pos + cap\<rparr>)
             (c\<lparr>cf_out := cf_out c @ [(unat pos, v)]\<rparr>))))"

fun perform :: "u64 \<Rightarrow> 'a conf \<Rightarrow> 'a move \<Rightarrow> 'a conf" where
  "perform cap c (Call_enqueue t v) =
     (if cf_pc c t = Idle then goto t (E_Pos v (rg_enqueue_pos (cf_ring c))) c else c)"
| "perform cap c (Call_dequeue t) =
     (if cf_pc c t = Idle then goto t (D_Pos (rg_dequeue_pos (cf_ring c))) c else c)"
| "perform cap c (Advance t spurious) = advance cap t spurious c"

definition start :: "u64 \<Rightarrow> 'a ring \<Rightarrow> 'a conf" where
  "start cap r = \<lparr>cf_ring = ring_reset cap r, cf_pc = (\<lambda>_. Idle), cf_in = [], cf_out = []\<rparr>"

text \<open>Every configuration a schedule leads to.\<close>

definition run_moves :: "u64 \<Rightarrow> 'a ring \<Rightarrow> 'a move list \<Rightarrow> 'a conf" where
  "run_moves cap r ms = foldl (perform cap) (start cap r) ms"

section \<open>Who may touch a cell\<close>

abbreviation enqs :: "'a conf \<Rightarrow> nat" where "enqs c \<equiv> unat (rg_enqueue_pos (cf_ring c))"
abbreviation deqs :: "'a conf \<Rightarrow> nat" where "deqs c \<equiv> unat (rg_dequeue_pos (cf_ring c))"
abbreviation sq :: "'a conf \<Rightarrow> nat \<Rightarrow> nat" where "sq c i \<equiv> unat (cl_sequence (rg_cells (cf_ring c) i))"
abbreviation vl :: "'a conf \<Rightarrow> nat \<Rightarrow> 'a" where "vl c i \<equiv> cl_value (rg_cells (cf_ring c) i)"

text \<open>The position a thread has reserved and not yet released: to write it or to read it.\<close>

fun writes :: "'a pc \<Rightarrow> nat option" where
  "writes (E_Write v p) = Some (unat p)"
| "writes (E_Publish p) = Some (unat p)"
| "writes _ = None"

fun reads :: "'a pc \<Rightarrow> nat option" where
  "reads (D_Read p) = Some (unat p)"
| "reads (D_Publish p v) = Some (unat p)"
| "reads _ = None"

definition writing :: "'a conf \<Rightarrow> nat \<Rightarrow> bool" where
  "writing c p \<longleftrightarrow> (\<exists>t. writes (cf_pc c t) = Some p)"

definition reading :: "'a conf \<Rightarrow> nat \<Rightarrow> bool" where
  "reading c p \<longleftrightarrow> (\<exists>t. reads (cf_pc c t) = Some p)"

text \<open>A cell waits for the producer of position \<open>p\<close>, or holds the element of position \<open>p\<close>.\<close>

definition awaits :: "nat \<Rightarrow> 'a conf \<Rightarrow> nat \<Rightarrow> bool" where
  "awaits k c p \<longleftrightarrow> sq c (p mod 2 ^ k) = p \<and> deqs c \<le> p \<and> p < deqs c + 2 ^ k \<and>
     (p < enqs c \<longrightarrow> writing c p)"

definition holds :: "nat \<Rightarrow> 'a conf \<Rightarrow> nat \<Rightarrow> bool" where
  "holds k c p \<longleftrightarrow> sq c (p mod 2 ^ k) = p + 1 \<and> p < enqs c \<and> enqs c \<le> p + 2 ^ k \<and>
     vl c (p mod 2 ^ k) = cf_in c ! p \<and>
     (p < deqs c \<longrightarrow> reading c p)"

definition cells_inv :: "nat \<Rightarrow> 'a conf \<Rightarrow> bool" where
  "cells_inv k c \<longleftrightarrow> (\<forall>i < 2 ^ k. \<exists>p. p mod 2 ^ k = i \<and> (awaits k c p \<or> holds k c p))"

fun pc_inv :: "nat \<Rightarrow> 'a conf \<Rightarrow> 'a pc \<Rightarrow> bool" where
  "pc_inv k c (E_Pos v p) \<longleftrightarrow> unat p \<le> enqs c"
| "pc_inv k c (E_Cas v p) \<longleftrightarrow> unat p \<le> enqs c \<and> (unat p = enqs c \<longrightarrow> sq c (unat p mod 2 ^ k) = unat p)"
| "pc_inv k c (E_Write v p) \<longleftrightarrow> deqs c \<le> unat p \<and> unat p < enqs c \<and>
     sq c (unat p mod 2 ^ k) = unat p \<and> cf_in c ! unat p = v"
| "pc_inv k c (E_Publish p) \<longleftrightarrow> deqs c \<le> unat p \<and> unat p < enqs c \<and>
     sq c (unat p mod 2 ^ k) = unat p \<and> cf_in c ! unat p = vl c (unat p mod 2 ^ k)"
| "pc_inv k c (D_Pos p) \<longleftrightarrow> unat p \<le> deqs c"
| "pc_inv k c (D_Cas p) \<longleftrightarrow> unat p \<le> deqs c \<and>
     (unat p = deqs c \<longrightarrow> sq c (unat p mod 2 ^ k) = unat p + 1)"
| "pc_inv k c (D_Read p) \<longleftrightarrow> unat p < deqs c \<and> sq c (unat p mod 2 ^ k) = unat p + 1"
| "pc_inv k c (D_Publish p v) \<longleftrightarrow> unat p < deqs c \<and> sq c (unat p mod 2 ^ k) = unat p + 1 \<and>
     v = cf_in c ! unat p"
| "pc_inv k c _ \<longleftrightarrow> True"

definition exclusive :: "'a conf \<Rightarrow> bool" where
  "exclusive c \<longleftrightarrow> (\<forall>t u p. t \<noteq> u \<longrightarrow>
     (writes (cf_pc c t) = Some p \<longrightarrow> writes (cf_pc c u) \<noteq> Some p) \<and>
     (reads (cf_pc c t) = Some p \<longrightarrow> reads (cf_pc c u) \<noteq> Some p))"

text \<open>What has been returned: each position at most once, with the value inserted there.\<close>

definition out_inv :: "'a conf \<Rightarrow> bool" where
  "out_inv c \<longleftrightarrow> distinct (map fst (cf_out c)) \<and>
     (\<forall>(p, v) \<in> set (cf_out c). p < deqs c \<and> v = cf_in c ! p \<and> \<not> reading c p)"

definition conf_inv :: "nat \<Rightarrow> 'a conf \<Rightarrow> bool" where
  "conf_inv k c \<longleftrightarrow> deqs c \<le> enqs c \<and> enqs c \<le> deqs c + 2 ^ k \<and> length (cf_in c) = enqs c \<and>
     cells_inv k c \<and> (\<forall>t. pc_inv k c (cf_pc c t)) \<and> exclusive c \<and> out_inv c"

section \<open>The invariant is kept by every move\<close>

lemma conf_simps [simp]:
  "cf_ring (goto t l c) = cf_ring c" "cf_in (goto t l c) = cf_in c" "cf_out (goto t l c) = cf_out c"
  "cf_pc (goto t l c) = (cf_pc c)(t := l)"
  "cf_pc (set_cell i x c) = cf_pc c" "cf_in (set_cell i x c) = cf_in c" "cf_out (set_cell i x c) = cf_out c"
  "rg_enqueue_pos (cf_ring (set_cell i x c)) = rg_enqueue_pos (cf_ring c)"
  "rg_dequeue_pos (cf_ring (set_cell i x c)) = rg_dequeue_pos (cf_ring c)"
  "rg_cells (cf_ring (set_cell i x c)) = (rg_cells (cf_ring c))(i := x)"
  by (simp_all add: goto_def set_cell_def)

lemma conf_invD:
  assumes "conf_inv k c"
  shows "deqs c \<le> enqs c" "enqs c \<le> deqs c + 2 ^ k" "length (cf_in c) = enqs c"
    "cells_inv k c" "pc_inv k c (cf_pc c t)" "exclusive c" "out_inv c"
  using assms by (simp_all add: conf_inv_def)

lemma pc_inv_cong: "cf_ring c' = cf_ring c \<Longrightarrow> cf_in c' = cf_in c \<Longrightarrow> pc_inv k c' l = pc_inv k c l"
  by (cases l) simp_all

text \<open>A local step of a thread that keeps what it has reserved.\<close>

lemma goto_inv:
  assumes "conf_inv k c" "writes l = writes (cf_pc c t)" "reads l = reads (cf_pc c t)" "pc_inv k c l"
  shows "conf_inv k (goto t l c)"
proof -
  have w: "writes (((cf_pc c)(t := l)) u) = writes (cf_pc c u)"
    and r: "reads (((cf_pc c)(t := l)) u) = reads (cf_pc c u)" for u
    using assms by auto
  have a: "awaits k (goto t l c) p = awaits k c p" and h: "holds k (goto t l c) p = holds k c p" for p
    unfolding awaits_def holds_def writing_def reading_def conf_simps w r by auto
  have "exclusive (goto t l c)" "out_inv (goto t l c)"
    using conf_invD(6,7) [OF assms(1)] unfolding exclusive_def out_inv_def reading_def conf_simps w r by auto
  moreover have "pc_inv k (goto t l c) (cf_pc (goto t l c) u)" for u
    using conf_invD(5) [OF assms(1), of u] assms(4) pc_inv_cong [of "goto t l c" c k] by simp
  ultimately show ?thesis
    using conf_invD [OF assms(1)] unfolding conf_inv_def cells_inv_def a h by simp
qed

text \<open>The state of the cell of a position, from its sequence word.\<close>

lemma mod_Suc_neq: "1 < n \<Longrightarrow> Suc p mod n \<noteq> p mod n" for n p :: nat
  by (metis One_nat_def mod_Suc n_not_Suc_n nat_neq_iff)

lemma mod_Suc_pow: "0 < k \<Longrightarrow> Suc p mod 2 ^ k \<noteq> p mod 2 ^ k" "0 < k \<Longrightarrow> p mod 2 ^ k \<noteq> Suc p mod 2 ^ k"
  using mod_Suc_neq [of "2 ^ k" p] one_less_power [of "2 :: nat" k] by auto

lemma mod_eq_not_Suc: "0 < k \<Longrightarrow> q mod 2 ^ k = p mod 2 ^ k \<Longrightarrow> Suc p \<noteq> q" for p q :: nat
  using mod_Suc_pow by blast

lemma cell_cases:
  assumes "conf_inv k c" "0 < k"
  obtains (awaits) "awaits k c (sq c (p mod 2 ^ k))" "sq c (p mod 2 ^ k) mod 2 ^ k = p mod 2 ^ k"
  | (holds) q where "holds k c q" "sq c (p mod 2 ^ k) = Suc q" "q mod 2 ^ k = p mod 2 ^ k"
proof -
  have "p mod 2 ^ k < (2 :: nat) ^ k" by simp
  with conf_invD(4) [OF assms(1)] obtain q where q: "q mod 2 ^ k = p mod 2 ^ k"
    "awaits k c q \<or> holds k c q"
    unfolding cells_inv_def by blast
  then show ?thesis
    using awaits holds by (auto simp: awaits_def holds_def)
qed

lemma cell_of_awaiting:
  assumes "conf_inv k c" "0 < k" "sq c (p mod 2 ^ k) = p"
  shows "awaits k c p"
  by (cases rule: cell_cases [OF assms(1,2), of p])
    (use assms mod_Suc_pow in \<open>auto simp: holds_def\<close>)

lemma cell_of_holding:
  assumes "conf_inv k c" "0 < k" "sq c (p mod 2 ^ k) = Suc p"
  shows "holds k c p"
  by (cases rule: cell_cases [OF assms(1,2), of p])
    (use assms mod_Suc_pow in \<open>auto simp: awaits_def\<close>)

lemma writer_facts:
  "conf_inv k c \<Longrightarrow> writes (cf_pc c t) = Some p \<Longrightarrow> deqs c \<le> p \<and> p < enqs c \<and> sq c (p mod 2 ^ k) = p"
  using conf_invD(5) [of k c t] by (cases "cf_pc c t") auto

lemma reader_facts:
  "conf_inv k c \<Longrightarrow> reads (cf_pc c t) = Some p \<Longrightarrow> p < deqs c \<and> sq c (p mod 2 ^ k) = Suc p"
  using conf_invD(5) [of k c t] by (cases "cf_pc c t") auto

lemma exclusive_update:
  assumes "exclusive c" "cf_pc c' = (cf_pc c)(t := l)"
    and "\<And>u p. u \<noteq> t \<Longrightarrow> writes l = Some p \<Longrightarrow> writes (cf_pc c u) \<noteq> Some p"
    and "\<And>u p. u \<noteq> t \<Longrightarrow> reads l = Some p \<Longrightarrow> reads (cf_pc c u) \<noteq> Some p"
  shows "exclusive c'"
  using assms(1,3,4) unfolding exclusive_def assms(2) by (auto split: if_splits)

lemma exclusiveD:
  assumes "conf_inv k c" "t \<noteq> u"
  shows "writes (cf_pc c t) = Some p \<Longrightarrow> writes (cf_pc c u) \<noteq> Some p"
    and "reads (cf_pc c t) = Some p \<Longrightarrow> reads (cf_pc c u) \<noteq> Some p"
  using conf_invD(6) [OF assms(1)] assms(2) unfolding exclusive_def by blast+

lemma writing_update:
  assumes "writing c p" "cf_pc c' = (cf_pc c)(t := l)" "writes (cf_pc c t) = Some p \<Longrightarrow> writes l = Some p"
  shows "writing c' p"
proof -
  from assms(1) obtain u where "writes (cf_pc c u) = Some p" by (auto simp: writing_def)
  with assms(2,3) have "writes (cf_pc c' (if u = t then t else u)) = Some p" by auto
  then show ?thesis unfolding writing_def by blast
qed

lemma reading_update:
  assumes "reading c p" "cf_pc c' = (cf_pc c)(t := l)" "reads (cf_pc c t) = Some p \<Longrightarrow> reads l = Some p"
  shows "reading c' p"
proof -
  from assms(1) obtain u where "reads (cf_pc c u) = Some p" by (auto simp: reading_def)
  with assms(2,3) have "reads (cf_pc c' (if u = t then t else u)) = Some p" by auto
  then show ?thesis unfolding reading_def by blast
qed

lemma not_reading_update:
  assumes "\<not> reading c p" "cf_pc c' = (cf_pc c)(t := l)" "reads l \<noteq> Some p"
  shows "\<not> reading c' p"
  using assms by (auto simp: reading_def)

lemma one_less_pow: "0 < k \<Longrightarrow> Suc 0 < 2 ^ k"
  using one_less_power [of "2 :: nat" k] by simp

text \<open>The six moves that change the shared state or the histories.\<close>

lemma reserve_enqueue_inv:
  assumes inv: "conf_inv k c" and k: "0 < k" and pc: "cf_pc c t = E_Cas v pos" "rg_enqueue_pos (cf_ring c) = pos"
    and bound: "enqs c < 9223372036854775807"
  shows "conf_inv k (goto t (E_Write v pos)
    (c\<lparr>cf_ring := (cf_ring c)\<lparr>rg_enqueue_pos := pos + 1\<rparr>, cf_in := cf_in c @ [v]\<rparr>))"
    (is "conf_inv k ?c")
proof -
  note I = conf_invD [OF inv]
  have e1: "unat (pos + 1) = enqs c + 1" using bound pc by (simp add: unat_pos_plus_one)
  have sq: "sq c (enqs c mod 2 ^ k) = enqs c" using I(5) [of t] pc by simp
  have aw: "awaits k c (enqs c)" using inv k sq by (rule cell_of_awaiting)
  have "awaits k c p \<Longrightarrow> awaits k ?c p" for p
    using pc writing_update [of c p ?c t "E_Write v pos"]
    by (auto simp: awaits_def e1 less_Suc_eq) (auto simp: writing_def)
  moreover have "holds k c p \<Longrightarrow> holds k ?c p" for p
    using pc sq I(3) mod_Suc_pow [OF k, of p] one_less_pow [OF k]
      reading_update [of c p ?c t "E_Write v pos"]
    by (auto simp: holds_def e1 nth_append le_less)
  ultimately have "cells_inv k ?c" using I(4) unfolding cells_inv_def by blast
  moreover have "pc_inv k ?c (cf_pc ?c u)" for u
    using I(5) [of u] I(1,3) pc sq by (cases "cf_pc c u") (auto simp: e1 nth_append)
  moreover have "exclusive ?c"
    using writer_facts [OF inv] pc by (intro exclusive_update [OF I(6), of _ t "E_Write v pos"]) fastforce+
  moreover have "out_inv ?c"
    using I(1,3,7) not_reading_update [of c _ ?c t "E_Write v pos"]
    by (fastforce simp: out_inv_def nth_append)
  ultimately show ?thesis
    using I(1-3) aw unfolding conf_inv_def by (simp add: e1 awaits_def)
qed

lemma write_inv:
  assumes inv: "conf_inv k c" and k: "0 < k" and pc: "cf_pc c t = E_Write v pos"
    and i: "i = unat pos mod 2 ^ k"
  shows "conf_inv k (goto t (E_Publish pos)
    (set_cell i ((rg_cells (cf_ring c) i)\<lparr>cl_value := v\<rparr>) c))" (is "conf_inv k ?c")
proof -
  note I = conf_invD [OF inv]
  have sq: "sq c (unat pos mod 2 ^ k) = unat pos" using I(5) [of t] pc by simp
  have sq': "sq ?c j = sq c j" for j by simp
  have "awaits k c p \<Longrightarrow> awaits k ?c p" for p
    using writing_update [of c p ?c t "E_Publish pos"] pc unfolding awaits_def sq' by auto
  moreover have "holds k c p \<Longrightarrow> holds k ?c p" for p
    using reading_update [of c p ?c t "E_Publish pos"] pc sq mod_Suc_pow [OF k, of p] i unfolding holds_def sq' by auto
  ultimately have "cells_inv k ?c" using I(4) unfolding cells_inv_def by blast
  moreover have "pc_inv k ?c (cf_pc ?c u)" for u
    using I(5) [of u] I(5) [of t] exclusiveD [OF inv, of t u] pc sq i
    by (cases "cf_pc c u") (auto simp: word_unat_eq_iff)
  moreover have "exclusive ?c"
    using exclusiveD [OF inv, of t] pc by (intro exclusive_update [OF I(6), of _ t "E_Publish pos"]) auto
  moreover have "out_inv ?c"
    using I(7) pc not_reading_update [of c _ ?c t "E_Publish pos"] by (fastforce simp: out_inv_def)
  ultimately show ?thesis
    using I(1-3) unfolding conf_inv_def by simp
qed

lemma publish_inv:
  assumes inv: "conf_inv k c" and k: "0 < k" and pc: "cf_pc c t = E_Publish pos"
    and i: "i = unat pos mod 2 ^ k" and bound: "enqs c < 9223372036854775808"
  shows "conf_inv k (goto t Idle
    (set_cell i ((rg_cells (cf_ring c) i)\<lparr>cl_sequence := pos + 1\<rparr>) c))" (is "conf_inv k ?c")
proof -
  note I = conf_invD [OF inv]
  have P: "deqs c \<le> unat pos" "unat pos < enqs c" "sq c i = unat pos" "cf_in c ! unat pos = vl c i"
    using I(5) [of t] pc i by simp_all
  have s1: "unat (pos + 1) = Suc (unat pos)"
    using P(2) bound by (simp add: unat_pos_plus_one)
  have here: "holds k ?c (unat pos)"
    using P I(2) s1 i by (simp add: holds_def)
  have "awaits k ?c p" if "awaits k c p" "p mod 2 ^ k \<noteq> i" for p
    using that i pc writing_update [of c p ?c t Idle] by (auto simp: awaits_def)
  moreover have "holds k ?c p" if "holds k c p" "p mod 2 ^ k \<noteq> i" for p
    using that i pc reading_update [of c p ?c t Idle] by (auto simp: holds_def)
  ultimately have "cells_inv k ?c" using I(4) here i unfolding cells_inv_def by metis
  moreover have "pc_inv k ?c (cf_pc ?c u)" for u
    using I(5) [of u] exclusiveD [OF inv, of t u] pc P i s1 mod_Suc_pow [OF k, of "unat pos"]
      mod_Suc_pow [OF k]
    by (cases "cf_pc c u") (auto simp: word_unat_eq_iff)
  moreover have "exclusive ?c"
    by (intro exclusive_update [OF I(6), of _ t Idle]) auto
  moreover have "out_inv ?c"
    using I(7) pc not_reading_update [of c _ ?c t Idle] by (fastforce simp: out_inv_def)
  ultimately show ?thesis
    using I(1-3) unfolding conf_inv_def by simp
qed

lemma reserve_dequeue_inv:
  assumes inv: "conf_inv k c" and k: "0 < k" and pc: "cf_pc c t = D_Cas pos" "rg_dequeue_pos (cf_ring c) = pos"
    and bound: "deqs c < 9223372036854775807"
  shows "conf_inv k (goto t (D_Read pos) (c\<lparr>cf_ring := (cf_ring c)\<lparr>rg_dequeue_pos := pos + 1\<rparr>\<rparr>))"
    (is "conf_inv k ?c")
proof -
  note I = conf_invD [OF inv]
  have d1: "unat (pos + 1) = deqs c + 1" using bound pc by (simp add: unat_pos_plus_one)
  have sq: "sq c (deqs c mod 2 ^ k) = Suc (deqs c)" using I(5) [of t] pc by simp
  have ho: "holds k c (deqs c)" using inv k sq by (rule cell_of_holding)
  have "awaits k c p \<Longrightarrow> awaits k ?c p" for p
    using pc sq writing_update [of c p ?c t "D_Read pos"] by (auto simp: awaits_def d1 le_less)
  moreover have "holds k c p \<Longrightarrow> holds k ?c p" for p
    using pc reading_update [of c p ?c t "D_Read pos"]
    by (auto simp: holds_def d1 less_Suc_eq) (auto simp: reading_def)
  ultimately have "cells_inv k ?c" using I(4) unfolding cells_inv_def by blast
  moreover have "pc_inv k ?c (cf_pc ?c u)" for u
    using I(5) [of u] I(1,3) pc sq by (cases "cf_pc c u") (auto simp: d1 le_less)
  moreover have "exclusive ?c"
    using reader_facts [OF inv] pc by (intro exclusive_update [OF I(6), of _ t "D_Read pos"]) fastforce+
  moreover have "out_inv ?c"
    using I(7) pc d1 by (auto simp: out_inv_def reading_def split: if_splits)
  ultimately show ?thesis
    using I(1-3) ho unfolding conf_inv_def by (simp add: d1 holds_def)
qed

lemma release_inv:
  assumes inv: "conf_inv k c" and k: "0 < k" and pc: "cf_pc c t = D_Publish pos v"
    and i: "i = unat pos mod 2 ^ k" and cap: "unat cap = 2 ^ k"
    and bound: "enqs c + 2 ^ k < 9223372036854775808"
  shows "conf_inv k (goto t Idle (set_cell i ((rg_cells (cf_ring c) i)\<lparr>cl_sequence := pos + cap\<rparr>)
    (c\<lparr>cf_out := cf_out c @ [(unat pos, v)]\<rparr>)))" (is "conf_inv k ?c")
proof -
  note I = conf_invD [OF inv]
  have P: "unat pos < deqs c" "sq c i = Suc (unat pos)" "v = cf_in c ! unat pos"
    using I(5) [of t] pc i by simp_all
  have ho: "holds k c (unat pos)" using inv k P(2) i by (intro cell_of_holding) simp_all
  have s1: "unat (pos + cap) = unat pos + 2 ^ k"
    using P(1) I(1) bound cap by (simp add: unat_add_pos)
  have here: "awaits k ?c (unat pos + 2 ^ k)"
    using P I(1,2) ho s1 i by (simp add: awaits_def holds_def)
  have "awaits k ?c p" if "awaits k c p" "p mod 2 ^ k \<noteq> i" for p
    using that i pc writing_update [of c p ?c t Idle] by (auto simp: awaits_def)
  moreover have "holds k ?c p" if "holds k c p" "p mod 2 ^ k \<noteq> i" for p
    using that i pc reading_update [of c p ?c t Idle] by (auto simp: holds_def)
  moreover have "(unat pos + 2 ^ k) mod 2 ^ k = i" using i by simp
  ultimately have "cells_inv k ?c" using I(4) here i unfolding cells_inv_def by metis
  moreover have "pc_inv k ?c (cf_pc ?c u)" for u
    using I(5) [of u] exclusiveD [OF inv, of t u] pc P i s1 mod_eq_not_Suc [OF k, of _ "unat pos"] I(1) ho
    by (cases "cf_pc c u") (auto simp: word_unat_eq_iff holds_def)
  moreover have "exclusive ?c"
    by (intro exclusive_update [OF I(6), of _ t Idle]) auto
  moreover have "out_inv ?c"
  proof -
    have "reading c (unat pos)" using pc unfolding reading_def by (intro exI [of _ t]) simp
    moreover have "\<not> reading ?c (unat pos)"
      using exclusiveD(2) [OF inv, of t] pc by (auto simp: reading_def)
    ultimately show ?thesis
      using I(7) P pc not_reading_update [of c _ ?c t Idle]
      by (fastforce simp: out_inv_def image_iff)
  qed
  ultimately show ?thesis
    using I(1-3) unfolding conf_inv_def by simp
qed

lemma advance_inv:
  assumes inv: "conf_inv k c" and cap: "log2_of cap k"
    and bound: "length (cf_in (advance cap t s c)) + 2 ^ k < 9223372036854775808"
  shows "conf_inv k (advance cap t s c)"
proof -
  note I = conf_invD [OF inv] and idx = cell_index_mod [OF cap] and c2 = unat_cap [OF cap]
  have k: "0 < k" using cap by (simp add: log2_of_def)
  have "length (cf_in c) \<le> length (cf_in (advance cap t s c))"
    by (simp add: advance_def Let_def split: pc.split)
  with bound I(3) have b: "enqs c + 2 ^ k < 9223372036854775808" by simp
  then have bd: "deqs c < 9223372036854775807"
    using I(1) one_less_pow [OF k] by linarith
  have be: "enqs c < 9223372036854775807" using b one_less_pow [OF k] by linarith
  show ?thesis
  proof (cases "cf_pc c t")
    case (E_Pos v pos)
    then have "unat pos \<le> enqs c" using I(5) [of t] by simp
    with E_Pos inv show ?thesis
      by (auto simp: advance_def Let_def idx word_eq_iff_signed [symmetric] intro!: goto_inv)
  next
    case (E_Cas v pos)
    then show ?thesis
      using reserve_enqueue_inv [OF inv k E_Cas] be inv
      by (cases "rg_enqueue_pos (cf_ring c) = pos \<and> \<not> s")
        (simp add: advance_def Let_def, auto simp: advance_def Let_def intro!: goto_inv)
  next
    case (D_Pos pos)
    then have "unat pos \<le> deqs c" using I(5) [of t] by simp
    moreover from this bd have "unat (pos + 1) = Suc (unat pos)" by (simp add: unat_pos_plus_one)
    ultimately show ?thesis using D_Pos inv
      by (auto simp: advance_def Let_def idx word_eq_iff_signed [symmetric] intro!: goto_inv)
  next
    case (D_Cas pos)
    then show ?thesis
      using reserve_dequeue_inv [OF inv k D_Cas] bd inv
      by (cases "rg_dequeue_pos (cf_ring c) = pos \<and> \<not> s")
        (simp add: advance_def Let_def, auto simp: advance_def Let_def intro!: goto_inv)
  next
    case (D_Read pos)
    then have "holds k c (unat pos)" and "unat pos < deqs c"
      using I(5) [of t] by (auto intro: cell_of_holding [OF inv k])
    then show ?thesis using D_Read inv
      by (auto simp: advance_def Let_def idx holds_def intro!: goto_inv)
  next
    case (E_Write v pos)
    then show ?thesis
      using write_inv [OF inv k E_Write refl] by (simp add: advance_def Let_def idx)
  next
    case (E_Publish pos)
    then show ?thesis
      using publish_inv [OF inv k E_Publish refl] be by (simp add: advance_def Let_def idx)
  next
    case (D_Publish pos v)
    then show ?thesis
      using release_inv [OF inv k D_Publish refl c2 b] by (simp add: advance_def Let_def idx)
  qed (use inv in \<open>auto simp: advance_def Let_def intro!: goto_inv\<close>)
qed

lemma perform_inv:
  assumes "conf_inv k c" "log2_of cap k" "length (cf_in (perform cap c m)) + 2 ^ k < 9223372036854775808"
  shows "conf_inv k (perform cap c m)"
  using assms advance_inv [OF assms(1,2)] by (cases m) (auto intro!: goto_inv)

lemma perform_grows: "length (cf_in c) \<le> length (cf_in (perform cap c m)) \<and>
    length (cf_in (perform cap c m)) \<le> Suc (length (cf_in c))"
  by (cases m) (simp_all add: advance_def Let_def split: pc.split)

text \<open>The invariant holds as long as the positions stay in the range of the comparison.\<close>

definition sound :: "u64 \<Rightarrow> nat \<Rightarrow> 'a conf \<Rightarrow> bool" where
  "sound cap k c \<longleftrightarrow> log2_of cap k \<and>
     (length (cf_in c) + 2 ^ k < 9223372036854775808 \<longrightarrow> conf_inv k c)"

interpretation conc: machine "perform cap" "sound cap k" for cap k
proof
  fix c :: "'a conf" and m
  assume "sound cap k c"
  then show "sound cap k (perform cap c m)"
    using perform_inv [of k c cap m] perform_grows [of c cap m] by (auto simp: sound_def)
qed

lemma start_sound: "log2_of cap k \<Longrightarrow> sound cap k (start cap r)"
proof -
  assume l: "log2_of cap k"
  note R = ring_reset_ok [OF l, of r]
  have e: "enqs (start cap r) = 0" "deqs (start cap r) = 0"
    by (simp_all add: start_def ring_reset_def)
  have "awaits k (start cap r) i" if "i < 2 ^ k" for i
    using R that ring_okD(5) [of k "ring_reset cap r" i]
    by (simp add: awaits_def start_def ring_reset_def)
  then have "cells_inv k (start cap r)"
    unfolding cells_inv_def by (metis mod_less)
  with l e show ?thesis
    by (simp add: sound_def conf_inv_def exclusive_def out_inv_def start_def)
qed

lemma run_moves_length: "length (cf_in (foldl (perform cap) c ms)) \<le> length (cf_in c) + length ms"
proof (induction ms arbitrary: c)
  case (Cons m ms)
  show ?case using Cons [of "perform cap c m"] perform_grows [of c cap m] by (simp add: le_trans)
qed simp

lemma run_moves_inv:
  assumes "log2_of cap k" "length ms + 2 ^ k < 9223372036854775808"
  shows "conf_inv k (run_moves cap r ms)"
  using conc.inv_run [OF start_sound [OF assms(1)], of r ms]
    run_moves_length [of cap "start cap r" ms] assms(2)
  by (simp add: sound_def run_moves_def start_def)

section \<open>What every schedule guarantees\<close>

text \<open>C3
  Under every interleaving of any number of producers and consumers, each reserved position is
  returned by at most one removal, and it is returned with exactly the value that the producer of
  that position inserted: nothing is lost, duplicated or invented, and positions are handed out in
  the order of the reservations.
\<close>

theorem concurrent_fifo:
  assumes "log2_of cap k" "length ms + 2 ^ k < 9223372036854775808"
  shows "distinct (map fst (cf_out (run_moves cap r ms))) \<and>
    (\<forall>p v. (p, v) \<in> set (cf_out (run_moves cap r ms)) \<longrightarrow>
       p < length (cf_in (run_moves cap r ms)) \<and> v = cf_in (run_moves cap r ms) ! p)"
  using run_moves_inv [OF assms, of r] unfolding conf_inv_def out_inv_def by fastforce

theorem concurrent_fifo_witness:
  "(let ms = [Call_enqueue 0 (7 :: nat), Advance 0 False, Advance 0 True, Advance 0 False, Advance 0 False,
       Advance 0 False, Advance 0 False, Call_dequeue 1, Advance 1 False, Advance 1 False,
       Advance 1 False, Advance 1 False];
     c = run_moves 2 \<lparr>rg_cells = (\<lambda>_. \<lparr>cl_sequence = 0, cl_value = 0\<rparr>), rg_enqueue_pos = 0, rg_dequeue_pos = 0\<rparr> ms
    in cf_out c = [(0, 7)] \<and> distinct (map fst (cf_out c)))"
  using concurrent_fifo [of 2 1 "[Call_enqueue 0 (7 :: nat), Advance 0 False, Advance 0 True, Advance 0 False,
       Advance 0 False, Advance 0 False, Advance 0 False, Call_dequeue 1, Advance 1 False,
       Advance 1 False, Advance 1 False, Advance 1 False]"
    "\<lparr>rg_cells = (\<lambda>_. \<lparr>cl_sequence = 0, cl_value = 0\<rparr>), rg_enqueue_pos = 0, rg_dequeue_pos = 0\<rparr>"]
  unfolding Let_def
  by (simp add: log2_of_def run_moves_def start_def ring_reset_def advance_def goto_def set_cell_def
      cell_index_def kMask_def Let_def)

text \<open>The cell whose payload a thread is entitled to access.\<close>

definition owned_cell :: "u64 \<Rightarrow> 'a pc \<Rightarrow> nat option" where
  "owned_cell cap l = (case l of
       E_Write v p \<Rightarrow> Some (cell_index cap p)
     | E_Publish p \<Rightarrow> Some (cell_index cap p)
     | D_Read p \<Rightarrow> Some (cell_index cap p)
     | D_Publish p v \<Rightarrow> Some (cell_index cap p)
     | _ \<Rightarrow> None)"

lemma owned_cell_position:
  "log2_of cap k \<Longrightarrow> owned_cell cap l = Some i \<Longrightarrow>
   (\<exists>p. writes l = Some p \<and> p mod 2 ^ k = i) \<or> (\<exists>p. reads l = Some p \<and> p mod 2 ^ k = i)"
  by (auto simp: owned_cell_def cell_index_mod split: pc.splits)

text \<open>C4
  The payload of a cell is never accessed by two threads at once: between the reservation of a
  position and the store of the cell's sequence word, no other thread, producer or consumer, of any
  lap around the ring, is entitled to read or write the same cell.
\<close>

theorem concurrent_exclusive:
  assumes "log2_of cap k" "length ms + 2 ^ k < 9223372036854775808"
    and "t \<noteq> u" "owned_cell cap (cf_pc (run_moves cap r ms) t) = Some i"
  shows "owned_cell cap (cf_pc (run_moves cap r ms) u) \<noteq> Some i"
proof
  let ?c = "run_moves cap r ms"
  assume u: "owned_cell cap (cf_pc ?c u) = Some i"
  note inv = run_moves_inv [OF assms(1,2), of r]
  have k: "0 < k" using assms(1) by (simp add: log2_of_def)
  show False
    using owned_cell_position [OF assms(1,4)] owned_cell_position [OF assms(1) u]
      writer_facts [OF inv, of t] writer_facts [OF inv, of u]
      reader_facts [OF inv, of t] reader_facts [OF inv, of u]
      exclusiveD [OF inv assms(3)] mod_eq_not_Suc [OF k]
    by (elim disjE exE conjE) (metis nat.inject)+
qed

theorem concurrent_exclusive_witness:
  "owned_cell 2 (cf_pc (run_moves 2
      \<lparr>rg_cells = (\<lambda>_. \<lparr>cl_sequence = 0, cl_value = 0\<rparr>), rg_enqueue_pos = 0, rg_dequeue_pos = 0\<rparr>
      [Call_enqueue 0 (7 :: nat), Call_enqueue 1 8, Advance 0 False, Advance 1 False,
       Advance 0 False, Advance 1 False]) 1) \<noteq> Some 0"
  by (rule concurrent_exclusive [of 2 1 _ 0])
    (simp_all add: log2_of_def run_moves_def start_def ring_reset_def advance_def goto_def set_cell_def
      owned_cell_def cell_index_def kMask_def Let_def)

lemma mod_less_gap: "a < b \<Longrightarrow> a mod n = b mod n \<Longrightarrow> a + n \<le> b" for a b n :: nat
  using mod_close [of a n b] by force

lemma enqueue_refusal:
  assumes inv: "conf_inv k c" and cap: "log2_of cap k" and bound: "enqs c + 2 ^ k < 9223372036854775808"
    and pc: "cf_pc c t = E_Pos v pos" and idle: "cf_pc (advance cap t s c) t = Idle"
  shows "enqs c = deqs c + 2 ^ k \<or> reading c (enqs c - 2 ^ k)"
proof -
  note I = conf_invD [OF inv]
  have k: "0 < k" using cap by (simp add: log2_of_def)
  have p: "unat pos \<le> enqs c" using I(5) [of t] pc by simp
  have small: "x < 9223372036854775808" if "x \<le> enqs c + 2 ^ k" for x using that bound by simp
  from inv k have "sq c (unat pos mod 2 ^ k) \<le> enqs c + 2 ^ k"
    by (cases rule: cell_cases [of k c "unat pos"]) (use I(1) in \<open>auto simp: awaits_def holds_def\<close>)
  moreover have "sint (cl_sequence (rg_cells (cf_ring c) (unat pos mod 2 ^ k))) < sint pos"
    using idle pc by (auto simp: advance_def Let_def cell_index_mod [OF cap] split: if_splits)
  ultimately have less: "sq c (unat pos mod 2 ^ k) < unat pos"
    using p small [of "unat pos"] small [of "sq c (unat pos mod 2 ^ k)"] by (simp only: sint_less_pos)
  from inv k show ?thesis
  proof (cases rule: cell_cases [of k c "unat pos"])
    case awaits
    with less p mod_less_gap [OF less, of "2 ^ k"] I(2) show ?thesis by (auto simp: awaits_def)
  next
    case (holds q)
    with less p mod_less_gap [of q "unat pos" "2 ^ k"] I(2) have "enqs c = q + 2 ^ k"
      by (auto simp: holds_def)
    with holds I(1,2) show ?thesis by (cases "q < deqs c") (auto simp: holds_def)
  qed
qed

lemma dequeue_refusal:
  assumes inv: "conf_inv k c" and cap: "log2_of cap k" and bound: "enqs c + 2 ^ k < 9223372036854775808"
    and pc: "cf_pc c t = D_Pos pos" and idle: "cf_pc (advance cap t s c) t = Idle"
  shows "enqs c = deqs c \<or> writing c (deqs c)"
proof -
  note I = conf_invD [OF inv]
  have k: "0 < k" using cap by (simp add: log2_of_def)
  have p: "unat pos \<le> deqs c" using I(5) [of t] pc by simp
  have small: "x < 9223372036854775808" if "x \<le> enqs c + 2 ^ k" for x using that bound by simp
  have pos1: "unat (pos + 1) = Suc (unat pos)"
    using p I(1) bound one_less_pow [OF k] by (simp add: unat_pos_plus_one)
  from inv k have "sq c (unat pos mod 2 ^ k) \<le> enqs c + 2 ^ k"
    by (cases rule: cell_cases [of k c "unat pos"]) (use I(1) in \<open>auto simp: awaits_def holds_def\<close>)
  moreover have "sint (cl_sequence (rg_cells (cf_ring c) (unat pos mod 2 ^ k))) < sint (pos + 1)"
    using idle pc by (auto simp: advance_def Let_def cell_index_mod [OF cap] split: if_splits)
  moreover have "Suc (unat pos) \<le> enqs c + 2 ^ k" using p I(1) one_less_pow [OF k] by linarith
  ultimately have less: "sq c (unat pos mod 2 ^ k) < Suc (unat pos)"
    using small [of "Suc (unat pos)"] small [of "sq c (unat pos mod 2 ^ k)"]
    by (simp only: sint_less_pos pos1 [symmetric])
  from inv k show ?thesis
  proof (cases rule: cell_cases [of k c "unat pos"])
    case awaits
    with less p have "sq c (unat pos mod 2 ^ k) = deqs c" by (simp add: awaits_def)
    with awaits have "awaits k c (deqs c)" by simp
    with I(1) show ?thesis by (auto simp: awaits_def)
  next
    case (holds q)
    with less p mod_less_gap [of q "unat pos" "2 ^ k"] I(1) have "enqs c = deqs c"
      by (auto simp: holds_def)
    then show ?thesis by simp
  qed
qed

text \<open>
  A refused operation is justified.  When an insertion gives up, the ring has no free cell: it holds
  as many reserved elements as cells, or the consumer of the oldest one is still copying it out.
  When a removal gives up, there is no element, or the producer of the next one is still copying it in.
\<close>

lemma concurrent_refusal:
  assumes "log2_of cap k" "length ms + 2 ^ k < 9223372036854775808" "c = run_moves cap r ms"
  shows "(cf_pc c t = E_Pos v pos \<and> cf_pc (advance cap t s c) t = Idle \<longrightarrow>
      enqs c = deqs c + 2 ^ k \<or> reading c (enqs c - 2 ^ k)) \<and>
    (cf_pc c t = D_Pos pos \<and> cf_pc (advance cap t s c) t = Idle \<longrightarrow>
      enqs c = deqs c \<or> writing c (deqs c))"
proof -
  have inv: "conf_inv k c" using run_moves_inv [OF assms(1,2), of r] assms(3) by simp
  have bound: "enqs c + 2 ^ k < 9223372036854775808"
    using conf_invD(3) [OF inv] run_moves_length [of cap "start cap r" ms] assms(2,3)
    by (simp add: run_moves_def start_def)
  show ?thesis
    using enqueue_refusal [OF inv assms(1) bound, of t v pos s] dequeue_refusal [OF inv assms(1) bound, of t pos s]
    by blast
qed

lemma concurrent_refusal_sample:
  "(let ms = [Call_enqueue 0 (7 :: nat), Advance 0 False, Advance 0 False, Call_dequeue 1];
     c = run_moves 2 \<lparr>rg_cells = (\<lambda>_. \<lparr>cl_sequence = 0, cl_value = 0\<rparr>), rg_enqueue_pos = 0, rg_dequeue_pos = 0\<rparr> ms
    in cf_pc (advance 2 1 False c) 1 = Idle \<and> writing c 0)"
  using concurrent_refusal [of 2 1 "[Call_enqueue 0 (7 :: nat), Advance 0 False, Advance 0 False, Call_dequeue 1]"
      "run_moves 2 \<lparr>rg_cells = (\<lambda>_. \<lparr>cl_sequence = 0, cl_value = 0\<rparr>), rg_enqueue_pos = 0, rg_dequeue_pos = 0\<rparr>
        [Call_enqueue 0 (7 :: nat), Advance 0 False, Advance 0 False, Call_dequeue 1]"
      "\<lparr>rg_cells = (\<lambda>_. \<lparr>cl_sequence = 0, cl_value = 0\<rparr>), rg_enqueue_pos = 0, rg_dequeue_pos = 0\<rparr>" 1 7 0 False]
  unfolding Let_def
  by (simp add: log2_of_def run_moves_def start_def ring_reset_def advance_def goto_def set_cell_def
      cell_index_def kMask_def Let_def)
end
