(* ===== verification/InputArbiter.thy ===== *)
theory InputArbiter
  imports RuntimePolicy Interfaces
begin

text \<open>
  The input arbiter of \<open>src/input_arbiter.h\<close> and \<open>src/input_arbiter.cpp\<close>: per latency frontend a
  quality score, the evidence seen, and the position of its last native frame in a shared activity
  sequence; the selection among the frontends.  One call is one step; \<open>state_\<close> is a function from
  the four frontend indexes.
\<close>

datatype input_evidence =
  EvidenceNone | Capability | Context | Control | Sleep | Marker | AsyncMarker | FrameGen

fun evidence_code :: "input_evidence \<Rightarrow> u16" where
  "evidence_code EvidenceNone = 0"
| "evidence_code Capability = shl1 0"
| "evidence_code Context = shl1 1"
| "evidence_code Control = shl1 2"
| "evidence_code Sleep = shl1 3"
| "evidence_code Marker = shl1 4"
| "evidence_code AsyncMarker = shl1 5"
| "evidence_code FrameGen = shl1 6"

record observation_state =
  os_last_frame_id :: u64
  os_last_sequence :: u64
  os_marker_mask :: u16
  os_evidence_mask :: u16
  os_quality :: u8
  os_seen :: bool

record arbiter =
  ia_state :: "nat \<Rightarrow> observation_state"
  ia_sequence :: u64

record input_recognition =
  ir_last_frame_id :: u64
  ir_last_sequence :: u64
  ir_marker_mask :: u16
  ir_evidence_mask :: u16
  ir_quality :: u8
  ir_seen :: bool
  ir_fresh :: bool

definition kStaleObservationWindow :: u64 where "kStaleObservationWindow = 16"
definition kSwitchQualityMargin :: nat where "kSwitchQualityMargin = 8"

fun arbiter_index :: "input_frontend \<Rightarrow> nat option" where
  "arbiter_index Reflex = Some 0"
| "arbiter_index VkNvLowLatency2 = Some 1"
| "arbiter_index XeLL = Some 2"
| "arbiter_index AntiLag2 = Some 3"
| "arbiter_index FE_Auto = None"

text \<open>\<open>priority_of\<close> returns \<open>0xff\<close> for an unlisted frontend.\<close>

fun priority_from :: "input_frontend list \<Rightarrow> nat \<Rightarrow> input_frontend \<Rightarrow> u8" where
  "priority_from [] i f = 0xff"
| "priority_from (x # xs) i f = (if x = f then word_of_nat i else priority_from xs (Suc i) f)"

definition priority_of :: "snapshot \<Rightarrow> input_frontend \<Rightarrow> u8" where
  "priority_of sn f = priority_from (fo_list (ip_priority (sn_input sn))) 0 f"

definition observation_zero :: observation_state where
  "observation_zero = \<lparr>os_last_frame_id = 0, os_last_sequence = 0, os_marker_mask = 0,
     os_evidence_mask = 0, os_quality = 0, os_seen = False\<rparr>"

definition arbiter_reset :: arbiter where
  "arbiter_reset = \<lparr>ia_state = (\<lambda>_. observation_zero), ia_sequence = 0\<rparr>"

fun evidence_bonus :: "input_evidence \<Rightarrow> nat" where
  "evidence_bonus Capability = 2"
| "evidence_bonus Context = 8"
| "evidence_bonus Control = 14"
| "evidence_bonus Sleep = 18"
| "evidence_bonus Marker = 4"
| "evidence_bonus AsyncMarker = 8"
| "evidence_bonus FrameGen = 10"
| "evidence_bonus EvidenceNone = 0"

text \<open>\<open>std::min<int>(100, score + n)\<close>, narrowed to a byte.\<close>

definition raise_score :: "u8 \<Rightarrow> nat \<Rightarrow> u8" where
  "raise_score score n = word_of_nat (min 100 (unat score + n))"

definition note_state :: "input_evidence \<Rightarrow> observation_state \<Rightarrow> observation_state" where
  "note_state e s =
     (if os_evidence_mask s AND evidence_code e \<noteq> 0 then s
      else s\<lparr>os_evidence_mask := os_evidence_mask s OR evidence_code e,
             os_quality := raise_score (os_quality s) (evidence_bonus e)\<rparr>)"

definition note_evidence :: "arbiter \<Rightarrow> input_frontend \<Rightarrow> input_evidence \<Rightarrow> arbiter" where
  "note_evidence a f e =
     (case arbiter_index f of
        None \<Rightarrow> a
      | Some i \<Rightarrow>
          if e = EvidenceNone then a
          else a\<lparr>ia_state := (ia_state a)(i := note_state e (ia_state a i))\<rparr>)"

definition observed_bit :: "normalized_marker \<Rightarrow> u16" where
  "observed_bit m = shl1 (marker_code m mod 16)"

text \<open>The score after one observed marker, from the state before it.\<close>

definition observe_score :: "observation_state \<Rightarrow> normalized_marker \<Rightarrow> u64 \<Rightarrow> u8" where
  "observe_score s m frame_id =
     (let score = (if os_seen s then os_quality s else max 20 (os_quality s));
          score = (if os_seen s
                   then (if frame_id > os_last_frame_id s then raise_score score 4
                         else if frame_id < os_last_frame_id s
                         then (if score > 12 then score - 12 else 0) else score)
                   else score)
      in if os_marker_mask s AND observed_bit m = 0
         then (let score = raise_score score 8 in
               if m \<in> {SimulationStart, PresentStart, RenderSubmitStart, InputSample}
               then raise_score score 5 else score)
         else score)"

definition observe :: "arbiter \<Rightarrow> input_frontend \<Rightarrow> normalized_marker \<Rightarrow> u64 \<Rightarrow> arbiter" where
  "observe a0 f m frame_id =
     (case arbiter_index f of
        None \<Rightarrow> a0
      | Some i \<Rightarrow>
          let a = note_evidence a0 f Marker;
              s = ia_state a i;
              frame_advanced = (\<not> os_seen s \<or> os_last_frame_id s \<noteq> frame_id);
              sequence = (if frame_advanced then ia_sequence a + 1 else ia_sequence a)
          in a\<lparr>ia_sequence := sequence,
               ia_state := (ia_state a)(i := s\<lparr>
                 os_seen := True,
                 os_last_frame_id := frame_id,
                 os_last_sequence := (if frame_advanced then sequence else os_last_sequence s),
                 os_quality := observe_score s m frame_id,
                 os_marker_mask := os_marker_mask s OR observed_bit m\<rparr>)\<rparr>)"

definition quality :: "arbiter \<Rightarrow> input_frontend \<Rightarrow> u8" where
  "quality a f = (case arbiter_index f of Some i \<Rightarrow> os_quality (ia_state a i) | None \<Rightarrow> 0)"

definition last_frame_id :: "arbiter \<Rightarrow> input_frontend \<Rightarrow> u64" where
  "last_frame_id a f = (case arbiter_index f of Some i \<Rightarrow> os_last_frame_id (ia_state a i) | None \<Rightarrow> 0)"

definition observed_marker_mask :: "arbiter \<Rightarrow> input_frontend \<Rightarrow> u16" where
  "observed_marker_mask a f = (case arbiter_index f of Some i \<Rightarrow> os_marker_mask (ia_state a i) | None \<Rightarrow> 0)"

definition evidence_mask :: "arbiter \<Rightarrow> input_frontend \<Rightarrow> u16" where
  "evidence_mask a f = (case arbiter_index f of Some i \<Rightarrow> os_evidence_mask (ia_state a i) | None \<Rightarrow> 0)"

definition observation_sequence :: "arbiter \<Rightarrow> u64" where
  "observation_sequence a = ia_sequence a"

text \<open>A frontend is current while the others have not advanced more than the window past it.\<close>

definition within_window :: "u64 \<Rightarrow> u64 \<Rightarrow> bool" where
  "within_window now l \<longleftrightarrow> now \<ge> l \<and> now - l \<le> kStaleObservationWindow"

definition fresh :: "arbiter \<Rightarrow> input_frontend \<Rightarrow> bool" where
  "fresh a f =
     (case arbiter_index f of
        None \<Rightarrow> False
      | Some i \<Rightarrow> os_seen (ia_state a i) \<and> within_window (ia_sequence a) (os_last_sequence (ia_state a i)))"

definition arbiter_recognition :: "arbiter \<Rightarrow> input_frontend \<Rightarrow> input_recognition" where
  "arbiter_recognition a f =
     (case arbiter_index f of
        None \<Rightarrow> \<lparr>ir_last_frame_id = 0, ir_last_sequence = 0, ir_marker_mask = 0, ir_evidence_mask = 0,
                 ir_quality = 0, ir_seen = False, ir_fresh = False\<rparr>
      | Some i \<Rightarrow>
          let s = ia_state a i in
          \<lparr>ir_last_frame_id = os_last_frame_id s, ir_last_sequence = os_last_sequence s,
           ir_marker_mask = os_marker_mask s, ir_evidence_mask = os_evidence_mask s,
           ir_quality = os_quality s, ir_seen = os_seen s, ir_fresh = fresh a f\<rparr>)"

section \<open>Selection\<close>

text \<open>The quality of an eligible frontend, None if it is not one; \<open>now\<close> is read once per selection.\<close>

definition candidate_quality ::
  "arbiter \<Rightarrow> snapshot \<Rightarrow> u8 \<Rightarrow> u64 \<Rightarrow> input_frontend \<Rightarrow> u8 option" where
  "candidate_quality a sn eligible_mask now f =
     (case arbiter_index f of
        None \<Rightarrow> None
      | Some i \<Rightarrow>
          let s = ia_state a i in
          if eligible_mask AND shl1 i = 0 then None
          else if \<not> os_seen s then None
          else if now < os_last_sequence s \<or> now - os_last_sequence s > kStaleObservationWindow then None
          else if os_quality s < ip_minimum_quality (sn_input sn) then None
          else Some (os_quality s))"

text \<open>The loop over the priority list: best frontend so far with its quality and position.\<close>

fun select_loop ::
  "(input_frontend \<Rightarrow> 'q::linorder option) \<Rightarrow> input_frontend list \<Rightarrow> nat \<Rightarrow>
   (input_frontend \<times> 'q \<times> nat) option \<Rightarrow> (input_frontend \<times> 'q \<times> nat) option" where
  "select_loop cq [] i best = best"
| "select_loop cq (f # fs) i best =
     (case cq f of
        None \<Rightarrow> select_loop cq fs (Suc i) best
      | Some q \<Rightarrow>
          select_loop cq fs (Suc i)
            (case best of
               None \<Rightarrow> Some (f, q, i)
             | Some (b, bq, bp) \<Rightarrow>
                 if q > bq \<or> (q = bq \<and> i < bp) then Some (f, q, i) else Some (b, bq, bp)))"

definition select ::
  "arbiter \<Rightarrow> snapshot \<Rightarrow> input_frontend \<Rightarrow> u8 \<Rightarrow> input_frontend option" where
  "select a sn current eligible_mask =
     (let cq = candidate_quality a sn eligible_mask (ia_sequence a);
          mode = ip_mode (sn_input sn) in
      if mode \<noteq> FE_Auto \<and> cq mode \<noteq> None then Some mode
      else if mode \<noteq> FE_Auto \<and> \<not> gp_allow_fallback (sn_general sn) then None
      else
        let best = select_loop cq (fo_list (ip_priority (sn_input sn))) 0 None;
            chosen = map_option fst best in
        if current \<noteq> FE_Auto \<and> priority_of sn current \<noteq> 0xff
        then (case cq current of
                None \<Rightarrow> chosen
              | Some current_quality \<Rightarrow>
                  (case best of
                     None \<Rightarrow> Some current
                   | Some (b, bq, bp) \<Rightarrow>
                       if b = current then Some current
                       else if unat bq < unat current_quality + kSwitchQualityMargin then Some current
                       else chosen))
        else chosen)"

section \<open>Scores, evidence and activity\<close>

lemma unat_raise_score: "unat (raise_score s n) = min 100 (unat s + n)"
  by (simp add: raise_score_def unsigned_of_nat take_bit_nat_eq_self)

lemma raise_score_le: "unat (raise_score s n) \<le> 100"
  by (simp add: unat_raise_score)

lemma raise_score_ge: "unat s \<le> 100 \<Longrightarrow> s \<le> raise_score s n"
  by (simp add: word_le_nat_alt unat_raise_score)

lemma observe_score_le: "unat (os_quality s) \<le> 100 \<Longrightarrow> unat (observe_score s m fid) \<le> 100"
  by (auto simp: observe_score_def Let_def raise_score_le unat_max unat_sub word_less_nat_alt word_le_nat_alt)

lemma note_state_le: "unat (os_quality s) \<le> 100 \<Longrightarrow> unat (os_quality (note_state e s)) \<le> 100"
  by (simp add: note_state_def raise_score_le)

lemma note_state_idem: "e \<noteq> EvidenceNone \<Longrightarrow> note_state e (note_state e s) = note_state e s"
  by (cases e) (auto simp: note_state_def and_shl1_eq_0_iff bit_or_shl1)

lemma note_state_frame [simp]:
  "os_seen (note_state e s) = os_seen s" "os_last_frame_id (note_state e s) = os_last_frame_id s"
  "os_last_sequence (note_state e s) = os_last_sequence s" "os_marker_mask (note_state e s) = os_marker_mask s"
  by (simp_all add: note_state_def)

lemma note_state_noted: "e \<noteq> EvidenceNone \<Longrightarrow> os_evidence_mask (note_state e s) AND evidence_code e \<noteq> 0"
  by (cases e) (auto simp: note_state_def and_shl1_eq_0_iff bit_or_shl1)

lemma note_state_fixed: "os_evidence_mask s AND evidence_code e \<noteq> 0 \<Longrightarrow> note_state e s = s"
  by (simp add: note_state_def)

lemma observed_bit_nonzero: "observed_bit m \<noteq> 0"
  by (cases m) (simp_all add: observed_bit_def shl1_def)

text \<open>The calls that change an arbiter.\<close>

datatype arbiter_call = Note input_frontend input_evidence | Observe input_frontend normalized_marker u64 | Reset

fun arbiter_step :: "arbiter \<Rightarrow> arbiter_call \<Rightarrow> arbiter" where
  "arbiter_step a (Note f e) = note_evidence a f e"
| "arbiter_step a (Observe f m fid) = observe a f m fid"
| "arbiter_step a Reset = arbiter_reset"

definition arbiter_ok :: "arbiter \<Rightarrow> bool" where
  "arbiter_ok a \<longleftrightarrow> (\<forall>i. unat (os_quality (ia_state a i)) \<le> 100)"

interpretation arb: machine arbiter_step arbiter_ok
proof
  fix a c
  assume ok: "arbiter_ok a"
  show "arbiter_ok (arbiter_step a c)"
  proof (cases c)
    case (Note f e)
    with ok show ?thesis
      by (auto simp: arbiter_ok_def note_evidence_def note_state_le split: option.split)
  next
    case (Observe f m fid)
    with ok show ?thesis
      by (auto simp: arbiter_ok_def observe_def note_evidence_def Let_def note_state_le
          split: option.split intro!: observe_score_le)
  next
    case Reset
    then show ?thesis by (simp add: arbiter_ok_def arbiter_reset_def observation_zero_def)
  qed
qed

lemma arbiter_reset_ok: "arbiter_ok arbiter_reset"
  by (simp add: arbiter_ok_def arbiter_reset_def observation_zero_def)

text \<open>
  After any sequence of calls the quality of every frontend lies between 0 and 100, although the
  score is a byte that every observation raises or lowers.
\<close>

lemma quality_bounded:
  "quality (foldl arbiter_step arbiter_reset cs) f \<le> 100"
proof -
  have "arbiter_ok (foldl arbiter_step arbiter_reset cs)"
    by (rule arb.inv_run [OF arbiter_reset_ok])
  then show ?thesis
    by (auto simp: quality_def arbiter_ok_def word_le_nat_alt split: option.split)
qed

lemma observe_fixed:
  assumes "arbiter_index f = Some i" "os_seen (ia_state a i)" "os_last_frame_id (ia_state a i) = fid"
    and "os_evidence_mask (ia_state a i) AND evidence_code Marker \<noteq> 0"
    and "os_marker_mask (ia_state a i) OR observed_bit m = os_marker_mask (ia_state a i)"
  shows "observe a f m fid = a"
proof (rule arbiter.equality)
  have n: "note_evidence a f Marker = a"
    using assms(1) note_state_fixed [OF assms(4)] by (simp add: note_evidence_def)
  have "os_marker_mask (ia_state a i) AND observed_bit m = observed_bit m"
    by (subst assms(5) [symmetric]) (auto simp: bit_eq_iff bit_and_iff bit_or_iff)
  then have score: "observe_score (ia_state a i) m fid = os_quality (ia_state a i)"
    using assms(2,3) observed_bit_nonzero [of m] by (simp add: observe_score_def Let_def)
  show "ia_state (observe a f m fid) = ia_state a"
    using assms by (auto simp: fun_eq_iff observe_def n Let_def score intro!: observation_state.equality)
  show "ia_sequence (observe a f m fid) = ia_sequence a"
    using assms by (simp add: observe_def n Let_def)
qed simp

text \<open>
  Repeating a callback of the same native frame changes nothing: neither the score, nor the shared
  activity sequence, nor what is known about the frontend.
\<close>

lemma observe_idempotent:
  "observe (observe a f m fid) f m fid = observe a f m fid"
proof (cases "arbiter_index f")
  case None
  then show ?thesis by (simp add: observe_def)
next
  case (Some i)
  then show ?thesis
    using note_state_noted [of Marker "ia_state a i"]
    by (intro observe_fixed) (auto simp: observe_def note_evidence_def Let_def or.assoc)
qed

text \<open>One native frame of one frontend, however many callbacks report it.\<close>

definition observe_frame :: "arbiter \<Rightarrow> input_frontend \<Rightarrow> u64 \<Rightarrow> normalized_marker list \<Rightarrow> arbiter" where
  "observe_frame a f fid ms = foldl (\<lambda>a m. observe a f m fid) a ms"

lemma observe_frame_later:
  "arbiter_index f = Some i \<Longrightarrow> os_seen (ia_state a i) \<Longrightarrow> os_last_frame_id (ia_state a i) = fid \<Longrightarrow>
   ia_sequence (observe_frame a f fid ms) = ia_sequence a"
  by (induction ms arbitrary: a)
     (simp_all add: observe_frame_def observe_def note_evidence_def Let_def)

lemma observe_other: "arbiter_index f \<noteq> Some j \<Longrightarrow> ia_state (observe a f m fid) j = ia_state a j"
  by (cases "arbiter_index f") (auto simp: observe_def note_evidence_def Let_def)

text \<open>
  Freshness is counted in native frames, not in callbacks: all the markers of one native frame of a
  frontend advance the shared activity sequence by at most one, and leave every other frontend's
  record as it was.
\<close>

lemma frame_ages_once:
  "ia_sequence (observe_frame a f fid ms) \<in> {ia_sequence a, ia_sequence a + 1} \<and>
   (arbiter_index f = Some j \<or> ia_state (observe_frame a f fid ms) j = ia_state a j)"
proof
  show "arbiter_index f = Some j \<or> ia_state (observe_frame a f fid ms) j = ia_state a j"
    by (induction ms arbitrary: a) (simp add: observe_frame_def, simp add: observe_frame_def, metis observe_other)
  show "ia_sequence (observe_frame a f fid ms) \<in> {ia_sequence a, ia_sequence a + 1}"
  proof (cases ms)
    case Nil
    then show ?thesis by (simp add: observe_frame_def)
  next
    case (Cons m ms')
    let ?a = "observe a f m fid"
    have split: "observe_frame a f fid ms = observe_frame ?a f fid ms'"
      by (simp add: Cons observe_frame_def)
    show ?thesis
    proof (cases "arbiter_index f")
      case None
      then have "observe_frame a f fid ms = a"
        by (induction ms) (simp_all add: observe_frame_def observe_def)
      then show ?thesis by simp
    next
      case (Some i)
      have "ia_sequence (observe_frame ?a f fid ms') = ia_sequence ?a"
        using Some by (intro observe_frame_later) (auto simp: observe_def note_evidence_def Let_def)
      then show ?thesis
        using Some by (simp add: split observe_def note_evidence_def Let_def)
    qed
  qed
qed

section \<open>What the loop finds, and what the selection answers\<close>

text \<open>The best entry of a list: of the highest quality, and the first of those.\<close>

definition best_in ::
  "(input_frontend \<Rightarrow> 'q::linorder option) \<Rightarrow> input_frontend list \<Rightarrow> (input_frontend \<times> 'q \<times> nat) option \<Rightarrow> bool" where
  "best_in cq fs r =
     (case r of
        None \<Rightarrow> \<forall>f \<in> set fs. cq f = None
      | Some (f, q, p) \<Rightarrow> p < length fs \<and> fs ! p = f \<and> cq f = Some q \<and>
          (\<forall>j < length fs. \<forall>q'. cq (fs ! j) = Some q' \<longrightarrow> q' \<le> q \<and> (j < p \<longrightarrow> q' < q)))"

lemma best_in_skip: "best_in cq fs r \<Longrightarrow> cq f = None \<Longrightarrow> best_in cq (fs @ [f]) r"
  by (auto simp: best_in_def nth_append less_Suc_eq split: option.splits)

lemma best_in_take:
  assumes "best_in cq fs r" "cq f = Some q"
  shows "best_in cq (fs @ [f])
    (case r of None \<Rightarrow> Some (f, q, length fs)
     | Some (b, bq, bp) \<Rightarrow>
         if q > bq \<or> (q = bq \<and> length fs < bp) then Some (f, q, length fs) else Some (b, bq, bp))"
proof (cases r)
  case None
  with assms show ?thesis
    by (auto simp: best_in_def nth_append less_Suc_eq)
next
  case (Some x)
  obtain b bq bp where x: "x = (b, bq, bp)" by (cases x) auto
  show ?thesis
  proof (cases "q > bq")
    case True
    then have "q' \<le> bq \<Longrightarrow> q' < q" for q' by (meson le_less_trans)
    with True assms Some x show ?thesis
      by (auto simp: best_in_def nth_append less_Suc_eq less_imp_le)
  next
    case False
    with assms Some x show ?thesis
      by (auto simp: best_in_def nth_append less_Suc_eq not_less)
  qed
qed

lemma select_loop_best:
  "best_in cq fs0 best \<Longrightarrow> best_in cq (fs0 @ fs) (select_loop cq fs (length fs0) best)"
proof (induction fs arbitrary: fs0 best)
  case Nil
  then show ?case by simp
next
  case (Cons f fs)
  show ?case
  proof (cases "cq f")
    case None
    with Cons.IH [of "fs0 @ [f]" best] best_in_skip [OF Cons.prems] show ?thesis by simp
  next
    case (Some q)
    with Cons.IH [OF best_in_take [OF Cons.prems Some]] show ?thesis
      by (simp split del: if_split)
  qed
qed

lemma select_loop_first: "best_in cq fs (select_loop cq fs 0 None)"
  using select_loop_best [of cq "[]" None fs] by (simp add: best_in_def)

abbreviation priorities :: "snapshot \<Rightarrow> input_frontend list" where
  "priorities sn \<equiv> fo_list (ip_priority (sn_input sn))"

abbreviation candidate :: "arbiter \<Rightarrow> snapshot \<Rightarrow> u8 \<Rightarrow> input_frontend \<Rightarrow> u8 option" where
  "candidate a sn em \<equiv> candidate_quality a sn em (ia_sequence a)"

text \<open>Why a frontend is a candidate.\<close>

lemma candidate_Some:
  "candidate a sn em f = Some q \<longleftrightarrow>
     f \<noteq> FE_Auto \<and> fresh a f \<and> quality a f = q \<and> ip_minimum_quality (sn_input sn) \<le> q \<and>
     (\<exists>i. arbiter_index f = Some i \<and> bit em i)"
  by (cases f) (auto simp: candidate_quality_def Let_def fresh_def quality_def within_window_def
      and_shl1_eq_0_iff not_less not_le)

lemma priority_from_listed:
  "i + length fs \<le> 255 \<Longrightarrow> priority_from fs i f \<noteq> 0xff \<longleftrightarrow> f \<in> set fs"
proof (induction fs arbitrary: i)
  case Nil
  then show ?case by simp
next
  case (Cons x fs)
  have "(word_of_nat i :: u8) = 0xff \<longleftrightarrow> i mod 256 = 255"
    by (simp add: word_unat_eq_iff unsigned_of_nat take_bit_eq_mod)
  with Cons show ?case by auto
qed

lemma select_automatic:
  assumes "ip_mode (sn_input sn) = FE_Auto"
  shows "select a sn current em =
    (let best = select_loop (candidate a sn em) (priorities sn) 0 None in
     case (if current \<noteq> FE_Auto \<and> priority_of sn current \<noteq> 0xff then candidate a sn em current else None) of
       None \<Rightarrow> map_option fst best
     | Some cur \<Rightarrow>
         (case best of None \<Rightarrow> Some current
          | Some (b, bq, bp) \<Rightarrow>
              if b = current \<or> unat bq < unat cur + kSwitchQualityMargin then Some current else Some b))"
  using assms by (auto simp: select_def Let_def split: option.splits)

text \<open>
  A selected frontend is never the automatic one; it has been observed, is not stale, reaches the
  configured minimum quality and is eligible.
\<close>

lemma select_sound:
  assumes "select a sn current em = Some f"
  shows "f \<noteq> FE_Auto \<and> fresh a f \<and> ip_minimum_quality (sn_input sn) \<le> quality a f \<and>
    (\<exists>i. arbiter_index f = Some i \<and> bit em i)"
proof -
  have "\<exists>q. candidate a sn em f = Some q"
    using assms select_loop_first [of "candidate a sn em" "priorities sn"]
    by (auto simp: select_def Let_def best_in_def split: if_splits option.splits)
  then show ?thesis by (auto simp: candidate_Some)
qed

text \<open>An arbiter that has seen Reflex at quality 70 and XeLL at quality 75.\<close>

definition sample_arbiter :: arbiter where
  "sample_arbiter = \<lparr>ia_state = (\<lambda>i. \<lparr>os_last_frame_id = 9, os_last_sequence = 2, os_marker_mask = 3,
     os_evidence_mask = 16, os_quality = (if i = 0 then 70 else 75), os_seen = (i = 0 \<or> i = 2)\<rparr>),
     ia_sequence = 3\<rparr>"

lemma sample_candidates:
  "candidate sample_arbiter default_snapshot 15 Reflex = Some 70"
  "candidate sample_arbiter default_snapshot 15 XeLL = Some 75"
  "candidate sample_arbiter default_snapshot 15 AntiLag2 = None"
  "candidate sample_arbiter default_snapshot 15 VkNvLowLatency2 = None"
  by (simp_all add: candidate_quality_def sample_arbiter_def default_snapshot_def default_input_def
      kStaleObservationWindow_def shl1_def Let_def)

lemma sample_priorities: "priorities default_snapshot = [Reflex, XeLL, AntiLag2, VkNvLowLatency2]"
  by (simp add: default_snapshot_def default_input_def default_input_priority_def fo_list_push)

lemma sample_mode: "ip_mode (sn_input default_snapshot) = FE_Auto"
  by (simp add: default_snapshot_def default_input_def)

lemmas sample_facts = sample_candidates sample_priorities sample_mode priority_of_def kSwitchQualityMargin_def

text \<open>
  In automatic mode without a healthy incumbent the selection is the best candidate of the priority
  list: no listed candidate has a higher quality, those before it have a lower one, and there is no
  selection only when no listed frontend is a candidate.
\<close>

lemma select_best:
  assumes "ip_mode (sn_input sn) = FE_Auto" "candidate a sn em current = None"
  shows "case select a sn current em of
      None \<Rightarrow> \<forall>f \<in> set (priorities sn). candidate a sn em f = None
    | Some f \<Rightarrow> \<exists>p < length (priorities sn). priorities sn ! p = f \<and>
        (\<forall>j < length (priorities sn). \<forall>q. candidate a sn em (priorities sn ! j) = Some q \<longrightarrow>
           q \<le> quality a f \<and> (j < p \<longrightarrow> q < quality a f))"
proof -
  have eq: "select a sn current em =
      map_option fst (select_loop (candidate a sn em) (priorities sn) 0 None)"
    using assms by (simp add: select_automatic Let_def)
  show ?thesis
    using select_loop_first [of "candidate a sn em" "priorities sn"] unfolding eq
    by (auto simp: best_in_def candidate_Some split: option.splits)
qed

lemma select_best_sample:
  "\<exists>f. select sample_arbiter default_snapshot VkNvLowLatency2 15 = Some f \<and> 75 \<le> quality sample_arbiter f"
proof (cases "select sample_arbiter default_snapshot VkNvLowLatency2 15")
  case None
  then show ?thesis
    using select_best [OF sample_mode sample_candidates(4)] by (simp add: sample_facts)
next
  case (Some f)
  then have "\<forall>j < length (priorities default_snapshot). \<forall>q.
      candidate sample_arbiter default_snapshot 15 (priorities default_snapshot ! j) = Some q \<longrightarrow>
        q \<le> quality sample_arbiter f"
    using select_best [OF sample_mode sample_candidates(4)] by auto
  from this [rule_format, of 1 75] Some show ?thesis by (simp add: sample_facts)
qed

text \<open>
  Hysteresis: in automatic mode a healthy incumbent of the priority list is kept unless a listed
  candidate is better by the switch margin; and the selection moves only to such a candidate.
\<close>

lemma select_hysteresis:
  assumes "ip_mode (sn_input sn) = FE_Auto" "candidate a sn em current = Some cur"
    and "priority_of sn current \<noteq> 0xff"
  shows "(if \<exists>f \<in> set (priorities sn). \<exists>q. candidate a sn em f = Some q \<and> unat cur + 8 \<le> unat q
    then \<exists>f \<in> set (priorities sn). select a sn current em = Some f \<and> unat cur + 8 \<le> unat (quality a f)
    else select a sn current em = Some current)"
proof -
  let ?best = "select_loop (candidate a sn em) (priorities sn) 0 None"
  have B: "best_in (candidate a sn em) (priorities sn) ?best" by (rule select_loop_first)
  have c: "current \<noteq> FE_Auto" using assms(2) candidate_Some by blast
  have S: "select a sn current em = (case ?best of None \<Rightarrow> Some current
      | Some (b, bq, bp) \<Rightarrow> if b = current \<or> unat bq < unat cur + 8 then Some current else Some b)"
    using assms(2,3) c unfolding select_automatic [OF assms(1)] Let_def kSwitchQualityMargin_def by simp
  show ?thesis
  proof (cases ?best)
    case None
    with B S show ?thesis by (auto simp: best_in_def)
  next
    case (Some x)
    obtain b bq bp where x: "x = (b, bq, bp)" by (cases x) auto
    from B Some x have b: "b \<in> set (priorities sn)" "candidate a sn em b = Some bq"
      by (auto simp: best_in_def)
    have max: "q \<le> bq" if "f \<in> set (priorities sn)" "candidate a sn em f = Some q" for f q
      using B that unfolding Some x best_in_def by (auto simp: in_set_conv_nth)
    show ?thesis
    proof (cases "unat cur + 8 \<le> unat bq")
      case True
      then have "b \<noteq> current" using b(2) assms(2) by auto
      with True S Some x b candidate_Some [of a sn em b bq] show ?thesis by auto
    next
      case False
      then have "\<not> unat cur + 8 \<le> unat q" if "f \<in> set (priorities sn)" "candidate a sn em f = Some q" for f q
        using max [OF that] by (simp add: word_le_nat_alt)
      with False S Some x show ?thesis by auto
    qed
  qed
qed

lemma select_hysteresis_sample:
  "select sample_arbiter default_snapshot Reflex 15 = Some Reflex"
  using select_hysteresis [of default_snapshot sample_arbiter 15 Reflex 70]
  by (simp add: sample_facts)

text \<open>
  A configured frontend is authoritative: it is selected whenever it is a candidate, and nothing is
  selected otherwise when fallbacks are disabled.
\<close>

lemma select_forced:
  assumes "ip_mode (sn_input sn) = f" "f \<noteq> FE_Auto"
  shows "(candidate a sn em f \<noteq> None \<longrightarrow> select a sn current em = Some f) \<and>
    (candidate a sn em f = None \<and> \<not> gp_allow_fallback (sn_general sn) \<longrightarrow> select a sn current em = None)"
  using assms by (simp add: select_def Let_def)

end
