(* ===== verification/HybridControl.thy ===== *)
theory HybridControl
  imports InputArbiter
begin

text \<open>
  The control half of \<open>src/hybrid_fusion.h\<close> and \<open>src/hybrid_fusion.cpp\<close>: the semantic aspects, the
  packed control words of the frontends, the choice of an owner per aspect, the startup lock that
  freezes the owners, and the control state resolved from them.  The whole state of \<open>HybridFusion\<close>
  is declared here; its frame timeline is in \<open>HybridTimeline\<close>.
  Enumerators that the code stores in atomic bytes are stored as themselves; an index into an array
  is a natural number.
\<close>

datatype frame_transport = Transport_Unknown | Transport_D3D12 | NativeVulkan | Vkd3dD3D12 | DxvkD3D11

datatype hybrid_aspect =
    A_Pacing | A_Enabled | A_Boost | A_MinimumInterval | A_MarkerOptimization
  | A_SimulationLifecycle | A_RenderLifecycle | A_PresentLifecycle | A_InputSampling
  | A_TriggerFlash | A_PcLatencyPing | A_OutOfBandLifecycle | A_FrameGeneration

definition kFrontendCount :: nat where "kFrontendCount = 4"
definition kFrameSlots :: nat where "kFrameSlots = 64"
definition kPresentationSlots :: nat where "kPresentationSlots = 128"
definition kAspectCount :: nat where "kAspectCount = 13"

definition HybridControlEnabled :: u8 where "HybridControlEnabled = shl1 0"
definition HybridControlBoost :: u8 where "HybridControlBoost = shl1 1"
definition HybridControlMinimumInterval :: u8 where "HybridControlMinimumInterval = shl1 2"
definition HybridControlMarkers :: u8 where "HybridControlMarkers = shl1 3"


record control_packet =
  cp_enabled :: bool
  cp_boost :: bool
  cp_minimum_interval_us :: u32
  cp_use_markers :: bool
  cp_valid_fields :: u8

record resolved_control =
  rc_value :: control_packet
  rc_pacing_source :: input_frontend
  rc_enabled_source :: input_frontend
  rc_boost_source :: input_frontend
  rc_interval_source :: input_frontend
  rc_markers_source :: input_frontend
  rc_signature :: u64

record frame_state =
  fs_token_sequence :: u64
  fs_token_epoch :: u64
  fs_token_transport :: frame_transport
  fs_source_frame_ids :: "nat \<Rightarrow> u64"
  fs_marker_mask :: u16
  fs_pacing_source :: input_frontend
  fs_fg_flags :: u8
  fs_fg_source :: input_frontend
  fs_presentation_count :: u32
  fs_latest_presentation :: u64

record presentation_state =
  ps_sequence :: u64
  ps_epoch :: u64
  ps_render_sequence :: u64
  ps_generation :: u32
  ps_flags :: u8
  ps_source :: input_frontend
  ps_transport :: frame_transport
  ps_source_frame_id :: u64

record source_binding =
  sb_native_frame_id :: u64
  sb_token_epoch :: u64
  sb_token_sequence :: u64

text \<open>\<open>hf_lock_state\<close>: 0 collecting evidence, 1 freezing, 2 locked.  The gates are \<open>atomic_flag\<close>s.\<close>

record fusion =
  hf_controls :: "nat \<Rightarrow> u64"
  hf_frames :: "nat \<Rightarrow> frame_state"
  hf_presentations :: "nat \<Rightarrow> presentation_state"
  hf_bindings :: "nat \<Rightarrow> nat \<Rightarrow> source_binding"
  hf_aspect_owner :: "nat \<Rightarrow> input_frontend"
  hf_frozen_owner_word :: u64
  hf_pacing_seen_mask :: u8
  hf_fg_seen_mask :: u8
  hf_startup_begin :: u64
  hf_transport :: frame_transport
  hf_epoch :: u64
  hf_next_token :: u64
  hf_latest_token :: u64
  hf_next_presentation :: u64
  hf_last_source_token :: "nat \<Rightarrow> u64"
  hf_token_gate :: bool
  hf_presentation_gate :: bool
  hf_lock_state :: u8

definition kEnabled :: u64 where "kEnabled = shl1 0"
definition kBoost :: u64 where "kBoost = shl1 1"
definition kMarkers :: u64 where "kMarkers = shl1 2"
definition kValidFieldsShift :: nat where "kValidFieldsShift = 8"
definition kValidFieldsMask :: u64 where "kValidFieldsMask = push_bit kValidFieldsShift 0xff"
definition kOwnerBits :: nat where "kOwnerBits = 4"
definition kOwnerMask :: u64 where "kOwnerMask = shl1 kOwnerBits - 1"
definition kBusyFrame :: u64 where "kBusyFrame = u64_max"
definition kFgKnown :: u8 where "kFgKnown = shl1 0"
definition kFgInterpolated :: u8 where "kFgInterpolated = shl1 1"

text \<open>\<open>index_of\<close> and \<open>priority_of\<close> are those of the arbiter, repeated in this class.\<close>

abbreviation index_of :: "input_frontend \<Rightarrow> nat option" where "index_of \<equiv> arbiter_index"

fun aspect_index :: "hybrid_aspect \<Rightarrow> nat" where
  "aspect_index A_Pacing = 0"
| "aspect_index A_Enabled = 1"
| "aspect_index A_Boost = 2"
| "aspect_index A_MinimumInterval = 3"
| "aspect_index A_MarkerOptimization = 4"
| "aspect_index A_SimulationLifecycle = 5"
| "aspect_index A_RenderLifecycle = 6"
| "aspect_index A_PresentLifecycle = 7"
| "aspect_index A_InputSampling = 8"
| "aspect_index A_TriggerFlash = 9"
| "aspect_index A_PcLatencyPing = 10"
| "aspect_index A_OutOfBandLifecycle = 11"
| "aspect_index A_FrameGeneration = 12"

fun aspect_for_marker :: "normalized_marker \<Rightarrow> hybrid_aspect" where
  "aspect_for_marker SimulationStart = A_SimulationLifecycle"
| "aspect_for_marker SimulationEnd = A_SimulationLifecycle"
| "aspect_for_marker RenderSubmitStart = A_RenderLifecycle"
| "aspect_for_marker RenderSubmitEnd = A_RenderLifecycle"
| "aspect_for_marker PresentStart = A_PresentLifecycle"
| "aspect_for_marker PresentEnd = A_PresentLifecycle"
| "aspect_for_marker InputSample = A_InputSampling"
| "aspect_for_marker TriggerFlash = A_TriggerFlash"
| "aspect_for_marker PcLatencyPing = A_PcLatencyPing"
| "aspect_for_marker OutOfBandRenderSubmitStart = A_OutOfBandLifecycle"
| "aspect_for_marker OutOfBandRenderSubmitEnd = A_OutOfBandLifecycle"
| "aspect_for_marker OutOfBandPresentStart = A_OutOfBandLifecycle"
| "aspect_for_marker OutOfBandPresentEnd = A_OutOfBandLifecycle"

text \<open>One row of the table per aspect: AntiLag2, Reflex, VkNvLowLatency2, XeLL; Auto is zero.\<close>

fun bias_row :: "hybrid_aspect \<Rightarrow> nat \<times> nat \<times> nat \<times> nat" where
  "bias_row A_Pacing = (12, 10, 10, 10)"
| "bias_row A_Enabled = (11, 14, 14, 13)"
| "bias_row A_Boost = (0, 16, 16, 14)"
| "bias_row A_MinimumInterval = (8, 14, 14, 16)"
| "bias_row A_MarkerOptimization = (0, 16, 16, 0)"
| "bias_row A_SimulationLifecycle = (8, 16, 16, 14)"
| "bias_row A_RenderLifecycle = (8, 16, 16, 14)"
| "bias_row A_PresentLifecycle = (8, 14, 14, 14)"
| "bias_row A_InputSampling = (16, 10, 10, 14)"
| "bias_row A_TriggerFlash = (0, 18, 16, 0)"
| "bias_row A_PcLatencyPing = (0, 18, 16, 0)"
| "bias_row A_OutOfBandLifecycle = (4, 16, 16, 6)"
| "bias_row A_FrameGeneration = (18, 6, 6, 4)"

definition semantic_bias :: "input_frontend \<Rightarrow> hybrid_aspect \<Rightarrow> nat" where
  "semantic_bias f aspect =
     (case bias_row aspect of (al2, reflex, vk, xell) \<Rightarrow>
        case f of AntiLag2 \<Rightarrow> al2 | Reflex \<Rightarrow> reflex | VkNvLowLatency2 \<Rightarrow> vk | XeLL \<Rightarrow> xell | FE_Auto \<Rightarrow> 0)"

definition marker_bit :: "normalized_marker \<Rightarrow> u16" where
  "marker_bit m = shl1 (marker_code m mod 16)"

fun aspect_marker_mask :: "hybrid_aspect \<Rightarrow> u16" where
  "aspect_marker_mask A_SimulationLifecycle = marker_bit SimulationStart OR marker_bit SimulationEnd"
| "aspect_marker_mask A_RenderLifecycle = marker_bit RenderSubmitStart OR marker_bit RenderSubmitEnd"
| "aspect_marker_mask A_PresentLifecycle = marker_bit PresentStart OR marker_bit PresentEnd"
| "aspect_marker_mask A_InputSampling = marker_bit InputSample"
| "aspect_marker_mask A_TriggerFlash = marker_bit TriggerFlash"
| "aspect_marker_mask A_PcLatencyPing = marker_bit PcLatencyPing"
| "aspect_marker_mask A_OutOfBandLifecycle =
     marker_bit OutOfBandRenderSubmitStart OR marker_bit OutOfBandRenderSubmitEnd OR
     marker_bit OutOfBandPresentStart OR marker_bit OutOfBandPresentEnd"
| "aspect_marker_mask _ = 0"

section \<open>Packed words\<close>

definition pack_control :: "control_packet \<Rightarrow> u64" where
  "pack_control packet =
     (if cp_enabled packet then kEnabled else 0) OR
     (if cp_boost packet then kBoost else 0) OR
     (if cp_use_markers packet then kMarkers else 0) OR
     (push_bit kValidFieldsShift (ucast (cp_valid_fields packet)) AND kValidFieldsMask) OR
     push_bit 32 (ucast (cp_minimum_interval_us packet))"

definition unpack_control :: "u64 \<Rightarrow> control_packet" where
  "unpack_control packed = \<lparr>
     cp_enabled = (packed AND kEnabled \<noteq> 0),
     cp_boost = (packed AND kBoost \<noteq> 0),
     cp_minimum_interval_us = ucast (drop_bit 32 packed),
     cp_use_markers = (packed AND kMarkers \<noteq> 0),
     cp_valid_fields = ucast (drop_bit kValidFieldsShift (packed AND kValidFieldsMask))\<rparr>"

definition owner_nibble :: "input_frontend \<Rightarrow> nat \<Rightarrow> u64" where
  "owner_nibble f i = push_bit (i * kOwnerBits) (word_of_nat (frontend_code f) AND kOwnerMask)"

definition pack_owner_word :: "(nat \<Rightarrow> input_frontend) \<Rightarrow> u64" where
  "pack_owner_word owners = fold (\<lambda>i w. w OR owner_nibble (owners i) i) [0..<kAspectCount] 0"

definition owner_from_word :: "u64 \<Rightarrow> hybrid_aspect \<Rightarrow> input_frontend" where
  "owner_from_word w aspect =
     frontend_of_code (unat (drop_bit (aspect_index aspect * kOwnerBits) w AND kOwnerMask))"

definition control_signature :: "resolved_control \<Rightarrow> u64" where
  "control_signature r =
     (let v = rc_value r; code = (\<lambda>f. word_of_nat (frontend_code f)) in
      (if cp_enabled v then shl1 0 else 0) OR
      (if cp_boost v then shl1 1 else 0) OR
      (if cp_use_markers v then shl1 2 else 0) OR
      push_bit 3 (ucast (cp_valid_fields v AND 0x0f)) OR
      push_bit 7 (code (rc_pacing_source r)) OR
      push_bit 10 (code (rc_enabled_source r)) OR
      push_bit 13 (code (rc_boost_source r)) OR
      push_bit 16 (code (rc_interval_source r)) OR
      push_bit 19 (code (rc_markers_source r)) OR
      push_bit 32 (ucast (cp_minimum_interval_us v)))"

section \<open>The packed words determine what was packed\<close>

lemma frontend_bit_less: "bit (frontend_code f) m \<Longrightarrow> m < 3"
proof -
  assume b: "bit (frontend_code f) m"
  have "frontend_code f < 2 ^ 3" using frontend_code_less [of f] by simp
  moreover have "(2 :: nat) ^ m \<le> frontend_code f"
    using b by (metis bit_iff_odd div_less even_zero not_le)
  ultimately have "(2 :: nat) ^ m < 2 ^ 3" by simp
  then show "m < 3" by (simp only: power_strict_increasing_iff)
qed

lemma frontend_bits: "(\<And>m. m < 3 \<Longrightarrow> bit (frontend_code f) m = bit (frontend_code g) m) \<Longrightarrow> f = g"
  using frontend_bit_less by (metis bit_eq_iff frontend_code_inj)

lemma bit_frontend_word: "bit (word_of_nat (frontend_code f) :: u64) m \<longleftrightarrow> bit (frontend_code f) m"
proof -
  have "unat (word_of_nat (frontend_code f) :: u64) = frontend_code f"
    using frontend_code_less [of f] by (simp add: unsigned_of_nat take_bit_nat_eq_self)
  then show ?thesis
    using bit_unsigned_iff [of "word_of_nat (frontend_code f) :: u64" m, where ?'a = nat] by simp
qed

lemma byte_mask: "(0xff :: u64) = mask 8" "(0x0f :: u8) = mask 4" "kOwnerMask = mask 4"
  by (simp_all add: mask_eq_exp_minus_1 kOwnerMask_def shl1_def kOwnerBits_def)

lemma bit_less_byte: "bit (x :: u8) n \<Longrightarrow> n < 8"
  using bit_imp_le_length [of x n] by simp

lemma bit_less_u32: "bit (x :: u32) n \<Longrightarrow> n < 32"
  using bit_imp_le_length [of x n] by simp

lemma bit_pack_control:
  "bit (pack_control p) n \<longleftrightarrow>
     (n = 0 \<and> cp_enabled p) \<or> (n = 1 \<and> cp_boost p) \<or> (n = 2 \<and> cp_use_markers p) \<or>
     (8 \<le> n \<and> bit (cp_valid_fields p) (n - 8)) \<or>
     (32 \<le> n \<and> bit (cp_minimum_interval_us p) (n - 32))"
  using bit_less_byte [of "cp_valid_fields p" "n - 8"] bit_less_u32 [of "cp_minimum_interval_us p" "n - 32"]
  by (auto simp: pack_control_def kEnabled_def kBoost_def kMarkers_def kValidFieldsShift_def
      kValidFieldsMask_def byte_mask bit_or_iff bit_shl1 bit_and_iff bit_push_bit_iff bit_unsigned_iff
      bit_mask_iff)

lemma bit_owner_nibble:
  "bit (owner_nibble f i) n \<longleftrightarrow> i * 4 \<le> n \<and> n < 64 \<and> bit (frontend_code f) (n - i * 4)"
  using frontend_bit_less [of f "n - i * 4"]
  by (auto simp: owner_nibble_def byte_mask kOwnerBits_def bit_push_bit_iff bit_and_iff bit_mask_iff
      bit_frontend_word)

lemma bit_fold_or: "bit (fold (\<lambda>i w. w OR g i) xs w) n \<longleftrightarrow> bit w n \<or> (\<exists>i \<in> set xs. bit (g i) n)"
  for w :: "'a::len word"
  by (induction xs arbitrary: w) (auto simp: bit_or_iff)

lemma bit_pack_owner_word:
  "j < 4 \<Longrightarrow> a < 13 \<Longrightarrow> bit (pack_owner_word owners) (a * 4 + j) \<longleftrightarrow> bit (frontend_code (owners a)) j"
proof -
  assume j: "j < 4" and a: "a < 13"
  have "bit (owner_nibble (owners i) i) (a * 4 + j) \<longleftrightarrow> i = a \<and> bit (frontend_code (owners a)) j" for i
    using a j frontend_bit_less [of "owners i" "a * 4 + j - i * 4"]
    by (cases i a rule: linorder_cases) (auto simp: bit_owner_nibble)
  then show ?thesis
    using a by (simp add: pack_owner_word_def bit_fold_or kAspectCount_def)
qed

text \<open>
  Publishing a control packet as one 64-bit word loses nothing: unpacking gives the packet back.
\<close>

lemma control_roundtrip: "unpack_control (pack_control p) = p"
proof (rule control_packet.equality)
  show "cp_enabled (unpack_control (pack_control p)) = cp_enabled p"
    "cp_boost (unpack_control (pack_control p)) = cp_boost p"
    "cp_use_markers (unpack_control (pack_control p)) = cp_use_markers p"
    by (simp_all add: unpack_control_def kEnabled_def kBoost_def kMarkers_def and_shl1_eq_0_iff bit_pack_control)
  show "cp_minimum_interval_us (unpack_control (pack_control p)) = cp_minimum_interval_us p"
    using bit_less_u32 bit_less_byte
    by (rule_tac bit_word_eqI) (fastforce simp: unpack_control_def bit_unsigned_iff bit_drop_bit_eq bit_pack_control)
  show "cp_valid_fields (unpack_control (pack_control p)) = cp_valid_fields p"
    by (rule bit_word_eqI) (auto simp: unpack_control_def kValidFieldsShift_def kValidFieldsMask_def byte_mask
        bit_unsigned_iff bit_drop_bit_eq bit_and_iff bit_push_bit_iff bit_mask_iff bit_pack_control)
qed simp

text \<open>C28
  The frozen owner word holds every aspect's owner: reading an aspect's nibble of the packed word
  gives the owner that was packed.
\<close>

theorem owner_word_roundtrip:
  "owner_from_word (pack_owner_word owners) aspect = owners (aspect_index aspect)"
proof -
  let ?a = "aspect_index aspect"
  have a: "?a < 13" by (cases aspect) simp_all
  have "drop_bit (?a * 4) (pack_owner_word owners) AND mask 4 =
      (word_of_nat (frontend_code (owners ?a)) :: u64)"
  proof (rule bit_word_eqI)
    fix n
    have "n < 4 \<Longrightarrow> bit (pack_owner_word owners) (?a * 4 + n) \<longleftrightarrow> bit (frontend_code (owners ?a)) n"
      using bit_pack_owner_word [OF _ a] .
    moreover have "bit (frontend_code (owners ?a)) n \<Longrightarrow> n < 4"
      using frontend_bit_less [of "owners ?a" n] by simp
    ultimately show "bit (drop_bit (?a * 4) (pack_owner_word owners) AND mask 4) n \<longleftrightarrow>
        bit (word_of_nat (frontend_code (owners ?a)) :: u64) n"
      by (cases "n < 4") (auto simp: bit_and_iff bit_mask_iff bit_drop_bit_eq bit_frontend_word)
  qed
  moreover have "unat (word_of_nat (frontend_code f) :: u64) = frontend_code f" for f
    using frontend_code_less [of f] by (simp add: unsigned_of_nat take_bit_nat_eq_self)
  ultimately show ?thesis by (simp add: owner_from_word_def byte_mask kOwnerBits_def)
qed

lemma bit_signature:
  "bit (control_signature r) n \<longleftrightarrow>
     (n = 0 \<and> cp_enabled (rc_value r)) \<or> (n = 1 \<and> cp_boost (rc_value r)) \<or>
     (n = 2 \<and> cp_use_markers (rc_value r)) \<or>
     (3 \<le> n \<and> n < 7 \<and> bit (cp_valid_fields (rc_value r)) (n - 3)) \<or>
     (7 \<le> n \<and> bit (frontend_code (rc_pacing_source r)) (n - 7)) \<or>
     (10 \<le> n \<and> bit (frontend_code (rc_enabled_source r)) (n - 10)) \<or>
     (13 \<le> n \<and> bit (frontend_code (rc_boost_source r)) (n - 13)) \<or>
     (16 \<le> n \<and> bit (frontend_code (rc_interval_source r)) (n - 16)) \<or>
     (19 \<le> n \<and> bit (frontend_code (rc_markers_source r)) (n - 19)) \<or>
     (32 \<le> n \<and> bit (cp_minimum_interval_us (rc_value r)) (n - 32))"
proof -
  have f: "bit (push_bit s (word_of_nat (frontend_code g)) :: u64) n \<longleftrightarrow> s \<le> n \<and> bit (frontend_code g) (n - s)"
    if "s < 60" for s g
    using frontend_bit_less [of g "n - s"] that by (auto simp: bit_push_bit_iff bit_frontend_word)
  have i: "bit (push_bit 32 (ucast (x :: u32)) :: u64) n \<longleftrightarrow> 32 \<le> n \<and> bit x (n - 32)" for x
    using bit_less_u32 [of x "n - 32"] by (auto simp: bit_push_bit_iff bit_unsigned_iff)
  have v: "bit (push_bit 3 (ucast (x AND 0x0f :: u8)) :: u64) n \<longleftrightarrow> 3 \<le> n \<and> n < 7 \<and> bit x (n - 3)" for x
    by (auto simp: bit_push_bit_iff bit_unsigned_iff bit_and_iff byte_mask bit_mask_iff)
  show ?thesis
    unfolding control_signature_def Let_def bit_or_iff v i by (auto simp: bit_shl1 f)
qed

text \<open>
  The control signature is free of collisions on the control surface: two resolved controls with the
  same signature, whose field masks use only the four defined bits, agree in every value and source.
\<close>

lemma control_signature_injective:
  assumes "control_signature r = control_signature s"
    and "cp_valid_fields (rc_value r) < 16" "cp_valid_fields (rc_value s) < 16"
  shows "rc_value r = rc_value s \<and> rc_pacing_source r = rc_pacing_source s \<and>
    rc_enabled_source r = rc_enabled_source s \<and> rc_boost_source r = rc_boost_source s \<and>
    rc_interval_source r = rc_interval_source s \<and> rc_markers_source r = rc_markers_source s"
proof -
  have bits: "bit (control_signature r) n = bit (control_signature s) n" for n
    using assms(1) by simp
  note B = bits [unfolded bit_signature]
  have fb: "bit (frontend_code f) m \<Longrightarrow> m < 3" for f m by (rule frontend_bit_less)
  have high: "\<not> bit x n" if "(x :: u8) < 16" "4 \<le> n" for x n
  proof -
    from that(1) have "unat x < 16" by (simp add: word_less_nat_alt)
    then have "unat x div 2 ^ n = 0"
      using power_increasing [of 4 n "2 :: nat"] that(2) by (simp add: div_less)
    then have "\<not> bit (unat x) n" by (simp add: bit_iff_odd)
    then show ?thesis using bit_unsigned_iff [of x n, where ?'a = nat] by simp
  qed
  have "bit (frontend_code (rc_pacing_source r)) m = bit (frontend_code (rc_pacing_source s)) m" if "m < 3" for m
    using B [of "m + 7"] that by (auto dest: fb)
  moreover have "bit (frontend_code (rc_enabled_source r)) m = bit (frontend_code (rc_enabled_source s)) m" if "m < 3" for m
    using B [of "m + 10"] that by (auto dest: fb)
  moreover have "bit (frontend_code (rc_boost_source r)) m = bit (frontend_code (rc_boost_source s)) m" if "m < 3" for m
    using B [of "m + 13"] that by (auto dest: fb)
  moreover have "bit (frontend_code (rc_interval_source r)) m = bit (frontend_code (rc_interval_source s)) m" if "m < 3" for m
    using B [of "m + 16"] that by (auto dest: fb)
  moreover have "bit (frontend_code (rc_markers_source r)) m = bit (frontend_code (rc_markers_source s)) m" if "m < 3" for m
    using B [of "m + 19"] that by (auto dest: fb)
  moreover have "cp_valid_fields (rc_value r) = cp_valid_fields (rc_value s)"
  proof (rule bit_word_eqI)
    fix n
    show "bit (cp_valid_fields (rc_value r)) n = bit (cp_valid_fields (rc_value s)) n"
      using B [of "n + 3"] high [OF assms(2), of n] high [OF assms(3), of n]
      by (cases "n < 4") (auto dest: fb)
  qed
  moreover have "cp_minimum_interval_us (rc_value r) = cp_minimum_interval_us (rc_value s)"
  proof (rule bit_word_eqI)
    fix n
    show "bit (cp_minimum_interval_us (rc_value r)) n = bit (cp_minimum_interval_us (rc_value s)) n"
      using B [of "n + 32"] by (auto dest: fb)
  qed
  moreover have "cp_enabled (rc_value r) = cp_enabled (rc_value s)"
    "cp_boost (rc_value r) = cp_boost (rc_value s)" "cp_use_markers (rc_value r) = cp_use_markers (rc_value s)"
    using B [of 0] B [of 1] B [of 2] by auto
  ultimately show ?thesis
    by (auto intro: frontend_bits control_packet.equality)
qed

lemma control_signature_injective_sample:
  "let p = \<lparr>cp_enabled = True, cp_boost = False, cp_minimum_interval_us = 8333, cp_use_markers = True, cp_valid_fields = 13\<rparr>;
       r = \<lparr>rc_value = p, rc_pacing_source = XeLL, rc_enabled_source = Reflex, rc_boost_source = FE_Auto,
            rc_interval_source = XeLL, rc_markers_source = Reflex, rc_signature = 0\<rparr>;
       s = r\<lparr>rc_pacing_source := AntiLag2\<rparr>
   in control_signature r \<noteq> control_signature s"
  unfolding Let_def
  by (rule notI, drule control_signature_injective) simp_all

section \<open>Owners\<close>

definition packet_for :: "fusion \<Rightarrow> input_frontend \<Rightarrow> control_packet" where
  "packet_for h f =
     (case index_of f of
        None \<Rightarrow> \<lparr>cp_enabled = False, cp_boost = False, cp_minimum_interval_us = 0,
                 cp_use_markers = False, cp_valid_fields = 0\<rparr>
      | Some i \<Rightarrow> unpack_control (hf_controls h i))"

definition publish_control :: "fusion \<Rightarrow> input_frontend \<Rightarrow> control_packet \<Rightarrow> fusion" where
  "publish_control h f packet =
     (case index_of f of
        None \<Rightarrow> h
      | Some i \<Rightarrow> h\<lparr>hf_controls := (hf_controls h)(i := pack_control packet)\<rparr>)"

definition locked :: "fusion \<Rightarrow> bool" where
  "locked h \<longleftrightarrow> hf_lock_state h = 2"

definition candidate_eligible ::
  "fusion \<Rightarrow> input_frontend \<Rightarrow> hybrid_aspect \<Rightarrow> u8 \<Rightarrow> snapshot \<Rightarrow> arbiter \<Rightarrow> u8 \<Rightarrow> bool \<Rightarrow> bool" where
  "candidate_eligible h f aspect required_field sn a eligible_mask require_evidence =
     (case index_of f of
        None \<Rightarrow> False
      | Some i \<Rightarrow>
          let b = shl1 i in
          if eligible_mask AND b = 0 then False
          else if \<not> fresh a f then False
          else if quality a f < hp_aspect_minimum_quality (sn_hybrid sn) then False
          else if semantic_bias f aspect = 0 then False
          else if required_field \<noteq> 0 \<and>
                  cp_valid_fields (unpack_control (hf_controls h i)) AND required_field = 0 then False
          else if \<not> require_evidence then True
          else if aspect = A_Pacing then hf_pacing_seen_mask h AND b \<noteq> 0
          else if aspect = A_FrameGeneration then hf_fg_seen_mask h AND b \<noteq> 0
          else (let required_markers = aspect_marker_mask aspect in
                if required_markers \<noteq> 0
                then observed_marker_mask a f AND required_markers = required_markers
                else True))"

definition candidate_score :: "input_frontend \<Rightarrow> hybrid_aspect \<Rightarrow> arbiter \<Rightarrow> u16" where
  "candidate_score f aspect a = ucast (quality a f) + word_of_nat (semantic_bias f aspect)"

definition scored ::
  "fusion \<Rightarrow> hybrid_aspect \<Rightarrow> u8 \<Rightarrow> snapshot \<Rightarrow> arbiter \<Rightarrow> u8 \<Rightarrow> bool \<Rightarrow> input_frontend \<Rightarrow> u16 option" where
  "scored h aspect required_field sn a eligible_mask require_evidence f =
     (if candidate_eligible h f aspect required_field sn a eligible_mask require_evidence
      then Some (candidate_score f aspect a) else None)"

definition choose_best_source ::
  "fusion \<Rightarrow> hybrid_aspect \<Rightarrow> u8 \<Rightarrow> snapshot \<Rightarrow> arbiter \<Rightarrow> u8 \<Rightarrow> bool \<Rightarrow> input_frontend option" where
  "choose_best_source h aspect required_field sn a eligible_mask require_evidence =
     map_option fst
       (select_loop (scored h aspect required_field sn a eligible_mask require_evidence)
          (fo_list (ip_priority (sn_input sn))) 0 None)"

definition frontends :: "input_frontend list" where
  "frontends = [Reflex, VkNvLowLatency2, XeLL, AntiLag2]"

definition healthy_frontend :: "snapshot \<Rightarrow> arbiter \<Rightarrow> u8 \<Rightarrow> input_frontend \<Rightarrow> bool" where
  "healthy_frontend sn a eligible_mask f =
     (case index_of f of
        None \<Rightarrow> False
      | Some i \<Rightarrow> eligible_mask AND shl1 i \<noteq> 0 \<and> fresh a f \<and>
          quality a f \<ge> hp_aspect_minimum_quality (sn_hybrid sn))"

definition requirements :: "(hybrid_aspect \<times> u8) list" where
  "requirements =
     [(A_Pacing, HybridControlEnabled), (A_Enabled, HybridControlEnabled), (A_Boost, HybridControlBoost),
      (A_MinimumInterval, HybridControlMinimumInterval), (A_MarkerOptimization, HybridControlMarkers),
      (A_SimulationLifecycle, 0), (A_RenderLifecycle, 0), (A_PresentLifecycle, 0), (A_InputSampling, 0),
      (A_TriggerFlash, 0), (A_PcLatencyPing, 0), (A_OutOfBandLifecycle, 0), (A_FrameGeneration, 0)]"

definition or_auto :: "input_frontend option \<Rightarrow> input_frontend" where
  "or_auto r = (case r of None \<Rightarrow> FE_Auto | Some f \<Rightarrow> f)"

text \<open>The owners that the freezing thread stores, one requirement after the other.\<close>

definition assign_owners ::
  "fusion \<Rightarrow> snapshot \<Rightarrow> arbiter \<Rightarrow> u8 \<Rightarrow> nat \<Rightarrow> input_frontend" where
  "assign_owners h sn a eligible_mask =
     fold (\<lambda>(aspect, field) owners. owners(aspect_index aspect :=
             or_auto (choose_best_source h aspect field sn a eligible_mask True)))
       requirements (hf_aspect_owner h)"

definition maybe_lock_startup :: "fusion \<Rightarrow> snapshot \<Rightarrow> arbiter \<Rightarrow> u8 \<Rightarrow> fusion \<times> bool" where
  "maybe_lock_startup h sn a eligible_mask =
     (if locked h then (h, True)
      else if \<not> hp_startup_locked (sn_hybrid sn) then (h, False)
      else
        let now = observation_sequence a in
        if now = 0 then (h, False)
        else if \<not> list_ex (healthy_frontend sn a eligible_mask) frontends then (h, False)
        else
          let h = (if hf_startup_begin h = 0 then h\<lparr>hf_startup_begin := now\<rparr> else h) in
          if now - hf_startup_begin h < ucast (hp_startup_observations (sn_hybrid sn)) then (h, False)
          else if hf_lock_state h \<noteq> 0 then (h, hf_lock_state h = 2)
          else
            let owners = assign_owners h sn a eligible_mask;
                owners = (if owners (aspect_index A_Pacing) = FE_Auto
                          then owners(aspect_index A_Pacing :=
                            or_auto (choose_best_source h A_Pacing HybridControlEnabled sn a eligible_mask False))
                          else owners)
            in (h\<lparr>hf_aspect_owner := owners, hf_frozen_owner_word := pack_owner_word owners,
                  hf_lock_state := 2\<rparr>, True))"

definition locked_source :: "fusion \<Rightarrow> hybrid_aspect \<Rightarrow> input_frontend option" where
  "locked_source h aspect =
     (if \<not> locked h then None
      else let source = owner_from_word (hf_frozen_owner_word h) aspect in
           if source = FE_Auto then None else Some source)"

definition resolve_pacing_source ::
  "fusion \<Rightarrow> snapshot \<Rightarrow> arbiter \<Rightarrow> u8 \<Rightarrow> fusion \<times> input_frontend option" where
  "resolve_pacing_source h sn a eligible_mask =
     (case maybe_lock_startup h sn a eligible_mask of
        (h', False) \<Rightarrow> (h', None)
      | (h', True) \<Rightarrow> (h', locked_source h' A_Pacing))"

section \<open>The resolved control state\<close>

definition control_none :: resolved_control where
  "control_none = \<lparr>rc_value = \<lparr>cp_enabled = False, cp_boost = False, cp_minimum_interval_us = 0,
       cp_use_markers = False, cp_valid_fields = 0\<rparr>,
     rc_pacing_source = FE_Auto, rc_enabled_source = FE_Auto, rc_boost_source = FE_Auto,
     rc_interval_source = FE_Auto, rc_markers_source = FE_Auto, rc_signature = 0\<rparr>"

text \<open>
  One field: if its aspect has an owner whose packet marks the field valid, the owner becomes its
  source, the field is marked and \<open>store\<close> copies the value.
\<close>

definition apply_field ::
  "fusion \<Rightarrow> hybrid_aspect \<Rightarrow> u8 \<Rightarrow>
   (input_frontend \<Rightarrow> control_packet \<Rightarrow> resolved_control \<Rightarrow> resolved_control) \<Rightarrow>
   resolved_control \<Rightarrow> resolved_control" where
  "apply_field h aspect field store r =
     (let owner = owner_from_word (hf_frozen_owner_word h) aspect in
      if owner = FE_Auto then r
      else let packet = packet_for h owner in
           if cp_valid_fields packet AND field = 0 then r
           else store owner packet
                  (r\<lparr>rc_value := (rc_value r)\<lparr>cp_valid_fields := cp_valid_fields (rc_value r) OR field\<rparr>\<rparr>))"

definition store_enabled :: "input_frontend \<Rightarrow> control_packet \<Rightarrow> resolved_control \<Rightarrow> resolved_control" where
  "store_enabled owner packet r =
     r\<lparr>rc_enabled_source := owner, rc_value := (rc_value r)\<lparr>cp_enabled := cp_enabled packet\<rparr>\<rparr>"

definition store_boost :: "input_frontend \<Rightarrow> control_packet \<Rightarrow> resolved_control \<Rightarrow> resolved_control" where
  "store_boost owner packet r =
     r\<lparr>rc_boost_source := owner, rc_value := (rc_value r)\<lparr>cp_boost := cp_boost packet\<rparr>\<rparr>"

definition store_markers :: "input_frontend \<Rightarrow> control_packet \<Rightarrow> resolved_control \<Rightarrow> resolved_control" where
  "store_markers owner packet r =
     r\<lparr>rc_markers_source := owner, rc_value := (rc_value r)\<lparr>cp_use_markers := cp_use_markers packet\<rparr>\<rparr>"

definition store_interval :: "input_frontend \<Rightarrow> control_packet \<Rightarrow> resolved_control \<Rightarrow> resolved_control" where
  "store_interval owner packet r =
     r\<lparr>rc_interval_source := owner,
       rc_value := (rc_value r)\<lparr>cp_minimum_interval_us := cp_minimum_interval_us packet\<rparr>\<rparr>"

definition resolve_locked :: "fusion \<Rightarrow> resolved_control option" where
  "resolve_locked h =
     (let pacing = owner_from_word (hf_frozen_owner_word h) A_Pacing in
      if pacing = FE_Auto then None
      else
        let r = control_none\<lparr>rc_pacing_source := pacing\<rparr>;
            r = apply_field h A_Enabled HybridControlEnabled store_enabled r;
            r = apply_field h A_Boost HybridControlBoost store_boost r;
            r = apply_field h A_MarkerOptimization HybridControlMarkers store_markers r;
            r = apply_field h A_MinimumInterval HybridControlMinimumInterval store_interval r
        in if rc_enabled_source r = FE_Auto
           then (let packet = packet_for h pacing in
                 if cp_valid_fields packet AND HybridControlEnabled = 0 then None
                 else let r = store_enabled pacing packet
                        (r\<lparr>rc_value := (rc_value r)\<lparr>cp_valid_fields :=
                             cp_valid_fields (rc_value r) OR HybridControlEnabled\<rparr>\<rparr>)
                      in Some (r\<lparr>rc_signature := control_signature r\<rparr>))
           else Some (r\<lparr>rc_signature := control_signature r\<rparr>))"

definition resolve_control ::
  "fusion \<Rightarrow> snapshot \<Rightarrow> arbiter \<Rightarrow> u8 \<Rightarrow> fusion \<times> resolved_control option" where
  "resolve_control h sn a eligible_mask =
     (case maybe_lock_startup h sn a eligible_mask of
        (h', False) \<Rightarrow> (h', None)
      | (h', True) \<Rightarrow> (h', resolve_locked h'))"

section \<open>What the startup lock freezes\<close>

fun requirement_field :: "hybrid_aspect \<Rightarrow> u8" where
  "requirement_field A_Pacing = HybridControlEnabled"
| "requirement_field A_Enabled = HybridControlEnabled"
| "requirement_field A_Boost = HybridControlBoost"
| "requirement_field A_MinimumInterval = HybridControlMinimumInterval"
| "requirement_field A_MarkerOptimization = HybridControlMarkers"
| "requirement_field _ = 0"

lemma assign_owners_aspect:
  "assign_owners h sn a em (aspect_index aspect) =
     or_auto (choose_best_source h aspect (requirement_field aspect) sn a em True)"
  by (cases aspect) (simp_all add: assign_owners_def requirements_def)

lemma aspect_index_inj: "aspect_index x = aspect_index y \<longleftrightarrow> x = y"
  by (cases x; cases y) simp_all

lemma choose_best_source_cong:
  assumes "hf_controls h' = hf_controls h" "hf_pacing_seen_mask h' = hf_pacing_seen_mask h"
    and "hf_fg_seen_mask h' = hf_fg_seen_mask h"
  shows "choose_best_source h' aspect field sn a em ev = choose_best_source h aspect field sn a em ev"
proof -
  have "scored h' aspect field sn a em ev = scored h aspect field sn a em ev"
    by (rule ext) (simp only: scored_def candidate_eligible_def assms)
  then show ?thesis by (simp only: choose_best_source_def)
qed

lemma choose_begin [simp]:
  "choose_best_source (h\<lparr>hf_startup_begin := n\<rparr>) aspect field sn a em ev =
     choose_best_source h aspect field sn a em ev"
  by (rule choose_best_source_cong) simp_all

definition frozen_owner ::
  "fusion \<Rightarrow> snapshot \<Rightarrow> arbiter \<Rightarrow> u8 \<Rightarrow> hybrid_aspect \<Rightarrow> input_frontend" where
  "frozen_owner h sn a em aspect =
     (let best = choose_best_source h aspect (requirement_field aspect) sn a em True in
      or_auto (if aspect = A_Pacing \<and> best = None
               then choose_best_source h A_Pacing HybridControlEnabled sn a em False else best))"

lemma or_auto_None: "choose_best_source h aspect field sn a em ev = Some FE_Auto \<Longrightarrow> False"
  using select_loop_first [of "scored h aspect field sn a em ev" "fo_list (ip_priority (sn_input sn))"]
  by (auto simp: choose_best_source_def best_in_def scored_def candidate_eligible_def split: if_splits)

lemma lock_transition:
  assumes "maybe_lock_startup h sn a em = (h', True)" "\<not> locked h"
  shows "locked h'" "owner_from_word (hf_frozen_owner_word h') aspect = frozen_owner h sn a em aspect"
    "hf_controls h' = hf_controls h"
proof -
  let ?h = "if hf_startup_begin h = 0 then h\<lparr>hf_startup_begin := observation_sequence a\<rparr> else h"
  let ?o = "assign_owners ?h sn a em"
  let ?own = "if ?o (aspect_index A_Pacing) = FE_Auto
    then ?o(aspect_index A_Pacing := or_auto (choose_best_source ?h A_Pacing HybridControlEnabled sn a em False))
    else ?o"
  have h': "h' = ?h\<lparr>hf_aspect_owner := ?own, hf_frozen_owner_word := pack_owner_word ?own, hf_lock_state := 2\<rparr>"
    using assms unfolding maybe_lock_startup_def Let_def locked_def
    by (simp split: if_splits)
  show "locked h'" "hf_controls h' = hf_controls h" by (simp_all add: h' locked_def)
  have same: "choose_best_source ?h x field sn a em ev = choose_best_source h x field sn a em ev" for x field ev
    by simp
  have pac: "?o (aspect_index A_Pacing) = FE_Auto \<longleftrightarrow>
      choose_best_source h A_Pacing HybridControlEnabled sn a em True = None"
    using or_auto_None [of h A_Pacing HybridControlEnabled sn a em True]
    unfolding assign_owners_aspect same by (auto simp: or_auto_def split: option.splits)
  have "?own (aspect_index aspect) = frozen_owner h sn a em aspect"
  proof (cases "aspect = A_Pacing")
    case True
    show ?thesis
      unfolding pac frozen_owner_def Let_def using True
      by (simp add: assign_owners_aspect del: aspect_index.simps)
  next
    case False
    then have "aspect_index aspect \<noteq> aspect_index A_Pacing" by (simp only: aspect_index_inj) simp
    then show ?thesis
      using False unfolding pac frozen_owner_def Let_def
      by (simp add: assign_owners_aspect del: aspect_index.simps)
  qed
  then show "owner_from_word (hf_frozen_owner_word h') aspect = frozen_owner h sn a em aspect"
    by (simp add: h' owner_word_roundtrip)
qed

lemma chosen_best:
  assumes "choose_best_source h aspect field sn a em ev = Some f"
  shows "f \<in> set (priorities sn) \<and> candidate_eligible h f aspect field sn a em ev \<and>
    (g \<in> set (priorities sn) \<longrightarrow> candidate_eligible h g aspect field sn a em ev \<longrightarrow>
       candidate_score g aspect a \<le> candidate_score f aspect a)"
proof -
  let ?fs = "priorities sn"
  from assms obtain q p where "select_loop (scored h aspect field sn a em ev) ?fs 0 None = Some (f, q, p)"
    by (auto simp: choose_best_source_def)
  with select_loop_first [of "scored h aspect field sn a em ev" ?fs]
  have "p < length ?fs" "?fs ! p = f" "scored h aspect field sn a em ev f = Some q"
    "\<forall>j < length ?fs. \<forall>q'. scored h aspect field sn a em ev (?fs ! j) = Some q' \<longrightarrow> q' \<le> q"
    by (auto simp: best_in_def)
  then show ?thesis
    by (auto simp: scored_def in_set_conv_nth split: if_splits)
qed

lemma unat_candidate_score:
  "unat (candidate_score f aspect a) = unat (quality a f) + semantic_bias f aspect"
proof -
  have b: "semantic_bias f aspect \<le> 18"
    by (cases aspect; cases f) (simp_all add: semantic_bias_def)
  moreover have "unat (quality a f) < 256" by (rule unat_lt_u8)
  moreover have "unat (ucast (quality a f) :: u16) = unat (quality a f)"
    by (rule unat_ucast_up) simp
  ultimately show ?thesis
    unfolding candidate_score_def by (subst unat_add_no_overflow) (simp_all add: unsigned_of_nat take_bit_nat_eq_self)
qed

text \<open>
  What a frontend has shown by the time of the lock: that it paces, that it presents generated frames, or
  every marker of the aspect's lifecycle.
\<close>

definition startup_evidence :: "fusion \<Rightarrow> arbiter \<Rightarrow> input_frontend \<Rightarrow> hybrid_aspect \<Rightarrow> bool" where
  "startup_evidence h a f aspect \<longleftrightarrow>
     (if aspect = A_Pacing then \<exists>i. index_of f = Some i \<and> bit (hf_pacing_seen_mask h) i
      else if aspect = A_FrameGeneration then \<exists>i. index_of f = Some i \<and> bit (hf_fg_seen_mask h) i
      else observed_marker_mask a f AND aspect_marker_mask aspect = aspect_marker_mask aspect)"

lemma candidate_eligibleD:
  assumes "candidate_eligible h f aspect field sn a em ev"
  shows "fresh a f" "hp_aspect_minimum_quality (sn_hybrid sn) \<le> quality a f" "semantic_bias f aspect \<noteq> 0"
    "\<exists>i. index_of f = Some i \<and> bit em i"
    "field \<noteq> 0 \<Longrightarrow> cp_valid_fields (packet_for h f) AND field \<noteq> 0"
    "ev \<Longrightarrow> startup_evidence h a f aspect"
  using assms
  by (auto simp: candidate_eligible_def startup_evidence_def packet_for_def Let_def and_shl1_eq_0_iff not_less
      split: option.splits if_splits)

lemma evidence_eligible:
  "candidate_eligible h f A_Pacing field sn a em False \<Longrightarrow> startup_evidence h a f A_Pacing \<Longrightarrow>
   candidate_eligible h f A_Pacing field sn a em True"
  by (simp add: candidate_eligible_def startup_evidence_def Let_def and_shl1_eq_0_iff split: option.splits if_splits)

text \<open>C26
  Startup ownership is evidence based.  When the lock is taken, every aspect that gets an owner gets a
  listed, eligible, fresh frontend of at least the configured quality that can express the aspect at all and
  has published the control field the aspect needs; and one that has shown the evidence of the aspect, for a
  lifecycle every marker of it.  Only the pacing aspect may go to a frontend without evidence, and only when no
  listed frontend that is eligible otherwise has any.
\<close>

theorem frozen_owner_evidenced:
  assumes "maybe_lock_startup h sn a em = (h', True)" "\<not> locked h"
    and "owner_from_word (hf_frozen_owner_word h') aspect = f" "f \<noteq> FE_Auto"
  shows "f \<in> set (priorities sn) \<and> fresh a f \<and>
    hp_aspect_minimum_quality (sn_hybrid sn) \<le> quality a f \<and> semantic_bias f aspect \<noteq> 0 \<and>
    (\<exists>i. index_of f = Some i \<and> bit em i) \<and>
    (requirement_field aspect \<noteq> 0 \<longrightarrow> cp_valid_fields (packet_for h f) AND requirement_field aspect \<noteq> 0) \<and>
    (startup_evidence h a f aspect \<or>
     (aspect = A_Pacing \<and> (\<forall>g\<in>set (priorities sn). candidate_eligible h g A_Pacing (requirement_field A_Pacing) sn a em False \<longrightarrow>
        \<not> startup_evidence h a g A_Pacing)))"
proof -
  let ?best = "\<lambda>ev. choose_best_source h aspect (requirement_field aspect) sn a em ev"
  have F: "frozen_owner h sn a em aspect = f" using lock_transition(2) [OF assms(1,2), of aspect] assms(3) by simp
  have "?best True = Some f \<or> (aspect = A_Pacing \<and> ?best True = None \<and> ?best False = Some f)"
    using F assms(4) by (auto simp: frozen_owner_def Let_def or_auto_def split: option.splits if_splits)
  then obtain ev where best: "?best ev = Some f" and ev: "ev \<or> (aspect = A_Pacing \<and> ?best True = None)" by auto
  from chosen_best [OF best] have f: "f \<in> set (priorities sn)"
    and e: "candidate_eligible h f aspect (requirement_field aspect) sn a em ev" by blast+
  have "\<not> startup_evidence h a g A_Pacing"
    if "aspect = A_Pacing" "?best True = None" "g \<in> set (priorities sn)"
      "candidate_eligible h g A_Pacing (requirement_field A_Pacing) sn a em False" for g
  proof
    assume "startup_evidence h a g A_Pacing"
    with that(4) have "candidate_eligible h g A_Pacing (requirement_field A_Pacing) sn a em True"
      by (rule evidence_eligible)
    with that(1-3) show False
      using select_loop_first [of "scored h aspect (requirement_field aspect) sn a em True" "priorities sn"]
      by (auto simp: choose_best_source_def best_in_def scored_def split: option.splits)
  qed
  then show ?thesis using f candidate_eligibleD [OF e] ev by metis
qed

text \<open>A fusion about to lock, with the sample arbiter and no startup observations to wait for.\<close>

definition sample_fusion :: fusion where
  "sample_fusion = \<lparr>hf_controls = (\<lambda>_. 0x101), hf_frames = undefined, hf_presentations = undefined,
     hf_bindings = undefined, hf_aspect_owner = (\<lambda>_. FE_Auto), hf_frozen_owner_word = 0,
     hf_pacing_seen_mask = 15, hf_fg_seen_mask = 0, hf_startup_begin = 0, hf_transport = Transport_D3D12,
     hf_epoch = 2, hf_next_token = 0, hf_latest_token = 0, hf_next_presentation = 0,
     hf_last_source_token = (\<lambda>_. 0), hf_token_gate = False, hf_presentation_gate = False, hf_lock_state = 0\<rparr>"

definition sample_snapshot :: snapshot where
  "sample_snapshot = default_snapshot\<lparr>sn_hybrid := default_hybrid\<lparr>hp_startup_observations := 0\<rparr>\<rparr>"

lemma sample_fresh: "fresh sample_arbiter XeLL" "fresh sample_arbiter Reflex"
    "\<not> fresh sample_arbiter AntiLag2" "\<not> fresh sample_arbiter VkNvLowLatency2"
    "quality sample_arbiter XeLL = 75" "quality sample_arbiter Reflex = 70"
    "observed_marker_mask sample_arbiter f = (if f = FE_Auto then 0 else 3)"
  by (simp_all add: fresh_def quality_def sample_arbiter_def within_window_def kStaleObservationWindow_def
      observed_marker_mask_def) (cases f, simp_all)

lemma sample_locks: "maybe_lock_startup sample_fusion sample_snapshot sample_arbiter 15 =
    (fst (maybe_lock_startup sample_fusion sample_snapshot sample_arbiter 15), True)"
  "\<not> locked sample_fusion"
  by (simp_all add: maybe_lock_startup_def locked_def sample_fusion_def sample_snapshot_def default_snapshot_def
      default_hybrid_def observation_sequence_def frontends_def healthy_frontend_def sample_fresh shl1_def Let_def)
    (simp_all add: sample_arbiter_def)

lemma sample_snapshot_facts: "priorities sample_snapshot = [Reflex, XeLL, AntiLag2, VkNvLowLatency2]"
  "hp_aspect_minimum_quality (sn_hybrid sample_snapshot) = 60"
  using sample_priorities by (simp_all add: sample_snapshot_def default_hybrid_def default_snapshot_def)

lemma sample_eligible:
  "candidate_eligible sample_fusion f A_SimulationLifecycle 0 sample_snapshot sample_arbiter 15 True
    \<longleftrightarrow> f = Reflex \<or> f = XeLL"
  by (cases f) (simp_all add: candidate_eligible_def sample_fresh sample_snapshot_facts semantic_bias_def
      shl1_def marker_bit_def Let_def)

lemma sample_owner:
  "owner_from_word (hf_frozen_owner_word (fst (maybe_lock_startup sample_fusion sample_snapshot sample_arbiter 15)))
     A_SimulationLifecycle = XeLL"
  by (simp add: lock_transition(2) [OF sample_locks] frozen_owner_def Let_def choose_best_source_def scored_def
      sample_eligible sample_snapshot_facts candidate_score_def sample_fresh semantic_bias_def or_auto_def)

theorem frozen_owner_evidenced_witness:
  "fresh sample_arbiter XeLL \<and> observed_marker_mask sample_arbiter XeLL AND 3 = 3 \<and>
   owner_from_word (hf_frozen_owner_word (fst (maybe_lock_startup sample_fusion sample_snapshot sample_arbiter 15)))
     A_SimulationLifecycle = XeLL"
  using frozen_owner_evidenced [OF sample_locks sample_owner] sample_owner
  by (simp add: marker_bit_def shl1_def startup_evidence_def)

text \<open>
  Among the frontends with that evidence the frozen owner has the highest score, computed without
  wrap-around: its quality plus its bias for the aspect.
\<close>

lemma frozen_owner_best:
  assumes "maybe_lock_startup h sn a em = (h', True)" "\<not> locked h"
    and "owner_from_word (hf_frozen_owner_word h') aspect = f" "aspect \<noteq> A_Pacing"
    and "g \<in> set (priorities sn)"
    and "candidate_eligible h g aspect (requirement_field aspect) sn a em True"
  shows "f \<noteq> FE_Auto \<and>
    unat (quality a g) + semantic_bias g aspect \<le> unat (quality a f) + semantic_bias f aspect"
proof -
  have F: "or_auto (choose_best_source h aspect (requirement_field aspect) sn a em True) = f"
    using lock_transition(2) [OF assms(1,2), of aspect] assms(3,4) by (simp add: frozen_owner_def Let_def)
  have "choose_best_source h aspect (requirement_field aspect) sn a em True \<noteq> None"
    using select_loop_first [of "scored h aspect (requirement_field aspect) sn a em True" "priorities sn"] assms(5,6)
    by (auto simp: choose_best_source_def best_in_def scored_def split: option.splits)
  with F have best: "choose_best_source h aspect (requirement_field aspect) sn a em True = Some f"
    by (auto simp: or_auto_def)
  moreover from best have "f \<noteq> FE_Auto"
    using or_auto_None [of h aspect "requirement_field aspect" sn a em True] by auto
  ultimately show ?thesis
    using chosen_best [OF best, of g] assms(5,6)
    by (simp add: word_le_nat_alt unat_candidate_score)
qed

lemma frozen_owner_best_sample:
  "unat (quality sample_arbiter Reflex) + semantic_bias Reflex A_SimulationLifecycle
    \<le> unat (quality sample_arbiter XeLL) + semantic_bias XeLL A_SimulationLifecycle"
  using frozen_owner_best [OF sample_locks sample_owner, of Reflex] by (simp add: sample_snapshot_facts sample_eligible)

section \<open>Where resolved control values come from\<close>


text \<open>A field is either absent, or present with the value its source published.\<close>

definition sourced :: "fusion \<Rightarrow> resolved_control \<Rightarrow> bool" where
  "sourced h r \<longleftrightarrow>
     (bit (cp_valid_fields (rc_value r)) 0 \<longleftrightarrow> rc_enabled_source r \<noteq> FE_Auto) \<and>
     (bit (cp_valid_fields (rc_value r)) 1 \<longleftrightarrow> rc_boost_source r \<noteq> FE_Auto) \<and>
     (bit (cp_valid_fields (rc_value r)) 2 \<longleftrightarrow> rc_interval_source r \<noteq> FE_Auto) \<and>
     (bit (cp_valid_fields (rc_value r)) 3 \<longleftrightarrow> rc_markers_source r \<noteq> FE_Auto) \<and>
     (\<forall>n \<ge> 4. \<not> bit (cp_valid_fields (rc_value r)) n) \<and>
     (rc_enabled_source r \<noteq> FE_Auto \<longrightarrow>
        cp_enabled (rc_value r) = cp_enabled (packet_for h (rc_enabled_source r))) \<and>
     cp_boost (rc_value r) = (rc_boost_source r \<noteq> FE_Auto \<and> cp_boost (packet_for h (rc_boost_source r))) \<and>
     cp_minimum_interval_us (rc_value r) = (if rc_interval_source r = FE_Auto then 0
        else cp_minimum_interval_us (packet_for h (rc_interval_source r))) \<and>
     cp_use_markers (rc_value r) = (rc_markers_source r \<noteq> FE_Auto \<and>
        cp_use_markers (packet_for h (rc_markers_source r)))"







lemma sourced_signature [simp]: "sourced h (r\<lparr>rc_signature := n\<rparr>) = sourced h r"
  by (simp add: sourced_def)



end
