(* ===== verification/HybridTimeline.thy ===== *)
theory HybridTimeline
  imports HybridControl
begin

text \<open>
  The frame timeline of \<open>src/hybrid_fusion.cpp\<close>: canonical frame tokens that only the pacing owner
  creates, bindings from the native frame ids of the other frontends to them, accepted markers, and
  presentation tokens.  Each public operation is one step.  A \<open>FrameState*\<close> is the number of its slot,
  a null pointer is None.  The code re-reads publication words to detect writers that overtake it;
  in one step nothing overtakes, so each word is read once.
\<close>

record frame_token =
  ft_epoch :: u64
  ft_sequence :: u64
  ft_pacing_source :: input_frontend
  ft_transport :: frame_transport
  ft_source_frame_id :: u64

record presentation_token =
  pt_epoch :: u64
  pt_sequence :: u64
  pt_render_sequence :: u64
  pt_generation :: u32
  pt_interpolated :: bool
  pt_source :: input_frontend
  pt_transport :: frame_transport
  pt_source_frame_id :: u64

definition no_frame_token :: frame_token where
  "no_frame_token = \<lparr>ft_epoch = 0, ft_sequence = 0, ft_pacing_source = FE_Auto,
     ft_transport = Transport_Unknown, ft_source_frame_id = 0\<rparr>"

definition frame_token_ok :: "frame_token \<Rightarrow> bool" where
  "frame_token_ok t \<longleftrightarrow> ft_epoch t \<noteq> 0 \<and> ft_sequence t \<noteq> 0"

definition no_presentation_token :: presentation_token where
  "no_presentation_token = \<lparr>pt_epoch = 0, pt_sequence = 0, pt_render_sequence = 0, pt_generation = 0,
     pt_interpolated = False, pt_source = FE_Auto, pt_transport = Transport_Unknown, pt_source_frame_id = 0\<rparr>"

definition presentation_token_ok :: "presentation_token \<Rightarrow> bool" where
  "presentation_token_ok t \<longleftrightarrow> pt_epoch t \<noteq> 0 \<and> pt_sequence t \<noteq> 0 \<and>
     pt_render_sequence t \<noteq> 0 \<and> pt_generation t \<noteq> 0"

definition frame_zero :: frame_state where
  "frame_zero = \<lparr>fs_token_sequence = 0, fs_token_epoch = 0, fs_token_transport = Transport_Unknown,
     fs_source_frame_ids = (\<lambda>_. 0), fs_marker_mask = 0, fs_pacing_source = FE_Auto, fs_fg_flags = 0,
     fs_fg_source = FE_Auto, fs_presentation_count = 0, fs_latest_presentation = 0\<rparr>"

definition presentation_zero :: presentation_state where
  "presentation_zero = \<lparr>ps_sequence = 0, ps_epoch = 0, ps_render_sequence = 0, ps_generation = 0,
     ps_flags = 0, ps_source = FE_Auto, ps_transport = Transport_Unknown, ps_source_frame_id = 0\<rparr>"

definition binding_zero :: source_binding where
  "binding_zero = \<lparr>sb_native_frame_id = 0, sb_token_epoch = 0, sb_token_sequence = 0\<rparr>"

definition fusion_reset :: "fusion \<Rightarrow> fusion" where
  "fusion_reset h = \<lparr>hf_controls = (\<lambda>_. 0), hf_frames = (\<lambda>_. frame_zero),
     hf_presentations = (\<lambda>_. presentation_zero), hf_bindings = (\<lambda>_ _. binding_zero),
     hf_aspect_owner = (\<lambda>_. FE_Auto), hf_frozen_owner_word = 0, hf_pacing_seen_mask = 0,
     hf_fg_seen_mask = 0, hf_startup_begin = 0, hf_transport = Transport_Unknown,
     hf_epoch = hf_epoch h + 1, hf_next_token = 0, hf_latest_token = 0, hf_next_presentation = 0,
     hf_last_source_token = (\<lambda>_. 0), hf_token_gate = False, hf_presentation_gate = False,
     hf_lock_state = 0\<rparr>"

definition set_transport :: "fusion \<Rightarrow> frame_transport \<Rightarrow> fusion" where
  "set_transport h tr = h\<lparr>hf_transport := tr\<rparr>"

definition token_from_frame :: "frame_state \<Rightarrow> input_frontend \<Rightarrow> u64 \<Rightarrow> frame_token" where
  "token_from_frame frame source source_frame_id =
     (let published = fs_token_sequence frame in
      if published = 0 \<or> published = kBusyFrame then no_frame_token
      else \<lparr>ft_epoch = fs_token_epoch frame, ft_sequence = published,
            ft_pacing_source = fs_pacing_source frame, ft_transport = fs_token_transport frame,
            ft_source_frame_id = (if source = FE_Auto then 0 else source_frame_id)\<rparr>)"

definition frame_for_token :: "fusion \<Rightarrow> u64 \<Rightarrow> u64 \<Rightarrow> nat option" where
  "frame_for_token h epoch sequence =
     (if epoch = 0 \<or> sequence = 0 \<or> sequence = kBusyFrame then None
      else let j = slot kFrameSlots sequence; frame = hf_frames h j in
           if fs_token_sequence frame \<noteq> sequence then None
           else if fs_token_epoch frame \<noteq> epoch then None
           else Some j)"

definition lookup_source_frame :: "fusion \<Rightarrow> input_frontend \<Rightarrow> u64 \<Rightarrow> nat option" where
  "lookup_source_frame h source frame_id =
     (case index_of source of
        None \<Rightarrow> None
      | Some i \<Rightarrow>
          if frame_id = 0 \<or> frame_id = kBusyFrame then None
          else let binding = hf_bindings h i (slot kFrameSlots frame_id) in
               if sb_native_frame_id binding \<noteq> frame_id then None
               else frame_for_token h (sb_token_epoch binding) (sb_token_sequence binding))"

definition publish_source_binding :: "fusion \<Rightarrow> input_frontend \<Rightarrow> u64 \<Rightarrow> nat \<Rightarrow> fusion" where
  "publish_source_binding h source frame_id j =
     (case index_of source of
        None \<Rightarrow> h
      | Some i \<Rightarrow>
          if frame_id = 0 \<or> frame_id = kBusyFrame then h
          else
            let epoch = fs_token_epoch (hf_frames h j);
                sequence = fs_token_sequence (hf_frames h j) in
            if epoch = 0 \<or> sequence = 0 \<or> sequence = kBusyFrame then h
            else h\<lparr>hf_bindings := (hf_bindings h)(i := (hf_bindings h i)(slot kFrameSlots frame_id :=
                      \<lparr>sb_native_frame_id = frame_id, sb_token_epoch = epoch, sb_token_sequence = sequence\<rparr>)),
                   hf_last_source_token := (if hf_last_source_token h i < sequence
                      then (hf_last_source_token h)(i := sequence) else hf_last_source_token h)\<rparr>)"

text \<open>The token to which a secondary frontend's next native frame belongs, if that is unambiguous.\<close>

definition bind_target :: "fusion \<Rightarrow> nat \<Rightarrow> u64 \<Rightarrow> u64 option" where
  "bind_target h i frame_id =
     (let epoch = hf_epoch h; latest = hf_latest_token h; lst = hf_last_source_token h i in
      if latest = 0 then None
      else if latest \<le> lst then None
      else
        let gap = latest - lst in
        if lst \<noteq> 0 \<and> gap > 1 \<and> gap < word_of_nat kFrameSlots
        then (case frame_for_token h epoch lst of
                None \<Rightarrow> None
              | Some k \<Rightarrow>
                  let previous_native = fs_source_frame_ids (hf_frames h k) i in
                  if previous_native = 0 \<or> frame_id \<le> previous_native then None
                  else let native_delta = frame_id - previous_native in
                       if native_delta = 0 \<or> native_delta > gap then None
                       else Some (lst + native_delta))
        else Some latest)"

definition bind_source_to_latest :: "fusion \<Rightarrow> input_frontend \<Rightarrow> u64 \<Rightarrow> fusion \<times> nat option" where
  "bind_source_to_latest h source frame_id =
     (case index_of source of
        None \<Rightarrow> (h, None)
      | Some i \<Rightarrow>
          if frame_id = 0 \<or> frame_id = kBusyFrame then (h, None)
          else case lookup_source_frame h source frame_id of
            Some j \<Rightarrow> (h, Some j)
          | None \<Rightarrow>
              (case bind_target h i frame_id of
                 None \<Rightarrow> (h, None)
               | Some target \<Rightarrow>
                   (case frame_for_token h (hf_epoch h) target of
                      None \<Rightarrow> (h, None)
                    | Some j \<Rightarrow>
                        let ids = fs_source_frame_ids (hf_frames h j) in
                        if ids i \<noteq> 0 \<and> ids i \<noteq> frame_id then (h, None)
                        else
                          let h = h\<lparr>hf_frames := (hf_frames h)(j := (hf_frames h j)\<lparr>
                                 fs_source_frame_ids := ids(i := frame_id)\<rparr>)\<rparr>
                          in (publish_source_binding h source frame_id j, Some j))))"

text \<open>The slot contents that a new token publishes.\<close>

definition new_frame ::
  "u64 \<Rightarrow> u64 \<Rightarrow> frame_transport \<Rightarrow> nat \<Rightarrow> u64 \<Rightarrow> input_frontend \<Rightarrow> frame_state" where
  "new_frame epoch sequence tr i frame_id pacing_source =
     \<lparr>fs_token_sequence = sequence, fs_token_epoch = epoch, fs_token_transport = tr,
      fs_source_frame_ids = (\<lambda>_. 0)(i := frame_id), fs_marker_mask = 0,
      fs_pacing_source = pacing_source, fs_fg_flags = 0, fs_fg_source = FE_Auto,
      fs_presentation_count = 0, fs_latest_presentation = 0\<rparr>"

definition establish_canonical_frame :: "fusion \<Rightarrow> input_frontend \<Rightarrow> u64 \<Rightarrow> fusion \<times> nat option" where
  "establish_canonical_frame h pacing_source frame_id =
     (if frame_id = 0 \<or> frame_id = kBusyFrame then (h, None)
      else case index_of pacing_source of
        None \<Rightarrow> (h, None)
      | Some i \<Rightarrow>
          (case lookup_source_frame h pacing_source frame_id of
             Some j \<Rightarrow> (h, Some j)
           | None \<Rightarrow>
               if hf_token_gate h then (h, lookup_source_frame h pacing_source frame_id)
               else
                 let sequence = hf_next_token h + 1;
                     j = slot kFrameSlots sequence;
                     h = h\<lparr>hf_next_token := sequence,
                           hf_frames := (hf_frames h)(j :=
                             new_frame (hf_epoch h) sequence (hf_transport h) i frame_id pacing_source)\<rparr>;
                     h = publish_source_binding h pacing_source frame_id j
                 in (h\<lparr>hf_latest_token := sequence, hf_token_gate := False\<rparr>, Some j)))"

definition canonicalize_pacing_observation ::
  "fusion \<Rightarrow> input_frontend \<Rightarrow> u64 \<Rightarrow> fusion \<times> frame_token option" where
  "canonicalize_pacing_observation h f frame_id =
     (if f = FE_Auto \<or> frame_id = 0 \<or> frame_id = kBusyFrame \<or> hf_lock_state h \<noteq> 2 then (h, None)
      else if owner_from_word (hf_frozen_owner_word h) A_Pacing \<noteq> f then (h, None)
      else case establish_canonical_frame h f frame_id of
        (h', None) \<Rightarrow> (h', None)
      | (h', Some j) \<Rightarrow> (h', Some (token_from_frame (hf_frames h' j) f frame_id)))"

definition publish_pacing_observation :: "fusion \<Rightarrow> input_frontend \<Rightarrow> u64 \<Rightarrow> fusion" where
  "publish_pacing_observation h f frame_id =
     (case index_of f of
        None \<Rightarrow> h
      | Some i \<Rightarrow>
          if hf_lock_state h \<noteq> 2
          then h\<lparr>hf_pacing_seen_mask := hf_pacing_seen_mask h OR shl1 i\<rparr>
          else fst (canonicalize_pacing_observation h f frame_id))"

definition canonicalize_marker_locked ::
  "fusion \<Rightarrow> input_frontend \<Rightarrow> normalized_marker \<Rightarrow> u64 \<Rightarrow> fusion \<times> frame_token option" where
  "canonicalize_marker_locked h0 f m frame_id =
     (if f = FE_Auto \<or> frame_id = 0 \<or> hf_lock_state h0 \<noteq> 2 then (h0, None)
      else
        let owners = hf_frozen_owner_word h0;
            pacing = owner_from_word owners A_Pacing in
        if pacing = FE_Auto then (h0, None)
        else
          let (h, anchored) = (if f = pacing then establish_canonical_frame h0 pacing frame_id else (h0, None)) in
          if owner_from_word owners (aspect_for_marker m) \<noteq> f then (h, None)
          else
            let (h, frame) = (case anchored of
                 Some j \<Rightarrow> (h, Some j)
               | None \<Rightarrow> (case lookup_source_frame h f frame_id of
                            Some j \<Rightarrow> (h, Some j)
                          | None \<Rightarrow> bind_source_to_latest h f frame_id)) in
            case frame of
              None \<Rightarrow> (h, None)
            | Some j \<Rightarrow>
                let previous = fs_marker_mask (hf_frames h j); b = marker_bit m;
                    h = h\<lparr>hf_frames := (hf_frames h)(j := (hf_frames h j)\<lparr>fs_marker_mask := previous OR b\<rparr>)\<rparr> in
                if previous AND b \<noteq> 0 then (h, None)
                else (h, Some (token_from_frame (hf_frames h j) f frame_id)))"

definition canonicalize_marker ::
  "fusion \<Rightarrow> input_frontend \<Rightarrow> normalized_marker \<Rightarrow> u64 \<Rightarrow> snapshot \<Rightarrow> arbiter \<Rightarrow> u8 \<Rightarrow>
   fusion \<times> frame_token option" where
  "canonicalize_marker h f m frame_id sn a eligible_mask =
     (if f = FE_Auto \<or> frame_id = 0 then (h, None)
      else case maybe_lock_startup h sn a eligible_mask of
        (h', False) \<Rightarrow> (h', None)
      | (h', True) \<Rightarrow> canonicalize_marker_locked h' f m frame_id)"

definition accept_marker_locked ::
  "fusion \<Rightarrow> input_frontend \<Rightarrow> normalized_marker \<Rightarrow> u64 \<Rightarrow> fusion \<times> bool" where
  "accept_marker_locked h f m frame_id =
     (case canonicalize_marker_locked h f m frame_id of (h', t) \<Rightarrow> (h', t \<noteq> None))"

definition accept_marker ::
  "fusion \<Rightarrow> input_frontend \<Rightarrow> normalized_marker \<Rightarrow> u64 \<Rightarrow> snapshot \<Rightarrow> arbiter \<Rightarrow> u8 \<Rightarrow> fusion \<times> bool" where
  "accept_marker h f m frame_id sn a eligible_mask =
     (case canonicalize_marker h f m frame_id sn a eligible_mask of (h', t) \<Rightarrow> (h', t \<noteq> None))"

section \<open>Presentations\<close>

definition token_from_presentation :: "presentation_state \<Rightarrow> presentation_token" where
  "token_from_presentation p =
     (let published = ps_sequence p in
      if published = 0 \<or> published = kBusyFrame then no_presentation_token
      else \<lparr>pt_epoch = ps_epoch p, pt_sequence = published, pt_render_sequence = ps_render_sequence p,
            pt_generation = ps_generation p, pt_interpolated = (ps_flags p AND kFgInterpolated \<noteq> 0),
            pt_source = ps_source p, pt_transport = ps_transport p,
            pt_source_frame_id = ps_source_frame_id p\<rparr>)"

definition lookup_presentation :: "fusion \<Rightarrow> u64 \<Rightarrow> u64 \<Rightarrow> presentation_token option" where
  "lookup_presentation h epoch sequence =
     (if epoch = 0 \<or> sequence = 0 \<or> sequence = kBusyFrame then None
      else let p = hf_presentations h (slot kPresentationSlots sequence) in
           if ps_sequence p \<noteq> sequence then None
           else if ps_epoch p \<noteq> epoch then None
           else let t = token_from_presentation p in if presentation_token_ok t then Some t else None)"

definition latest_canonical_frame :: "fusion \<Rightarrow> frame_token option" where
  "latest_canonical_frame h =
     (let sequence = hf_latest_token h; epoch = hf_epoch h in
      if sequence = 0 \<or> sequence = kBusyFrame \<or> epoch = 0 then None
      else let frame = hf_frames h (slot kFrameSlots sequence) in
           if fs_token_sequence frame \<noteq> sequence then None
           else if fs_token_epoch frame \<noteq> epoch then None
           else let t = token_from_frame frame FE_Auto 0 in if frame_token_ok t then Some t else None)"

definition fg_flags :: "bool \<Rightarrow> u8" where
  "fg_flags interpolated = kFgKnown OR (if interpolated then kFgInterpolated else 0)"

definition canonicalize_fg_presentation_locked ::
  "fusion \<Rightarrow> input_frontend \<Rightarrow> u64 \<Rightarrow> bool \<Rightarrow> fusion \<times> presentation_token option" where
  "canonicalize_fg_presentation_locked h0 f frame_id interpolated =
     (if f = FE_Auto \<or> frame_id = 0 \<or> hf_lock_state h0 \<noteq> 2 then (h0, None)
      else if owner_from_word (hf_frozen_owner_word h0) A_FrameGeneration \<noteq> f then (h0, None)
      else
        let (h, frame) = (case lookup_source_frame h0 f frame_id of
             Some j \<Rightarrow> (h0, Some j)
           | None \<Rightarrow> bind_source_to_latest h0 f frame_id) in
        case frame of
          None \<Rightarrow> (h, None)
        | Some j \<Rightarrow>
            if hf_presentation_gate h then (h, None)
            else
              let fr = hf_frames h j; epoch = fs_token_epoch fr; render_sequence = fs_token_sequence fr in
              if epoch = 0 \<or> render_sequence = 0 \<or> render_sequence = kBusyFrame
              then (h\<lparr>hf_presentation_gate := False\<rparr>, None)
              else
                let sequence = hf_next_presentation h + 1;
                    generation = fs_presentation_count fr + 1;
                    p = \<lparr>ps_sequence = sequence, ps_epoch = epoch, ps_render_sequence = render_sequence,
                         ps_generation = generation, ps_flags = fg_flags interpolated, ps_source = f,
                         ps_transport = fs_token_transport fr, ps_source_frame_id = frame_id\<rparr>
                in (h\<lparr>hf_next_presentation := sequence,
                      hf_presentations := (hf_presentations h)(slot kPresentationSlots sequence := p),
                      hf_frames := (hf_frames h)(j := fr\<lparr>fs_presentation_count := generation,
                         fs_fg_source := f, fs_fg_flags := fg_flags interpolated,
                         fs_latest_presentation := sequence\<rparr>),
                      hf_presentation_gate := False\<rparr>,
                    Some (token_from_presentation p)))"

definition canonicalize_fg_presentation ::
  "fusion \<Rightarrow> input_frontend \<Rightarrow> u64 \<Rightarrow> bool \<Rightarrow> snapshot \<Rightarrow> arbiter \<Rightarrow> u8 \<Rightarrow>
   fusion \<times> presentation_token option" where
  "canonicalize_fg_presentation h f frame_id interpolated sn a eligible_mask =
     (if f = FE_Auto \<or> frame_id = 0 then (h, None)
      else case index_of f of
        None \<Rightarrow> (h, None)
      | Some i \<Rightarrow>
          let h = (if locked h then h else h\<lparr>hf_fg_seen_mask := hf_fg_seen_mask h OR shl1 i\<rparr>) in
          case maybe_lock_startup h sn a eligible_mask of
            (h', False) \<Rightarrow> (h', None)
          | (h', True) \<Rightarrow> canonicalize_fg_presentation_locked h' f frame_id interpolated)"

definition publish_fg_type_locked :: "fusion \<Rightarrow> input_frontend \<Rightarrow> u64 \<Rightarrow> bool \<Rightarrow> fusion \<times> bool" where
  "publish_fg_type_locked h f frame_id interpolated =
     (case canonicalize_fg_presentation_locked h f frame_id interpolated of (h', t) \<Rightarrow> (h', t \<noteq> None))"

definition publish_fg_type ::
  "fusion \<Rightarrow> input_frontend \<Rightarrow> u64 \<Rightarrow> bool \<Rightarrow> snapshot \<Rightarrow> arbiter \<Rightarrow> u8 \<Rightarrow> fusion \<times> bool" where
  "publish_fg_type h f frame_id interpolated sn a eligible_mask =
     (case canonicalize_fg_presentation h f frame_id interpolated sn a eligible_mask of (h', t) \<Rightarrow> (h', t \<noteq> None))"

section \<open>Fields an operation leaves alone\<close>

lemma publish_source_binding_frame [frame_simps]:
  "hf_frames (publish_source_binding h s x j) = hf_frames h"
  "hf_next_token (publish_source_binding h s x j) = hf_next_token h"
  "hf_latest_token (publish_source_binding h s x j) = hf_latest_token h"
  "hf_lock_state (publish_source_binding h s x j) = hf_lock_state h"
  "hf_frozen_owner_word (publish_source_binding h s x j) = hf_frozen_owner_word h"
  "hf_epoch (publish_source_binding h s x j) = hf_epoch h"
  "hf_next_presentation (publish_source_binding h s x j) = hf_next_presentation h"
  "hf_presentations (publish_source_binding h s x j) = hf_presentations h"
  "hf_token_gate (publish_source_binding h s x j) = hf_token_gate h"
  "hf_presentation_gate (publish_source_binding h s x j) = hf_presentation_gate h"
  "hf_transport (publish_source_binding h s x j) = hf_transport h"
  by (simp_all add: publish_source_binding_def Let_def split: option.split)

text \<open>The frame array after a marker, a secondary id or a presentation is recorded in slot \<open>j\<close>.\<close>

lemma bind_cases:
  obtains (none) "snd (bind_source_to_latest h f x) = None" "fst (bind_source_to_latest h f x) = h"
  | (existing) j where "lookup_source_frame h f x = Some j" "bind_source_to_latest h f x = (h, Some j)"
  | (bound) i target j where "index_of f = Some i" "x \<noteq> 0" "x \<noteq> kBusyFrame" "lookup_source_frame h f x = None"
      "bind_target h i x = Some target" "frame_for_token h (hf_epoch h) target = Some j"
      "fs_source_frame_ids (hf_frames h j) i \<in> {0, x}"
      "bind_source_to_latest h f x =
        (publish_source_binding (h\<lparr>hf_frames := (hf_frames h)(j := (hf_frames h j)\<lparr>
            fs_source_frame_ids := (fs_source_frame_ids (hf_frames h j))(i := x)\<rparr>)\<rparr>) f x j, Some j)"
proof (cases "index_of f")
  case None
  then show ?thesis using none by (simp add: bind_source_to_latest_def)
next
  case (Some i)
  show ?thesis
  proof (cases "x = 0 \<or> x = kBusyFrame")
    case True
    then show ?thesis using none Some by (simp add: bind_source_to_latest_def)
  next
    case x: False
    show ?thesis
    proof (cases "lookup_source_frame h f x")
      case (Some j)
      then show ?thesis using existing x \<open>index_of f = Some i\<close> by (simp add: bind_source_to_latest_def)
    next
      case l: None
      show ?thesis
      proof (cases "bind_target h i x")
        case None
        then show ?thesis using none x l Some by (simp add: bind_source_to_latest_def)
      next
        case t: (Some target)
        show ?thesis
        proof (cases "frame_for_token h (hf_epoch h) target")
          case None
          then show ?thesis using none x l Some t by (simp add: bind_source_to_latest_def)
        next
          case f: (Some j)
          show ?thesis
          proof (cases "fs_source_frame_ids (hf_frames h j) i \<in> {0, x}")
            case True
            with x l Some t f show ?thesis
              by (intro bound) (auto simp: bind_source_to_latest_def Let_def)
          next
            case False
            with x l Some t f show ?thesis
              by (intro none) (auto simp: bind_source_to_latest_def Let_def)
          qed
        qed
      qed
    qed
  qed
qed

lemma establish_cases:
  obtains (none) "snd (establish_canonical_frame h f x) = None" "fst (establish_canonical_frame h f x) = h"
  | (existing) j where "lookup_source_frame h f x = Some j" "establish_canonical_frame h f x = (h, Some j)"
  | (created) i where "index_of f = Some i" "x \<noteq> 0" "x \<noteq> kBusyFrame" "lookup_source_frame h f x = None"
      "establish_canonical_frame h f x =
        ((publish_source_binding (h\<lparr>hf_next_token := hf_next_token h + 1,
            hf_frames := (hf_frames h)(slot kFrameSlots (hf_next_token h + 1) :=
              new_frame (hf_epoch h) (hf_next_token h + 1) (hf_transport h) i x f)\<rparr>)
          f x (slot kFrameSlots (hf_next_token h + 1)))\<lparr>hf_latest_token := hf_next_token h + 1,
            hf_token_gate := False\<rparr>, Some (slot kFrameSlots (hf_next_token h + 1)))"
proof (cases "index_of f")
  case None
  then show ?thesis using none by (simp add: establish_canonical_frame_def)
next
  case (Some i)
  show ?thesis
  proof (cases "x = 0 \<or> x = kBusyFrame")
    case True
    then show ?thesis using none Some by (simp add: establish_canonical_frame_def)
  next
    case x: False
    show ?thesis
    proof (cases "lookup_source_frame h f x")
      case (Some j)
      then show ?thesis using existing x \<open>index_of f = Some i\<close> by (simp add: establish_canonical_frame_def)
    next
      case l: None
      show ?thesis
      proof (cases "hf_token_gate h")
        case True
        then show ?thesis using none x l Some by (simp add: establish_canonical_frame_def)
      next
        case False
        then show ?thesis using created x l Some by (simp add: establish_canonical_frame_def Let_def)
      qed
    qed
  qed
qed

lemma bind_frame [frame_simps]:
  "hf_next_token (fst (bind_source_to_latest h f x)) = hf_next_token h"
  "hf_latest_token (fst (bind_source_to_latest h f x)) = hf_latest_token h"
  "hf_lock_state (fst (bind_source_to_latest h f x)) = hf_lock_state h"
  "hf_frozen_owner_word (fst (bind_source_to_latest h f x)) = hf_frozen_owner_word h"
  "hf_epoch (fst (bind_source_to_latest h f x)) = hf_epoch h"
  "hf_next_presentation (fst (bind_source_to_latest h f x)) = hf_next_presentation h"
  "hf_presentations (fst (bind_source_to_latest h f x)) = hf_presentations h"
  "hf_presentation_gate (fst (bind_source_to_latest h f x)) = hf_presentation_gate h"
  by (cases rule: bind_cases [of h f x]; simp add: frame_simps)+

lemma establish_frame [frame_simps]:
  "hf_lock_state (fst (establish_canonical_frame h f x)) = hf_lock_state h"
  "hf_frozen_owner_word (fst (establish_canonical_frame h f x)) = hf_frozen_owner_word h"
  "hf_epoch (fst (establish_canonical_frame h f x)) = hf_epoch h"
  "hf_next_presentation (fst (establish_canonical_frame h f x)) = hf_next_presentation h"
  "hf_presentations (fst (establish_canonical_frame h f x)) = hf_presentations h"
  "hf_presentation_gate (fst (establish_canonical_frame h f x)) = hf_presentation_gate h"
  by (cases rule: establish_cases [of h f x]; simp add: frame_simps)+

lemma maybe_lock_frame [frame_simps]:
  "hf_frames (fst (maybe_lock_startup h sn a em)) = hf_frames h"
  "hf_next_token (fst (maybe_lock_startup h sn a em)) = hf_next_token h"
  "hf_latest_token (fst (maybe_lock_startup h sn a em)) = hf_latest_token h"
  "hf_epoch (fst (maybe_lock_startup h sn a em)) = hf_epoch h"
  "hf_next_presentation (fst (maybe_lock_startup h sn a em)) = hf_next_presentation h"
  "hf_presentations (fst (maybe_lock_startup h sn a em)) = hf_presentations h"
  by (simp_all add: maybe_lock_startup_def Let_def)

lemma maybe_lock_locked: "locked h \<Longrightarrow> maybe_lock_startup h sn a em = (h, True)"
  by (simp add: maybe_lock_startup_def)

lemma maybe_lock_True: "maybe_lock_startup h sn a em = (h', True) \<Longrightarrow> locked h'"
  using lock_transition(1) [of h sn a em h'] maybe_lock_locked [of h sn a em] by (cases "locked h") auto

section \<open>Slots only move forward\<close>

text \<open>
  Over a step, the token counter does not decrease; a slot keeps its token and its accepted markers,
  or it is taken by a token newer than every earlier one.
\<close>

definition tl_le :: "fusion \<Rightarrow> fusion \<Rightarrow> bool" where
  "tl_le h h' \<longleftrightarrow> hf_next_token h \<le> hf_next_token h' \<and>
     (\<forall>j. (fs_token_sequence (hf_frames h' j) = fs_token_sequence (hf_frames h j) \<and>
           (\<forall>n. bit (fs_marker_mask (hf_frames h j)) n \<longrightarrow> bit (fs_marker_mask (hf_frames h' j)) n)) \<or>
          hf_next_token h < fs_token_sequence (hf_frames h' j))"

lemma tl_refl: "tl_le h h"
  by (simp add: tl_le_def)

lemma tl_trans: "tl_le h h' \<Longrightarrow> tl_le h' h'' \<Longrightarrow> tl_le h h''"
  unfolding tl_le_def by (metis (mono_tags, lifting) order_trans le_less_trans)

lemma tl_same: "hf_frames h' = hf_frames h \<Longrightarrow> hf_next_token h' = hf_next_token h \<Longrightarrow> tl_le h h'"
  by (simp add: tl_le_def)

lemma tl_frame:
  assumes "hf_next_token h' = hf_next_token h" "hf_frames h' = (hf_frames h)(j := fr)"
    and "fs_token_sequence fr = fs_token_sequence (hf_frames h j)"
    and "\<And>n. bit (fs_marker_mask (hf_frames h j)) n \<Longrightarrow> bit (fs_marker_mask fr) n"
  shows "tl_le h h'"
  using assms by (simp add: tl_le_def)

lemma tl_bind: "tl_le h (fst (bind_source_to_latest h f x))"
proof (cases rule: bind_cases [of h f x])
  case none
  then show ?thesis by (simp add: tl_refl)
next
  case (existing j)
  then show ?thesis by (simp add: tl_refl)
next
  case (bound i target j)
  then show ?thesis by (auto simp: tl_le_def frame_simps)
qed

lemma tl_establish:
  assumes "hf_next_token h \<noteq> u64_max"
  shows "tl_le h (fst (establish_canonical_frame h f x))"
proof (cases rule: establish_cases [of h f x])
  case none
  then show ?thesis by (simp add: tl_refl)
next
  case (existing j)
  then show ?thesis by (simp add: tl_refl)
next
  case (created i)
  then show ?thesis
    using less_plus_one [OF assms] by (auto simp: tl_le_def frame_simps new_frame_def)
qed

lemma establish_next:
  "hf_next_token (fst (establish_canonical_frame h f x)) \<in> {hf_next_token h, hf_next_token h + 1}"
  by (cases rule: establish_cases [of h f x]) (simp_all add: frame_simps)

text \<open>The frame of a marker: the pacing owner's anchor, the source's binding, or a new binding.\<close>

definition acquire :: "fusion \<Rightarrow> input_frontend \<Rightarrow> u64 \<Rightarrow> fusion \<times> nat option" where
  "acquire h f x =
     (let (h, anchored) = (if f = owner_from_word (hf_frozen_owner_word h) A_Pacing
                           then establish_canonical_frame h f x else (h, None)) in
      case anchored of
        Some j \<Rightarrow> (h, Some j)
      | None \<Rightarrow> (case lookup_source_frame h f x of Some j \<Rightarrow> (h, Some j) | None \<Rightarrow> bind_source_to_latest h f x))"

definition mark :: "fusion \<Rightarrow> nat \<Rightarrow> normalized_marker \<Rightarrow> fusion" where
  "mark h j m = h\<lparr>hf_frames := (hf_frames h)(j := (hf_frames h j)\<lparr>
     fs_marker_mask := fs_marker_mask (hf_frames h j) OR marker_bit m\<rparr>)\<rparr>"

lemma acquire_fst:
  obtains h1 where "h1 = h \<or> (f = owner_from_word (hf_frozen_owner_word h) A_Pacing \<and>
      h1 = fst (establish_canonical_frame h f x))"
    "fst (acquire h f x) = h1 \<or> fst (acquire h f x) = fst (bind_source_to_latest h1 f x)"
proof -
  obtain h1 an where e: "(if f = owner_from_word (hf_frozen_owner_word h) A_Pacing
      then establish_canonical_frame h f x else (h, None)) = (h1, an)" by force
  show ?thesis
  proof (rule that [of h1])
    show "h1 = h \<or> (f = owner_from_word (hf_frozen_owner_word h) A_Pacing \<and>
        h1 = fst (establish_canonical_frame h f x))"
      using e by (auto split: if_splits)
    show "fst (acquire h f x) = h1 \<or> fst (acquire h f x) = fst (bind_source_to_latest h1 f x)"
      by (simp add: acquire_def e split: option.split)
  qed
qed

lemma acquire_frame [frame_simps]:
  "hf_lock_state (fst (acquire h f x)) = hf_lock_state h"
  "hf_frozen_owner_word (fst (acquire h f x)) = hf_frozen_owner_word h"
  "hf_next_presentation (fst (acquire h f x)) = hf_next_presentation h"
  "hf_presentations (fst (acquire h f x)) = hf_presentations h"
  "hf_epoch (fst (acquire h f x)) = hf_epoch h"
  by (rule acquire_fst [of h f x]; auto simp: frame_simps)+

lemma acquire_next:
  "hf_next_token (fst (acquire h f x)) = hf_next_token h \<or>
   (f = owner_from_word (hf_frozen_owner_word h) A_Pacing \<and>
    hf_next_token (fst (acquire h f x)) = hf_next_token h + 1)"
  using establish_next [of h f x] by (rule_tac acquire_fst [of h f x]) (auto simp: frame_simps)

lemma tl_acquire:
  assumes "hf_next_token h \<noteq> u64_max"
  shows "tl_le h (fst (acquire h f x))"
proof (rule acquire_fst [of h f x])
  fix h1
  assume "h1 = h \<or> (f = owner_from_word (hf_frozen_owner_word h) A_Pacing \<and>
      h1 = fst (establish_canonical_frame h f x))"
    and step: "fst (acquire h f x) = h1 \<or> fst (acquire h f x) = fst (bind_source_to_latest h1 f x)"
  then have "tl_le h h1" using tl_establish [OF assms, of f x] tl_refl [of h] by auto
  with step tl_bind [of h1 f x] show ?thesis by (auto intro: tl_trans)
qed

lemma marker_mask_mark [simp]:
  "fs_marker_mask (hf_frames (mark h j m) k) =
     (if k = j then fs_marker_mask (hf_frames h j) OR marker_bit m else fs_marker_mask (hf_frames h k))"
  "fs_token_sequence (hf_frames (mark h j m) k) = fs_token_sequence (hf_frames h k)"
  "fs_token_epoch (hf_frames (mark h j m) k) = fs_token_epoch (hf_frames h k)"
  "hf_epoch (mark h j m) = hf_epoch h"
  "hf_next_token (mark h j m) = hf_next_token h"
  "hf_lock_state (mark h j m) = hf_lock_state h"
  "hf_frozen_owner_word (mark h j m) = hf_frozen_owner_word h"
  by (simp_all add: mark_def)

lemma tl_mark: "tl_le h (mark h j m)"
  by (auto simp: tl_le_def bit_or_iff)

lemma marker_cases:
  obtains (ignored) "canonicalize_marker_locked h f m x = (h, None)"
  | (anchored) "canonicalize_marker_locked h f m x = (fst (establish_canonical_frame h f x), None)" "locked h"
      "f = owner_from_word (hf_frozen_owner_word h) A_Pacing"
  | (unbound) "canonicalize_marker_locked h f m x = (fst (acquire h f x), None)" "locked h" "f \<noteq> FE_Auto"
  | (repeated) j where "snd (acquire h f x) = Some j" "locked h" "f \<noteq> FE_Auto"
      "fs_marker_mask (hf_frames (fst (acquire h f x)) j) AND marker_bit m \<noteq> 0"
      "canonicalize_marker_locked h f m x = (mark (fst (acquire h f x)) j m, None)"
  | (accepted) j where "snd (acquire h f x) = Some j" "locked h" "f \<noteq> FE_Auto" "x \<noteq> 0"
      "owner_from_word (hf_frozen_owner_word h) (aspect_for_marker m) = f"
      "fs_marker_mask (hf_frames (fst (acquire h f x)) j) AND marker_bit m = 0"
      "canonicalize_marker_locked h f m x = (mark (fst (acquire h f x)) j m,
         Some (token_from_frame (hf_frames (mark (fst (acquire h f x)) j m) j) f x))"
proof (cases "f = FE_Auto \<or> x = 0 \<or> hf_lock_state h \<noteq> 2 \<or> owner_from_word (hf_frozen_owner_word h) A_Pacing = FE_Auto")
  case True
  then show ?thesis using ignored by (auto simp: canonicalize_marker_locked_def Let_def)
next
  case False
  let ?pac = "owner_from_word (hf_frozen_owner_word h) A_Pacing"
  obtain h1 an where e: "(if f = ?pac then establish_canonical_frame h f x else (h, None)) = (h1, an)" by force
  have e': "(if f = ?pac then establish_canonical_frame h ?pac x else (h, None)) = (h1, an)" using e by auto
  have l: "locked h" using False by (simp add: locked_def)
  show ?thesis
  proof (cases "owner_from_word (hf_frozen_owner_word h) (aspect_for_marker m) = f")
    case w: False
    then have "canonicalize_marker_locked h f m x = (h1, None)"
      using False by (simp add: canonicalize_marker_locked_def Let_def e')
    then show ?thesis using ignored anchored e l by (cases "f = ?pac") auto
  next
    case w: True
    have acq: "acquire h f x = (case an of Some j \<Rightarrow> (h1, Some j)
        | None \<Rightarrow> (case lookup_source_frame h1 f x of Some j \<Rightarrow> (h1, Some j) | None \<Rightarrow> bind_source_to_latest h1 f x))"
      by (simp add: acquire_def e)
    have c: "canonicalize_marker_locked h f m x = (case acquire h f x of (h2, None) \<Rightarrow> (h2, None)
        | (h2, Some j) \<Rightarrow> (if fs_marker_mask (hf_frames h2 j) AND marker_bit m \<noteq> 0 then (mark h2 j m, None)
            else (mark h2 j m, Some (token_from_frame (hf_frames (mark h2 j m) j) f x))))"
      using False w unfolding acq
      by (simp add: canonicalize_marker_locked_def Let_def e' mark_def split: option.split prod.split)
    obtain h2 fr where a: "acquire h f x = (h2, fr)" by force
    show ?thesis
    proof (cases fr)
      case None
      then show ?thesis using unbound c a l False by simp
    next
      case (Some j)
      then show ?thesis using repeated [of j] accepted [of j] c a l False w
        by (cases "fs_marker_mask (hf_frames h2 j) AND marker_bit m = 0") simp_all
    qed
  qed
qed

lemma tl_marker_locked:
  assumes "hf_next_token h \<noteq> u64_max"
  shows "tl_le h (fst (canonicalize_marker_locked h f m x))"
  by (cases rule: marker_cases [of h f m x])
     (auto simp: tl_refl intro: tl_establish [OF assms] tl_acquire [OF assms] tl_trans [OF tl_acquire [OF assms] tl_mark])

section \<open>The frame an operation gets is published\<close>

definition published :: "fusion \<Rightarrow> nat \<Rightarrow> bool" where
  "published h j \<longleftrightarrow> fs_token_sequence (hf_frames h j) \<noteq> 0 \<and> fs_token_sequence (hf_frames h j) \<noteq> kBusyFrame"

lemma frame_for_token_Some:
  "frame_for_token h e s = Some j \<longleftrightarrow>
     e \<noteq> 0 \<and> s \<noteq> 0 \<and> s \<noteq> kBusyFrame \<and> j = slot kFrameSlots s \<and>
     fs_token_sequence (hf_frames h j) = s \<and> fs_token_epoch (hf_frames h j) = e"
  by (auto simp: frame_for_token_def Let_def)

lemma lookup_Some:
  "lookup_source_frame h f x = Some j \<longleftrightarrow>
     (\<exists>i. index_of f = Some i \<and> x \<noteq> 0 \<and> x \<noteq> kBusyFrame \<and>
        sb_native_frame_id (hf_bindings h i (slot kFrameSlots x)) = x \<and>
        frame_for_token h (sb_token_epoch (hf_bindings h i (slot kFrameSlots x)))
          (sb_token_sequence (hf_bindings h i (slot kFrameSlots x))) = Some j)"
  by (auto simp: lookup_source_frame_def Let_def split: option.splits if_splits)

lemma lookup_published: "lookup_source_frame h f x = Some j \<Longrightarrow> published h j"
  by (auto simp: lookup_Some frame_for_token_Some published_def)

lemma bind_published: "snd (bind_source_to_latest h f x) = Some j \<Longrightarrow> published (fst (bind_source_to_latest h f x)) j"
  by (cases rule: bind_cases [of h f x])
     (auto simp: frame_simps frame_for_token_Some published_def dest: lookup_published [unfolded published_def])

text \<open>Sequence numbers that a token can still get: the next one is neither zero nor the busy mark.\<close>

definition room :: "fusion \<Rightarrow> bool" where
  "room h \<longleftrightarrow> unat (hf_next_token h) < 18446744073709551614"

lemma room_neq: "room h \<Longrightarrow> hf_next_token h \<noteq> u64_max"
  by (auto simp: room_def unat_u64_max)

lemma room_next: "room h \<Longrightarrow> unat (hf_next_token h + 1) = unat (hf_next_token h) + 1"
  using unat_plus_one [of "hf_next_token h"] room_neq by simp

lemma room_new: "room h \<Longrightarrow> hf_next_token h + 1 \<noteq> 0 \<and> hf_next_token h + 1 \<noteq> kBusyFrame"
  using room_next [of h] by (auto simp: word_unat_eq_iff kBusyFrame_def unat_u64_max room_def)

lemma establish_published:
  "room h \<Longrightarrow> snd (establish_canonical_frame h f x) = Some j \<Longrightarrow>
   published (fst (establish_canonical_frame h f x)) j"
  using room_new [of h]
  by (cases rule: establish_cases [of h f x])
     (auto simp: frame_simps new_frame_def published_def dest: lookup_published [unfolded published_def])

lemma acquire_published:
  assumes "room h" "snd (acquire h f x) = Some j"
  shows "published (fst (acquire h f x)) j"
proof -
  obtain h1 an where e: "(if f = owner_from_word (hf_frozen_owner_word h) A_Pacing
      then establish_canonical_frame h f x else (h, None)) = (h1, an)" by force
  show ?thesis
  proof (cases an)
    case (Some k)
    then have "acquire h f x = (h1, Some k)" by (simp add: acquire_def e)
    with Some e assms establish_published [OF assms(1), of f x k] show ?thesis
      by (simp split: if_splits)
  next
    case None
    then have "acquire h f x = (case lookup_source_frame h1 f x of Some j \<Rightarrow> (h1, Some j)
        | None \<Rightarrow> bind_source_to_latest h1 f x)" by (simp add: acquire_def e)
    with assms(2) lookup_published [of h1 f x j] bind_published [of h1 f x j] show ?thesis
      by (cases "lookup_source_frame h1 f x") auto
  qed
qed

lemma token_published:
  "published h j \<Longrightarrow> ft_sequence (token_from_frame (hf_frames h j) f x) = fs_token_sequence (hf_frames h j)"
  by (simp add: published_def token_from_frame_def)

section \<open>Slots and sequence numbers\<close>

definition slots_ok :: "fusion \<Rightarrow> bool" where
  "slots_ok h \<longleftrightarrow>
     (\<forall>j. fs_token_sequence (hf_frames h j) = 0 \<or>
       (fs_token_sequence (hf_frames h j) \<le> hf_next_token h \<and>
        slot kFrameSlots (fs_token_sequence (hf_frames h j)) = j \<and>
        fs_token_epoch (hf_frames h j) = hf_epoch h)) \<and>
     (\<forall>s. s \<noteq> 0 \<and> s \<le> hf_next_token h \<and> unat (hf_next_token h) - unat s < kFrameSlots \<longrightarrow>
        fs_token_sequence (hf_frames h (slot kFrameSlots s)) = s)"

lemma slots_okD:
  assumes "slots_ok h" "fs_token_sequence (hf_frames h j) \<noteq> 0"
  shows "fs_token_sequence (hf_frames h j) \<le> hf_next_token h"
    "slot kFrameSlots (fs_token_sequence (hf_frames h j)) = j" "fs_token_epoch (hf_frames h j) = hf_epoch h"
  using assms by (auto simp: slots_ok_def)

lemma slots_reset: "slots_ok (fusion_reset h)"
  by (simp add: slots_ok_def fusion_reset_def frame_zero_def)

lemma slots_same:
  "slots_ok h \<Longrightarrow> hf_next_token h' = hf_next_token h \<Longrightarrow> hf_epoch h' = hf_epoch h \<Longrightarrow>
   (\<And>j. fs_token_sequence (hf_frames h' j) = fs_token_sequence (hf_frames h j)) \<Longrightarrow>
   (\<And>j. fs_token_epoch (hf_frames h' j) = fs_token_epoch (hf_frames h j)) \<Longrightarrow> slots_ok h'"
  by (simp add: slots_ok_def)

lemma slots_bind: "slots_ok h \<Longrightarrow> slots_ok (fst (bind_source_to_latest h f x))"
  by (cases rule: bind_cases [of h f x]) (auto simp: frame_simps elim!: slots_same)

lemma slots_new:
  assumes ok: "slots_ok h" and r: "room h"
    and next': "hf_next_token h' = hf_next_token h + 1" "hf_epoch h' = hf_epoch h"
    and frames: "hf_frames h' = (hf_frames h)(slot kFrameSlots (hf_next_token h + 1) :=
      new_frame (hf_epoch h) (hf_next_token h + 1) tr i x f)"
  shows "slots_ok h'"
proof -
  have up: "s \<le> hf_next_token h \<Longrightarrow> s \<le> hf_next_token h + 1" for s
    using less_plus_one [OF room_neq [OF r]] by simp
  have live: "fs_token_sequence (hf_frames h' (slot kFrameSlots s)) = s"
    if s: "s \<noteq> 0" "s \<le> hf_next_token h + 1" "unat (hf_next_token h + 1) - unat s < kFrameSlots" for s
  proof (cases "slot kFrameSlots s = slot kFrameSlots (hf_next_token h + 1)")
    case True
    then have "s = hf_next_token h + 1" using s by (intro slot_eq_close)
    then show ?thesis by (simp add: frames new_frame_def)
  next
    case False
    then have "s \<noteq> hf_next_token h + 1" by auto
    with s(2) have "unat s < unat (hf_next_token h + 1)"
      by (metis word_less_nat_alt le_neq_trans)
    with room_next [OF r] s have "s \<le> hf_next_token h" "unat (hf_next_token h) - unat s < kFrameSlots"
      by (simp_all add: word_le_nat_alt)
    with ok s(1) False show ?thesis by (simp add: slots_ok_def frames)
  qed
  show ?thesis
    using ok up live by (auto simp: slots_ok_def frames next' new_frame_def)
qed

lemma slots_establish: "slots_ok h \<Longrightarrow> room h \<Longrightarrow> slots_ok (fst (establish_canonical_frame h f x))"
proof (cases rule: establish_cases [of h f x])
  case (created i)
  assume "slots_ok h" "room h"
  then show ?thesis
    unfolding created(5) fst_conv
    by (rule slots_new [where tr = "hf_transport h" and i = i and x = x and f = f]) (simp_all add: frame_simps)
qed simp_all

lemma slots_acquire: "slots_ok h \<Longrightarrow> room h \<Longrightarrow> slots_ok (fst (acquire h f x))"
  by (rule acquire_fst [of h f x]) (auto intro: slots_bind slots_establish slots_bind [OF slots_establish])

section \<open>Presentation steps\<close>

definition acquire_fg :: "fusion \<Rightarrow> input_frontend \<Rightarrow> u64 \<Rightarrow> fusion \<times> nat option" where
  "acquire_fg h f x =
     (case lookup_source_frame h f x of Some j \<Rightarrow> (h, Some j) | None \<Rightarrow> bind_source_to_latest h f x)"

definition present ::
  "fusion \<Rightarrow> nat \<Rightarrow> input_frontend \<Rightarrow> u64 \<Rightarrow> bool \<Rightarrow> presentation_state" where
  "present h j f x interpolated =
     \<lparr>ps_sequence = hf_next_presentation h + 1, ps_epoch = fs_token_epoch (hf_frames h j),
      ps_render_sequence = fs_token_sequence (hf_frames h j),
      ps_generation = fs_presentation_count (hf_frames h j) + 1, ps_flags = fg_flags interpolated,
      ps_source = f, ps_transport = fs_token_transport (hf_frames h j), ps_source_frame_id = x\<rparr>"

definition presented :: "fusion \<Rightarrow> nat \<Rightarrow> input_frontend \<Rightarrow> u64 \<Rightarrow> bool \<Rightarrow> fusion" where
  "presented h j f x interpolated =
     h\<lparr>hf_next_presentation := hf_next_presentation h + 1,
       hf_presentations := (hf_presentations h)(slot kPresentationSlots (hf_next_presentation h + 1) :=
         present h j f x interpolated),
       hf_frames := (hf_frames h)(j := (hf_frames h j)\<lparr>
         fs_presentation_count := fs_presentation_count (hf_frames h j) + 1,
         fs_fg_source := f, fs_fg_flags := fg_flags interpolated,
         fs_latest_presentation := hf_next_presentation h + 1\<rparr>),
       hf_presentation_gate := False\<rparr>"

lemma acquire_fg_fst: "fst (acquire_fg h f x) = h \<or> fst (acquire_fg h f x) = fst (bind_source_to_latest h f x)"
  by (simp add: acquire_fg_def split: option.split)

lemma acquire_fg_frame [frame_simps]:
  "hf_epoch (fst (acquire_fg h f x)) = hf_epoch h"
  "hf_lock_state (fst (acquire_fg h f x)) = hf_lock_state h"
  "hf_frozen_owner_word (fst (acquire_fg h f x)) = hf_frozen_owner_word h"
  "hf_next_token (fst (acquire_fg h f x)) = hf_next_token h"
  "hf_next_presentation (fst (acquire_fg h f x)) = hf_next_presentation h"
  "hf_presentations (fst (acquire_fg h f x)) = hf_presentations h"
  "hf_presentation_gate (fst (acquire_fg h f x)) = hf_presentation_gate h"
  using acquire_fg_fst [of h f x] by (auto simp: frame_simps)

lemma acquire_fg_published: "snd (acquire_fg h f x) = Some j \<Longrightarrow> published (fst (acquire_fg h f x)) j"
  using lookup_published [of h f x j] bind_published [of h f x j]
  by (auto simp: acquire_fg_def split: option.splits)

lemma fg_cases:
  obtains (ignored) "canonicalize_fg_presentation_locked h f x b = (h, None)"
  | (unbound) "canonicalize_fg_presentation_locked h f x b = (fst (acquire_fg h f x), None)" "locked h"
  | (emitted) j where "locked h" "f \<noteq> FE_Auto" "x \<noteq> 0" "owner_from_word (hf_frozen_owner_word h) A_FrameGeneration = f"
      "snd (acquire_fg h f x) = Some j" "fs_token_epoch (hf_frames (fst (acquire_fg h f x)) j) \<noteq> 0"
      "canonicalize_fg_presentation_locked h f x b =
        (presented (fst (acquire_fg h f x)) j f x b,
         Some (token_from_presentation (present (fst (acquire_fg h f x)) j f x b)))"
proof (cases "f = FE_Auto \<or> x = 0 \<or> hf_lock_state h \<noteq> 2 \<or>
    owner_from_word (hf_frozen_owner_word h) A_FrameGeneration \<noteq> f")
  case True
  then show ?thesis using ignored by (auto simp: canonicalize_fg_presentation_locked_def)
next
  case False
  obtain h1 fr where a: "acquire_fg h f x = (h1, fr)" by force
  have c: "canonicalize_fg_presentation_locked h f x b = (case fr of None \<Rightarrow> (h1, None)
      | Some j \<Rightarrow> if hf_presentation_gate h1 then (h1, None)
          else if fs_token_epoch (hf_frames h1 j) = 0 \<or> fs_token_sequence (hf_frames h1 j) = 0 \<or>
                  fs_token_sequence (hf_frames h1 j) = kBusyFrame
          then (h1\<lparr>hf_presentation_gate := False\<rparr>, None)
          else (presented h1 j f x b, Some (token_from_presentation (present h1 j f x b))))"
    using False a [unfolded acquire_fg_def]
    by (simp add: canonicalize_fg_presentation_locked_def presented_def present_def Let_def split: option.split)
  have l: "locked h" using False by (simp add: locked_def)
  have same: "\<not> hf_presentation_gate h1 \<Longrightarrow> h1\<lparr>hf_presentation_gate := False\<rparr> = h1" by simp
  show ?thesis
  proof (cases fr)
    case None
    then show ?thesis using unbound c a l by simp
  next
    case (Some j)
    then show ?thesis
      using unbound emitted [of j] c a l False same
      by (cases "hf_presentation_gate h1 \<or> fs_token_epoch (hf_frames h1 j) = 0 \<or>
          fs_token_sequence (hf_frames h1 j) = 0 \<or> fs_token_sequence (hf_frames h1 j) = kBusyFrame") auto
  qed
qed

lemma presented_frame [simp]:
  "hf_lock_state (presented h j f x b) = hf_lock_state h"
  "hf_frozen_owner_word (presented h j f x b) = hf_frozen_owner_word h"
  "hf_next_token (presented h j f x b) = hf_next_token h"
  "hf_next_presentation (presented h j f x b) = hf_next_presentation h + 1"
  "fs_token_sequence (hf_frames (presented h j f x b) k) = fs_token_sequence (hf_frames h k)"
  "fs_token_epoch (hf_frames (presented h j f x b) k) = fs_token_epoch (hf_frames h k)"
  "hf_epoch (presented h j f x b) = hf_epoch h"
  "fs_marker_mask (hf_frames (presented h j f x b) k) = fs_marker_mask (hf_frames h k)"
  by (simp_all add: presented_def)

section \<open>Runs of calls\<close>

datatype fusion_op =
    Op_control input_frontend control_packet
  | Op_transport frame_transport
  | Op_observe_pacing input_frontend u64
  | Op_pacing input_frontend u64
  | Op_resolve_pacing snapshot arbiter u8
  | Op_resolve_control snapshot arbiter u8
  | Op_marker input_frontend normalized_marker u64 snapshot arbiter u8
  | Op_marker_locked input_frontend normalized_marker u64
  | Op_fg input_frontend u64 bool snapshot arbiter u8
  | Op_fg_locked input_frontend u64 bool

fun fusion_step :: "fusion \<Rightarrow> fusion_op \<Rightarrow> fusion" where
  "fusion_step h (Op_control f packet) = publish_control h f packet"
| "fusion_step h (Op_transport tr) = set_transport h tr"
| "fusion_step h (Op_observe_pacing f x) = publish_pacing_observation h f x"
| "fusion_step h (Op_pacing f x) = fst (canonicalize_pacing_observation h f x)"
| "fusion_step h (Op_resolve_pacing sn a em) = fst (resolve_pacing_source h sn a em)"
| "fusion_step h (Op_resolve_control sn a em) = fst (resolve_control h sn a em)"
| "fusion_step h (Op_marker f m x sn a em) = fst (canonicalize_marker h f m x sn a em)"
| "fusion_step h (Op_marker_locked f m x) = fst (canonicalize_marker_locked h f m x)"
| "fusion_step h (Op_fg f x b sn a em) = fst (canonicalize_fg_presentation h f x b sn a em)"
| "fusion_step h (Op_fg_locked f x b) = fst (canonicalize_fg_presentation_locked h f x b)"

text \<open>Every operation is one of six primitive changes, after taking the startup lock if it may.\<close>

lemma pacing_fst:
  "fst (canonicalize_pacing_observation h f x) = h \<or>
   (locked h \<and> owner_from_word (hf_frozen_owner_word h) A_Pacing = f \<and>
    fst (canonicalize_pacing_observation h f x) = fst (establish_canonical_frame h f x))"
  by (auto simp: canonicalize_pacing_observation_def locked_def split: prod.split option.split)

lemma marker_fst:
  "fst (canonicalize_marker h f m x sn a em) = h \<or>
   fst (canonicalize_marker h f m x sn a em) = fst (maybe_lock_startup h sn a em) \<or>
   (locked (fst (maybe_lock_startup h sn a em)) \<and>
    canonicalize_marker h f m x sn a em = canonicalize_marker_locked (fst (maybe_lock_startup h sn a em)) f m x)"
proof (cases "f = FE_Auto \<or> x = 0")
  case True
  then show ?thesis by (auto simp: canonicalize_marker_def)
next
  case False
  obtain h' b where e: "maybe_lock_startup h sn a em = (h', b)" by force
  with False maybe_lock_True [of h sn a em h'] show ?thesis
    by (cases b) (auto simp: canonicalize_marker_def)
qed

definition note_fg :: "fusion \<Rightarrow> nat \<Rightarrow> fusion" where
  "note_fg h i = (if locked h then h else h\<lparr>hf_fg_seen_mask := hf_fg_seen_mask h OR shl1 i\<rparr>)"

lemma note_fg_frame [frame_simps]:
  "hf_frames (note_fg h i) = hf_frames h" "hf_next_token (note_fg h i) = hf_next_token h"
  "hf_epoch (note_fg h i) = hf_epoch h" "hf_lock_state (note_fg h i) = hf_lock_state h" "hf_frozen_owner_word (note_fg h i) = hf_frozen_owner_word h"
  by (simp_all add: note_fg_def)

lemma note_fg_locked: "locked h \<Longrightarrow> note_fg h i = h"
  by (simp add: note_fg_def)

lemma fg_fst:
  "fst (canonicalize_fg_presentation h f x b sn a em) = h \<or>
   (\<exists>i. fst (canonicalize_fg_presentation h f x b sn a em) = fst (maybe_lock_startup (note_fg h i) sn a em) \<or>
     (locked (fst (maybe_lock_startup (note_fg h i) sn a em)) \<and>
      canonicalize_fg_presentation h f x b sn a em =
        canonicalize_fg_presentation_locked (fst (maybe_lock_startup (note_fg h i) sn a em)) f x b))"
proof (cases "f = FE_Auto \<or> x = 0 \<or> index_of f = None")
  case True
  then show ?thesis by (auto simp: canonicalize_fg_presentation_def)
next
  case False
  then obtain i where i: "index_of f = Some i" by auto
  obtain h' l where e: "maybe_lock_startup (note_fg h i) sn a em = (h', l)" by force
  have "canonicalize_fg_presentation h f x b sn a em =
      (if l then canonicalize_fg_presentation_locked h' f x b else (h', None))"
    using False i e by (simp add: canonicalize_fg_presentation_def note_fg_def Let_def split: if_splits)
  with e maybe_lock_True [of "note_fg h i" sn a em h'] show ?thesis
    by (cases l) (auto intro!: exI [of _ i])
qed

section \<open>The lock is taken once\<close>

lemma marker_locked_lock [frame_simps]:
  "hf_lock_state (fst (canonicalize_marker_locked h f m x)) = hf_lock_state h"
  "hf_frozen_owner_word (fst (canonicalize_marker_locked h f m x)) = hf_frozen_owner_word h"
  by (cases rule: marker_cases [of h f m x]; simp add: frame_simps)+

lemma fg_locked_lock [frame_simps]:
  "hf_lock_state (fst (canonicalize_fg_presentation_locked h f x b)) = hf_lock_state h"
  "hf_frozen_owner_word (fst (canonicalize_fg_presentation_locked h f x b)) = hf_frozen_owner_word h"
  "hf_next_token (fst (canonicalize_fg_presentation_locked h f x b)) = hf_next_token h"
  by (cases rule: fg_cases [of h f x b]; simp add: frame_simps)+

lemma pacing_lock [frame_simps]:
  "hf_lock_state (fst (canonicalize_pacing_observation h f x)) = hf_lock_state h"
  "hf_frozen_owner_word (fst (canonicalize_pacing_observation h f x)) = hf_frozen_owner_word h"
  using pacing_fst [of h f x] by (auto simp: frame_simps)

text \<open>The states in which the owners are frozen as \<open>w\<close>.\<close>

definition frozen_as :: "u64 \<Rightarrow> fusion \<Rightarrow> bool" where
  "frozen_as w h \<longleftrightarrow> locked h \<and> hf_frozen_owner_word h = w"

interpretation frozen: machine fusion_step "frozen_as w" for w
proof
  fix h op
  assume "frozen_as w h"
  then have l: "locked h" and w: "hf_frozen_owner_word h = w" by (simp_all add: frozen_as_def)
  from l have s: "hf_lock_state h = 2" by (simp add: locked_def)
  show "frozen_as w (fusion_step h op)"
  proof (cases op)
    case (Op_marker f m x sn a em)
    then show ?thesis
      using marker_fst [of h f m x sn a em] l w
      by (auto simp: frozen_as_def maybe_lock_locked frame_simps locked_def)
  next
    case (Op_fg f x b sn a em)
    then show ?thesis
      using fg_fst [of h f x b sn a em] l w
      by (auto simp: frozen_as_def maybe_lock_locked note_fg_locked frame_simps locked_def)
  next
    case (Op_observe_pacing f x)
    then show ?thesis
      using l w by (auto simp: frozen_as_def publish_pacing_observation_def locked_def frame_simps split: option.split)
  next
    case (Op_control f p)
    then show ?thesis
      using l w by (auto simp: frozen_as_def publish_control_def locked_def split: option.split)
  next
    case (Op_resolve_pacing sn a em)
    then show ?thesis
      using l w by (simp add: frozen_as_def resolve_pacing_source_def maybe_lock_locked)
  next
    case (Op_resolve_control sn a em)
    then show ?thesis
      using l w by (simp add: frozen_as_def resolve_control_def maybe_lock_locked)
  qed (use s w in \<open>simp_all add: frozen_as_def set_transport_def frame_simps locked_def\<close>)
qed

text \<open>C25
  Ownership is frozen: once the startup lock is taken, no sequence of calls other than a reset
  unlocks it or changes the owner of any aspect, whatever evidence later snapshots and arbiters bring.
\<close>

theorem owners_frozen:
  assumes "locked h"
  shows "locked (foldl fusion_step h ops) \<and>
    owner_from_word (hf_frozen_owner_word (foldl fusion_step h ops)) aspect =
      owner_from_word (hf_frozen_owner_word h) aspect"
  using frozen.inv_run [of "hf_frozen_owner_word h" h ops] assms by (simp add: frozen_as_def)

theorem owners_frozen_witness:
  "owner_from_word (hf_frozen_owner_word (foldl fusion_step (sample_fusion\<lparr>hf_frozen_owner_word := 3, hf_lock_state := 2\<rparr>)
     [Op_transport DxvkD3D11, Op_resolve_control sample_snapshot sample_arbiter 1])) A_Pacing = XeLL"
proof -
  have "owner_from_word 3 A_Pacing = XeLL"
    by (simp add: owner_from_word_def kOwnerBits_def kOwnerMask_def shl1_def frontend_of_code_def)
  then show ?thesis
    using owners_frozen [of "sample_fusion\<lparr>hf_frozen_owner_word := 3, hf_lock_state := 2\<rparr>"
        "[Op_transport DxvkD3D11, Op_resolve_control sample_snapshot sample_arbiter 1]" A_Pacing]
    by (simp add: locked_def sample_fusion_def)
qed

section \<open>Who creates tokens\<close>

fun op_source :: "fusion_op \<Rightarrow> input_frontend option" where
  "op_source (Op_observe_pacing f x) = Some f"
| "op_source (Op_pacing f x) = Some f"
| "op_source (Op_marker f m x sn a em) = Some f"
| "op_source (Op_marker_locked f m x) = Some f"
| "op_source _ = None"

lemma marker_locked_next:
  "hf_next_token (fst (canonicalize_marker_locked h f m x)) = hf_next_token h \<or>
   (locked h \<and> f = owner_from_word (hf_frozen_owner_word h) A_Pacing \<and>
    hf_next_token (fst (canonicalize_marker_locked h f m x)) = hf_next_token h + 1)"
  using establish_next [of h f x] acquire_next [of h f x]
  by (cases rule: marker_cases [of h f m x]) auto

lemma pacing_next:
  "hf_next_token (fst (canonicalize_pacing_observation h f x)) = hf_next_token h \<or>
   (locked h \<and> f = owner_from_word (hf_frozen_owner_word h) A_Pacing \<and>
    hf_next_token (fst (canonicalize_pacing_observation h f x)) = hf_next_token h + 1)"
  using establish_next [of h f x] pacing_fst [of h f x] by auto

lemma token_step:
  assumes "hf_next_token (fusion_step h op) \<noteq> hf_next_token h"
  shows "locked (fusion_step h op) \<and>
    op_source op = Some (owner_from_word (hf_frozen_owner_word (fusion_step h op)) A_Pacing) \<and>
    hf_next_token (fusion_step h op) = hf_next_token h + 1"
proof (cases op)
  case (Op_marker f m x sn a em)
  let ?h = "fst (maybe_lock_startup h sn a em)"
  show ?thesis
    using assms marker_fst [of h f m x sn a em] marker_locked_next [of ?h f m x] Op_marker
    by (auto simp: frame_simps locked_def)
next
  case (Op_marker_locked f m x)
  then show ?thesis using assms marker_locked_next [of h f m x] by (auto simp: frame_simps locked_def)
next
  case (Op_observe_pacing f x)
  then show ?thesis
    using assms pacing_next [of h f x]
    by (auto simp: publish_pacing_observation_def frame_simps locked_def split: option.splits if_splits)
next
  case (Op_pacing f x)
  then show ?thesis using assms pacing_next [of h f x] by (auto simp: frame_simps locked_def)
next
  case (Op_fg f x b sn a em)
  then show ?thesis using assms fg_fst [of h f x b sn a em] by (auto simp: frame_simps)
next
  case (Op_resolve_pacing sn a em)
  then have "hf_next_token (fusion_step h op) = hf_next_token (fst (maybe_lock_startup h sn a em))"
    by (simp add: resolve_pacing_source_def split: prod.split bool.split)
  then show ?thesis using assms by (simp add: frame_simps)
next
  case (Op_resolve_control sn a em)
  then have "hf_next_token (fusion_step h op) = hf_next_token (fst (maybe_lock_startup h sn a em))"
    by (simp add: resolve_control_def split: prod.split bool.split)
  then show ?thesis using assms by (simp add: frame_simps)
qed (use assms in \<open>simp_all add: publish_control_def set_transport_def frame_simps split: option.splits\<close>)

text \<open>C23
  Only the frozen pacing owner creates frame tokens, one at a time: a call that changes the token
  counter comes from the frontend that owns pacing, on a locked fusion, and adds exactly one.
\<close>

theorem only_pacing_owner_creates:
  assumes "hf_next_token (fusion_step h op) \<noteq> hf_next_token h"
  shows "locked (fusion_step h op) \<and>
    op_source op = Some (owner_from_word (hf_frozen_owner_word (fusion_step h op)) A_Pacing) \<and>
    hf_next_token (fusion_step h op) = hf_next_token h + 1"
  using assms by (rule token_step)

text \<open>A fresh locked timeline: Reflex paces, AntiLag2 owns frame generation, XeLL the rest.\<close>

definition sample_timeline :: fusion where
  "sample_timeline = (fusion_reset sample_fusion)\<lparr>
     hf_frozen_owner_word := pack_owner_word (\<lambda>i. if i = 0 then Reflex else if i = 12 then AntiLag2 else XeLL),
     hf_lock_state := 2\<rparr>"

lemma sample_timeline_owner:
  "owner_from_word (hf_frozen_owner_word sample_timeline) a =
     (if a = A_Pacing then Reflex else if a = A_FrameGeneration then AntiLag2 else XeLL)"
  by (simp add: sample_timeline_def owner_word_roundtrip) (cases a; simp)

lemma sample_timeline_fields:
  "hf_lock_state sample_timeline = 2" "hf_epoch sample_timeline = 3" "hf_next_token sample_timeline = 0"
  "hf_latest_token sample_timeline = 0" "hf_next_presentation sample_timeline = 0"
  "hf_frames sample_timeline = (\<lambda>_. frame_zero)" "hf_bindings sample_timeline = (\<lambda>_ _. binding_zero)"
  "hf_last_source_token sample_timeline = (\<lambda>_. 0)" "hf_token_gate sample_timeline = False"
  "hf_presentation_gate sample_timeline = False" "hf_transport sample_timeline = Transport_Unknown"
  by (simp_all add: sample_timeline_def fusion_reset_def sample_fusion_def)

lemma sample_establish:
  "establish_canonical_frame sample_timeline Reflex 7 =
     (sample_timeline\<lparr>hf_next_token := 1, hf_latest_token := 1,
        hf_frames := (\<lambda>_. frame_zero)(1 := new_frame 3 1 Transport_Unknown 0 7 Reflex),
        hf_bindings := (\<lambda>_ _. binding_zero)(0 := (\<lambda>_. binding_zero)(7 :=
          \<lparr>sb_native_frame_id = 7, sb_token_epoch = 3, sb_token_sequence = 1\<rparr>)),
        hf_last_source_token := (\<lambda>_. 0)(0 := 1)\<rparr>, Some 1)"
  by (simp add: establish_canonical_frame_def lookup_source_frame_def sample_timeline_fields binding_zero_def
      kBusyFrame_def slot_def kFrameSlots_def publish_source_binding_def new_frame_def Let_def)

theorem only_pacing_owner_creates_witness:
  "hf_next_token (fusion_step sample_timeline (Op_pacing Reflex 7)) = 1 \<and>
   locked (fusion_step sample_timeline (Op_pacing Reflex 7))"
proof -
  have "hf_next_token (fusion_step sample_timeline (Op_pacing Reflex 7)) = 1"
    by (simp add: canonicalize_pacing_observation_def sample_timeline_owner sample_timeline_fields(1)
        sample_establish kBusyFrame_def)
  then show ?thesis
    using only_pacing_owner_creates [of sample_timeline "Op_pacing Reflex 7"]
    by (simp add: sample_timeline_fields)
qed

section \<open>A marker is accepted once per frame\<close>

fun accepted_marker :: "fusion \<Rightarrow> fusion_op \<Rightarrow> (u64 \<times> normalized_marker) option" where
  "accepted_marker h (Op_marker f m x sn a em) =
     map_option (\<lambda>t. (ft_sequence t, m)) (snd (canonicalize_marker h f m x sn a em))"
| "accepted_marker h (Op_marker_locked f m x) =
     map_option (\<lambda>t. (ft_sequence t, m)) (snd (canonicalize_marker_locked h f m x))"
| "accepted_marker h _ = None"

fun accepted_markers :: "fusion \<Rightarrow> fusion_op list \<Rightarrow> (u64 \<times> normalized_marker) list" where
  "accepted_markers h [] = []"
| "accepted_markers h (p # ps) =
     (case accepted_marker h p of None \<Rightarrow> [] | Some x \<Rightarrow> [x]) @ accepted_markers (fusion_step h p) ps"

lemma tl_fg_locked: "tl_le h (fst (canonicalize_fg_presentation_locked h f x b))"
proof -
  have 1: "tl_le h (fst (acquire_fg h f x))"
    using acquire_fg_fst [of h f x] tl_bind [of h f x] tl_refl by auto
  have "tl_le h1 (presented h1 j f x b)" for h1 j by (simp add: tl_le_def)
  then show ?thesis
    by (cases rule: fg_cases [of h f x b]) (auto simp: tl_refl 1 intro: tl_trans [OF 1])
qed

lemma tl_lock: "tl_le h (fst (maybe_lock_startup h sn a em))"
  by (rule tl_same) (simp_all add: frame_simps)

lemma tl_step:
  assumes "hf_next_token h \<noteq> u64_max"
  shows "tl_le h (fusion_step h op)"
proof (cases op)
  case (Op_marker f m x sn a em)
  let ?h = "fst (maybe_lock_startup h sn a em)"
  have "hf_next_token ?h \<noteq> u64_max" using assms by (simp add: frame_simps)
  from tl_marker_locked [OF this, of f m x] show ?thesis
    using marker_fst [of h f m x sn a em] tl_lock [of h sn a em] Op_marker tl_refl
    by (auto intro: tl_trans)
next
  case (Op_marker_locked f m x)
  then show ?thesis using tl_marker_locked [OF assms] by simp
next
  case (Op_observe_pacing f x)
  then show ?thesis
    using pacing_fst [of h f x] tl_establish [OF assms, of f x]
    by (auto simp: publish_pacing_observation_def tl_refl intro: tl_same split: option.split)
next
  case (Op_pacing f x)
  then show ?thesis using pacing_fst [of h f x] tl_establish [OF assms, of f x] by (auto simp: tl_refl)
next
  case (Op_fg f x b sn a em)
  have n: "tl_le h (note_fg h i)" for i by (rule tl_same) (simp_all add: frame_simps)
  show ?thesis
    using fg_fst [of h f x b sn a em] Op_fg tl_refl tl_trans [OF n tl_lock]
      tl_trans [OF tl_trans [OF n tl_lock] tl_fg_locked] by auto
next
  case (Op_fg_locked f x b)
  then show ?thesis using tl_fg_locked by simp
next
  case (Op_resolve_pacing sn a em)
  then have "fusion_step h op = fst (maybe_lock_startup h sn a em)"
    by (simp add: resolve_pacing_source_def split: prod.split bool.split)
  then show ?thesis using tl_lock by simp
next
  case (Op_resolve_control sn a em)
  then have "fusion_step h op = fst (maybe_lock_startup h sn a em)"
    by (simp add: resolve_control_def split: prod.split bool.split)
  then show ?thesis using tl_lock by simp
next
  case (Op_control f p)
  then show ?thesis by (auto simp: publish_control_def tl_refl intro: tl_same split: option.split)
next
  case (Op_transport tr)
  then show ?thesis by (auto simp: set_transport_def intro: tl_same)
qed

lemma slots_marker_locked:
  "slots_ok h \<Longrightarrow> room h \<Longrightarrow> slots_ok (fst (canonicalize_marker_locked h f m x))"
  by (cases rule: marker_cases [of h f m x])
     (auto intro: slots_establish slots_acquire slots_same [OF slots_acquire])

lemma slots_fg_locked: "slots_ok h \<Longrightarrow> slots_ok (fst (canonicalize_fg_presentation_locked h f x b))"
  using acquire_fg_fst [of h f x] slots_bind [of h f x]
  by (cases rule: fg_cases [of h f x b]) (auto elim: slots_same)

lemma slots_lock: "slots_ok h \<Longrightarrow> slots_ok (fst (maybe_lock_startup h sn a em))"
  by (rule slots_same) (simp_all add: frame_simps)

lemma room_lock: "room h \<Longrightarrow> room (fst (maybe_lock_startup h sn a em))"
  by (simp add: room_def frame_simps)

lemma slots_step:
  assumes "slots_ok h" "room h"
  shows "slots_ok (fusion_step h op)"
proof (cases op)
  case (Op_marker f m x sn a em)
  then show ?thesis
    using marker_fst [of h f m x sn a em] assms slots_lock [OF assms(1)]
      slots_marker_locked [OF slots_lock [OF assms(1)] room_lock [OF assms(2)]] by auto
next
  case (Op_marker_locked f m x)
  then show ?thesis using slots_marker_locked [OF assms] by simp
next
  case (Op_observe_pacing f x)
  then show ?thesis
    using pacing_fst [of h f x] slots_establish [OF assms, of f x] assms(1)
    by (auto simp: publish_pacing_observation_def slots_ok_def split: option.split)
next
  case (Op_pacing f x)
  then show ?thesis using pacing_fst [of h f x] slots_establish [OF assms, of f x] assms by auto
next
  case (Op_fg f x b sn a em)
  have n: "slots_ok (note_fg h i)" for i using assms(1) by (rule slots_same) (simp_all add: frame_simps)
  show ?thesis
    using fg_fst [of h f x b sn a em] Op_fg assms(1) slots_lock [OF n] slots_fg_locked [OF slots_lock [OF n]] by auto
next
  case (Op_fg_locked f x b)
  then show ?thesis using slots_fg_locked [OF assms(1)] by simp
next
  case (Op_resolve_pacing sn a em)
  then have "fusion_step h op = fst (maybe_lock_startup h sn a em)"
    by (simp add: resolve_pacing_source_def split: prod.split bool.split)
  then show ?thesis using slots_lock [OF assms(1)] by simp
next
  case (Op_resolve_control sn a em)
  then have "fusion_step h op = fst (maybe_lock_startup h sn a em)"
    by (simp add: resolve_control_def split: prod.split bool.split)
  then show ?thesis using slots_lock [OF assms(1)] by simp
qed (use assms(1) in \<open>auto simp: publish_control_def set_transport_def slots_ok_def split: option.split\<close>)

text \<open>The pairs of token and marker that were accepted, and what the slots remember of them.\<close>

definition recorded :: "(u64 \<times> normalized_marker) set \<Rightarrow> fusion \<Rightarrow> bool" where
  "recorded acc h \<longleftrightarrow> (\<forall>s m. (s, m) \<in> acc \<longrightarrow> s \<le> hf_next_token h \<and>
     (\<forall>j. fs_token_sequence (hf_frames h j) = s \<longrightarrow> fs_marker_mask (hf_frames h j) AND marker_bit m \<noteq> 0))"

lemma recorded_tl: "recorded acc h \<Longrightarrow> tl_le h h' \<Longrightarrow> recorded acc h'"
  unfolding recorded_def tl_le_def marker_bit_def and_shl1_eq_0_iff
  by (metis order_trans leD)

lemma marker_bit_nonzero: "marker_bit m \<noteq> 0"
  by (cases m) (simp_all add: marker_bit_def shl1_def)

lemma accept_fresh:
  assumes "slots_ok h" "room h" "recorded acc h" "canonicalize_marker_locked h f m x = (h', Some t)"
  shows "(ft_sequence t, m) \<notin> acc \<and> recorded (insert (ft_sequence t, m) acc) h'"
proof -
  let ?h = "fst (acquire h f x)"
  from assms(4) obtain j where j: "snd (acquire h f x) = Some j"
    and clear: "fs_marker_mask (hf_frames ?h j) AND marker_bit m = 0"
    and h': "h' = mark ?h j m" and t: "t = token_from_frame (hf_frames (mark ?h j m) j) f x"
    by (cases rule: marker_cases [of h f m x]) auto
  have p: "published ?h j" using acquire_published [OF assms(2) j] .
  then have s: "ft_sequence t = fs_token_sequence (hf_frames ?h j)"
    using t token_published [of "mark ?h j m" j f x] by (simp add: published_def)
  have r: "recorded acc ?h" using recorded_tl [OF assms(3) tl_acquire [OF room_neq [OF assms(2)]]] .
  have ok: "slots_ok ?h" using slots_acquire [OF assms(1,2)] .
  have new: "(ft_sequence t, m) \<notin> acc"
    using r clear s unfolding recorded_def by auto
  have "recorded acc h'" using r tl_mark h' recorded_tl by blast
  moreover have "ft_sequence t \<le> hf_next_token h'"
    using ok p s h' by (auto simp: slots_ok_def published_def)
  moreover have "k = j" if "fs_token_sequence (hf_frames h' k) = ft_sequence t" for k
    using that ok p s h' unfolding slots_ok_def published_def by (metis marker_mask_mark(2))
  moreover have "fs_marker_mask (hf_frames h' j) AND marker_bit m \<noteq> 0"
    using marker_bit_nonzero [of m] h' by (simp add: and_shl1_eq_0_iff marker_bit_def bit_or_shl1)
  ultimately have "recorded (insert (ft_sequence t, m) acc) h'"
    unfolding recorded_def by auto
  with new show ?thesis by simp
qed

lemma accept_step:
  assumes "slots_ok h" "room h" "recorded acc h" "accepted_marker h op = Some p"
  shows "p \<notin> acc \<and> recorded (insert p acc) (fusion_step h op)"
proof (cases op)
  case (Op_marker f m x sn a em)
  let ?h = "fst (maybe_lock_startup h sn a em)"
  from Op_marker assms(4) obtain t where t: "snd (canonicalize_marker h f m x sn a em) = Some t" "p = (ft_sequence t, m)"
    by auto
  obtain g l where e: "maybe_lock_startup h sn a em = (g, l)" by force
  have "canonicalize_marker h f m x sn a em = canonicalize_marker_locked g f m x"
    using t(1) e by (cases l) (auto simp: canonicalize_marker_def split: if_splits)
  with e have c: "canonicalize_marker h f m x sn a em = canonicalize_marker_locked ?h f m x" by simp
  obtain h' where "canonicalize_marker_locked ?h f m x = (h', Some t)"
    using t(1) c by (metis prod.collapse)
  moreover have "recorded acc ?h" using recorded_tl [OF assms(3) tl_lock] .
  ultimately show ?thesis
    using accept_fresh [OF slots_lock [OF assms(1)] room_lock [OF assms(2)]] t(2) Op_marker c by simp
next
  case (Op_marker_locked f m x)
  with assms(4) obtain t where t: "snd (canonicalize_marker_locked h f m x) = Some t" "p = (ft_sequence t, m)"
    by auto
  obtain h' where "canonicalize_marker_locked h f m x = (h', Some t)"
    using t(1) by (metis prod.collapse)
  then show ?thesis using accept_fresh [OF assms(1-3)] t(2) Op_marker_locked by simp
qed (use assms(4) in simp_all)

lemma step_room: "unat (hf_next_token h) + Suc n < 18446744073709551614 \<Longrightarrow>
  unat (hf_next_token (fusion_step h op)) + n < 18446744073709551614"
  using token_step [of h op] room_next [of h]
  by (cases "hf_next_token (fusion_step h op) = hf_next_token h") (simp_all add: room_def)

lemma accepted_distinct:
  "slots_ok h \<Longrightarrow> unat (hf_next_token h) + length ops < 18446744073709551614 \<Longrightarrow> recorded acc h \<Longrightarrow>
   distinct (accepted_markers h ops) \<and> set (accepted_markers h ops) \<inter> acc = {}"
proof (induction ops arbitrary: h acc)
  case Nil
  then show ?case by simp
next
  case (Cons op ops)
  from Cons.prems(2) have r: "room h" by (simp add: room_def)
  have s: "slots_ok (fusion_step h op)" using slots_step [OF Cons.prems(1) r] .
  have b: "unat (hf_next_token (fusion_step h op)) + length ops < 18446744073709551614"
    using step_room [of h "length ops" op] Cons.prems(2) by simp
  show ?case
  proof (cases "accepted_marker h op")
    case None
    have "recorded acc (fusion_step h op)"
      using recorded_tl [OF Cons.prems(3) tl_step [OF room_neq [OF r]]] .
    from Cons.IH [OF s b this] None show ?thesis by simp
  next
    case (Some p)
    from accept_step [OF Cons.prems(1) r Cons.prems(3) Some] Cons.IH [OF s b, of "insert p acc"] Some
    show ?thesis by auto
  qed
qed

text \<open>C21
  Over any sequence of calls after a reset, whichever frontends they come from, each marker of each
  frame token is accepted at most once: no pair of token sequence and marker repeats among the
  accepted ones.  The bound keeps the token counter below the busy mark.
\<close>

theorem marker_accepted_once:
  assumes "length ops < 18446744073709551614"
  shows "distinct (accepted_markers (fusion_reset h) ops)"
  using accepted_distinct [OF slots_reset, of h ops "{}"] assms
  by (simp add: recorded_def) (simp add: fusion_reset_def)

text \<open>
  Two frontends publish a control packet and pace; the first marker takes the startup lock, which XeLL wins for
  pacing and simulation.  Of its markers two of frame 3 and one of frame 4 are accepted, not the repeated
  one of frame 3, and none of Reflex.
\<close>

definition sample_marker_run :: "fusion_op list" where
  "sample_marker_run = [Op_control Reflex (unpack_control 257), Op_control XeLL (unpack_control 257),
     Op_observe_pacing Reflex 7, Op_observe_pacing XeLL 3,
     Op_marker Reflex SimulationStart 7 sample_snapshot sample_arbiter 15,
     Op_marker_locked XeLL SimulationStart 3, Op_marker_locked XeLL SimulationEnd 3,
     Op_marker_locked Reflex SimulationStart 7, Op_marker_locked XeLL SimulationStart 3,
     Op_marker_locked XeLL SimulationStart 4]"

lemma sample_marker_run_accepts:
  "accepted_markers (fusion_reset sample_fusion) sample_marker_run =
     [(1, SimulationStart), (1, SimulationEnd), (2, SimulationStart)]"
  by code_simp

theorem marker_accepted_once_witness:
  "accepted_markers (fusion_reset sample_fusion) sample_marker_run =
     [(1, SimulationStart), (1, SimulationEnd), (2, SimulationStart)] \<and>
   distinct (accepted_markers (fusion_reset sample_fusion) sample_marker_run)"
  using marker_accepted_once [of sample_marker_run sample_fusion] sample_marker_run_accepts
  by (simp add: sample_marker_run_def)

section \<open>Tokens and presentations stay resolvable\<close>

lemma run_slots:
  "slots_ok h \<Longrightarrow> unat (hf_next_token h) + length ops < 18446744073709551614 \<Longrightarrow>
   slots_ok (foldl fusion_step h ops) \<and> room (foldl fusion_step h ops)"
proof (induction ops arbitrary: h)
  case Nil
  then show ?case by (simp add: room_def)
next
  case (Cons op ops)
  then have r: "room h" by (simp add: room_def)
  show ?case
    using Cons.IH [OF slots_step [OF Cons.prems(1) r]] step_room [of h "length ops" op] Cons.prems(2) by simp
qed

text \<open>A timeline without tokens, as a reset leaves it.\<close>

definition no_tokens :: "fusion \<Rightarrow> bool" where
  "no_tokens h \<longleftrightarrow> hf_next_token h = 0 \<and> (\<forall>j. fs_token_sequence (hf_frames h j) = 0)"

lemma no_tokens_reset: "no_tokens (fusion_reset h)"
  by (simp add: no_tokens_def fusion_reset_def frame_zero_def)

lemma no_tokens_slots: "no_tokens h \<Longrightarrow> slots_ok h"
  by (simp add: no_tokens_def slots_ok_def)

text \<open>C22
  The last 64 tokens always resolve: after any sequence of calls since a reset, the frame of every
  token created less than a ring window ago is found under the current epoch, in its own slot.
\<close>

theorem recent_tokens_resolve:
  assumes "no_tokens h" "length ops < 18446744073709551614" "h' = foldl fusion_step h ops"
    and "hf_epoch h' \<noteq> 0" "s \<noteq> 0" "s \<le> hf_next_token h'" "unat (hf_next_token h') - unat s < 64"
  shows "frame_for_token h' (hf_epoch h') s = Some (slot kFrameSlots s)"
proof -
  have ok: "slots_ok h'" and r: "room h'"
    using run_slots [OF no_tokens_slots [OF assms(1)], of ops] assms(1-3) by (simp_all add: no_tokens_def)
  have "fs_token_sequence (hf_frames h' (slot kFrameSlots s)) = s"
    using ok assms(5-7) by (simp add: slots_ok_def kFrameSlots_def)
  moreover from this have "fs_token_epoch (hf_frames h' (slot kFrameSlots s)) = hf_epoch h'"
    using slots_okD(3) [OF ok, of "slot kFrameSlots s"] assms(5) by simp
  moreover have "s \<noteq> kBusyFrame"
    using r assms(6) by (auto simp: room_def kBusyFrame_def word_le_nat_alt unat_u64_max)
  ultimately show ?thesis using assms(4,5) by (simp add: frame_for_token_Some)
qed

lemma sample_pacing:
  "fusion_step sample_timeline (Op_pacing Reflex 7) = fst (establish_canonical_frame sample_timeline Reflex 7)"
  by (simp add: canonicalize_pacing_observation_def sample_timeline_owner sample_timeline_fields(1)
      sample_establish kBusyFrame_def)

theorem recent_tokens_resolve_witness:
  "frame_for_token (foldl fusion_step sample_timeline [Op_pacing Reflex 7]) 3 1 = Some (slot 64 1)"
proof -
  have "frame_for_token (foldl fusion_step sample_timeline [Op_pacing Reflex 7])
      (hf_epoch (foldl fusion_step sample_timeline [Op_pacing Reflex 7])) 1 = Some (slot kFrameSlots 1)"
    by (rule recent_tokens_resolve [OF _ _ refl])
      (simp_all add: no_tokens_def sample_timeline_fields frame_zero_def sample_pacing sample_establish
        del: fusion_step.simps)
  then show ?thesis
    by (simp add: sample_pacing sample_establish sample_timeline_fields kFrameSlots_def del: fusion_step.simps)
qed

text \<open>The presentation ring.\<close>

definition publish_presentation :: "fusion \<Rightarrow> u64 \<Rightarrow> presentation_token \<Rightarrow> fusion" where
  "publish_presentation h s t =
     h\<lparr>hf_presentations := (hf_presentations h)(slot kPresentationSlots s :=
       \<lparr>ps_sequence = s, ps_epoch = pt_epoch t, ps_render_sequence = pt_render_sequence t,
        ps_generation = pt_generation t, ps_flags = fg_flags (pt_interpolated t), ps_source = pt_source t,
        ps_transport = pt_transport t, ps_source_frame_id = pt_source_frame_id t\<rparr>)\<rparr>"

lemma fg_flags_interpolated [simp]: "fg_flags b AND kFgInterpolated \<noteq> 0 \<longleftrightarrow> b"
  by (cases b) (simp_all add: fg_flags_def kFgKnown_def kFgInterpolated_def shl1_def)

interpretation pres: slot_ring publish_presentation "\<lambda>h. lookup_presentation h e" kPresentationSlots
  "\<lambda>s t. pt_sequence t = s \<and> pt_epoch t = e \<and> presentation_token_ok t \<and> s \<noteq> kBusyFrame" for e
proof
  fix s t :: u64 and x h
  show "lookup_presentation (publish_presentation h s x) e s = Some x"
    if "pt_sequence x = s \<and> pt_epoch x = e \<and> presentation_token_ok x \<and> s \<noteq> kBusyFrame"
  proof -
    have "token_from_presentation (hf_presentations (publish_presentation h s x) (slot kPresentationSlots s)) = x"
      using that by (intro presentation_token.equality)
        (auto simp: publish_presentation_def token_from_presentation_def presentation_token_ok_def)
    with that show ?thesis
      by (auto simp: lookup_presentation_def publish_presentation_def presentation_token_ok_def Let_def)
  qed
  show "lookup_presentation (publish_presentation h t x) e s = lookup_presentation h e s"
    if "slot kPresentationSlots s \<noteq> slot kPresentationSlots t"
    using that by (simp add: lookup_presentation_def publish_presentation_def)
  show "lookup_presentation (publish_presentation h t x) e s = None"
    if "s \<noteq> t" "pt_sequence x = t \<and> pt_epoch x = e \<and> presentation_token_ok x \<and> t \<noteq> kBusyFrame"
      "slot kPresentationSlots s = slot kPresentationSlots t"
    using that by (simp add: lookup_presentation_def publish_presentation_def Let_def)
qed

lemma lookup_presentation_cong:
  "hf_presentations h' = hf_presentations h \<Longrightarrow> lookup_presentation h' e s = lookup_presentation h e s"
  by (simp add: lookup_presentation_def)

text \<open>How a call changes the presentation ring: not at all, or by publishing the next number.\<close>

definition presents :: "fusion \<Rightarrow> fusion \<Rightarrow> bool" where
  "presents h h' \<longleftrightarrow>
     (hf_presentations h' = hf_presentations h \<and> hf_next_presentation h' = hf_next_presentation h) \<or>
     (hf_next_presentation h' = hf_next_presentation h + 1 \<and>
      (\<exists>t. hf_presentations h' = hf_presentations (publish_presentation h (hf_next_presentation h + 1) t)))"

lemma presents_presented:
  assumes "hf_presentations h1 = hf_presentations h" "hf_next_presentation h1 = hf_next_presentation h"
  shows "presents h (presented h1 j f x b)"
proof -
  let ?t = "\<lparr>pt_epoch = fs_token_epoch (hf_frames h1 j), pt_sequence = 0,
    pt_render_sequence = fs_token_sequence (hf_frames h1 j),
    pt_generation = fs_presentation_count (hf_frames h1 j) + 1, pt_interpolated = b, pt_source = f,
    pt_transport = fs_token_transport (hf_frames h1 j), pt_source_frame_id = x\<rparr>"
  have "hf_presentations (presented h1 j f x b) =
      hf_presentations (publish_presentation h (hf_next_presentation h + 1) ?t)"
    using assms by (simp add: presented_def publish_presentation_def present_def)
  then show ?thesis using assms unfolding presents_def by auto
qed

lemma presents_fg_locked: "presents h (fst (canonicalize_fg_presentation_locked h f x b))"
  using presents_presented [of "fst (acquire_fg h f x)" h]
  by (cases rule: fg_cases [of h f x b]) (auto simp: presents_def frame_simps)

lemma presents_marker_locked: "presents h (fst (canonicalize_marker_locked h f m x))"
  by (cases rule: marker_cases [of h f m x]) (simp_all add: presents_def frame_simps mark_def)

lemma presents_via:
  "presents h1 h2 \<Longrightarrow> hf_presentations h1 = hf_presentations h \<Longrightarrow>
   hf_next_presentation h1 = hf_next_presentation h \<Longrightarrow> presents h h2"
  by (auto simp: presents_def publish_presentation_def)

lemma presents_same:
  "hf_presentations h' = hf_presentations h \<Longrightarrow> hf_next_presentation h' = hf_next_presentation h \<Longrightarrow> presents h h'"
  by (simp add: presents_def)

lemma presents_step: "presents h (fusion_step h op)"
proof (cases op)
  case (Op_marker f m x sn a em)
  have "presents h (fst (canonicalize_marker_locked (fst (maybe_lock_startup h sn a em)) f m x))"
    by (rule presents_via [OF presents_marker_locked]) (simp_all add: frame_simps)
  with marker_fst [of h f m x sn a em] show ?thesis
    by (elim disjE conjE) (simp_all add: Op_marker presents_same frame_simps)
next
  case (Op_fg f x b sn a em)
  have n: "hf_presentations (note_fg h i) = hf_presentations h"
    "hf_next_presentation (note_fg h i) = hf_next_presentation h" for i by (simp_all add: note_fg_def)
  have "presents h (fst (canonicalize_fg_presentation_locked (fst (maybe_lock_startup (note_fg h i) sn a em)) f x b))" for i
    by (rule presents_via [OF presents_fg_locked]) (simp_all add: frame_simps n)
  with fg_fst [of h f x b sn a em] show ?thesis
    by (elim disjE exE conjE) (simp_all add: Op_fg presents_same frame_simps n)
next
  case (Op_marker_locked f m x)
  then show ?thesis using presents_marker_locked by simp
next
  case (Op_fg_locked f x b)
  then show ?thesis using presents_fg_locked by simp
next
  case (Op_observe_pacing f x)
  then show ?thesis
    using pacing_fst [of h f x]
    by (auto simp: publish_pacing_observation_def presents_def frame_simps split: option.split)
next
  case (Op_pacing f x)
  then show ?thesis using pacing_fst [of h f x] by (auto simp: presents_def frame_simps)
next
  case (Op_resolve_pacing sn a em)
  then have "fusion_step h op = fst (maybe_lock_startup h sn a em)"
    by (simp add: resolve_pacing_source_def split: prod.split bool.split)
  then show ?thesis by (simp add: presents_def frame_simps)
next
  case (Op_resolve_control sn a em)
  then have "fusion_step h op = fst (maybe_lock_startup h sn a em)"
    by (simp add: resolve_control_def split: prod.split bool.split)
  then show ?thesis by (simp add: presents_def frame_simps)
qed (auto simp: presents_def publish_control_def set_transport_def split: option.split)

lemma presents_keeps:
  assumes "presents h h'" "lookup_presentation h e s = Some t" "s \<le> hf_next_presentation h"
    and "hf_next_presentation h \<noteq> u64_max" "unat (hf_next_presentation h') - unat s < kPresentationSlots"
  shows "lookup_presentation h' e s = Some t \<and> s \<le> hf_next_presentation h' \<and>
    unat (hf_next_presentation h) \<le> unat (hf_next_presentation h')"
proof (cases "hf_presentations h' = hf_presentations h \<and> hf_next_presentation h' = hf_next_presentation h")
  case True
  with assms(2,3) lookup_presentation_cong [of h' h] show ?thesis by simp
next
  case False
  with assms(1) obtain u where n: "hf_next_presentation h' = hf_next_presentation h + 1"
    and p: "hf_presentations h' = hf_presentations (publish_presentation h (hf_next_presentation h + 1) u)"
    by (auto simp: presents_def)
  have up: "hf_next_presentation h < hf_next_presentation h + 1"
    using less_plus_one [OF assms(4)] .
  then have less: "s < hf_next_presentation h + 1" using assms(3) by (rule le_less_trans [rotated])
  have "lookup_presentation h' e s = Some t"
    using pres.fetch_later [OF assms(2) less] assms(5) n lookup_presentation_cong [OF p] by simp
  moreover have "s \<le> hf_next_presentation h'" "hf_next_presentation h \<le> hf_next_presentation h'"
    using less up n by simp_all
  ultimately show ?thesis by (simp add: word_le_nat_alt)
qed

lemma presentation_growth:
  "unat (hf_next_presentation h) + length ops < 18446744073709551615 \<Longrightarrow>
   unat (hf_next_presentation h) \<le> unat (hf_next_presentation (foldl fusion_step h ops))"
proof (induction ops arbitrary: h)
  case Nil
  then show ?case by simp
next
  case (Cons op ops)
  have m: "hf_next_presentation h \<noteq> u64_max"
    using Cons.prems by (auto simp: unat_u64_max)
  have "unat (hf_next_presentation (fusion_step h op)) \<in>
      {unat (hf_next_presentation h), Suc (unat (hf_next_presentation h))}"
    using presents_step [of h op] unat_plus_one [OF m] by (auto simp: presents_def)
  with Cons.IH [of "fusion_step h op"] Cons.prems show ?case by auto
qed

text \<open>
  A published presentation keeps resolving to the same token through any calls, until 128 newer
  presentations have been published.
\<close>

lemma presentation_survives:
  assumes "lookup_presentation h e s = Some t" "s \<le> hf_next_presentation h"
    and "unat (hf_next_presentation h) + length ops < 18446744073709551615"
    and "unat (hf_next_presentation (foldl fusion_step h ops)) - unat s < 128"
  shows "lookup_presentation (foldl fusion_step h ops) e s = Some t"
  using assms
proof (induction ops arbitrary: h)
  case Nil
  then show ?case by simp
next
  case (Cons op ops)
  let ?h = "fusion_step h op"
  have m: "hf_next_presentation h \<noteq> u64_max"
    using Cons.prems(3) by (auto simp: unat_u64_max)
  have n: "unat (hf_next_presentation ?h) \<le> Suc (unat (hf_next_presentation h))"
    using presents_step [of h op] unat_plus_one [OF m] by (auto simp: presents_def)
  have "unat (hf_next_presentation ?h) \<le> unat (hf_next_presentation (foldl fusion_step ?h ops))"
    using n Cons.prems(3) by (intro presentation_growth) simp
  with Cons.prems(4) have "unat (hf_next_presentation ?h) - unat s < kPresentationSlots"
    by (simp add: kPresentationSlots_def)
  from presents_keeps [OF presents_step Cons.prems(1,2) m this]
  have k: "lookup_presentation ?h e s = Some t" "s \<le> hf_next_presentation ?h" by simp_all
  from Cons.IH [OF k] n Cons.prems(3,4) show ?case by simp
qed

section \<open>One native frame, one token\<close>

lemma publish_lookup:
  assumes "index_of f = Some i" "x \<noteq> 0" "x \<noteq> kBusyFrame" "published h j"
    and "fs_token_epoch (hf_frames h j) \<noteq> 0" "slot kFrameSlots (fs_token_sequence (hf_frames h j)) = j"
  shows "lookup_source_frame (publish_source_binding h f x j) f x = Some j"
proof -
  let ?h = "publish_source_binding h f x j"
  have "hf_bindings ?h i (slot kFrameSlots x) = \<lparr>sb_native_frame_id = x,
      sb_token_epoch = fs_token_epoch (hf_frames h j), sb_token_sequence = fs_token_sequence (hf_frames h j)\<rparr>"
    using assms by (simp add: publish_source_binding_def published_def Let_def)
  then show ?thesis
    using assms by (simp add: lookup_Some frame_for_token_Some frame_simps published_def)
qed

lemma lookup_cong:
  assumes "hf_bindings h' = hf_bindings h"
    and "\<And>j. fs_token_sequence (hf_frames h' j) = fs_token_sequence (hf_frames h j)"
    and "\<And>j. fs_token_epoch (hf_frames h' j) = fs_token_epoch (hf_frames h j)"
  shows "lookup_source_frame h' f x = lookup_source_frame h f x"
  by (simp only: lookup_source_frame_def frame_for_token_def Let_def assms)

lemma establish_lookup:
  assumes "room h" "hf_epoch h \<noteq> 0" "snd (establish_canonical_frame h f x) = Some j"
  shows "lookup_source_frame (fst (establish_canonical_frame h f x)) f x = Some j"
proof (cases rule: establish_cases [of h f x])
  case none
  then show ?thesis using assms by simp
next
  case (existing k)
  then show ?thesis using assms by simp
next
  case (created i)
  let ?h = "h\<lparr>hf_next_token := hf_next_token h + 1, hf_frames := (hf_frames h)(slot kFrameSlots (hf_next_token h + 1) :=
      new_frame (hf_epoch h) (hf_next_token h + 1) (hf_transport h) i x f)\<rparr>"
  have j: "j = slot kFrameSlots (hf_next_token h + 1)" using created(5) assms(3) by simp
  have "lookup_source_frame (publish_source_binding ?h f x j) f x = Some j"
    using created(1-3) room_new [OF assms(1)] assms(2) j
    by (intro publish_lookup) (simp_all add: published_def new_frame_def)
  then show ?thesis unfolding created(5) fst_conv j by (subst lookup_cong) simp_all
qed

text \<open>
  A native frame of the pacing owner has one token: a call that returns a token and the same call
  repeated return the same one, and the repetition changes nothing.
\<close>

lemma pacing_token_stable:
  assumes "canonicalize_pacing_observation h f x = (h1, Some t)" "room h" "hf_epoch h \<noteq> 0"
  shows "canonicalize_pacing_observation h1 f x = (h1, Some t) \<and>
    ft_sequence t \<noteq> 0 \<and> ft_source_frame_id t = x"
proof -
  from assms(1) have g: "f \<noteq> FE_Auto" "x \<noteq> 0" "x \<noteq> kBusyFrame" "hf_lock_state h = 2"
    "owner_from_word (hf_frozen_owner_word h) A_Pacing = f"
    by (auto simp: canonicalize_pacing_observation_def split: if_splits)
  from assms(1) g obtain j where e: "establish_canonical_frame h f x = (h1, Some j)"
    and t: "t = token_from_frame (hf_frames h1 j) f x"
    by (auto simp: canonicalize_pacing_observation_def split: prod.splits option.splits)
  have p: "published h1 j" using establish_published [OF assms(2), of f x j] e by simp
  have l: "lookup_source_frame h1 f x = Some j"
    using establish_lookup [OF assms(2,3), of f x j] e by simp
  obtain i where i: "index_of f = Some i" using g(1) by (cases f) auto
  have "establish_canonical_frame h1 f x = (h1, Some j)"
    using g(2,3) i l by (simp add: establish_canonical_frame_def)
  moreover have "hf_lock_state h1 = 2" "hf_frozen_owner_word h1 = hf_frozen_owner_word h"
    using establish_frame [of h f x] e g(4) by simp_all
  ultimately show ?thesis
    using g t p by (simp add: canonicalize_pacing_observation_def token_from_frame_def published_def)
qed

lemma pacing_token_stable_sample:
  "let r = canonicalize_pacing_observation sample_timeline Reflex 7
   in canonicalize_pacing_observation (fst r) Reflex 7 = r \<and> snd r \<noteq> None"
proof -
  obtain h1 t where e: "canonicalize_pacing_observation sample_timeline Reflex 7 = (h1, Some t)"
    by (simp add: canonicalize_pacing_observation_def sample_timeline_owner sample_timeline_fields(1)
        sample_establish kBusyFrame_def)
  from pacing_token_stable [OF e] show ?thesis
    by (simp add: e room_def sample_timeline_fields)
qed

section \<open>Secondary frontends bind forward only\<close>

lemma bind_target_bounds:
  assumes "bind_target h i x = Some target"
  shows "hf_last_source_token h i < target \<and> target \<le> hf_latest_token h"
proof -
  let ?last = "hf_last_source_token h i" and ?latest = "hf_latest_token h"
  from assms have less: "?last < ?latest"
    by (auto simp: bind_target_def Let_def not_le split: if_splits)
  from assms consider (latest) "target = ?latest"
    | (delta) d where "target = ?last + d" "d \<noteq> 0" "d \<le> ?latest - ?last"
    by (auto simp: bind_target_def Let_def not_less split: if_splits option.splits)
  then show ?thesis
  proof cases
    case latest
    with less show ?thesis by simp
  next
    case delta
    have "unat d \<le> unat ?latest - unat ?last"
      using delta(3) unat_sub_le [OF less_imp_le [OF less]] by (simp add: word_le_nat_alt)
    moreover from this less have "unat (?last + d) = unat ?last + unat d"
      using unat_lt_u64 [of ?latest] by (intro unat_add_no_overflow) (simp add: word_less_nat_alt)
    moreover have "0 < unat d" using delta(2) by (simp add: unat_gt_0)
    ultimately show ?thesis using less by (simp add: delta(1) word_less_nat_alt word_le_nat_alt)
  qed
qed

text \<open>
  A secondary frontend's new native frame binds forward only: to a token that exists, newer than
  every token the frontend was bound to before, and the frontend's watermark moves to it.  So two
  native frames of a frontend never share a token, and none attaches to an older token.
\<close>

lemma binding_moves_forward:
  assumes "bind_source_to_latest h f x = (h', Some j)" "lookup_source_frame h f x = None"
    and "index_of f = Some i"
  shows "hf_last_source_token h i < fs_token_sequence (hf_frames h' j) \<and>
    fs_token_sequence (hf_frames h' j) \<le> hf_latest_token h \<and>
    hf_last_source_token h' i = fs_token_sequence (hf_frames h' j) \<and>
    fs_source_frame_ids (hf_frames h' j) i = x"
proof (cases rule: bind_cases [of h f x])
  case none
  then show ?thesis using assms by simp
next
  case (existing k)
  then show ?thesis using assms by simp
next
  case (bound i' target k)
  have [simp]: "i' = i" "k = j" using bound(1,8) assms(1,3) by simp_all
  have t: "fs_token_sequence (hf_frames h j) = target" "target \<noteq> 0" "target \<noteq> kBusyFrame"
    "fs_token_epoch (hf_frames h j) \<noteq> 0"
    using bound(6) by (auto simp: frame_for_token_Some)
  have h': "h' = publish_source_binding (h\<lparr>hf_frames := (hf_frames h)(j := (hf_frames h j)\<lparr>
            fs_source_frame_ids := (fs_source_frame_ids (hf_frames h j))(i := x)\<rparr>)\<rparr>) f x j"
    using bound(8) assms(1) by simp
  have s: "fs_token_sequence (hf_frames h' j) = target" "fs_source_frame_ids (hf_frames h' j) i = x"
    by (simp_all add: h' frame_simps t)
  have b: "hf_last_source_token h i < target" "target \<le> hf_latest_token h"
    using bind_target_bounds [OF bound(5)] by simp_all
  have "hf_last_source_token h' i = target"
    using bound(2,3) t b assms(3) by (simp add: h' publish_source_binding_def Let_def)
  with s b show ?thesis by simp
qed

lemma binding_moves_forward_sample:
  "let h = fst (establish_canonical_frame sample_timeline Reflex 7); r = bind_source_to_latest h AntiLag2 900
   in snd r = Some 1 \<and> hf_last_source_token (fst r) 3 = 1"
proof -
  let ?h = "fst (establish_canonical_frame sample_timeline Reflex 7)"
  have l: "lookup_source_frame ?h AntiLag2 900 = None"
    by (simp add: sample_establish lookup_source_frame_def binding_zero_def slot_def kFrameSlots_def Let_def)
  have f: "frame_for_token ?h 3 1 = Some 1"
    by (simp add: sample_establish frame_for_token_def kBusyFrame_def slot_def kFrameSlots_def new_frame_def)
  have "bind_target ?h 3 900 = Some 1"
    by (simp add: bind_target_def sample_establish Let_def)
  then have s: "snd (bind_source_to_latest ?h AntiLag2 900) = Some 1"
    using l f by (simp add: bind_source_to_latest_def kBusyFrame_def Let_def)
      (simp add: sample_establish sample_timeline_fields new_frame_def)
  obtain h' where b: "bind_source_to_latest ?h AntiLag2 900 = (h', Some 1)"
    using s by (metis prod.collapse)
  have "hf_last_source_token h' 3 = fs_token_sequence (hf_frames h' 1)"
    "fs_token_sequence (hf_frames h' 1) \<le> 1" "hf_last_source_token ?h 3 < fs_token_sequence (hf_frames h' 1)"
    using binding_moves_forward [OF b l, of 3] by (simp_all add: sample_establish)
  moreover have "hf_last_source_token ?h 3 = 0" by (simp add: sample_establish)
  ultimately have "hf_last_source_token h' 3 = 1"
    by (simp add: word_le_nat_alt word_less_nat_alt word_unat_eq_iff)
  with b show ?thesis by (simp add: Let_def)
qed

section \<open>One render frame, many presentations\<close>

lemma acquire_fg_lookup:
  assumes "snd (acquire_fg h f x) = Some j"
  shows "lookup_source_frame (fst (acquire_fg h f x)) f x = Some j"
proof (cases "lookup_source_frame h f x")
  case (Some k)
  then show ?thesis using assms by (simp add: acquire_fg_def)
next
  case None
  then have a: "acquire_fg h f x = bind_source_to_latest h f x" by (simp add: acquire_fg_def)
  show ?thesis
  proof (cases rule: bind_cases [of h f x])
    case none
    then show ?thesis using assms a by simp
  next
    case (existing k)
    then show ?thesis using None by simp
  next
    case (bound i target k)
    have kj: "k = j" using bound(8) assms a by simp
    have "published (h\<lparr>hf_frames := (hf_frames h)(k := (hf_frames h k)\<lparr>
        fs_source_frame_ids := (fs_source_frame_ids (hf_frames h k))(i := x)\<rparr>)\<rparr>) k"
      using bound(6) by (auto simp: published_def frame_for_token_Some)
    then show ?thesis
      unfolding a bound(8) fst_conv using bound(1-3,6) unfolding kj
      by (intro publish_lookup) (auto simp: frame_for_token_Some)
  qed
qed

lemma fg_chain:
  assumes "canonicalize_fg_presentation_locked h f x b = (h1, Some t)"
    and "unat (hf_next_presentation h) < 18446744073709551613" "pt_generation t \<noteq> 0"
    and "\<not> hf_presentation_gate h"
  shows "lookup_presentation h1 (pt_epoch t) (pt_sequence t) = Some t \<and>
    pt_sequence t = hf_next_presentation h + 1 \<and> pt_interpolated t = b \<and> pt_source t = f \<and>
    (\<exists>u. snd (canonicalize_fg_presentation_locked h1 f x b') = Some u \<and>
      pt_sequence u = pt_sequence t + 1 \<and> pt_generation u = pt_generation t + 1 \<and>
      pt_render_sequence u = pt_render_sequence t \<and> pt_epoch u = pt_epoch t)"
proof (cases rule: fg_cases [of h f x b])
  case ignored
  then show ?thesis using assms(1) by simp
next
  case unbound
  then show ?thesis using assms(1) by simp
next
  case (emitted j)
  let ?a = "fst (acquire_fg h f x)" and ?n = "hf_next_presentation h"
  have m: "?n \<noteq> u64_max" using assms(2) by (auto simp: unat_u64_max)
  have n1: "unat (?n + 1) = unat ?n + 1" using unat_plus_one [OF m] by simp
  then have m1: "?n + 1 \<noteq> u64_max" using assms(2) by (auto simp: word_unat_eq_iff unat_u64_max)
  have n2: "unat (?n + 1 + 1) = unat ?n + 2" using unat_plus_one [OF m1] n1 by simp
  have ok: "?n + 1 \<noteq> 0" "?n + 1 \<noteq> kBusyFrame" "?n + 1 + 1 \<noteq> 0" "?n + 1 + 1 \<noteq> kBusyFrame"
    using n1 n2 assms(2) by (auto simp: word_unat_eq_iff kBusyFrame_def unat_u64_max)
  have p: "published ?a j" using acquire_fg_published [OF emitted(5)] .
  have na: "hf_next_presentation ?a = ?n" by (simp add: frame_simps)
  have h1: "h1 = presented ?a j f x b" and t: "t = token_from_presentation (present ?a j f x b)"
    using emitted(7) assms(1) by simp_all
  have tf: "pt_sequence t = ?n + 1" "pt_interpolated t = b" "pt_source t = f"
    "pt_epoch t = fs_token_epoch (hf_frames ?a j)" "pt_render_sequence t = fs_token_sequence (hf_frames ?a j)"
    "pt_generation t = fs_presentation_count (hf_frames ?a j) + 1"
    using ok na by (simp_all add: t token_from_presentation_def present_def)
  have l: "lookup_source_frame h1 f x = Some j"
    using acquire_fg_lookup [OF emitted(5)] lookup_cong [of h1 ?a f x] by (simp add: h1) (simp add: presented_def)
  have P: "hf_presentations h1 (slot kPresentationSlots (pt_sequence t)) = present ?a j f x b"
    by (simp add: h1 presented_def na tf)
  have Pf: "ps_sequence (present ?a j f x b) = pt_sequence t" "ps_epoch (present ?a j f x b) = pt_epoch t"
    by (simp_all add: present_def na tf)
  have "presentation_token_ok t"
    using ok emitted(6) p assms(3) tf by (simp add: presentation_token_ok_def published_def)
  then have look: "lookup_presentation h1 (pt_epoch t) (pt_sequence t) = Some t"
    unfolding lookup_presentation_def Let_def P Pf t [symmetric] using ok emitted(6) tf by simp
  have g: "\<not> hf_presentation_gate h1" by (simp add: h1 presented_def)
  have e1: "fs_token_epoch (hf_frames h1 j) \<noteq> 0" "published h1 j"
    using emitted(6) p by (simp_all add: h1 published_def)
  have "hf_lock_state h1 = 2" "hf_frozen_owner_word h1 = hf_frozen_owner_word h"
    using emitted(1) by (simp_all add: h1 frame_simps locked_def)
  then have "canonicalize_fg_presentation_locked h1 f x b' =
      (presented h1 j f x b', Some (token_from_presentation (present h1 j f x b')))"
    using emitted(2-4) l g e1
    by (simp add: canonicalize_fg_presentation_locked_def presented_def present_def published_def Let_def)
  moreover have "hf_next_presentation h1 = ?n + 1" by (simp add: h1 na)
  moreover have "fs_presentation_count (hf_frames h1 j) = pt_generation t"
    by (simp add: h1 presented_def tf)
  ultimately show ?thesis
    using look tf ok by (simp add: token_from_presentation_def present_def h1)
qed

lemma fg_lookup:
  "canonicalize_fg_presentation_locked h f x b = (h1, Some t) \<Longrightarrow>
   unat (hf_next_presentation h) < 18446744073709551613 \<Longrightarrow> pt_generation t \<noteq> 0 \<Longrightarrow>
   \<not> hf_presentation_gate h \<Longrightarrow> lookup_presentation h1 (pt_epoch t) (pt_sequence t) = Some t"
  using fg_chain by blast

lemma presentation_bound:
  "unat (hf_next_presentation h) + length ops < 18446744073709551615 \<Longrightarrow>
   unat (hf_next_presentation (foldl fusion_step h ops)) \<le> unat (hf_next_presentation h) + length ops"
proof (induction ops arbitrary: h)
  case Nil
  then show ?case by simp
next
  case (Cons op ops)
  have m: "hf_next_presentation h \<noteq> u64_max"
    using Cons.prems by (auto simp: unat_u64_max)
  have "unat (hf_next_presentation (fusion_step h op)) \<le> Suc (unat (hf_next_presentation h))"
    using presents_step [of h op] unat_plus_one [OF m] by (auto simp: presents_def)
  with Cons.IH [of "fusion_step h op"] Cons.prems show ?case by simp
qed

text \<open>C24
  Frame generation maps one render frame to many presentations: when a callback for a native frame
  has produced a presentation, a further callback for the same native frame produces the next
  presentation sequence number with the next generation, attached to the same render token; and the
  published presentation is found again with the interpolation flag it was given.
\<close>

theorem presentation_chain:
  assumes "canonicalize_fg_presentation_locked h f x b = (h1, Some t)"
    and "unat (hf_next_presentation h) < 18446744073709551613" "pt_generation t \<noteq> 0"
    and "\<not> hf_presentation_gate h"
  shows "lookup_presentation h1 (pt_epoch t) (pt_sequence t) = Some t \<and>
    pt_sequence t = hf_next_presentation h + 1 \<and> pt_interpolated t = b \<and> pt_source t = f \<and>
    (\<exists>u. snd (canonicalize_fg_presentation_locked h1 f x b') = Some u \<and>
      pt_sequence u = pt_sequence t + 1 \<and> pt_generation u = pt_generation t + 1 \<and>
      pt_render_sequence u = pt_render_sequence t \<and> pt_epoch u = pt_epoch t)"
  using assms by (rule fg_chain)

definition sample_framed :: fusion where
  "sample_framed = fst (establish_canonical_frame sample_timeline Reflex 7)"

lemma sample_framed_fields:
  "hf_lock_state sample_framed = 2" "hf_frozen_owner_word sample_framed = hf_frozen_owner_word sample_timeline"
  "hf_next_presentation sample_framed = 0" "hf_presentation_gate sample_framed = False"
  by (simp_all add: sample_framed_def frame_simps sample_timeline_fields)

lemma sample_fg: "\<exists>h1 t. canonicalize_fg_presentation_locked sample_framed AntiLag2 900 True = (h1, Some t) \<and>
    pt_generation t = 1 \<and> pt_sequence t = 1 \<and> hf_next_presentation h1 = 1"
proof -
  have l: "lookup_source_frame sample_framed AntiLag2 900 = None"
    by (simp add: sample_framed_def sample_establish lookup_source_frame_def binding_zero_def slot_def kFrameSlots_def Let_def)
  have f: "frame_for_token sample_framed 3 1 = Some 1"
    by (simp add: sample_framed_def sample_establish frame_for_token_def kBusyFrame_def slot_def kFrameSlots_def new_frame_def)
  have "bind_target sample_framed 3 900 = Some 1"
    by (simp add: sample_framed_def bind_target_def sample_establish Let_def)
  moreover have "hf_epoch sample_framed = 3" "hf_frames sample_framed 1 = new_frame 3 1 Transport_Unknown 0 7 Reflex"
    by (simp_all add: sample_framed_def sample_establish sample_timeline_fields)
  ultimately show ?thesis
    using l f
    by (simp add: canonicalize_fg_presentation_locked_def sample_framed_fields sample_timeline_owner
        bind_source_to_latest_def kBusyFrame_def Let_def frame_simps new_frame_def token_from_presentation_def)
qed

theorem presentation_chain_witness:
  "\<exists>h1 t. canonicalize_fg_presentation_locked sample_framed AntiLag2 900 True = (h1, Some t) \<and>
    (\<exists>u. snd (canonicalize_fg_presentation_locked h1 AntiLag2 900 False) = Some u \<and> pt_generation u = 2)"
proof -
  obtain h1 t where e: "canonicalize_fg_presentation_locked sample_framed AntiLag2 900 True = (h1, Some t)"
    "pt_generation t = 1" using sample_fg by blast
  with presentation_chain [OF e(1), of False] show ?thesis
    by (auto simp: sample_framed_fields)
qed

lemma presentation_survives_sample:
  "\<exists>h1 t. canonicalize_fg_presentation_locked sample_framed AntiLag2 900 True = (h1, Some t) \<and>
     lookup_presentation (foldl fusion_step h1 [Op_transport DxvkD3D11, Op_fg_locked Reflex 5 True]) (pt_epoch t) 1 = Some t"
proof -
  obtain h1 t where e: "canonicalize_fg_presentation_locked sample_framed AntiLag2 900 True = (h1, Some t)"
    "pt_generation t = 1" "pt_sequence t = 1" "hf_next_presentation h1 = 1" using sample_fg by blast
  let ?ops = "[Op_transport DxvkD3D11, Op_fg_locked Reflex 5 True]"
  have l: "lookup_presentation h1 (pt_epoch t) 1 = Some t"
    using fg_lookup [OF e(1)] e by (simp add: sample_framed_fields)
  have "unat (hf_next_presentation (foldl fusion_step h1 ?ops)) \<le> 3"
    using presentation_bound [of h1 ?ops] e(4) by simp
  then show ?thesis
    using presentation_survives [OF l, of ?ops] e by simp
qed

end
