(* ===== verification/TransportTruth.thy ===== *)
theory TransportTruth
  imports Interfaces
begin

text \<open>
  Application transport evidence (\<open>src/transport_truth.h\<close>, \<open>src/transport_truth.cpp\<close>).  The three
  globals are atomics that any hook may write at any time, so the calls are modelled by their
  atomic accesses: \<open>truth_advance\<close> performs the next access of one call and \<open>truth_step\<close> lets any
  number of threads begin calls and advance in any order, with spurious failures of the weak
  compare-exchange.  The history of begun calls is recorded beside the globals, and \<open>truth_of\<close> is
  the reference: what a set of calls means, whatever their order.
\<close>

datatype application_transport = AT_Unknown | AT_NativeVulkan | AT_Vkd3dD3D12 | AT_DxvkD3D11 | AT_Mixed

datatype vulkan_chain_state = VC_Unknown | NativeHooksInstalled | TranslationBypassSuspected

datatype native_execution_access = FullWsi | ExplicitOnly | Blocked

definition EvidenceTranslationHeuristic :: u32 where "EvidenceTranslationHeuristic = shl1 0"
definition EvidenceNativeVulkanHooks :: u32 where "EvidenceNativeVulkanHooks = shl1 1"
definition EvidenceNativeTrackedDevice :: u32 where "EvidenceNativeTrackedDevice = shl1 2"
definition EvidenceVkd3dInterop :: u32 where "EvidenceVkd3dInterop = shl1 3"
definition EvidenceDxvkInterop :: u32 where "EvidenceDxvkInterop = shl1 4"

text \<open>The globals \<open>g_transport\<close>, \<open>g_vulkan_chain\<close> and \<open>g_evidence\<close>, which are also what \<open>snapshot\<close> returns.\<close>

record truth =
  tt_transport :: application_transport
  tt_chain :: vulkan_chain_state
  tt_evidence :: u32

definition truth_reset :: truth where
  "truth_reset = \<lparr>tt_transport = AT_Unknown, tt_chain = VC_Unknown, tt_evidence = 0\<rparr>"

section \<open>Calls as sequences of atomic accesses\<close>

datatype truth_call = NoteBypass | NoteHooks | ConfirmNative | ConfirmVkd3d | ConfirmDxvk

text \<open>
  Where a call stands: before its \<open>fetch_or\<close>, before its access to the chain word, or before the
  load or the compare-exchange of the transport word with the value it last saw there.
\<close>

datatype truth_pc =
    TT_Idle
  | TT_NoteBypass | TT_BypassChain
  | TT_NoteHooks | TT_HooksChain
  | TT_Confirm application_transport u32
  | TT_Load application_transport
  | TT_Cas application_transport application_transport

fun begin_call :: "truth_call \<Rightarrow> truth_pc" where
  "begin_call NoteBypass = TT_NoteBypass"
| "begin_call NoteHooks = TT_NoteHooks"
| "begin_call ConfirmNative = TT_Confirm AT_NativeVulkan EvidenceNativeTrackedDevice"
| "begin_call ConfirmVkd3d = TT_Confirm AT_Vkd3dD3D12 EvidenceVkd3dInterop"
| "begin_call ConfirmDxvk = TT_Confirm AT_DxvkD3D11 EvidenceDxvkInterop"

definition desired :: "application_transport \<Rightarrow> application_transport \<Rightarrow> application_transport" where
  "desired candidate current =
     (if current = AT_Unknown then candidate
      else if current \<noteq> candidate \<and> current \<noteq> AT_Mixed then AT_Mixed
      else current)"

text \<open>The head of the retry loop: return when nothing is to be changed, else try the exchange.\<close>

definition loop_head :: "application_transport \<Rightarrow> application_transport \<Rightarrow> truth_pc" where
  "loop_head candidate current =
     (if desired candidate current = current then TT_Idle else TT_Cas candidate current)"

text \<open>\<open>spurious\<close> says whether a weak compare-exchange that could succeed fails all the same.\<close>

fun truth_advance :: "truth \<Rightarrow> truth_pc \<Rightarrow> bool \<Rightarrow> truth \<times> truth_pc" where
  "truth_advance g TT_Idle spurious = (g, TT_Idle)"
| "truth_advance g TT_NoteBypass spurious =
     (g\<lparr>tt_evidence := tt_evidence g OR EvidenceTranslationHeuristic\<rparr>, TT_BypassChain)"
| "truth_advance g TT_BypassChain spurious =
     (if tt_chain g = VC_Unknown then g\<lparr>tt_chain := TranslationBypassSuspected\<rparr> else g, TT_Idle)"
| "truth_advance g TT_NoteHooks spurious =
     (g\<lparr>tt_evidence := tt_evidence g OR EvidenceNativeVulkanHooks\<rparr>, TT_HooksChain)"
| "truth_advance g TT_HooksChain spurious = (g\<lparr>tt_chain := NativeHooksInstalled\<rparr>, TT_Idle)"
| "truth_advance g (TT_Confirm candidate evidence) spurious =
     (g\<lparr>tt_evidence := tt_evidence g OR evidence\<rparr>, TT_Load candidate)"
| "truth_advance g (TT_Load candidate) spurious = (g, loop_head candidate (tt_transport g))"
| "truth_advance g (TT_Cas candidate current) spurious =
     (if tt_transport g = current \<and> \<not> spurious
      then (g\<lparr>tt_transport := desired candidate current\<rparr>, TT_Idle)
      else (g, loop_head candidate (tt_transport g)))"

section \<open>Reading the state\<close>

definition snapshot_access :: "truth \<Rightarrow> native_execution_access" where
  "snapshot_access g =
     (if tt_transport g = AT_Vkd3dD3D12 \<or> tt_transport g = AT_DxvkD3D11 then Blocked
      else if tt_chain g = NativeHooksInstalled then FullWsi
      else ExplicitOnly)"

definition has_confirmed_native_vulkan :: "truth \<Rightarrow> bool" where
  "has_confirmed_native_vulkan g \<longleftrightarrow> tt_evidence g AND EvidenceNativeTrackedDevice \<noteq> 0"

definition has_confirmed_vkd3d :: "truth \<Rightarrow> bool" where
  "has_confirmed_vkd3d g \<longleftrightarrow> tt_evidence g AND EvidenceVkd3dInterop \<noteq> 0"

definition has_confirmed_dxvk :: "truth \<Rightarrow> bool" where
  "has_confirmed_dxvk g \<longleftrightarrow> tt_evidence g AND EvidenceDxvkInterop \<noteq> 0"

definition translation_confirmed :: "truth \<Rightarrow> bool" where
  "translation_confirmed g \<longleftrightarrow> has_confirmed_vkd3d g \<or> has_confirmed_dxvk g"

fun transport_to_string :: "application_transport \<Rightarrow> string" where
  "transport_to_string AT_Unknown = ''unknown''"
| "transport_to_string AT_NativeVulkan = ''native-vulkan''"
| "transport_to_string AT_Vkd3dD3D12 = ''vkd3d-d3d12''"
| "transport_to_string AT_DxvkD3D11 = ''dxvk-d3d11''"
| "transport_to_string AT_Mixed = ''mixed''"

fun chain_to_string :: "vulkan_chain_state \<Rightarrow> string" where
  "chain_to_string VC_Unknown = ''unknown''"
| "chain_to_string NativeHooksInstalled = ''native-hooks''"
| "chain_to_string TranslationBypassSuspected = ''translation-bypass-suspected''"

fun access_to_string :: "native_execution_access \<Rightarrow> string" where
  "access_to_string FullWsi = ''full-wsi''"
| "access_to_string ExplicitOnly = ''explicit-only''"
| "access_to_string Blocked = ''blocked''"

section \<open>Interleavings\<close>

record truth_conf =
  tc_truth :: truth
  tc_pc :: "nat \<Rightarrow> truth_pc"
  tc_calls :: "truth_call list"

datatype truth_action = Begin nat truth_call | Advance nat bool

fun truth_step :: "truth_conf \<Rightarrow> truth_action \<Rightarrow> truth_conf" where
  "truth_step c (Begin t call) =
     (if tc_pc c t = TT_Idle
      then c\<lparr>tc_pc := (tc_pc c)(t := begin_call call), tc_calls := call # tc_calls c\<rparr>
      else c)"
| "truth_step c (Advance t spurious) =
     (let (g, p) = truth_advance (tc_truth c) (tc_pc c t) spurious
      in c\<lparr>tc_truth := g, tc_pc := (tc_pc c)(t := p)\<rparr>)"

definition truth_start :: truth_conf where
  "truth_start = \<lparr>tc_truth = truth_reset, tc_pc = (\<lambda>_. TT_Idle), tc_calls = []\<rparr>"

definition quiet :: "truth_conf \<Rightarrow> bool" where
  "quiet c \<longleftrightarrow> (\<forall>t. tc_pc c t = TT_Idle)"

section \<open>What a set of calls means\<close>

fun confirms :: "truth_call \<Rightarrow> application_transport" where
  "confirms ConfirmNative = AT_NativeVulkan"
| "confirms ConfirmVkd3d = AT_Vkd3dD3D12"
| "confirms ConfirmDxvk = AT_DxvkD3D11"
| "confirms _ = AT_Unknown"

fun confirming :: "application_transport \<Rightarrow> truth_call option" where
  "confirming AT_NativeVulkan = Some ConfirmNative"
| "confirming AT_Vkd3dD3D12 = Some ConfirmVkd3d"
| "confirming AT_DxvkD3D11 = Some ConfirmDxvk"
| "confirming _ = None"

fun call_bit :: "truth_call \<Rightarrow> nat" where
  "call_bit NoteBypass = 0"
| "call_bit NoteHooks = 1"
| "call_bit ConfirmNative = 2"
| "call_bit ConfirmVkd3d = 3"
| "call_bit ConfirmDxvk = 4"

definition transport_of :: "truth_call set \<Rightarrow> application_transport" where
  "transport_of cs =
     (let n = ConfirmNative \<in> cs; v = ConfirmVkd3d \<in> cs; d = ConfirmDxvk \<in> cs in
      if n \<and> v \<or> n \<and> d \<or> v \<and> d then AT_Mixed
      else if n then AT_NativeVulkan
      else if v then AT_Vkd3dD3D12
      else if d then AT_DxvkD3D11
      else AT_Unknown)"

definition chain_of :: "truth_call set \<Rightarrow> vulkan_chain_state" where
  "chain_of cs =
     (if NoteHooks \<in> cs then NativeHooksInstalled
      else if NoteBypass \<in> cs then TranslationBypassSuspected
      else VC_Unknown)"

definition evidence_of :: "truth_call set \<Rightarrow> u32" where
  "evidence_of cs = (let b = (\<lambda>call. if call \<in> cs then shl1 (call_bit call) else 0) in
     b NoteBypass OR b NoteHooks OR b ConfirmNative OR b ConfirmVkd3d OR b ConfirmDxvk)"

definition truth_of :: "truth_call set \<Rightarrow> truth" where
  "truth_of cs = \<lparr>tt_transport = transport_of cs, tt_chain = chain_of cs, tt_evidence = evidence_of cs\<rparr>"

section \<open>The order of evidence\<close>

definition transport_le :: "application_transport \<Rightarrow> application_transport \<Rightarrow> bool" where
  "transport_le a b \<longleftrightarrow> a = AT_Unknown \<or> a = b \<or> b = AT_Mixed"

definition chain_le :: "vulkan_chain_state \<Rightarrow> vulkan_chain_state \<Rightarrow> bool" where
  "chain_le a b \<longleftrightarrow> a = VC_Unknown \<or> a = b \<or> b = NativeHooksInstalled"

definition bits_le :: "u32 \<Rightarrow> u32 \<Rightarrow> bool" where
  "bits_le x y \<longleftrightarrow> (\<forall>n. bit x n \<longrightarrow> bit y n)"

definition truth_le :: "truth \<Rightarrow> truth \<Rightarrow> bool" where
  "truth_le g h \<longleftrightarrow> transport_le (tt_transport g) (tt_transport h) \<and> chain_le (tt_chain g) (tt_chain h) \<and>
     bits_le (tt_evidence g) (tt_evidence h)"

lemmas evidence_defs = EvidenceTranslationHeuristic_def EvidenceNativeVulkanHooks_def
  EvidenceNativeTrackedDevice_def EvidenceVkd3dInterop_def EvidenceDxvkInterop_def

lemmas truth_le_defs = truth_le_def transport_le_def chain_le_def bits_le_def

lemma truth_le_refl: "truth_le g g"
  by (simp add: truth_le_defs)

lemma truth_le_trans: "truth_le g h \<Longrightarrow> truth_le h k \<Longrightarrow> truth_le g k"
  unfolding truth_le_def by (simp only: transport_le_def chain_le_def bits_le_def) auto

lemma truth_le_antisym:
  assumes "truth_le g h" "truth_le h g"
  shows "g = h"
proof -
  have "bit (tt_evidence g) n = bit (tt_evidence h) n" for n
    using assms unfolding truth_le_defs by blast
  then have "tt_evidence g = tt_evidence h" by (simp add: bit_eq_iff)
  with assms show ?thesis
    unfolding truth_le_defs by (cases "tt_transport g"; cases "tt_transport h"; cases "tt_chain g"; cases "tt_chain h") auto
qed

lemma desired_upper: "transport_le c (desired c a)" "transport_le a (desired c a)"
  by (simp_all add: desired_def transport_le_def)

lemma desired_least: "c \<noteq> AT_Unknown \<Longrightarrow> transport_le c b \<Longrightarrow> transport_le a b \<Longrightarrow> transport_le (desired c a) b"
  by (auto simp: desired_def transport_le_def)

lemma loop_head_done: "loop_head c a = TT_Idle \<Longrightarrow> transport_le c a"
  using desired_upper(1) [of c a] by (simp add: loop_head_def split: if_splits)

lemma bit_call_bit: "bit (shl1 (call_bit call) :: u32) n \<longleftrightarrow> n = call_bit call"
  by (cases call) (simp_all add: bit_shl1)

lemma bit_evidence_of: "bit (evidence_of cs) n \<longleftrightarrow> (\<exists>call \<in> cs. n = call_bit call)"
proof -
  have b: "bit (if call \<in> cs then shl1 (call_bit call) else (0 :: u32)) n \<longleftrightarrow> call \<in> cs \<and> n = call_bit call" for call
    by (simp add: bit_call_bit)
  have all: "(\<exists>call \<in> cs. n = call_bit call) \<longleftrightarrow> (\<exists>call. call \<in> cs \<and> n = call_bit call)" by blast
  show ?thesis
    unfolding evidence_of_def Let_def bit_or_iff b all
    by (rule iffI) (blast, metis truth_call.exhaust)
qed

section \<open>One access\<close>

text \<open>The call a position belongs to.\<close>

fun pc_call :: "truth_pc \<Rightarrow> truth_call option" where
  "pc_call TT_Idle = None"
| "pc_call TT_NoteBypass = Some NoteBypass"
| "pc_call TT_BypassChain = Some NoteBypass"
| "pc_call TT_NoteHooks = Some NoteHooks"
| "pc_call TT_HooksChain = Some NoteHooks"
| "pc_call (TT_Confirm c e) = confirming c"
| "pc_call (TT_Load c) = confirming c"
| "pc_call (TT_Cas c a) = confirming c"

definition pc_wf :: "truth_pc \<Rightarrow> bool" where
  "pc_wf p \<longleftrightarrow> p = TT_Idle \<or> p \<in> range begin_call \<or> (pc_call p \<noteq> None \<and> (\<forall>c e. p \<noteq> TT_Confirm c e))"

text \<open>The effect of a call on the words other than the evidence.\<close>

fun effective :: "truth \<Rightarrow> truth_call \<Rightarrow> bool" where
  "effective g NoteBypass \<longleftrightarrow> tt_chain g \<noteq> VC_Unknown"
| "effective g NoteHooks \<longleftrightarrow> tt_chain g = NativeHooksInstalled"
| "effective g call \<longleftrightarrow> transport_le (confirms call) (tt_transport g)"

lemma effective_mono: "truth_le g h \<Longrightarrow> effective g call \<Longrightarrow> effective h call"
  by (cases call) (auto simp: truth_le_def transport_le_def chain_le_def)

lemma confirming_Some: "confirming c = Some call \<Longrightarrow> confirms call = c \<and> c \<noteq> AT_Unknown"
  by (cases c) auto

lemma begin_call_wf: "pc_wf (begin_call call)" "pc_call (begin_call call) = Some call" "begin_call call \<noteq> TT_Idle"
  by (simp add: pc_wf_def) (cases call; simp)+

lemma begin_call_evidence: "begin_call call = TT_Confirm c e \<Longrightarrow> e = shl1 (call_bit call) \<and> confirming c = Some call"
  by (cases call) (auto simp: evidence_defs)

lemma upper_transport: "call \<in> cs \<Longrightarrow> transport_le (confirms call) (transport_of cs)"
  by (cases call) (simp_all add: transport_le_def transport_of_def Let_def)

lemma upper_chain: "NoteHooks \<in> cs \<Longrightarrow> chain_of cs = NativeHooksInstalled"
  "NoteBypass \<in> cs \<Longrightarrow> chain_of cs \<noteq> VC_Unknown"
  by (simp_all add: chain_of_def)

lemma truth_of_mono: "truth_le (truth_of cs) (truth_of (insert call cs))"
proof -
  have "transport_le (transport_of cs) (transport_of (insert call cs))"
    by (cases call) (simp_all add: transport_le_def transport_of_def Let_def)
  moreover have "chain_le (chain_of cs) (chain_of (insert call cs))"
    by (auto simp: chain_le_def chain_of_def)
  moreover have "bits_le (evidence_of cs) (evidence_of (insert call cs))"
    by (auto simp: bits_le_def bit_evidence_of)
  ultimately show ?thesis by (simp add: truth_le_def truth_of_def)
qed

text \<open>One access moves the globals up, stays below the meaning of the calls begun, and finishes the
  call only with its effect in place.\<close>

lemma confirm_advance:
  assumes "truth_advance g p b = (g', p')" "p = TT_Load c \<or> p = TT_Cas c a" "pc_call p = Some call"
  shows "truth_le g g'" "p' = TT_Idle \<Longrightarrow> effective g' call" "p' \<noteq> TT_Idle \<Longrightarrow> p' = TT_Cas c (tt_transport g)"
    "call \<in> cs \<Longrightarrow> truth_le g (truth_of cs) \<Longrightarrow> truth_le g' (truth_of cs)"
proof -
  have c: "confirms call = c" "c \<noteq> AT_Unknown" "confirming c = Some call"
    using assms(2,3) confirming_Some by auto
  have e: "effective k call \<longleftrightarrow> transport_le c (tt_transport k)" for k
    using c by (cases call) auto
  consider (keep) "g' = g" "p' = loop_head c (tt_transport g)"
    | (swap) "g' = g\<lparr>tt_transport := desired c (tt_transport g)\<rparr>" "p' = TT_Idle"
    using assms(1,2) by (auto split: if_splits)
  note cases = this
  show "truth_le g g'" using cases desired_upper(2) by cases (simp_all add: truth_le_defs)
  show "p' = TT_Idle \<Longrightarrow> effective g' call"
    using cases loop_head_done desired_upper(1) by cases (simp_all add: e)
  show "p' \<noteq> TT_Idle \<Longrightarrow> p' = TT_Cas c (tt_transport g)"
    using cases by cases (auto simp: loop_head_def split: if_splits)
  show "truth_le g' (truth_of cs)" if "call \<in> cs" "truth_le g (truth_of cs)"
    using cases that(2) desired_least [OF c(2)] upper_transport [OF that(1)]
    by cases (auto simp: c(1) truth_le_def truth_of_def)
qed

text \<open>The first access of a call only sets its evidence bit.\<close>

lemma first_access:
  "truth_advance g (begin_call call) b =
     (g\<lparr>tt_evidence := tt_evidence g OR shl1 (call_bit call)\<rparr>,
      case call of NoteBypass \<Rightarrow> TT_BypassChain | NoteHooks \<Rightarrow> TT_HooksChain | _ \<Rightarrow> TT_Load (confirms call))"
  by (cases call) (simp_all add: evidence_defs)

lemma evidence_le:
  "truth_le g (g\<lparr>tt_evidence := tt_evidence g OR shl1 (call_bit call)\<rparr>)"
  "call \<in> cs \<Longrightarrow> truth_le g (truth_of cs) \<Longrightarrow>
   truth_le (g\<lparr>tt_evidence := tt_evidence g OR shl1 (call_bit call)\<rparr>) (truth_of cs)"
  by (auto simp: truth_le_def transport_le_def chain_le_def bits_le_def bit_or_iff bit_call_bit
      truth_of_def bit_evidence_of)

lemma chain_word_le:
  "tt_chain g = VC_Unknown \<Longrightarrow> truth_le g (g\<lparr>tt_chain := TranslationBypassSuspected\<rparr>)"
  "NoteBypass \<in> cs \<Longrightarrow> truth_le g (truth_of cs) \<Longrightarrow>
   truth_le (g\<lparr>tt_chain := TranslationBypassSuspected\<rparr>) (truth_of cs)"
  "truth_le g (g\<lparr>tt_chain := NativeHooksInstalled\<rparr>)"
  "NoteHooks \<in> cs \<Longrightarrow> truth_le g (truth_of cs) \<Longrightarrow>
   truth_le (g\<lparr>tt_chain := NativeHooksInstalled\<rparr>) (truth_of cs)"
  by (simp_all add: truth_le_def transport_le_def chain_le_def bits_le_def truth_of_def chain_of_def)

lemma wf_cases [consumes 1, case_names idle first bypass hooks confirm]:
  assumes "pc_wf p"
  obtains "p = TT_Idle" | call where "p = begin_call call" | "p = TT_BypassChain" | "p = TT_HooksChain"
    | c a where "p = TT_Load c \<or> p = TT_Cas c a" "pc_call p \<noteq> None"
proof -
  consider "p = TT_Idle" | call where "p = begin_call call" | "pc_call p \<noteq> None" "\<forall>c e. p \<noteq> TT_Confirm c e"
    using assms unfolding pc_wf_def by auto
  then show thesis
  proof cases
    case 3
    then show thesis
      using that(1,3,4) that(2) [of NoteBypass] that(2) [of NoteHooks] that(5) by (cases p) auto
  qed (use that(1,2) in blast)+
qed

lemma not_first: "TT_BypassChain \<notin> range begin_call" "TT_HooksChain \<notin> range begin_call"
  "TT_Load c \<notin> range begin_call" "TT_Cas c a \<notin> range begin_call" "TT_Idle \<notin> range begin_call"
proof -
  have "begin_call call \<notin> {TT_BypassChain, TT_HooksChain, TT_Load c, TT_Cas c a, TT_Idle}" for call
    by (cases call) simp_all
  then show "TT_BypassChain \<notin> range begin_call" "TT_HooksChain \<notin> range begin_call"
    "TT_Load c \<notin> range begin_call" "TT_Cas c a \<notin> range begin_call" "TT_Idle \<notin> range begin_call"
    by (metis insertI1 insertI2 rangeE)+
qed

lemma confirming_confirms: "confirms call \<noteq> AT_Unknown \<Longrightarrow> confirming (confirms call) = Some call"
  by (cases call) simp_all

lemma begin_call_inj: "begin_call call = begin_call call' \<longleftrightarrow> call = call'"
  using begin_call_wf(2) by (metis option.inject)

lemma advance_sound:
  assumes "truth_advance g p b = (g', p')" "pc_wf p" "pc_call p = Some call"
    and "call \<in> cs" "truth_le g (truth_of cs)"
  shows "truth_le g g'" "truth_le g' (truth_of cs)" "pc_wf p'"
    "p' = TT_Idle \<Longrightarrow> effective g' call" "p' \<noteq> TT_Idle \<Longrightarrow> pc_call p' = Some call"
    "p' \<notin> range begin_call" "p = begin_call c \<Longrightarrow> bit (tt_evidence g') (call_bit c)"
proof -
  have "truth_le g g' \<and> truth_le g' (truth_of cs) \<and> pc_wf p' \<and>
    (p' = TT_Idle \<longrightarrow> effective g' call) \<and> (p' \<noteq> TT_Idle \<longrightarrow> pc_call p' = Some call) \<and>
    p' \<notin> range begin_call \<and> (\<forall>c. p = begin_call c \<longrightarrow> bit (tt_evidence g') (call_bit c))"
    using assms(2)
  proof (cases rule: wf_cases)
    case idle
    then show ?thesis using assms(3) by simp
  next
    case (first k)
    then have k: "k = call" using assms(3) by (simp add: begin_call_wf)
    have p': "p' = (case call of NoteBypass \<Rightarrow> TT_BypassChain | NoteHooks \<Rightarrow> TT_HooksChain | _ \<Rightarrow> TT_Load (confirms call))"
      and g': "g' = g\<lparr>tt_evidence := tt_evidence g OR shl1 (call_bit call)\<rparr>"
      using assms(1) first k by (simp_all add: first_access)
    have "p' \<noteq> TT_Idle \<and> pc_wf p' \<and> pc_call p' = Some call \<and> p' \<notin> range begin_call"
      using not_first by (cases call) (simp_all add: p' pc_wf_def)
    then show ?thesis
      using evidence_le [where g = g and call = call] assms(4,5)
      by (auto simp: g' first k begin_call_inj bit_or_iff bit_call_bit)
  next
    case bypass
    have c: "NoteBypass \<in> cs" "call = NoteBypass" using assms(3,4) bypass by auto
    have r: "p' = TT_Idle" "p \<notin> range begin_call"
      "g' = (if tt_chain g = VC_Unknown then g\<lparr>tt_chain := TranslationBypassSuspected\<rparr> else g)"
      using assms(1) bypass not_first by auto
    show ?thesis
      using chain_word_le(1) [of g] chain_word_le(2) [OF c(1) assms(5)] r(2) not_first(5) truth_le_refl assms(5)
      by (auto simp: r(1,3) c(2) pc_wf_def)
  next
    case hooks
    have c: "NoteHooks \<in> cs" "call = NoteHooks" using assms(3,4) hooks by auto
    have r: "p' = TT_Idle" "p \<notin> range begin_call" "g' = g\<lparr>tt_chain := NativeHooksInstalled\<rparr>"
      using assms(1) hooks not_first by auto
    show ?thesis
      using chain_word_le(3) [of g] chain_word_le(4) [OF c(1) assms(5)] r(2) not_first(5)
      by (auto simp: r(1,3) c(2) pc_wf_def)
  next
    case (confirm c a)
    note f = confirm_advance [OF assms(1) confirm(1) assms(3)]
    have "p' \<noteq> TT_Idle \<Longrightarrow> pc_call p' = Some call" using f(3) confirm(1) assms(3) by auto
    moreover have "p \<notin> range begin_call" using confirm(1) by (elim disjE) (simp_all only: not_first simp_thms)
    moreover have "p' \<notin> range begin_call" using f(3) not_first by metis
    moreover have "pc_wf p'"
      using f(3) assms(3) confirm(1) by (cases "p' = TT_Idle") (auto simp: pc_wf_def)
    ultimately show ?thesis
      using f(1,2) f(4) [OF assms(4,5)] by blast
  qed
  then show "truth_le g g'" "truth_le g' (truth_of cs)" "pc_wf p'"
    "p' = TT_Idle \<Longrightarrow> effective g' call" "p' \<noteq> TT_Idle \<Longrightarrow> pc_call p' = Some call"
    "p' \<notin> range begin_call" "p = begin_call c \<Longrightarrow> bit (tt_evidence g') (call_bit c)"
    by blast+
qed

section \<open>All interleavings\<close>

definition truth_ok :: "truth_conf \<Rightarrow> bool" where
  "truth_ok c \<longleftrightarrow> truth_le (tc_truth c) (truth_of (set (tc_calls c))) \<and>
     (\<forall>t. pc_wf (tc_pc c t) \<and> set_option (pc_call (tc_pc c t)) \<subseteq> set (tc_calls c)) \<and>
     (\<forall>call \<in> set (tc_calls c).
        (effective (tc_truth c) call \<or> (\<exists>t. pc_call (tc_pc c t) = Some call)) \<and>
        (bit (tt_evidence (tc_truth c)) (call_bit call) \<or> (\<exists>t. tc_pc c t = begin_call call)))"

lemma truth_ok_start: "truth_ok truth_start"
  by (simp add: truth_ok_def truth_start_def truth_reset_def truth_of_def truth_le_defs pc_wf_def)

lemma truth_okD:
  assumes "truth_ok c" "k \<in> set (tc_calls c)"
  shows "effective (tc_truth c) k \<or> (\<exists>t. pc_call (tc_pc c t) = Some k)"
    "bit (tt_evidence (tc_truth c)) (call_bit k) \<or> (\<exists>t. tc_pc c t = begin_call k)"
  using assms by (simp_all add: truth_ok_def)

lemma begin_ok:
  assumes "truth_ok c" "tc_pc c t = TT_Idle"
  shows "truth_ok (c\<lparr>tc_pc := (tc_pc c)(t := begin_call call), tc_calls := call # tc_calls c\<rparr>)"
proof -
  have calls: "(effective (tc_truth c) k \<or> (\<exists>u. pc_call (((tc_pc c)(t := begin_call call)) u) = Some k)) \<and>
    (bit (tt_evidence (tc_truth c)) (call_bit k) \<or> (\<exists>u. ((tc_pc c)(t := begin_call call)) u = begin_call k))"
    if "k \<in> insert call (set (tc_calls c))" for k
  proof (cases "k = call")
    case True
    then show ?thesis using begin_call_wf(2) [of call] by (metis fun_upd_same)
  next
    case False
    with that have k: "k \<in> set (tc_calls c)" by simp
    show ?thesis
      using truth_okD [OF assms(1) k] assms(2) begin_call_wf(3) [of k]
      by (metis fun_upd_other option.distinct(1) pc_call.simps(1))
  qed
  have "\<forall>u. pc_wf (((tc_pc c)(t := begin_call call)) u) \<and>
      set_option (pc_call (((tc_pc c)(t := begin_call call)) u)) \<subseteq> insert call (set (tc_calls c))"
    using assms(1) by (auto simp: truth_ok_def begin_call_wf)
  then show ?thesis
    using assms(1) calls truth_le_trans [OF _ truth_of_mono [of "set (tc_calls c)" call]]
    by (simp add: truth_ok_def)
qed

lemma advance_ok:
  assumes "truth_ok c" "truth_advance (tc_truth c) (tc_pc c t) b = (g, p)"
  shows "truth_ok (c\<lparr>tc_truth := g, tc_pc := (tc_pc c)(t := p)\<rparr>) \<and> truth_le (tc_truth c) g"
proof (cases "pc_call (tc_pc c t)")
  case None
  then have "tc_pc c t = TT_Idle"
    using assms(1) begin_call_wf(2) by (metis not_None_eq pc_wf_def rangeE truth_ok_def)
  then have "g = tc_truth c" "p = tc_pc c t" using assms(2) by simp_all
  then show ?thesis using assms(1) by (simp add: truth_le_refl)
next
  case (Some call)
  have pre: "pc_wf (tc_pc c t)" "call \<in> set (tc_calls c)" "truth_le (tc_truth c) (truth_of (set (tc_calls c)))"
    using assms(1) Some by (auto simp: truth_ok_def)
  note A = advance_sound [OF assms(2) pre(1) Some pre(2,3)]
  have bits: "bit (tt_evidence (tc_truth c)) n \<Longrightarrow> bit (tt_evidence g) n" for n
    using A(1) by (simp add: truth_le_def bits_le_def)
  have calls: "(effective g k \<or> (\<exists>u. pc_call (((tc_pc c)(t := p)) u) = Some k)) \<and>
    (bit (tt_evidence g) (call_bit k) \<or> (\<exists>u. ((tc_pc c)(t := p)) u = begin_call k))"
    if "k \<in> set (tc_calls c)" for k
  proof
    from assms(1) that have
      e: "effective (tc_truth c) k \<or> (\<exists>u. pc_call (tc_pc c u) = Some k)" and
      b: "bit (tt_evidence (tc_truth c)) (call_bit k) \<or> (\<exists>u. tc_pc c u = begin_call k)"
      by (simp_all add: truth_ok_def)
    from e show "effective g k \<or> (\<exists>u. pc_call (((tc_pc c)(t := p)) u) = Some k)"
      using effective_mono [OF A(1)] A(4,5) Some by (metis fun_upd_def option.inject)
    from b show "bit (tt_evidence g) (call_bit k) \<or> (\<exists>u. ((tc_pc c)(t := p)) u = begin_call k)"
      using bits A(7) by (metis fun_upd_def)
  qed
  have "set_option (pc_call p) \<subseteq> set (tc_calls c)"
    using A(5) pre(2) by (cases "p = TT_Idle") simp_all
  then show ?thesis
    using assms(1) A(1,2,3) calls by (simp add: truth_ok_def)
qed

interpretation truth: monotone_machine truth_step truth_ok "\<lambda>c d. truth_le (tc_truth c) (tc_truth d)"
proof
  fix c e
  assume ok: "truth_ok c"
  show "truth_ok (truth_step c e)"
    using ok begin_ok advance_ok by (cases e) (auto split: prod.split)
  show "truth_le (tc_truth c) (tc_truth (truth_step c e))"
    using advance_ok [OF ok] by (cases e) (auto simp: truth_le_refl split: prod.split)
qed (use truth_le_refl truth_le_trans in blast)+

lemma upper_effective:
  assumes "\<forall>call \<in> cs. effective g call \<and> bit (tt_evidence g) (call_bit call)"
  shows "truth_le (truth_of cs) g"
proof -
  have t: "confirms call \<noteq> AT_Unknown \<Longrightarrow> call \<in> cs \<Longrightarrow> transport_le (confirms call) (tt_transport g)" for call
    using assms by (cases call) auto
  have "transport_le (transport_of cs) (tt_transport g)"
    using t [of ConfirmNative] t [of ConfirmVkd3d] t [of ConfirmDxvk]
    by (auto simp: transport_of_def Let_def transport_le_def)
  moreover have "chain_le (chain_of cs) (tt_chain g)"
    using assms by (cases "tt_chain g") (auto simp: chain_of_def chain_le_def)
  moreover have "bits_le (evidence_of cs) (tt_evidence g)"
    using assms by (auto simp: bits_le_def bit_evidence_of)
  ultimately show ?thesis by (simp add: truth_le_def truth_of_def)
qed

lemma quiet_truth:
  assumes "truth_ok c" "quiet c"
  shows "tc_truth c = truth_of (set (tc_calls c))"
proof (rule truth_le_antisym)
  show "truth_le (tc_truth c) (truth_of (set (tc_calls c)))" using assms(1) by (simp add: truth_ok_def)
  show "truth_le (truth_of (set (tc_calls c))) (tc_truth c)"
    using truth_okD [OF assms(1)] assms(2) begin_call_wf(3)
    by (intro upper_effective ballI) (metis option.distinct(1) pc_call.simps(1) quiet_def)
qed

text \<open>C29
  Transport truth does not depend on scheduling.  Whatever threads note and confirm evidence, in any
  interleaving of their atomic accesses and with any spurious failures, once no call is in progress
  the three globals are a function of the set of calls made: one confirmed transport is that
  transport, several are mixed, loader heuristics never confirm any, and installed hooks win over
  the bypass heuristic in either order.
\<close>

theorem truth_schedule_independent:
  assumes "quiet (foldl truth_step truth_start es)"
  shows "tc_truth (foldl truth_step truth_start es) =
    truth_of (set (tc_calls (foldl truth_step truth_start es)))"
  using assms truth.inv_run [OF truth_ok_start] by (intro quiet_truth)

text \<open>Two threads confirm different transports; the second finds the word changed under it.\<close>

definition sample_actions :: "truth_action list" where
  "sample_actions = [Begin 0 ConfirmVkd3d, Begin 1 ConfirmNative, Advance 0 False, Advance 1 False, Advance 0 False,
     Advance 1 False, Advance 0 False, Advance 1 False, Advance 1 True, Advance 1 False]"

lemma sample_actions_quiet:
  "quiet (foldl truth_step truth_start sample_actions)"
  "set (tc_calls (foldl truth_step truth_start sample_actions)) = {ConfirmVkd3d, ConfirmNative}"
  by (auto simp: sample_actions_def quiet_def truth_start_def truth_reset_def loop_head_def desired_def)

theorem truth_schedule_independent_witness:
  "tt_transport (tc_truth (foldl truth_step truth_start sample_actions)) = AT_Mixed"
  using truth_schedule_independent [OF sample_actions_quiet(1)]
  by (simp add: sample_actions_quiet(2) truth_of_def transport_of_def Let_def)

text \<open>
  Native execution is blocked exactly when the only confirmed transport is one translation layer; a
  native device confirmed beside it lifts the block, heuristics alone never block, and the full WSI
  path is open only when the hooks were installed.
\<close>

lemma access_verdict:
  assumes "quiet (foldl truth_step truth_start es)"
    and "set (tc_calls (foldl truth_step truth_start es)) = cs"
  shows "snapshot_access (tc_truth (foldl truth_step truth_start es)) =
    (if ConfirmNative \<notin> cs \<and> (ConfirmVkd3d \<in> cs) \<noteq> (ConfirmDxvk \<in> cs) then Blocked
     else if NoteHooks \<in> cs then FullWsi else ExplicitOnly)"
proof -
  have "tc_truth (foldl truth_step truth_start es) = truth_of cs"
    using quiet_truth [OF truth.inv_run [OF truth_ok_start] assms(1)] assms(2) by simp
  then show ?thesis
    by (simp add: snapshot_access_def truth_of_def transport_of_def chain_of_def Let_def)
qed

lemma access_verdict_sample:
  "snapshot_access (tc_truth (foldl truth_step truth_start
     [Begin 0 NoteBypass, Advance 0 False, Begin 4 ConfirmDxvk, Advance 0 False, Advance 4 False,
      Advance 4 False, Advance 4 False])) = Blocked"
  using access_verdict [where cs = "{ConfirmDxvk, NoteBypass}" and
      es = "[Begin 0 NoteBypass, Advance 0 False, Begin 4 ConfirmDxvk, Advance 0 False, Advance 4 False,
      Advance 4 False, Advance 4 False]"]
  by (simp add: quiet_def truth_start_def truth_reset_def loop_head_def desired_def)

text \<open>The translation predicates read the evidence, so they hold as soon as the bit is set and for good.\<close>

lemma translation_confirmed_monotone:
  assumes "truth_ok c" "translation_confirmed (tc_truth c)"
  shows "translation_confirmed (tc_truth (foldl truth_step c es))"
  using truth.le_run [OF assms(1), of es] assms(2)
  by (auto simp: translation_confirmed_def has_confirmed_vkd3d_def has_confirmed_dxvk_def evidence_defs
      and_shl1_eq_0_iff truth_le_def bits_le_def)

end
