(* ===== verification/FgCadence.thy ===== *)
theory FgCadence
  imports Interfaces
begin

text \<open>
  Frame-generation cadence detection (\<open>src/frame_generation_cadence.h\<close>) and the ownership layer that
  lets several callback threads share one detector stream (\<open>src/frame_generation_cadence_router.h\<close>).
  The detector is sequential: a rolling window of comparisons packed in a register, proved equal to a
  reference that keeps the window as a list.  The router is modelled by the atomic accesses of
  \<open>observe\<close> and \<open>reset\<close>: \<open>router_enter\<close> is the part of a call before its first access,
  \<open>router_advance\<close> performs one access and the thread-local work up to the next, and threads
  interleave freely; the last section lets the calls follow one another, which relates a takeover to the
  frames of the calls themselves.
\<close>

section \<open>The detector\<close>

datatype cadence_decision = NoChange | Enable | Disable

definition kComparisonWindow :: nat where "kComparisonWindow = 11"
definition kEnableRepeatThreshold :: u8 where "kEnableRepeatThreshold = 5"

record detector =
  dt_previous_frame_id :: u64
  dt_repeat_bits :: u16
  dt_comparisons :: u8
  dt_repeat_count :: u8
  dt_initialized :: bool

definition detector_reset :: detector where
  "detector_reset = \<lparr>dt_previous_frame_id = 0, dt_repeat_bits = 0, dt_comparisons = 0, dt_repeat_count = 0,
     dt_initialized = False\<rparr>"

definition kWindowMask :: u16 where "kWindowMask = shl1 kComparisonWindow - 1"

definition shift_in :: "detector \<Rightarrow> u64 \<Rightarrow> detector" where
  "shift_in d frame_id =
     (let repeated = u8_of_bool (frame_id = dt_previous_frame_id d);
          evicted = if dt_comparisons d = word_of_nat kComparisonWindow
            then ucast (drop_bit (kComparisonWindow - 1) (dt_repeat_bits d) AND 1) else 0
      in d\<lparr>dt_previous_frame_id := frame_id,
           dt_repeat_bits := (push_bit 1 (dt_repeat_bits d) OR ucast repeated) AND kWindowMask,
           dt_comparisons := (if dt_comparisons d < word_of_nat kComparisonWindow
             then dt_comparisons d + 1 else dt_comparisons d),
           dt_repeat_count := dt_repeat_count d + repeated - evicted\<rparr>)"

definition decide :: "detector \<Rightarrow> bool \<Rightarrow> cadence_decision" where
  "decide d currently_enabled =
     (if \<not> currently_enabled \<and> kEnableRepeatThreshold \<le> dt_repeat_count d then Enable
      else if currently_enabled \<and> dt_comparisons d = word_of_nat kComparisonWindow \<and> dt_repeat_count d = 0
        then Disable
      else NoChange)"

definition detector_observe :: "detector \<Rightarrow> u64 \<Rightarrow> bool \<Rightarrow> detector \<times> cadence_decision" where
  "detector_observe d frame_id currently_enabled =
     (if \<not> dt_initialized d then
        (d\<lparr>dt_previous_frame_id := frame_id, dt_initialized := True\<rparr>, NoChange)
      else if frame_id < dt_previous_frame_id d then
        (d\<lparr>dt_previous_frame_id := frame_id, dt_repeat_bits := 0, dt_comparisons := 0,
           dt_repeat_count := 0\<rparr>, NoChange)
      else let d' = shift_in d frame_id in (d', decide d' currently_enabled))"

fun detector_run :: "detector \<Rightarrow> (u64 \<times> bool) list \<Rightarrow> detector \<times> cadence_decision list" where
  "detector_run d [] = (d, [])"
| "detector_run d ((x, en) # rest) =
     (let (d', r) = detector_observe d x en; (d'', rs) = detector_run d' rest in (d'', r # rs))"

section \<open>The reference: a window of comparisons\<close>

text \<open>The previous frame, if any, and the results of the last comparisons, the newest first.\<close>

type_synonym window = "u64 option \<times> bool list"

definition repeats :: "bool list \<Rightarrow> nat" where
  "repeats h = length (filter id h)"

definition window_observe :: "window \<Rightarrow> u64 \<Rightarrow> bool \<Rightarrow> window \<times> cadence_decision" where
  "window_observe w x en =
     (case fst w of
        None \<Rightarrow> ((Some x, []), NoChange)
      | Some p \<Rightarrow>
          if x < p then ((Some x, []), NoChange)
          else let h = take 11 ((x = p) # snd w) in
            ((Some x, h),
             if \<not> en \<and> 5 \<le> repeats h then Enable
             else if en \<and> length h = 11 \<and> repeats h = 0 then Disable
             else NoChange))"

fun window_run :: "window \<Rightarrow> (u64 \<times> bool) list \<Rightarrow> window \<times> cadence_decision list" where
  "window_run w [] = (w, [])"
| "window_run w ((x, en) # rest) =
     (let (w', r) = window_observe w x en; (w'', rs) = window_run w' rest in (w'', r # rs))"

definition packs :: "detector \<Rightarrow> window \<Rightarrow> bool" where
  "packs d w \<longleftrightarrow> (case fst w of
       None \<Rightarrow> \<not> dt_initialized d \<and> snd w = []
     | Some p \<Rightarrow> dt_initialized d \<and> dt_previous_frame_id d = p) \<and>
     length (snd w) \<le> 11 \<and> dt_comparisons d = word_of_nat (length (snd w)) \<and>
     dt_repeat_count d = word_of_nat (repeats (snd w)) \<and>
     (\<forall>n. bit (dt_repeat_bits d) n \<longleftrightarrow> n < length (snd w) \<and> snd w ! n)"

lemma packs_reset: "packs detector_reset (None, [])"
  by (simp add: packs_def detector_reset_def repeats_def)

lemma repeats_le: "repeats h \<le> length h"
  by (simp add: repeats_def)

lemma repeats_Cons: "repeats (b # h) = (if b then Suc (repeats h) else repeats h)"
  by (simp add: repeats_def)

text \<open>Shifting in a comparison keeps the register equal to the window; the bit that falls out is the oldest.\<close>

lemma repeats_take:
  "length h = 11 \<Longrightarrow> repeats (take 11 (b # h)) + (if h ! 10 then 1 else 0) = repeats (b # h)"
proof -
  assume l: "length h = 11"
  have "h = take 10 h @ [h ! 10]"
    using l take_Suc_conv_app_nth [of 10 h] by simp
  then have "repeats h = repeats (take 10 h @ [h ! 10])" by metis
  then have "repeats h = repeats (take 10 h) + (if h ! 10 then 1 else 0)"
    by (simp add: repeats_def)
  moreover have "take 11 (b # h) = b # take 10 h" by (simp add: numeral_eq_Suc)
  ultimately show ?thesis by (simp add: repeats_Cons)
qed

lemma bit_window: "bit ((push_bit 1 b OR ucast (u8_of_bool r)) AND kWindowMask) n \<longleftrightarrow>
   n < 11 \<and> (if n = 0 then r else bit b (n - 1))" for b :: u16
proof -
  have m: "kWindowMask = mask 11"
    by (simp add: kWindowMask_def kComparisonWindow_def mask_eq_exp_minus_1 shl1_def)
  have r: "bit (ucast (u8_of_bool r) :: u16) n \<longleftrightarrow> n = 0 \<and> r"
    by (auto simp: u8_of_bool_def bit_1_iff)
  show ?thesis
    unfolding m bit_and_iff bit_or_iff bit_push_bit_iff bit_mask_iff r by auto
qed

lemma evicted_bit: "ucast (drop_bit 10 b AND 1) = u8_of_bool (bit b 10)" for b :: u16
proof (rule bit_word_eqI)
  fix n assume "n < LENGTH(8)"
  then show "bit (ucast (drop_bit 10 b AND 1) :: u8) n \<longleftrightarrow> bit (u8_of_bool (bit b 10)) n"
    by (cases "n = 0") (auto simp: u8_of_bool_def bit_unsigned_iff bit_and_iff bit_drop_bit_eq bit_1_iff)
qed

lemma word_of_nat_small_eq:
  "a < 256 \<Longrightarrow> b < 256 \<Longrightarrow> (word_of_nat a :: u8) = word_of_nat b \<longleftrightarrow> a = b"
  "a < 256 \<Longrightarrow> b < 256 \<Longrightarrow> (word_of_nat a :: u8) < word_of_nat b \<longleftrightarrow> a < b"
  "a < 256 \<Longrightarrow> b < 256 \<Longrightarrow> (word_of_nat a :: u8) \<le> word_of_nat b \<longleftrightarrow> a \<le> b"
  by (simp_all add: word_unat_eq_iff word_nat_defs unsigned_of_nat take_bit_nat_eq_self)

lemma shift_packs:
  assumes "packs d (Some p, h)"
  shows "packs (shift_in d x) (Some x, take 11 ((x = p) # h))"
proof -
  let ?r = "x = p"
  from assms have l: "length h \<le> 11" "dt_previous_frame_id d = p" "dt_initialized d"
    and c: "dt_comparisons d = word_of_nat (length h)" and n: "dt_repeat_count d = word_of_nat (repeats h)"
    and b: "\<And>n. bit (dt_repeat_bits d) n \<longleftrightarrow> n < length h \<and> h ! n"
    by (simp_all add: packs_def)
  have full: "dt_comparisons d = word_of_nat 11 \<longleftrightarrow> length h = 11"
    using l(1) by (simp only: c word_of_nat_small_eq)
  have part: "dt_comparisons d < word_of_nat 11 \<longleftrightarrow> length h \<noteq> 11"
    using l(1) by (simp only: c word_of_nat_small_eq) linarith
  let ?h = "take 11 (?r # h)"
  have "dt_comparisons (shift_in d x) = word_of_nat (length ?h)"
    using l(1) part by (auto simp: shift_in_def Let_def kComparisonWindow_def c min_def)
  moreover have "dt_repeat_count (shift_in d x) = word_of_nat (repeats ?h)"
  proof (cases "length h = 11")
    case True
    have w: "(word_of_nat (a + (if c then 1 else 0)) :: u8) = word_of_nat a + u8_of_bool c" for a c
      by (simp add: u8_of_bool_def)
    have "repeats ?h + (if h ! 10 then 1 else 0) = repeats h + (if ?r then 1 else 0)"
      using repeats_take [OF True, of ?r] by (simp only: repeats_Cons) simp
    then have "(word_of_nat (repeats ?h) :: u8) + u8_of_bool (h ! 10) = word_of_nat (repeats h) + u8_of_bool ?r"
      by (metis w)
    then have "(word_of_nat (repeats ?h) :: u8) = word_of_nat (repeats h) + u8_of_bool ?r - u8_of_bool (h ! 10)"
      by (simp add: eq_diff_eq)
    moreover have "bit (dt_repeat_bits d) 10 = h ! 10" using True b by simp
    moreover have "ucast (drop_bit (11 - 1) (dt_repeat_bits d) AND 1) = u8_of_bool (bit (dt_repeat_bits d) 10)"
      using evicted_bit [of "dt_repeat_bits d"] by simp
    ultimately show ?thesis
      using True full by (simp only: shift_in_def Let_def kComparisonWindow_def n l(2)) simp
  next
    case False
    then have "take 11 (?r # h) = ?r # h" using l(1) by simp
    then show ?thesis
      using False full by (auto simp: shift_in_def Let_def kComparisonWindow_def n l(2) repeats_Cons u8_of_bool_def)
  qed
  moreover have "bit (dt_repeat_bits (shift_in d x)) n \<longleftrightarrow> n < length ?h \<and> ?h ! n" for n
  proof -
    have e: "dt_repeat_bits (shift_in d x) = (push_bit 1 (dt_repeat_bits d) OR ucast (u8_of_bool ?r)) AND kWindowMask"
      by (simp add: shift_in_def Let_def l(2))
    show ?thesis
      unfolding e bit_window b using l(1) by (cases n) auto
  qed
  ultimately show ?thesis
    by (simp add: packs_def shift_in_def Let_def l(3))
qed

lemma decide_packs:
  assumes "packs d (Some p, h)"
  shows "decide d en = (if \<not> en \<and> 5 \<le> repeats h then Enable
    else if en \<and> length h = 11 \<and> repeats h = 0 then Disable else NoChange)"
proof -
  from assms have l: "length h \<le> 11" and c: "dt_comparisons d = word_of_nat (length h)"
    and n: "dt_repeat_count d = word_of_nat (repeats h)"
    by (simp_all add: packs_def)
  have r: "repeats h < 256" "length h < 256" using l repeats_le [of h] by simp_all
  have "kEnableRepeatThreshold \<le> dt_repeat_count d \<longleftrightarrow> 5 \<le> repeats h"
    using word_of_nat_small_eq(3) [of 5 "repeats h"] r(1) by (simp add: n kEnableRepeatThreshold_def)
  moreover have "dt_comparisons d = word_of_nat kComparisonWindow \<longleftrightarrow> length h = 11"
    using word_of_nat_small_eq(1) [of "length h" 11] r(2) by (simp add: c kComparisonWindow_def)
  moreover have "dt_repeat_count d = 0 \<longleftrightarrow> repeats h = 0"
    using word_of_nat_small_eq(1) [of "repeats h" 0] r(1) by (simp add: n)
  ultimately show ?thesis by (simp add: decide_def)
qed

lemma observe_packs:
  assumes "packs d w"
  shows "packs (fst (detector_observe d x en)) (fst (window_observe w x en)) \<and>
    snd (detector_observe d x en) = snd (window_observe w x en)"
proof (cases w)
  case (Pair q h)
  show ?thesis
  proof (cases q)
    case None
    with assms Pair have "\<not> dt_initialized d" "h = []" by (auto simp: packs_def)
    then show ?thesis
      using assms Pair None by (simp add: packs_def detector_observe_def window_observe_def)
  next
    case (Some p)
    with assms Pair have d: "dt_initialized d" "dt_previous_frame_id d = p" by (auto simp: packs_def)
    note S = shift_packs [OF assms [unfolded Pair Some], of x]
    show ?thesis
      using d S decide_packs [OF S] Pair Some
      by (simp add: packs_def repeats_def detector_observe_def window_observe_def Let_def)
  qed
qed

lemma run_packs:
  "packs d w \<Longrightarrow> packs (fst (detector_run d xs)) (fst (window_run w xs)) \<and>
   snd (detector_run d xs) = snd (window_run w xs)"
proof (induction xs arbitrary: d w)
  case Nil
  then show ?case by simp
next
  case (Cons a xs)
  obtain x en where a: "a = (x, en)" by force
  note O = observe_packs [OF Cons.prems, of x en]
  note I = Cons.IH [OF O [THEN conjunct1]]
  show ?case using O I by (simp add: a Let_def split: prod.split) (metis fst_conv snd_conv)
qed

lemma detector_exact_window: "snd (detector_run detector_reset xs) = snd (window_run (None, []) xs)"
  using run_packs [OF packs_reset] by simp

text \<open>C30
  The packed rolling window is exact.  On every sequence of native frame ids and current states the
  detector answers as the reference that keeps the comparisons since the last backward id in a list
  of at most eleven: enable at five repeats in the window, disable only after a whole window without
  any, and never on evidence from before an id went back.
\<close>

theorem detector_exact:
  "snd (detector_run detector_reset xs) = snd (window_run (None, []) xs)"
  by (rule detector_exact_window)

section \<open>The router\<close>

definition kProgressPublishStride :: u64 where "kProgressPublishStride = 2"
definition kTakeoverLagFrames :: u64 where "kTakeoverLagFrames = 3"
definition kRestartGapFrames :: u64 where "kRestartGapFrames = 32"

text \<open>The thread-local state; \<open>ls_router\<close> is the address of the router it is bound to, 0 for none.\<close>

record local_state =
  ls_router :: u64
  ls_detector :: detector
  ls_last_published_frame :: u64
  ls_last_published_valid :: bool
  ls_owned :: bool

definition local_bind :: "u64 \<Rightarrow> local_state" where
  "local_bind this = \<lparr>ls_router = this, ls_detector = detector_reset, ls_last_published_frame = 0,
     ls_last_published_valid = False, ls_owned = False\<rparr>"

record router =
  ro_owner :: u64
  ro_owner_frame_encoded :: u64

definition encode_frame :: "u64 \<Rightarrow> u64" where
  "encode_frame frame = (if frame = u64_max then u64_max else frame + 1)"

definition decode_frame :: "u64 \<Rightarrow> u64" where
  "decode_frame encoded = (if encoded = u64_max then u64_max else encoded - 1)"

definition owner_frame :: "router \<Rightarrow> u64" where
  "owner_frame r = (if ro_owner_frame_encoded r = 0 then 0 else decode_frame (ro_owner_frame_encoded r))"

text \<open>
  Where a call of \<open>observe\<close> stands, with its producer token: before the load of the owner that
  revalidates ownership, before the store of the progress, before the final owner load that confirms
  a decision, before the load of the owner, of the owner's frame, before the exchange, or done.
  \<open>reset\<close> stands before each of its two stores.
\<close>

datatype router_pc =
    RP_Done cadence_decision
  | RP_Revalidate u64 u64 bool
  | RP_Progress u64 u64 bool
  | RP_Confirm u64 cadence_decision
  | RP_LoadOwner u64 u64 bool
  | RP_LoadFrame u64 u64 bool u64
  | RP_Claim u64 u64 bool u64
  | RP_Publish u64 u64 bool
  | RP_ResetFrame
  | RP_ResetOwner

text \<open>Feed the thread's own detector; a transition is confirmed against the owner word first.\<close>

definition feed :: "local_state \<Rightarrow> u64 \<Rightarrow> u64 \<Rightarrow> bool \<Rightarrow> local_state \<times> router_pc" where
  "feed l token frame_id en =
     (let (d, decision) = detector_observe (ls_detector l) frame_id en
      in (l\<lparr>ls_detector := d\<rparr>, if decision = NoChange then RP_Done NoChange else RP_Confirm token decision))"

definition disown :: "local_state \<Rightarrow> local_state" where
  "disown l = l\<lparr>ls_detector := detector_reset, ls_last_published_valid := False, ls_owned := False\<rparr>"

text \<open>Lines 58 to 75 and 100 to 101: everything before the first atomic access.\<close>

definition router_enter :: "u64 \<Rightarrow> local_state \<Rightarrow> u64 \<Rightarrow> u64 \<Rightarrow> bool \<Rightarrow> local_state \<times> router_pc" where
  "router_enter this l token frame_id en =
     (if token = 0 then (l, RP_Done NoChange)
      else
        let l = if ls_router l \<noteq> this then local_bind this else l in
        if ls_owned l then
          if \<not> ls_last_published_valid l \<or> frame_id < ls_last_published_frame l \<or>
             kProgressPublishStride \<le> frame_id - ls_last_published_frame l
          then (l, RP_Revalidate token frame_id en)
          else feed l token frame_id en
        else (l, RP_LoadOwner token frame_id en))"

definition may_take_over :: "u64 \<Rightarrow> u64 \<Rightarrow> bool" where
  "may_take_over encoded frame_id \<longleftrightarrow> encoded \<noteq> 0 \<and>
     (let f = decode_frame encoded in
      (f < frame_id \<and> kTakeoverLagFrames < frame_id - f) \<or> (frame_id < f \<and> kRestartGapFrames \<le> f - frame_id))"

text \<open>Lines 149 to 156: what a thread that owns the stream now does before it publishes its frame.\<close>

definition claim_local :: "local_state \<Rightarrow> bool \<Rightarrow> u64 \<Rightarrow> local_state" where
  "claim_local l newly_claimed frame_id =
     (let l = if newly_claimed \<or> \<not> ls_owned l
        then l\<lparr>ls_detector := detector_reset, ls_last_published_valid := False, ls_owned := True\<rparr> else l
      in l\<lparr>ls_last_published_frame := frame_id, ls_last_published_valid := True\<rparr>)"

fun router_advance :: "router \<Rightarrow> local_state \<Rightarrow> router_pc \<Rightarrow> router \<times> local_state \<times> router_pc" where
  "router_advance r l (RP_Done d) = (r, l, RP_Done d)"
| "router_advance r l (RP_Revalidate token frame_id en) =
     (if ro_owner r \<noteq> token then (r, disown l, RP_LoadOwner token frame_id en)
      else (r, l\<lparr>ls_last_published_frame := frame_id, ls_last_published_valid := True\<rparr>,
            RP_Progress token frame_id en))"
| "router_advance r l (RP_Progress token frame_id en) =
     (r\<lparr>ro_owner_frame_encoded := encode_frame frame_id\<rparr>, feed l token frame_id en)"
| "router_advance r l (RP_Confirm token decision) =
     (if ro_owner r \<noteq> token then (r, disown l, RP_Done NoChange) else (r, l, RP_Done decision))"
| "router_advance r l (RP_LoadOwner token frame_id en) =
     (if ro_owner r = token then (r, claim_local l False frame_id, RP_Publish token frame_id en)
      else if ro_owner r = 0 then (r, l, RP_Claim token frame_id en 0)
      else (r, l, RP_LoadFrame token frame_id en (ro_owner r)))"
| "router_advance r l (RP_LoadFrame token frame_id en owner) =
     (if may_take_over (ro_owner_frame_encoded r) frame_id then (r, l, RP_Claim token frame_id en owner)
      else (r, l, RP_Done NoChange))"
| "router_advance r l (RP_Claim token frame_id en owner) =
     (if ro_owner r = owner
      then (r\<lparr>ro_owner := token\<rparr>, claim_local l True frame_id, RP_Publish token frame_id en)
      else if ro_owner r = token then (r, claim_local l False frame_id, RP_Publish token frame_id en)
      else (r, l, RP_Done NoChange))"
| "router_advance r l (RP_Publish token frame_id en) =
     (r\<lparr>ro_owner_frame_encoded := encode_frame frame_id\<rparr>, feed l token frame_id en)"
| "router_advance r l RP_ResetFrame = (r\<lparr>ro_owner_frame_encoded := 0\<rparr>, l, RP_ResetOwner)"
| "router_advance r l RP_ResetOwner = (r\<lparr>ro_owner := 0\<rparr>, l, RP_Done NoChange)"

section \<open>A call without interference\<close>

text \<open>No call makes more than six accesses (\<open>accesses_left\<close> below), so six advances complete it.\<close>

fun advances :: "nat \<Rightarrow> router \<Rightarrow> local_state \<Rightarrow> router_pc \<Rightarrow> router \<times> local_state \<times> router_pc" where
  "advances 0 r l p = (r, l, p)"
| "advances (Suc n) r l p = (let (r', l', p') = router_advance r l p in advances n r' l' p')"

definition router_observe ::
  "u64 \<Rightarrow> router \<Rightarrow> local_state \<Rightarrow> u64 \<Rightarrow> u64 \<Rightarrow> bool \<Rightarrow> router \<times> local_state \<times> router_pc" where
  "router_observe this r l token frame_id en =
     (let (l', p) = router_enter this l token frame_id en in advances 6 r l' p)"

fun router_run ::
  "u64 \<Rightarrow> u64 \<Rightarrow> router \<Rightarrow> local_state \<Rightarrow> (u64 \<times> bool) list \<Rightarrow> router_pc list" where
  "router_run this token r l [] = []"
| "router_run this token r l ((x, en) # rest) =
     (let (r', l', p) = router_observe this r l token x en in p # router_run this token r' l' rest)"

definition streams :: "u64 \<Rightarrow> u64 \<Rightarrow> router \<Rightarrow> local_state \<Rightarrow> bool" where
  "streams this token r l \<longleftrightarrow> ls_router l = this \<and> ls_owned l \<and> ro_owner r = token"

lemma advances_done: "advances n r l (RP_Done d) = (r, l, RP_Done d)"
  by (induction n) simp_all

text \<open>With the owner word in place, a fed detector's decision is returned.\<close>

lemma feed_done:
  assumes "ro_owner r = token" "0 < n"
  shows "(let (l', p) = feed l token x en in advances n r l' p) =
    (r, l\<lparr>ls_detector := fst (detector_observe (ls_detector l) x en)\<rparr>,
     RP_Done (snd (detector_observe (ls_detector l) x en)))"
  using assms by (cases n) (simp_all add: feed_def Let_def advances_done split: prod.split)

lemma advances_unfold:
  "advances 6 r l p = (let (r', l', p') = router_advance r l p in advances 5 r' l' p')"
  "advances 5 r l p = (let (r', l', p') = router_advance r l p in advances 4 r' l' p')"
  "advances 4 r l p = (let (r', l', p') = router_advance r l p in advances 3 r' l' p')"
  using advances.simps(2) [of 5 r l p] advances.simps(2) [of 4 r l p] advances.simps(2) [of 3 r l p]
  by (simp_all del: advances.simps)

lemma observe_owned:
  assumes "streams this token r l" "token \<noteq> 0" "router_observe this r l token x en = (r', l', p)"
  shows "streams this token r' l' \<and> p = RP_Done (snd (detector_observe (ls_detector l) x en)) \<and>
    ls_detector l' = fst (detector_observe (ls_detector l) x en)"
proof -
  let ?q = "l\<lparr>ls_last_published_frame := x, ls_last_published_valid := True\<rparr>"
  from assms(1) have o: "ls_router l = this" "ls_owned l" "ro_owner r = token" by (simp_all add: streams_def)
  have "router_enter this l token x en =
      (if \<not> ls_last_published_valid l \<or> x < ls_last_published_frame l \<or>
          kProgressPublishStride \<le> x - ls_last_published_frame l
       then (l, RP_Revalidate token x en) else feed l token x en)"
    using o assms(2) by (simp add: router_enter_def Let_def)
  then consider (plain) "router_enter this l token x en = feed l token x en"
    | (publish) "router_enter this l token x en = (l, RP_Revalidate token x en)"
    by metis
  then show ?thesis
  proof cases
    case plain
    then show ?thesis
      using assms(3) feed_done [of r token 6 l x en] o
      by (auto simp: router_observe_def streams_def)
  next
    case publish
    have "advances 6 r l (RP_Revalidate token x en) =
        (let (l', p) = feed ?q token x en in advances 4 (r\<lparr>ro_owner_frame_encoded := encode_frame x\<rparr>) l' p)"
      using o by (simp add: advances_unfold(1,2))
    then show ?thesis
      using assms(3) feed_done [of "r\<lparr>ro_owner_frame_encoded := encode_frame x\<rparr>" token 4 ?q x en] o publish
      by (auto simp: router_observe_def streams_def)
  qed
qed

lemma observe_claims:
  assumes "ro_owner r \<in> {0, token}" "token \<noteq> 0" "ls_router l \<noteq> this \<or> \<not> ls_owned l"
    "router_observe this r l token x en = (r', l', p)"
  shows "streams this token r' l' \<and> p = RP_Done NoChange \<and>
    ls_detector l' = fst (detector_observe detector_reset x en)"
proof -
  have d: "snd (detector_observe detector_reset x en) = NoChange"
    by (simp add: detector_observe_def detector_reset_def)
  let ?l = "if ls_router l \<noteq> this then local_bind this else l"
  let ?q = "claim_local ?l True x"
  have l: "ls_router ?l = this" "\<not> ls_owned ?l" using assms(3) by (auto simp: local_bind_def)
  have e: "router_enter this l token x en = (?l, RP_LoadOwner token x en)"
    using l assms(2) by (simp add: router_enter_def Let_def)
  have q: "claim_local ?l False x = ?q" "ls_detector ?q = detector_reset" "ls_owned ?q" "ls_router ?q = this"
    using l by (simp_all add: claim_local_def Let_def)
  have fed: "(let (l', p) = feed ?q token x en in advances n k l' p) =
      (k, ?q\<lparr>ls_detector := fst (detector_observe detector_reset x en)\<rparr>, RP_Done NoChange)"
    if "ro_owner k = token" "0 < n" for k n
    using feed_done [OF that, of ?q x en] d by (simp only: q(2))
  have "\<exists>k n. ro_owner k = token \<and> 0 < n \<and> router_observe this r l token x en =
      (let (l', p) = feed ?q token x en in advances n k l' p)"
  proof (cases "ro_owner r = token")
    case True
    let ?k = "r\<lparr>ro_owner_frame_encoded := encode_frame x\<rparr>"
    have "router_observe this r l token x en = (let (l', p) = feed ?q token x en in advances 4 ?k l' p)"
      using True q(1) by (simp add: router_observe_def e advances_unfold(1,2))
    then show ?thesis using True by (intro exI [of _ ?k] exI [of _ 4]) simp
  next
    case False
    let ?k = "r\<lparr>ro_owner := token, ro_owner_frame_encoded := encode_frame x\<rparr>"
    have "router_observe this r l token x en = (let (l', p) = feed ?q token x en in advances 3 ?k l' p)"
      using False assms(1) by (simp add: router_observe_def e advances_unfold)
    then show ?thesis by (intro exI [of _ ?k] exI [of _ 3]) simp
  qed
  then obtain k n where "ro_owner k = token" "0 < n" "router_observe this r l token x en =
      (let (l', p) = feed ?q token x en in advances n k l' p)" by blast
  then show ?thesis
    using fed [of k n] assms(4) q by (auto simp: streams_def)
qed

lemma run_owned:
  assumes "streams this token r l" "token \<noteq> 0"
  shows "router_run this token r l xs = map RP_Done (snd (detector_run (ls_detector l) xs))"
  using assms(1)
proof (induction xs arbitrary: r l)
  case Nil
  then show ?case by simp
next
  case (Cons a xs)
  obtain x en where a: "a = (x, en)" by force
  obtain r' l' p where o: "router_observe this r l token x en = (r', l', p)" by (metis prod_cases3)
  note O = observe_owned [OF Cons.prems assms(2) o]
  show ?case
    using O Cons.IH [of r' l'] by (simp add: a o Let_def split: prod.split)
qed

text \<open>C34
  The ownership layer is transparent to a single producer and never imports history: a thread that
  does not own the stream, on a router that is free or already its own, gets on every sequence of
  frames exactly the decisions of a fresh detector, whatever its thread-local state held before.
\<close>

theorem router_transparent:
  assumes "ro_owner r \<in> {0, token}" "token \<noteq> 0" "ls_router l \<noteq> this \<or> \<not> ls_owned l"
  shows "router_run this token r l xs = map RP_Done (snd (detector_run detector_reset xs))"
proof (cases xs)
  case Nil
  then show ?thesis by simp
next
  case (Cons a ys)
  obtain x en where a: "a = (x, en)" by force
  obtain r' l' p where o: "router_observe this r l token x en = (r', l', p)" by (metis prod_cases3)
  note O = observe_claims [OF assms o]
  have d: "detector_observe detector_reset x en = (ls_detector l', NoChange)"
    using O by (simp add: detector_observe_def detector_reset_def)
  show ?thesis
    using O run_owned [of this token r' l' ys] assms(2) by (simp add: Cons a o d Let_def split: prod.split)
qed

theorem router_transparent_witness:
  "router_run 9 7 \<lparr>ro_owner = 0, ro_owner_frame_encoded = 0\<rparr> (local_bind 9)
     [(1, False), (1, False), (1, False), (1, False), (1, False), (1, False)] =
   [RP_Done NoChange, RP_Done NoChange, RP_Done NoChange, RP_Done NoChange, RP_Done NoChange, RP_Done Enable]"
proof -
  have d: "snd (detector_run detector_reset [(1, False), (1, False), (1, False), (1, False), (1, False), (1, False)]) =
    [NoChange, NoChange, NoChange, NoChange, NoChange, Enable]"
    unfolding detector_exact_window by (simp add: window_observe_def repeats_def)
  have t: "router_run 9 7 \<lparr>ro_owner = 0, ro_owner_frame_encoded = 0\<rparr> (local_bind 9) xs =
      map RP_Done (snd (detector_run detector_reset xs))" for xs
    by (rule router_transparent) (simp_all add: local_bind_def)
  show ?thesis unfolding t d by simp
qed

section \<open>Interleavings\<close>

text \<open>
  Threads are named by their producer tokens, the addresses of their thread-local states.
\<close>

record router_conf =
  rx_router :: router
  rx_local :: "u64 \<Rightarrow> local_state"
  rx_pc :: "u64 \<Rightarrow> router_pc"

datatype router_event = R_Observe u64 u64 bool | R_Reset u64 | R_Advance u64

definition idle_pc :: "router_pc \<Rightarrow> bool" where
  "idle_pc p \<longleftrightarrow> (case p of RP_Done _ \<Rightarrow> True | _ \<Rightarrow> False)"

fun router_step :: "u64 \<Rightarrow> router_conf \<Rightarrow> router_event \<Rightarrow> router_conf" where
  "router_step this c (R_Observe t frame_id en) =
     (if idle_pc (rx_pc c t)
      then let (l, p) = router_enter this (rx_local c t) t frame_id en
           in c\<lparr>rx_local := (rx_local c)(t := l), rx_pc := (rx_pc c)(t := p)\<rparr>
      else c)"
| "router_step this c (R_Reset t) =
     (if idle_pc (rx_pc c t) then c\<lparr>rx_pc := (rx_pc c)(t := RP_ResetFrame)\<rparr> else c)"
| "router_step this c (R_Advance t) =
     (let (r, l, p) = router_advance (rx_router c) (rx_local c t) (rx_pc c t)
      in c\<lparr>rx_router := r, rx_local := (rx_local c)(t := l), rx_pc := (rx_pc c)(t := p)\<rparr>)"

text \<open>The accesses a call can still make.\<close>

fun accesses_left :: "router_pc \<Rightarrow> nat" where
  "accesses_left (RP_Done _) = 0"
| "accesses_left (RP_Confirm _ _) = 1"
| "accesses_left (RP_Progress _ _ _) = 2"
| "accesses_left (RP_Publish _ _ _) = 2"
| "accesses_left (RP_Claim _ _ _ _) = 3"
| "accesses_left (RP_LoadFrame _ _ _ _) = 4"
| "accesses_left (RP_LoadOwner _ _ _) = 5"
| "accesses_left (RP_Revalidate _ _ _) = 6"
| "accesses_left RP_ResetFrame = 2"
| "accesses_left RP_ResetOwner = 1"

lemma feed_left: "accesses_left (snd (feed l t x en)) \<le> 1"
  by (simp add: feed_def Let_def split: prod.split)

lemma advance_left: "accesses_left (snd (snd (router_advance r l p))) \<le> accesses_left p - 1"
  using feed_left [of l] by (cases p) (auto intro: le_trans [OF feed_left])

lemma accesses_left_le: "accesses_left p \<le> 6"
  by (cases p) simp_all

lemma idle_left: "idle_pc p \<longleftrightarrow> accesses_left p = 0"
  by (cases p) (simp_all add: idle_pc_def)

fun calls_of :: "u64 \<Rightarrow> router_event \<Rightarrow> bool" where
  "calls_of t (R_Observe u _ _) \<longleftrightarrow> u = t"
| "calls_of t (R_Reset u) \<longleftrightarrow> u = t"
| "calls_of t (R_Advance u) \<longleftrightarrow> False"

lemma step_left:
  assumes "\<not> calls_of t e"
  shows "accesses_left (rx_pc (router_step this c e) t) \<le>
    accesses_left (rx_pc c t) - (if e = R_Advance t then 1 else 0)"
  using assms advance_left [of "rx_router c" "rx_local c t" "rx_pc c t"]
  by (cases e) (auto split: prod.split)

lemma run_left:
  assumes "\<forall>e \<in> set es. \<not> calls_of t e"
  shows "accesses_left (rx_pc (foldl (router_step this) c es) t) \<le>
    accesses_left (rx_pc c t) - count_list es (R_Advance t)"
  using assms
proof (induction es arbitrary: c)
  case Nil
  then show ?case by simp
next
  case (Cons e es)
  then have "accesses_left (rx_pc (foldl (router_step this) (router_step this c e) es) t) \<le>
      accesses_left (rx_pc c t) - (if e = R_Advance t then 1 else 0) - count_list es (R_Advance t)"
    using step_left [of t e this c] by (intro order_trans [OF Cons.IH diff_le_mono]) simp_all
  then show ?case by (cases "e = R_Advance t") (simp_all del: router_step.simps)
qed

text \<open>C31
  Every call is wait-free: whatever the other threads do in between, including resets and takeovers,
  a call has returned after at most six accesses of its own.
\<close>

theorem router_wait_free:
  assumes "\<forall>e \<in> set es. \<not> calls_of t e" "6 \<le> count_list es (R_Advance t)"
  shows "idle_pc (rx_pc (foldl (router_step this) c es) t)"
  using run_left [OF assms(1), of this c] assms(2) accesses_left_le [of "rx_pc c t"]
  by (simp add: idle_left)

definition router_start :: router_conf where
  "router_start = \<lparr>rx_router = \<lparr>ro_owner = 0, ro_owner_frame_encoded = 0\<rparr>, rx_local = (\<lambda>_. local_bind 0),
     rx_pc = (\<lambda>_. RP_Done NoChange)\<rparr>"

theorem router_wait_free_witness:
  "idle_pc (rx_pc (foldl (router_step 9) (router_step 9 router_start (R_Observe 7 1 False))
     [R_Advance 7, R_Advance 8, R_Advance 7, R_Reset 8, R_Advance 8, R_Advance 7, R_Advance 8, R_Advance 7,
      R_Advance 7, R_Advance 7]) 7)"
  by (rule router_wait_free) (simp_all add: numeral_eq_Suc)

section \<open>Ownership\<close>

text \<open>A position holds the token of its own thread, and only a transition waits for confirmation.\<close>

fun pc_token :: "router_pc \<Rightarrow> u64 option" where
  "pc_token (RP_Revalidate k _ _) = Some k"
| "pc_token (RP_Progress k _ _) = Some k"
| "pc_token (RP_Confirm k _) = Some k"
| "pc_token (RP_LoadOwner k _ _) = Some k"
| "pc_token (RP_LoadFrame k _ _ _) = Some k"
| "pc_token (RP_Claim k _ _ _) = Some k"
| "pc_token (RP_Publish k _ _) = Some k"
| "pc_token _ = None"

fun evidenced :: "router_pc \<Rightarrow> bool" where
  "evidenced (RP_Confirm _ d) \<longleftrightarrow> d \<noteq> NoChange"
| "evidenced _ \<longleftrightarrow> True"

definition router_ok :: "router_conf \<Rightarrow> bool" where
  "router_ok c \<longleftrightarrow> (\<forall>t. set_option (pc_token (rx_pc c t)) \<subseteq> {t} \<and> evidenced (rx_pc c t))"

lemma feed_ok: "set_option (pc_token (snd (feed l t x en))) \<subseteq> {t}" "evidenced (snd (feed l t x en))"
  by (auto simp: feed_def Let_def split: prod.split)

lemma enter_ok: "set_option (pc_token (snd (router_enter this l t x en))) \<subseteq> {t} \<and>
  evidenced (snd (router_enter this l t x en))"
  using feed_ok by (simp add: router_enter_def Let_def)

lemma router_advance_ok:
  "set_option (pc_token (snd (snd (router_advance r l p)))) \<subseteq> set_option (pc_token p)"
  "evidenced p \<Longrightarrow> evidenced (snd (snd (router_advance r l p)))"
  using feed_ok by (cases p; auto simp: subset_iff dest!: subsetD)+

lemma router_step_ok:
  assumes "router_ok c"
  shows "router_ok (router_step this c e)"
proof (cases e)
  case (R_Observe t x en)
  then show ?thesis
    using assms enter_ok [of this "rx_local c t" t x en] by (auto simp: router_ok_def split: prod.split)
next
  case (R_Reset t)
  then show ?thesis using assms by (auto simp: router_ok_def)
next
  case (R_Advance t)
  then show ?thesis
    using assms router_advance_ok [where p = "rx_pc c t" and r = "rx_router c" and l = "rx_local c t"]
    by (fastforce simp: router_ok_def split: prod.split)
qed

interpretation router: machine "router_step this" router_ok for this
  by unfold_locales (rule router_step_ok)

lemma router_ok_start: "router_ok router_start"
  by (simp add: router_ok_def router_start_def)

text \<open>
  What a claim rests on: the claimer's last two accesses, in the same call, were the load of the owner word,
  which held the producer it replaces, and the load of the frame word, which allowed the takeover.
\<close>

definition last_access :: "u64 \<Rightarrow> router_event list \<Rightarrow> u64 \<Rightarrow> router_event list \<Rightarrow> router_pc \<Rightarrow> (router \<Rightarrow> bool) \<Rightarrow> bool" where
  "last_access this es t before p seen \<longleftrightarrow>
     (\<exists>later. es = before @ R_Advance t # later \<and> R_Advance t \<notin> set later) \<and>
     rx_pc (foldl (router_step this) router_start before) t = p \<and>
     seen (rx_router (foldl (router_step this) router_start before))"

lemma last_access_now:
  "rx_pc (foldl (router_step this) router_start es) t = p \<Longrightarrow> seen (rx_router (foldl (router_step this) router_start es)) \<Longrightarrow>
   last_access this (es @ [R_Advance t]) t es p seen"
  by (simp add: last_access_def)

lemma last_access_later:
  "last_access this es t before p seen \<Longrightarrow> e \<noteq> R_Advance t \<Longrightarrow> last_access this (es @ [e]) t before p seen"
  by (fastforce simp: last_access_def)

fun grounds :: "u64 \<Rightarrow> router_event list \<Rightarrow> u64 \<Rightarrow> router_pc \<Rightarrow> bool" where
  "grounds this es t (RP_LoadFrame k x en old) \<longleftrightarrow>
     (\<exists>es0. last_access this es t es0 (RP_LoadOwner k x en) (\<lambda>r. ro_owner r = old))"
| "grounds this es t (RP_Claim k x en old) \<longleftrightarrow> (old \<noteq> 0 \<longrightarrow>
     (\<exists>es1 es0. last_access this es t es1 (RP_LoadFrame k x en old) (\<lambda>r. may_take_over (ro_owner_frame_encoded r) x) \<and>
        last_access this es1 t es0 (RP_LoadOwner k x en) (\<lambda>r. ro_owner r = old)))"
| "grounds this es t _ \<longleftrightarrow> True"

lemma grounds_feed: "grounds this es t (snd (feed l k x en))"
  by (simp add: feed_def Let_def split: prod.split)

lemma grounds_enter: "grounds this es t (snd (router_enter this l k x en))"
proof -
  define l' where "l' = (if ls_router l \<noteq> this then local_bind this else l)"
  have "snd (router_enter this l k x en) \<in>
      {RP_Done NoChange, RP_Revalidate k x en, RP_LoadOwner k x en, snd (feed l' k x en)}"
    by (simp add: router_enter_def Let_def l'_def)
  then show ?thesis using grounds_feed [of this es t l' k x en] by auto
qed

lemma grounds_later: "grounds this es t p \<Longrightarrow> e \<noteq> R_Advance t \<Longrightarrow> grounds this (es @ [e]) t p"
proof -
  assume g: "grounds this es t p" and e: "e \<noteq> R_Advance t"
  note later = last_access_later [of this es t, OF _ e]
  show ?thesis using g by (cases p) (simp_all, (metis later)+)
qed

lemma grounds_run: "grounds this es t (rx_pc (foldl (router_step this) router_start es) t)"
proof (induction es rule: rev_induct)
  case Nil
  show ?case by (simp add: router_start_def)
next
  case (snoc e es)
  let ?c = "foldl (router_step this) router_start es"
  have "grounds this (es @ [e]) t (rx_pc (router_step this ?c e) t)"
  proof (cases "e = R_Advance t")
    case True
    obtain r l p where a: "router_advance (rx_router ?c) (rx_local ?c t) (rx_pc ?c t) = (r, l, p)" by (metis prod_cases3)
    have p: "rx_pc (router_step this ?c e) t = p" using True a by simp
    have "grounds this (es @ [R_Advance t]) t p"
    proof (cases "rx_pc ?c t")
      case (RP_LoadOwner k x en)
      then show ?thesis
        using a last_access_now [OF RP_LoadOwner, of "\<lambda>r. ro_owner r = ro_owner (rx_router ?c)"] by (auto split: if_splits)
    next
      case (RP_LoadFrame k x en old)
      then have "\<exists>es0. last_access this es t es0 (RP_LoadOwner k x en) (\<lambda>r. ro_owner r = old)"
        using snoc.IH by simp
      moreover have "last_access this (es @ [R_Advance t]) t es (RP_LoadFrame k x en old)
          (\<lambda>r. may_take_over (ro_owner_frame_encoded r) x)" if "p \<noteq> RP_Done NoChange"
        using that a RP_LoadFrame by (intro last_access_now) (auto split: if_splits)
      ultimately have "p \<noteq> RP_Done NoChange \<Longrightarrow> grounds this (es @ [R_Advance t]) t (RP_Claim k x en old)"
        unfolding grounds.simps by blast
      moreover have "p \<in> {RP_Done NoChange, RP_Claim k x en old}" using a RP_LoadFrame by (simp split: if_splits)
      ultimately show ?thesis by auto
    next
      case (RP_Progress k x en)
      then show ?thesis
        using a grounds_feed [of this "es @ [R_Advance t]" t "rx_local ?c t" k x en] by auto
    next
      case (RP_Publish k x en)
      then show ?thesis
        using a grounds_feed [of this "es @ [R_Advance t]" t "rx_local ?c t" k x en] by auto
    next
      case (RP_Done d)
      then show ?thesis using a by (auto simp: RP_Done)
    qed (use a in \<open>auto split: if_splits\<close>)
    with True show ?thesis unfolding p by simp
  next
    case False
    then have "rx_pc (router_step this ?c e) t \<in>
        {rx_pc ?c t, RP_ResetFrame} \<union> {snd (router_enter this (rx_local ?c t) t x en) | x en. True}"
      by (cases e) (auto simp: case_prod_unfold Let_def)
    then show ?thesis using grounds_later [OF snoc.IH False] grounds_enter [of this "es @ [e]" t] by auto
  qed
  then show ?case by simp
qed

text \<open>C32
  Under every interleaving the owner word passes from one live producer to another only by the exchange of the
  new owner, whose two accesses before it were, in the same call, the load of the owner word, which held the
  producer that loses the stream, and the load of the frame word; and its frame was more than three ahead of,
  or at least 32 behind, the frame the word showed at that load.  A call returns a transition only at a moment
  when the owner word is its own token.
\<close>

theorem takeover_bounded:
  assumes "c = foldl (router_step this) router_start es" "c' = router_step this c e"
  shows "(ro_owner (rx_router c) \<noteq> 0 \<and> ro_owner (rx_router c') \<notin> {0, ro_owner (rx_router c)} \<longrightarrow>
      (\<exists>t x en es1 es0. t = ro_owner (rx_router c') \<and> e = R_Advance t \<and>
        rx_pc c t = RP_Claim t x en (ro_owner (rx_router c)) \<and>
        last_access this es t es1 (RP_LoadFrame t x en (ro_owner (rx_router c)))
          (\<lambda>r. may_take_over (ro_owner_frame_encoded r) x) \<and>
        last_access this es1 t es0 (RP_LoadOwner t x en) (\<lambda>r. ro_owner r = ro_owner (rx_router c)))) \<and>
    (e = R_Advance t \<and> \<not> idle_pc (rx_pc c t) \<and> rx_pc c' t = RP_Done d \<and> d \<noteq> NoChange \<longrightarrow>
      ro_owner (rx_router c) = t \<and> ro_owner (rx_router c') = t)"
proof -
  have ok: "router_ok c" unfolding assms(1) by (rule router.inv_run [OF router_ok_start])
  then have t: "pc_token (rx_pc c u) = Some k \<Longrightarrow> k = u" and w: "evidenced (rx_pc c u)" for u k
    by (auto simp: router_ok_def subset_iff)
  have 1: "e = R_Advance u \<and> (\<exists>x en. rx_pc c u = RP_Claim u x en (ro_owner (rx_router c)))"
    if "ro_owner (rx_router c) \<noteq> 0" "ro_owner (rx_router c') \<notin> {0, ro_owner (rx_router c)}"
      "ro_owner (rx_router c') = u" for u
  proof (cases e)
    case (R_Advance v)
    then show ?thesis
      using that t [of v] by (cases "rx_pc c v") (auto simp: assms(2) split: if_splits prod.splits)
  qed (use that in \<open>auto simp: assms(2) split: prod.splits if_splits\<close>)
  have g: "\<exists>es1 es0. last_access this es u es1 (RP_LoadFrame u x en old) (\<lambda>r. may_take_over (ro_owner_frame_encoded r) x) \<and>
      last_access this es1 u es0 (RP_LoadOwner u x en) (\<lambda>r. ro_owner r = old)"
    if "rx_pc c u = RP_Claim u x en old" "old \<noteq> 0" for u x en old
    using grounds_run [of this es u] that by (simp add: assms(1) [symmetric])
  have 2: "ro_owner (rx_router c) = t \<and> ro_owner (rx_router c') = t"
    if "e = R_Advance t" "\<not> idle_pc (rx_pc c t)" "rx_pc c' t = RP_Done d" "d \<noteq> NoChange"
    using that t [of t] w [of t]
    by (cases "rx_pc c t") (auto simp: assms(2) idle_pc_def feed_def Let_def split: if_splits prod.splits)
  show ?thesis
  proof (intro conjI impI)
    assume o: "ro_owner (rx_router c) \<noteq> 0 \<and> ro_owner (rx_router c') \<notin> {0, ro_owner (rx_router c)}"
    then obtain x en where x: "e = R_Advance (ro_owner (rx_router c'))"
      "rx_pc c (ro_owner (rx_router c')) = RP_Claim (ro_owner (rx_router c')) x en (ro_owner (rx_router c))"
      using 1 [OF _ _ refl] by blast
    with g [OF x(2)] o show "\<exists>t x en es1 es0. t = ro_owner (rx_router c') \<and> e = R_Advance t \<and>
        rx_pc c t = RP_Claim t x en (ro_owner (rx_router c)) \<and>
        last_access this es t es1 (RP_LoadFrame t x en (ro_owner (rx_router c)))
          (\<lambda>r. may_take_over (ro_owner_frame_encoded r) x) \<and>
        last_access this es1 t es0 (RP_LoadOwner t x en) (\<lambda>r. ro_owner r = ro_owner (rx_router c))" by metis
  qed (use 2 in \<open>blast\<close>)+
qed

text \<open>Thread 7 claims the free router with frame 1; thread 8 then arrives with frame 10.\<close>

definition sample_takeover :: "router_event list" where
  "sample_takeover = [R_Observe 7 1 False, R_Advance 7, R_Advance 7, R_Advance 7,
     R_Observe 8 10 False, R_Advance 8, R_Advance 8]"

lemma sample_takeover_words:
  "ro_owner (rx_router (foldl (router_step 9) router_start sample_takeover)) = 7"
  "ro_owner (rx_router (router_step 9 (foldl (router_step 9) router_start sample_takeover) (R_Advance 8))) = 8"
  by (simp_all add: sample_takeover_def router_start_def router_enter_def idle_pc_def local_bind_def
      feed_def detector_observe_def detector_reset_def claim_local_def may_take_over_def encode_frame_def
      decode_frame_def kTakeoverLagFrames_def)

theorem takeover_bounded_witness:
  "\<exists>x en es1. rx_pc (foldl (router_step 9) router_start sample_takeover) 8 = RP_Claim 8 x en 7 \<and>
    last_access 9 sample_takeover 8 es1 (RP_LoadFrame 8 x en 7) (\<lambda>r. may_take_over (ro_owner_frame_encoded r) x)"
  using takeover_bounded [OF refl refl, of 9 sample_takeover "R_Advance 8"] sample_takeover_words
  by (simp del: router_step.simps) blast

section \<open>Calls one after the other\<close>

text \<open>
  Calls that do not overlap, and resets: the router and the local states of the threads, and the frame of each
  thread's last call.
\<close>

datatype router_call = Observe_call u64 u64 bool | Reset_call

fun serial_step :: "u64 \<Rightarrow> router \<times> (u64 \<Rightarrow> local_state) \<Rightarrow> router_call \<Rightarrow> router \<times> (u64 \<Rightarrow> local_state)" where
  "serial_step this (r, L) (Observe_call t x en) =
     (let (r', l', p) = router_observe this r (L t) t x en in (r', L(t := l')))"
| "serial_step this (r, L) Reset_call = (let (r', l', p) = advances 2 r (L 0) RP_ResetFrame in (r', L))"

definition serial_run :: "u64 \<Rightarrow> router_call list \<Rightarrow> router \<times> (u64 \<Rightarrow> local_state)" where
  "serial_run this calls = foldl (serial_step this) (\<lparr>ro_owner = 0, ro_owner_frame_encoded = 0\<rparr>, \<lambda>_. local_bind 0) calls"

fun note_frame :: "(u64 \<Rightarrow> u64 option) \<Rightarrow> router_call \<Rightarrow> u64 \<Rightarrow> u64 option" where
  "note_frame m (Observe_call t x en) = m(t \<mapsto> x)"
| "note_frame m Reset_call = m"

definition last_frame :: "router_call list \<Rightarrow> u64 \<Rightarrow> u64 option" where
  "last_frame calls = foldl note_frame (\<lambda>_. None) calls"

text \<open>The owner has published its last frame or the one before it.\<close>

definition published :: "u64 \<Rightarrow> router \<Rightarrow> local_state \<Rightarrow> u64 option \<Rightarrow> bool" where
  "published this r l f \<longleftrightarrow> streams this (ro_owner r) r l \<and> ls_last_published_valid l \<and>
     ro_owner_frame_encoded r = encode_frame (ls_last_published_frame l) \<and>
     (\<exists>x. f = Some x \<and> ls_last_published_frame l \<le> x \<and> x - ls_last_published_frame l < kProgressPublishStride)"

lemma feed_keeps:
  "(let (l', p) = feed l token x en in advances n r l' p) = (r', l', p) \<Longrightarrow> 0 < n \<Longrightarrow>
   r' = r \<and> (ro_owner r = token \<longrightarrow> ls_router l' = ls_router l \<and> ls_owned l' = ls_owned l \<and>
     ls_last_published_frame l' = ls_last_published_frame l \<and> ls_last_published_valid l' = ls_last_published_valid l)"
  by (cases n) (auto simp: feed_def Let_def advances_done split: prod.splits if_splits)

lemma observe_published:
  assumes "published this r l (Some y)" "ro_owner r = token" "token \<noteq> 0" "router_observe this r l token x en = (r', l', p)"
  shows "ro_owner r' = token \<and> published this r' l' (Some x)"
proof -
  from assms have o: "ls_router l = this" "ls_owned l" "ls_last_published_valid l"
    "ro_owner_frame_encoded r = encode_frame (ls_last_published_frame l)"
    by (auto simp: published_def streams_def)
  let ?q = "l\<lparr>ls_last_published_frame := x, ls_last_published_valid := True\<rparr>"
  let ?k = "r\<lparr>ro_owner_frame_encoded := encode_frame x\<rparr>"
  show ?thesis
  proof (cases "x < ls_last_published_frame l \<or> kProgressPublishStride \<le> x - ls_last_published_frame l")
    case True
    then have "router_observe this r l token x en = advances 6 r l (RP_Revalidate token x en)"
      using o assms(3) by (simp add: router_observe_def router_enter_def Let_def)
    also have "\<dots> = (let (l', p) = feed ?q token x en in advances 4 ?k l' p)"
      using assms(2) by (simp add: advances_unfold(1,2))
    finally have "(let (l', p) = feed ?q token x en in advances 4 ?k l' p) = (r', l', p)" using assms(4) by simp
    from feed_keeps [OF this] show ?thesis
      using o assms(2) by (simp add: published_def streams_def kProgressPublishStride_def)
  next
    case False
    then have "router_observe this r l token x en = (let (l', p) = feed l token x en in advances 6 r l' p)"
      using o assms(3) by (simp add: router_observe_def router_enter_def Let_def)
    with assms(4) have "(let (l', p) = feed l token x en in advances 6 r l' p) = (r', l', p)" by simp
    from feed_keeps [OF this] show ?thesis
      using o assms(2) False by (simp add: published_def streams_def not_less not_le)
  qed
qed

text \<open>A thread that does not own the stream: nothing happens to the router, or the thread claims it.\<close>

lemma advances_claim:
  "advances (Suc (Suc k)) r l (RP_Claim token x en (ro_owner r)) =
     (let (l', p) = feed (claim_local l True x) token x en
      in advances k (r\<lparr>ro_owner := token, ro_owner_frame_encoded := encode_frame x\<rparr>) l' p)"
  by simp

lemma claimed_published:
  assumes "advances (Suc (Suc k)) r l (RP_Claim token x en (ro_owner r)) = (r', l', p)" "0 < k" "ls_router l = this"
  shows "ro_owner r' = token \<and> published this r' l' (Some x)"
  using feed_keeps [OF assms(1) [unfolded advances_claim] assms(2)] assms(3)
  by (auto simp: published_def streams_def claim_local_def Let_def kProgressPublishStride_def)

lemma loaded_foreign:
  assumes "ro_owner r \<noteq> token" "advances (Suc (Suc (Suc (Suc (Suc k))))) r l (RP_LoadOwner token x en) = (r', l', p)"
    "ls_router l = this"
  shows "r' = r \<or> ((ro_owner r = 0 \<or> may_take_over (ro_owner_frame_encoded r) x) \<and> ro_owner r' = token \<and>
    published this r' l' (Some x))"
proof (cases "ro_owner r = 0")
  case True
  then have "advances (Suc (Suc (Suc (Suc k)))) r l (RP_Claim token x en (ro_owner r)) = (r', l', p)"
    using assms(1,2) by (simp only: advances.simps(2) [of "Suc (Suc (Suc (Suc k)))"] router_advance.simps Let_def prod.case if_True if_False simp_thms refl)
  from claimed_published [OF this _ assms(3)] True show ?thesis by simp
next
  case False
  then have a: "advances (Suc (Suc (Suc (Suc k)))) r l (RP_LoadFrame token x en (ro_owner r)) = (r', l', p)"
    using assms(1,2) by (simp only: advances.simps(2) [of "Suc (Suc (Suc (Suc k)))"] router_advance.simps Let_def prod.case if_True if_False simp_thms refl)
  show ?thesis
  proof (cases "may_take_over (ro_owner_frame_encoded r) x")
    case True
    then have "advances (Suc (Suc (Suc k))) r l (RP_Claim token x en (ro_owner r)) = (r', l', p)"
      using a by (simp only: advances.simps(2) [of "Suc (Suc (Suc k))"] router_advance.simps Let_def prod.case if_True if_False simp_thms refl)
    from claimed_published [OF this _ assms(3)] True show ?thesis by simp
  next
    case False
    with a have "advances (Suc (Suc (Suc k))) r l (RP_Done NoChange) = (r', l', p)"
      by (simp only: advances.simps(2) [of "Suc (Suc (Suc k))"] router_advance.simps Let_def prod.case if_True if_False simp_thms refl)
    then show ?thesis by (simp add: advances_done)
  qed
qed

lemma observe_foreign:
  assumes "ro_owner r \<noteq> token" "router_observe this r l token x en = (r', l', p)"
  shows "r' = r \<or> ((ro_owner r = 0 \<or> may_take_over (ro_owner_frame_encoded r) x) \<and> ro_owner r' = token \<and>
    published this r' l' (Some x))"
proof -
  define k where "k = (if ls_router l \<noteq> this then local_bind this else l)"
  have k: "ls_router k = this" by (simp add: k_def local_bind_def)
  have five: "5 = Suc (Suc (Suc (Suc (Suc 0))))" by simp
  have six: "6 = Suc (Suc (Suc (Suc (Suc (Suc 0)))))" by simp
  obtain b where e: "router_enter this l token x en = (if token = 0 then (l, RP_Done NoChange)
      else if ls_owned k then if b then (k, RP_Revalidate token x en) else feed k token x en
      else (k, RP_LoadOwner token x en))"
    by (rule that, unfold router_enter_def Let_def k_def [symmetric], rule refl)
  consider "router_observe this r l token x en = (r, l, RP_Done NoChange)"
    | "router_observe this r l token x en = advances 6 r k (RP_Revalidate token x en)"
    | "router_observe this r l token x en = (let (l', p) = feed k token x en in advances 6 r l' p)"
    | "router_observe this r l token x en = advances 6 r k (RP_LoadOwner token x en)"
    unfolding router_observe_def e by (cases "token = 0"; cases "ls_owned k"; cases b) (simp_all add: advances_done)
  then show ?thesis
  proof cases
    case 1
    with assms(2) show ?thesis by simp
  next
    case 2
    with assms have "advances 5 r (disown k) (RP_LoadOwner token x en) = (r', l', p)"
      by (simp add: advances_unfold(1))
    then have "advances (Suc (Suc (Suc (Suc (Suc 0))))) r (disown k) (RP_LoadOwner token x en) = (r', l', p)"
      by (simp only: five)
    from loaded_foreign [OF assms(1) this] k show ?thesis by (simp add: disown_def)
  next
    case 3
    with assms(2) have "(let (l', p) = feed k token x en in advances 6 r l' p) = (r', l', p)" by simp
    from feed_keeps [OF this] show ?thesis by simp
  next
    case 4
    with assms(2) have "advances (Suc (Suc (Suc (Suc (Suc (Suc 0)))))) r k (RP_LoadOwner token x en) = (r', l', p)"
      by (simp only: six)
    from loaded_foreign [OF assms(1) this k] show ?thesis .
  qed
qed

lemma observe_null: "router_observe this r l 0 x en = (r, l, RP_Done NoChange)"
  by (simp add: router_observe_def router_enter_def advances_done)

definition serial_ok :: "u64 \<Rightarrow> router_call list \<Rightarrow> bool" where
  "serial_ok this calls \<longleftrightarrow> (case serial_run this calls of (r, L) \<Rightarrow>
     ro_owner r \<noteq> 0 \<longrightarrow> published this r (L (ro_owner r)) (last_frame calls (ro_owner r)))"

lemma serial_snoc:
  "serial_run this (calls @ [c]) = serial_step this (serial_run this calls) c" "last_frame (calls @ [c]) = note_frame (last_frame calls) c"
  by (simp_all add: serial_run_def last_frame_def)

lemma last_frame_call: "last_frame calls t = Some x \<Longrightarrow> \<exists>b. Observe_call t x b \<in> set calls"
proof (induction calls rule: rev_induct)
  case Nil
  then show ?case by (simp add: last_frame_def)
next
  case (snoc c calls)
  then show ?case by (cases c) (auto simp: serial_snoc(2) split: if_splits)
qed

lemma serial_ok_run: "serial_ok this calls"
proof (induction calls rule: rev_induct)
  case Nil
  show ?case by (simp add: serial_ok_def serial_run_def)
next
  case (snoc c calls)
  obtain r L where s: "serial_run this calls = (r, L)" by force
  with snoc have ok: "ro_owner r \<noteq> 0 \<Longrightarrow> published this r (L (ro_owner r)) (last_frame calls (ro_owner r))"
    by (simp add: serial_ok_def)
  show ?case
  proof (cases c)
    case (Observe_call t x en)
    obtain r' l' p where o: "router_observe this r (L t) t x en = (r', l', p)" by (metis prod_cases3)
    have goal: "serial_ok this (calls @ [c]) \<longleftrightarrow>
        (ro_owner r' \<noteq> 0 \<longrightarrow> published this r' ((L(t := l')) (ro_owner r')) (((last_frame calls)(t \<mapsto> x)) (ro_owner r')))"
      by (simp add: serial_ok_def serial_snoc s Observe_call o)
    consider "t = 0" | "t \<noteq> 0" "ro_owner r = t" | "t \<noteq> 0" "ro_owner r \<noteq> t" by blast
    then show ?thesis
    proof cases
      case 1
      with o ok show ?thesis unfolding goal by (simp add: observe_null)
    next
      case 2
      with ok obtain y where "published this r (L t) (Some y)" by (auto simp: published_def)
      from observe_published [OF this 2(2,1) o] show ?thesis unfolding goal by simp
    next
      case 3
      with observe_foreign [OF 3(2) o] ok show ?thesis unfolding goal by auto
    qed
  next
    case Reset_call
    then show ?thesis by (simp add: serial_ok_def serial_snoc s numeral_2_eq_2)
  qed
qed

lemma frame_roundtrip:
  assumes "g < u64_max - 1"
  shows "decode_frame (encode_frame g) = g"
proof -
  have "g + 1 \<noteq> u64_max"
  proof
    assume "g + 1 = u64_max"
    then have "g = u64_max - 1" by (metis add_diff_cancel_right')
    with assms show False by simp
  qed
  then show ?thesis using assms by (auto simp: decode_frame_def encode_frame_def)
qed

text \<open>C33
  Calls that do not overlap take the stream from its owner only on bounded lag: whatever calls and resets came
  before, a call of another thread leaves the owner as it is, or takes over with a frame that is at least three
  ahead of, or at least 32 behind, the frame of the owner's last call.  (The owner publishes every second
  frame, so the word it is compared with may be one frame old.)  The two largest frame ids, which the encoding
  does not tell apart, are excluded.
\<close>

theorem serial_takeover_lag:
  assumes "serial_run this calls = (r, L)" "serial_step this (r, L) (Observe_call t x en) = (r', L')"
    and "ro_owner r \<noteq> 0" "ro_owner r \<noteq> t" "\<forall>u y b. Observe_call u y b \<in> set calls \<longrightarrow> y < u64_max - 1"
  shows "ro_owner r' = ro_owner r \<or>
    (ro_owner r' = t \<and> (\<exists>f. last_frame calls (ro_owner r) = Some f \<and>
       (unat f + 3 \<le> unat x \<or> unat x + 32 \<le> unat f)))"
proof -
  from assms(1,3) serial_ok_run [of this calls] have P: "published this r (L (ro_owner r)) (last_frame calls (ro_owner r))"
    by (simp add: serial_ok_def)
  let ?g = "ls_last_published_frame (L (ro_owner r))"
  from P obtain f where f: "last_frame calls (ro_owner r) = Some f" "?g \<le> f" "f - ?g < 2"
    and w: "ro_owner_frame_encoded r = encode_frame ?g" by (auto simp: published_def kProgressPublishStride_def)
  from last_frame_call [OF f(1)] assms(5) have fm: "f < u64_max - 1" by blast
  with f(2) have "?g < u64_max - 1" by (rule le_less_trans)
  then have d: "decode_frame (encode_frame ?g) = ?g" by (rule frame_roundtrip)
  have near: "unat f \<le> unat ?g + 1" "unat ?g \<le> unat f"
    using f(2,3) by (auto simp: word_le_nat_alt word_less_nat_alt unat_sub)
  obtain l' p where o: "router_observe this r (L t) t x en = (r', l', p)"
    using assms(2) by (auto split: prod.splits)
  from observe_foreign [OF assms(4) [symmetric, THEN not_sym] o] assms(3)
  have "r' = r \<or> (may_take_over (encode_frame ?g) x \<and> ro_owner r' = t)" using w by auto
  moreover have "unat f + 3 \<le> unat x \<or> unat x + 32 \<le> unat f" if "may_take_over (encode_frame ?g) x"
    using that near
    by (auto simp: may_take_over_def d Let_def kTakeoverLagFrames_def kRestartGapFrames_def word_le_nat_alt
        word_less_nat_alt unat_sub)
  ultimately show ?thesis using f(1) by auto
qed

text \<open>Thread 7 has come to frame 6, one beyond the last it published; thread 8 takes over with frame 9.\<close>

definition sample_calls :: "router_call list" where
  "sample_calls = [Observe_call 7 5 False, Observe_call 7 6 False]"

theorem serial_takeover_lag_witness:
  "ro_owner (fst (serial_run 9 sample_calls)) = 7 \<and>
   ro_owner (fst (serial_step 9 (serial_run 9 sample_calls) (Observe_call 8 9 False))) = 8 \<and>
   (\<exists>f. last_frame sample_calls 7 = Some f \<and> (unat f + 3 \<le> unat (9 :: u64) \<or> unat (9 :: u64) + 32 \<le> unat f))"
proof -
  have o: "ro_owner (fst (serial_run 9 sample_calls)) = 7"
    "ro_owner (fst (serial_step 9 (serial_run 9 sample_calls) (Observe_call 8 9 False))) = 8" by code_simp+
  obtain r L where s: "serial_run 9 sample_calls = (r, L)" by force
  obtain r' L' where s': "serial_step 9 (r, L) (Observe_call 8 9 False) = (r', L')" by force
  have "\<forall>u y b. Observe_call u y b \<in> set sample_calls \<longrightarrow> y < u64_max - 1"
    by (auto simp: sample_calls_def word_less_nat_alt unat_sub unat_u64_max)
  from serial_takeover_lag [OF s s' _ _ this] o s s' show ?thesis by simp
qed

end
