(* ===== verification/TimingPolicies.thy ===== *)
theory TimingPolicies
  imports Prelude
begin

text \<open>
  The small timing policies: counter conversion (\<open>src/clock_math.h\<close>), the split of a wait into a
  timer and a spin (\<open>src/wait_policy.h\<close>), the representative completion sample
  (\<open>src/completion_feedback_policy.h\<close>), the precision tier of a present
  (\<open>src/vulkan_present_precision.cpp\<close>), queue backpressure (\<open>src/vulkan_queue_pressure.cpp\<close>) and
  structural stalls (\<open>src/vulkan_structural_stall.cpp\<close>).  Each is a pure function, so every lemma
  here is about all inputs of the machine types.
\<close>

section \<open>Counters and nanoseconds\<close>

definition billion :: u64 where "billion = 1000000000"

text \<open>
  \<open>ld\<close> is the conversion of a remainder in \<open>long double\<close> arithmetic, used only for remainders whose
  product with \<open>10^9\<close> does not fit 64 bits.
\<close>

definition ticks_to_ns :: "(u64 \<Rightarrow> u64 \<Rightarrow> u64) \<Rightarrow> u64 \<Rightarrow> u64 \<Rightarrow> u64" where
  "ticks_to_ns ld ticks frequency =
     (if frequency = 0 then 0
      else
        let whole = ticks div frequency; remainder = ticks mod frequency in
        if u64_max div billion < whole then 0
        else
          let fractional =
            if remainder \<le> u64_max div billion then remainder * billion div frequency else ld remainder frequency
          in whole * billion + fractional)"

definition signed_delta_ns :: "u64 \<Rightarrow> u64 \<Rightarrow> int" where
  "signed_delta_ns target reference =
     (if reference \<le> target then
        let delta = target - reference
        in if word_of_int int64_max < delta then int64_max else uint delta
      else
        let delta = reference - target
        in if word_of_int int64_max < delta then int64_min else - uint delta)"

lemma u64_max_div_billion: "unat (u64_max div billion) = 18446744073"
  by (simp add: billion_def unat_div_distrib unat_u64_max)

lemma uint_diff: "b \<le> a \<Longrightarrow> uint (a - b) = uint a - uint b" for a b :: "'a::len word"
  by (simp add: uint_sub_lem word_le_def)

lemma uint_lt_u64: "uint (x :: u64) < 18446744073709551616"
  using uint_bounded [of x] by simp

text \<open>The signed difference is exact, saturated at the ends of the signed range.\<close>

lemma signed_delta_exact:
  "signed_delta_ns target reference = clamp (uint target - uint reference) int64_min int64_max"
proof (cases "reference \<le> target")
  case True
  then have d: "uint (target - reference) = uint target - uint reference" by (rule uint_diff)
  have "(word_of_int int64_max < target - reference) = (int64_max < uint target - uint reference)"
    by (simp add: word_less_def d [symmetric] int64_max_def)
  moreover have "0 \<le> uint target - uint reference" using True by (simp add: word_le_def)
  ultimately show ?thesis
    using True d by (auto simp: signed_delta_ns_def Let_def clamp_def int64_max_def int64_min_def)
next
  case False
  then have d: "uint (reference - target) = uint reference - uint target" by (intro uint_diff) simp
  have "(word_of_int int64_max < reference - target) = (int64_max < uint reference - uint target)"
    by (simp add: word_less_def d [symmetric] int64_max_def)
  moreover have "uint target - uint reference < 0" using False by (simp add: word_le_def)
  ultimately show ?thesis
    using False d by (auto simp: signed_delta_ns_def Let_def clamp_def int64_max_def int64_min_def)
qed

text \<open>
  Without overflow the conversion is the rounded-down quotient.  The guard on the whole seconds does
  not cover the sum: just below \<open>2^64\<close> nanoseconds the fraction wraps it.
\<close>

lemma split_div:
  fixes t f :: nat
  assumes "0 < f"
  shows "t div f * b + t mod f * b div f = t * b div f"
proof -
  have "t * b = (t div f * b) * f + t mod f * b"
    by (metis add_mult_distrib div_mult_mod_eq mult.assoc mult.commute)
  then show ?thesis using assms by simp
qed

lemma ticks_to_ns_exact:
  assumes "frequency \<noteq> 0" "ticks mod frequency \<le> u64_max div billion"
    and "unat ticks * 1000000000 div unat frequency < 18446744073709551616"
  shows "unat (ticks_to_ns ld ticks frequency) = unat ticks * 1000000000 div unat frequency"
proof -
  let ?t = "unat ticks" and ?f = "unat frequency"
  have f: "0 < ?f" using assms(1) by (simp add: unat_gt_0)
  note s = split_div [OF f, of ?t 1000000000]
  have w: "unat (ticks div frequency) = ?t div ?f" and r: "unat (ticks mod frequency) = ?t mod ?f"
    by (simp_all add: unat_div_distrib unat_mod_distrib)
  have b: "unat billion = 1000000000" by (simp add: billion_def)
  have "?t div ?f * 1000000000 < 18446744073709551616" using s assms(3) by linarith
  then have m: "unat (ticks div frequency * billion) = ?t div ?f * 1000000000"
    using unat_mult_no_overflow [of "ticks div frequency" billion] by (simp add: w b)
  have "?t mod ?f * 1000000000 < 18446744073709551616"
    using assms(2) by (simp add: word_le_nat_alt r u64_max_div_billion)
  then have n: "unat (ticks mod frequency * billion) = ?t mod ?f * 1000000000"
    using unat_mult_no_overflow [of "ticks mod frequency" billion] by (simp add: r b)
  have q: "unat (ticks mod frequency * billion div frequency) = ?t mod ?f * 1000000000 div ?f"
    using n by (simp add: unat_div_distrib)
  have "unat (ticks div frequency) \<le> 18446744073"
    using \<open>?t div ?f * 1000000000 < 18446744073709551616\<close> by (simp add: w)
  then have "\<not> u64_max div billion < ticks div frequency"
    by (simp add: word_less_nat_alt u64_max_div_billion)
  then have "ticks_to_ns ld ticks frequency = ticks div frequency * billion + ticks mod frequency * billion div frequency"
    using assms(1,2) by (simp add: ticks_to_ns_def Let_def)
  then show ?thesis
    using unat_add_no_overflow [of "ticks div frequency * billion" "ticks mod frequency * billion div frequency"]
      s assms(3) m q by simp
qed

lemma ticks_to_ns_wraps: "ticks_to_ns ld 184467440739 10 = 190448384"
  by (simp add: ticks_to_ns_def Let_def billion_def)

section \<open>Waiting\<close>

record wait_plan =
  wp_timer_ns :: int
  wp_spin_ns :: int

definition kMinSpinTailNs :: int where "kMinSpinTailNs = 100000"
definition kMaxSpinTailNs :: int where "kMaxSpinTailNs = 500000"
definition kMinTimerSliceNs :: int where "kMinTimerSliceNs = 250000"

definition make_wait_plan :: "int \<Rightarrow> wait_plan" where
  "make_wait_plan total_ns =
     (if total_ns \<le> 0 then \<lparr>wp_timer_ns = 0, wp_spin_ns = 0\<rparr>
      else
        let spin = min (clamp (total_ns div 8) kMinSpinTailNs kMaxSpinTailNs) total_ns;
            timer = total_ns - spin in
        if timer < kMinTimerSliceNs then \<lparr>wp_timer_ns = 0, wp_spin_ns = total_ns\<rparr>
        else \<lparr>wp_timer_ns = timer, wp_spin_ns = spin\<rparr>)"

lemma wait_plan_split:
  "wp_timer_ns (make_wait_plan t) + wp_spin_ns (make_wait_plan t) = max t 0 \<and>
   0 \<le> wp_spin_ns (make_wait_plan t) \<and> wp_spin_ns (make_wait_plan t) \<le> kMaxSpinTailNs \<and>
   (wp_timer_ns (make_wait_plan t) = 0 \<or> kMinTimerSliceNs \<le> wp_timer_ns (make_wait_plan t))"
  by (auto simp: make_wait_plan_def Let_def clamp_def kMinSpinTailNs_def kMaxSpinTailNs_def
      kMinTimerSliceNs_def min_def max_def)

section \<open>Completion feedback\<close>

record feedback =
  fb_valid :: bool
  fb_precise :: bool
  fb_frame_id :: u64
  fb_timestamp_ns :: u64
  fb_epoch :: u64
  fb_completion_count :: u32

definition feedback_empty :: feedback where
  "feedback_empty = \<lparr>fb_valid = False, fb_precise = False, fb_frame_id = 0, fb_timestamp_ns = 0,
     fb_epoch = 0, fb_completion_count = 0\<rparr>"

definition feedback_count :: "feedback \<Rightarrow> feedback" where
  "feedback_count c =
     (if fb_completion_count c \<noteq> u32_max then c\<lparr>fb_completion_count := fb_completion_count c + 1\<rparr> else c)"

definition feedback_observe :: "feedback \<Rightarrow> u64 \<Rightarrow> u64 \<Rightarrow> u64 \<Rightarrow> u64 \<Rightarrow> bool \<Rightarrow> feedback" where
  "feedback_observe c frame_id timestamp_ns epoch active_epoch precise =
     (if frame_id = 0 \<or> epoch = 0 \<or> epoch \<noteq> active_epoch then c
      else
        let c = feedback_count c in
        if \<not> fb_valid c \<or> (precise \<and> \<not> fb_precise c) \<or> (precise = fb_precise c \<and> fb_frame_id c < frame_id)
        then c\<lparr>fb_valid := True, fb_precise := precise, fb_frame_id := frame_id,
               fb_timestamp_ns := timestamp_ns, fb_epoch := epoch\<rparr>
        else c)"

text \<open>A probe's completions: frame, timestamp, epoch and precision, and those the epoch accepts.\<close>

type_synonym completion = "u64 \<times> u64 \<times> u64 \<times> bool"

definition probe :: "u64 \<Rightarrow> completion list \<Rightarrow> feedback" where
  "probe active cs = foldl (\<lambda>c (f, t, e, p). feedback_observe c f t e active p) feedback_empty cs"

definition accepted :: "u64 \<Rightarrow> completion list \<Rightarrow> completion list" where
  "accepted active cs = filter (\<lambda>(f, t, e, p). f \<noteq> 0 \<and> e \<noteq> 0 \<and> e = active) cs"

text \<open>The tier of a sample before its frame number.\<close>

definition beats :: "completion \<Rightarrow> completion \<Rightarrow> bool" where
  "beats a b \<longleftrightarrow> (case (a, b) of ((f, _, _, p), (g, _, _, q)) \<Rightarrow> (p \<and> \<not> q) \<or> (p = q \<and> g < f))"

definition represents :: "feedback \<Rightarrow> completion list \<Rightarrow> bool" where
  "represents c as \<longleftrightarrow> unat (fb_completion_count c) = min (length as) 4294967295 \<and>
     (if as = [] then \<not> fb_valid c
      else fb_valid c \<and>
        (let r = (fb_frame_id c, fb_timestamp_ns c, fb_epoch c, fb_precise c) in
         r \<in> set as \<and> (\<forall>a \<in> set as. \<not> beats a r)))"

lemma feedback_count_fields [simp]:
  "fb_valid (feedback_count c) = fb_valid c" "fb_precise (feedback_count c) = fb_precise c"
  "fb_frame_id (feedback_count c) = fb_frame_id c" "fb_timestamp_ns (feedback_count c) = fb_timestamp_ns c"
  "fb_epoch (feedback_count c) = fb_epoch c"
  by (simp_all add: feedback_count_def)

lemma represents_count:
  "represents c as \<Longrightarrow> unat (fb_completion_count (feedback_count c)) = min (Suc (length as)) 4294967295"
  using unat_u32_max unat_lt_u32 [of "fb_completion_count c"]
  by (auto simp: represents_def feedback_count_def unat_plus_one word_unat_eq_iff min_def split: if_splits)

lemma feedback_represents:
  assumes "represents c as" "f \<noteq> 0" "e \<noteq> 0" "e = active"
  shows "represents (feedback_observe c f t e active p) (as @ [(f, t, e, p)])"
proof -
  let ?r = "(fb_frame_id c, fb_timestamp_ns c, fb_epoch c, fb_precise c)"
  let ?k = "feedback_count c"
  let ?take = "\<not> fb_valid c \<or> (p \<and> \<not> fb_precise c) \<or> (p = fb_precise c \<and> fb_frame_id c < f)"
  have o: "feedback_observe c f t e active p = (if ?take
      then ?k\<lparr>fb_valid := True, fb_precise := p, fb_frame_id := f, fb_timestamp_ns := t, fb_epoch := e\<rparr>
      else ?k)"
    using assms(2-4) by (simp add: feedback_observe_def Let_def)
  have n: "unat (fb_completion_count ?k) = min (length (as @ [(f, t, e, p)])) 4294967295"
    using represents_count [OF assms(1)] by simp
  show ?thesis
  proof (cases "as = []")
    case True
    with assms(1) have "\<not> fb_valid c" by (simp add: represents_def)
    then show ?thesis using n True by (simp add: represents_def o beats_def)
  next
    case False
    with assms(1) have r: "fb_valid c" "?r \<in> set as" "\<forall>a \<in> set as. \<not> beats a ?r"
      by (simp_all add: represents_def Let_def)
    show ?thesis
    proof (cases ?take)
      case True
      have "\<not> beats a (f, t, e, p)" if "a \<in> set as" for a
        using r(1) r(3) [rule_format, OF that] True by (cases a) (auto simp: beats_def)
      then show ?thesis using n True by (simp add: represents_def o beats_def)
    next
      case no: False
      then have "\<not> beats (f, t, e, p) ?r" using r(1) by (simp add: beats_def)
      moreover have "feedback_observe c f t e active p = ?k" by (rule trans [OF o]) (rule if_not_P [OF no])
      ultimately show ?thesis using n r by (simp add: represents_def)
    qed
  qed
qed

text \<open>
  A probe keeps one representative of the completions of the active epoch: a precise one if there is
  one, the newest frame of its tier, and it counts them all.
\<close>

lemma probe_represents: "represents (probe active cs) (accepted active cs)"
proof (induction cs rule: rev_induct)
  case Nil
  then show ?case by (simp add: probe_def accepted_def represents_def feedback_empty_def)
next
  case (snoc a cs)
  obtain f t e p where a: "a = (f, t, e, p)" by (metis prod_cases4)
  have step: "probe active (cs @ [a]) = feedback_observe (probe active cs) f t e active p"
    by (simp add: probe_def a)
  show ?case
  proof (cases "f \<noteq> 0 \<and> e \<noteq> 0 \<and> e = active")
    case True
    then show ?thesis
      using feedback_represents [OF snoc.IH, where f = f and e = e and t = t and p = p and active = active] unfolding step by (auto simp: accepted_def a)
  next
    case False
    then have "feedback_observe (probe active cs) f t e active p = probe active cs"
      by (auto simp: feedback_observe_def)
    with False show ?thesis using snoc.IH unfolding step by (auto simp: accepted_def a)
  qed
qed

section \<open>Precision of a present\<close>

datatype precision_tier = CoreWsi | PresentId | PresentWait | PresentWait2 | PresentTiming

fun tier_code :: "precision_tier \<Rightarrow> nat" where
  "tier_code CoreWsi = 0"
| "tier_code PresentId = 1"
| "tier_code PresentWait = 2"
| "tier_code PresentWait2 = 3"
| "tier_code PresentTiming = 4"

record precision_caps =
  pc_present_id :: bool
  pc_present_id2 :: bool
  pc_present_wait :: bool
  pc_present_wait2 :: bool
  pc_present_timing :: bool

record precision_observation =
  po_has_present_id :: bool
  po_uses_present_id2 :: bool
  po_timing_requested :: bool
  po_swapchain_flags :: u32

text \<open>
  The two swapchain flags come from the Vulkan headers; \<open>timing_ext\<close> and \<open>wait2_khr\<close> hold such a flag
  when the headers define the extension, None when they do not.
\<close>

definition select_present_precision_tier ::
  "u32 option \<Rightarrow> u32 option \<Rightarrow> precision_caps \<Rightarrow> precision_observation \<Rightarrow> precision_tier" where
  "select_present_precision_tier timing_ext wait2_khr caps ob =
     (if \<not> po_has_present_id ob then CoreWsi
      else if (case timing_ext of None \<Rightarrow> False | Some flag \<Rightarrow>
          pc_present_timing caps \<and> pc_present_id2 caps \<and> po_uses_present_id2 ob \<and> po_timing_requested ob \<and>
          po_swapchain_flags ob AND flag \<noteq> 0) then PresentTiming
      else if (case wait2_khr of None \<Rightarrow> False | Some flag \<Rightarrow>
          pc_present_wait2 caps \<and> pc_present_id2 caps \<and> po_uses_present_id2 ob \<and>
          po_swapchain_flags ob AND flag \<noteq> 0) then PresentWait2
      else if pc_present_wait caps \<and> pc_present_id caps then PresentWait
      else if (po_uses_present_id2 ob \<and> pc_present_id2 caps) \<or> pc_present_id caps then PresentId
      else CoreWsi)"

fun present_precision_tier_name :: "precision_tier \<Rightarrow> string" where
  "present_precision_tier_name CoreWsi = ''VF0-core-wsi''"
| "present_precision_tier_name PresentId = ''VF1-present-id''"
| "present_precision_tier_name PresentWait = ''VF2-present-wait''"
| "present_precision_tier_name PresentWait2 = ''VF3-present-wait2''"
| "present_precision_tier_name PresentTiming = ''VF4-present-timing''"

text \<open>Anything beyond the core tier needs a present id; the waiting tiers need their capability.\<close>

lemma tier_justified:
  "select_present_precision_tier te wk caps ob \<noteq> CoreWsi \<Longrightarrow>
   po_has_present_id ob \<and> (pc_present_id caps \<or> pc_present_id2 caps)"
  "2 \<le> tier_code (select_present_precision_tier te wk caps ob) \<Longrightarrow>
   pc_present_wait caps \<or> pc_present_wait2 caps \<or> pc_present_timing caps"
  by (auto simp: select_present_precision_tier_def split: if_splits option.splits)

section \<open>Queue backpressure\<close>

datatype policy_mode = Mode_Disabled | Mode_Auto | Mode_Enabled

record pressure_config =
  qc_mode :: policy_mode
  qc_target_pending_presents :: u8
  qc_max_delay_us :: u32
  qc_auto_warmup_completions :: u8

record pressure_sample =
  qs_pending_presents :: u32
  qs_cpu_ahead :: u64
  qs_precise_completions :: u32
  qs_fallback_completions :: u32
  qs_best_tier :: precision_tier
  qs_observed_frame_time_ns :: u64

record pressure_decision =
  qd_trusted :: bool
  qd_pressured :: bool
  qd_pressure_units :: u8
  qd_delay_ns :: u64

definition kNsPerUs :: u64 where "kNsPerUs = 1000"
definition kFallbackBaseDelayNs :: u64 where "kFallbackBaseDelayNs = 500 * kNsPerUs"
definition kMinimumBaseDelayNs :: u64 where "kMinimumBaseDelayNs = 250 * kNsPerUs"
definition kMaxPressureUnits :: u32 where "kMaxPressureUnits = 4"

definition auto_sample_is_trusted :: "pressure_config \<Rightarrow> pressure_sample \<Rightarrow> bool" where
  "auto_sample_is_trusted config sample =
     (if tier_code (qs_best_tier sample) < tier_code PresentWait then False
      else if qs_precise_completions sample < ucast (qc_auto_warmup_completions config) then False
      else ucast (qs_fallback_completions sample) * 3 \<le> (ucast (qs_precise_completions sample) :: u64))"

definition no_pressure :: pressure_decision where
  "no_pressure = \<lparr>qd_trusted = False, qd_pressured = False, qd_pressure_units = 0, qd_delay_ns = 0\<rparr>"

definition pressure_trusted :: "pressure_config \<Rightarrow> pressure_sample \<Rightarrow> bool" where
  "pressure_trusted config sample =
     (if qc_mode config = Mode_Enabled then tier_code PresentWait \<le> tier_code (qs_best_tier sample)
      else auto_sample_is_trusted config sample)"

text \<open>The excess of pending presents, one more when the CPU runs ahead, at most four.\<close>

definition pressure_units :: "u32 \<Rightarrow> pressure_sample \<Rightarrow> u32" where
  "pressure_units target sample =
     (let units = qs_pending_presents sample - target;
          cpu_soft_limit = ucast target + (2 :: u64);
          units = if cpu_soft_limit < qs_cpu_ahead sample then units + 1 else units
      in min units kMaxPressureUnits)"

definition pressure_delay :: "pressure_config \<Rightarrow> pressure_sample \<Rightarrow> u32 \<Rightarrow> u64" where
  "pressure_delay config sample units =
     (let base_delay = if qs_observed_frame_time_ns sample \<noteq> 0
            then max (qs_observed_frame_time_ns sample div 8) kMinimumBaseDelayNs else kFallbackBaseDelayNs;
          max_delay_ns = ucast (qc_max_delay_us config) * kNsPerUs;
          unclamped = if u64_max div ucast units < base_delay then u64_max else base_delay * ucast units
      in min unclamped max_delay_ns)"

definition select_queue_pressure_delay :: "pressure_config \<Rightarrow> pressure_sample \<Rightarrow> pressure_decision" where
  "select_queue_pressure_delay config sample =
     (if qc_mode config = Mode_Disabled \<or> qc_max_delay_us config = 0 then no_pressure
      else if \<not> pressure_trusted config sample then no_pressure
      else
        let result = no_pressure\<lparr>qd_trusted := True\<rparr>;
            target = ucast (qc_target_pending_presents config) in
        if qs_pending_presents sample \<le> target then result
        else
          let units = pressure_units target sample;
              result = result\<lparr>qd_pressure_units := ucast units, qd_pressured := units \<noteq> 0\<rparr> in
          if units = 0 then result
          else result\<lparr>qd_delay_ns := pressure_delay config sample units\<rparr>)"

lemma pressure_units_le: "pressure_units target sample \<le> 4"
  by (simp add: pressure_units_def Let_def kMaxPressureUnits_def)

lemma pressure_units_pos:
  assumes "target < qs_pending_presents sample" "qs_pending_presents sample \<noteq> u32_max"
  shows "pressure_units target sample \<noteq> 0"
proof -
  let ?u = "qs_pending_presents sample - target"
  have u: "unat ?u = unat (qs_pending_presents sample) - unat target"
    using assms(1) by (simp add: unat_sub_le)
  have p: "unat (qs_pending_presents sample) < 4294967295"
    using assms(2) unat_lt_u32 [of "qs_pending_presents sample"] unat_u32_max
    by (auto simp: word_unat_eq_iff)
  have 1: "0 < unat ?u" using assms(1) u by (simp add: word_less_nat_alt)
  then have "?u \<noteq> 0" by auto
  moreover have "?u + 1 \<noteq> 0"
  proof -
    have "?u \<noteq> u32_max"
    proof
      assume "?u = u32_max"
      then have "unat ?u = 4294967295" by (simp only: unat_u32_max)
      with u p show False by simp
    qed
    from unat_plus_one [OF this] show ?thesis by (metis nat.distinct(1) unat_0)
  qed
  ultimately show ?thesis
    by (auto simp: pressure_units_def Let_def kMaxPressureUnits_def min_def)
qed

lemma pressure_delay_bounds:
  assumes "units \<noteq> 0" "qc_max_delay_us config \<noteq> 0"
  shows "unat (pressure_delay config sample units) \<le> unat (qc_max_delay_us config) * 1000 \<and>
    pressure_delay config sample units \<noteq> 0"
proof -
  let ?m = "ucast (qc_max_delay_us config) * kNsPerUs"
  define base where "base = (if qs_observed_frame_time_ns sample \<noteq> 0
    then max (qs_observed_frame_time_ns sample div 8) kMinimumBaseDelayNs else kFallbackBaseDelayNs)"
  let ?u = "ucast units :: u64"
  have m: "unat ?m = unat (qc_max_delay_us config) * 1000"
    using unat_mult_no_overflow [of "ucast (qc_max_delay_us config)" kNsPerUs] unat_lt_u32 [of "qc_max_delay_us config"]
    by (simp add: kNsPerUs_def unat_ucast_up)
  then have "?m \<noteq> 0" using assms(2) by (metis mult_is_0 unat_eq_0 unat_eq_zero zero_neq_numeral unat_0)
  have "kMinimumBaseDelayNs \<noteq> 0" "kFallbackBaseDelayNs \<noteq> 0"
    by (simp_all add: kMinimumBaseDelayNs_def kFallbackBaseDelayNs_def kNsPerUs_def)
  then have b: "base \<noteq> 0" by (auto simp: base_def max_def)
  have u: "unat ?u \<noteq> 0" using assms(1) by (simp add: unat_ucast_up unat_eq_0)
  have "base * ?u \<noteq> 0" if "\<not> u64_max div ?u < base"
  proof -
    have "unat base \<le> 18446744073709551615 div unat ?u"
      using that by (simp add: word_less_nat_alt unat_div_distrib unat_u64_max)
    then have "unat base * unat ?u \<le> 18446744073709551615"
      using u less_eq_div_iff_mult_less_eq [of "unat ?u" "unat base" 18446744073709551615] by simp
    then have "unat (base * ?u) = unat base * unat ?u"
      by (intro unat_mult_no_overflow) simp
    with u b show ?thesis by (metis mult_is_0 unat_0 unat_eq_0)
  qed
  then show ?thesis
    using \<open>?m \<noteq> 0\<close> m unat_min [of _ ?m]
    by (auto simp: pressure_delay_def base_def [symmetric] Let_def min_def word_le_nat_alt)
qed

text \<open>
  Backpressure delays exactly when the sample is trusted and more presents are pending than the target,
  and never longer than configured.  The excess is counted in 32 bits: at the largest pending count
  the CPU-ahead increment wraps it to zero.
\<close>

lemma pressure_sound:
  assumes "qs_pending_presents sample \<noteq> u32_max"
    and "d = select_queue_pressure_delay config sample"
    and "on \<longleftrightarrow> qc_mode config \<noteq> Mode_Disabled \<and> qc_max_delay_us config \<noteq> 0 \<and> pressure_trusted config sample \<and>
    ucast (qc_target_pending_presents config) < qs_pending_presents sample"
  shows "(qd_delay_ns d \<noteq> 0 \<longleftrightarrow> on) \<and> (qd_pressured d \<longleftrightarrow> on) \<and>
    unat (qd_delay_ns d) \<le> unat (qc_max_delay_us config) * 1000"
proof (cases on)
  case True
  let ?t = "ucast (qc_target_pending_presents config) :: u32"
  from True have c: "qc_mode config \<noteq> Mode_Disabled" "qc_max_delay_us config \<noteq> 0"
    "pressure_trusted config sample" "?t < qs_pending_presents sample" by (simp_all add: assms(3))
  note u = pressure_units_pos [OF c(4) assms(1)]
  from c u have "d = no_pressure\<lparr>qd_trusted := True, qd_pressure_units := ucast (pressure_units ?t sample),
      qd_pressured := True, qd_delay_ns := pressure_delay config sample (pressure_units ?t sample)\<rparr>"
    by (simp add: assms(2) select_queue_pressure_delay_def Let_def not_le)
  then show ?thesis using True pressure_delay_bounds [OF u c(2)] by simp
next
  case False
  then have "qd_delay_ns d = 0 \<and> \<not> qd_pressured d"
    by (auto simp: assms(2,3) select_queue_pressure_delay_def no_pressure_def Let_def not_less)
  with False show ?thesis by simp
qed

lemma pressure_units_wrap:
  "qs_pending_presents sample = u32_max \<Longrightarrow> 2 < qs_cpu_ahead sample \<Longrightarrow> pressure_units 0 sample = 0"
  by (simp add: pressure_units_def Let_def kMaxPressureUnits_def)

section \<open>Structural stalls\<close>

datatype stall_kind = GraphicsPipeline | ComputePipeline

fun structural_stall_kind_name :: "stall_kind \<Rightarrow> string" where
  "structural_stall_kind_name GraphicsPipeline = ''graphics-pipeline''"
| "structural_stall_kind_name ComputePipeline = ''compute-pipeline''"

record stall_config =
  sc_mode :: policy_mode
  sc_pipeline_threshold_ns :: u64
  sc_recent_window_ns :: u64
  sc_max_compensation_ns :: u64
  sc_auto_warmup_samples :: u8

record stall_sample =
  ss_completion_timestamp_ns :: u64
  ss_previous_completion_timestamp_ns :: u64
  ss_expected_gap_ns :: u64
  ss_baseline_samples :: u32
  ss_pending_pipeline_duration_ns :: u64
  ss_pending_pipeline_end_ns :: u64

record stall_decision =
  sd_trusted :: bool
  sd_structural :: bool
  sd_raw_gap_ns :: u64
  sd_compensation_ns :: u64

definition kMinPlausibleFrameNs :: u64 where "kMinPlausibleFrameNs = 500000"
definition kMaxPlausibleFrameNs :: u64 where "kMaxPlausibleFrameNs = 100000000"
definition kOutlierFloorNs :: u64 where "kOutlierFloorNs = 4000000"

definition saturating_double :: "u64 \<Rightarrow> u64" where
  "saturating_double value = (if u64_max div 2 < value then u64_max else value * 2)"

definition outlier_threshold :: "u64 \<Rightarrow> u64" where
  "outlier_threshold expected =
     (let additive = if u64_max - kOutlierFloorNs < expected then u64_max else expected + kOutlierFloorNs
      in max (saturating_double expected) additive)"

definition recent_pipeline :: "stall_config \<Rightarrow> stall_sample \<Rightarrow> bool" where
  "recent_pipeline config sample \<longleftrightarrow>
     \<not> (ss_pending_pipeline_duration_ns sample < sc_pipeline_threshold_ns config \<or>
        ss_pending_pipeline_end_ns sample = 0 \<or>
        ss_completion_timestamp_ns sample < ss_pending_pipeline_end_ns sample \<or>
        sc_recent_window_ns config < ss_completion_timestamp_ns sample - ss_pending_pipeline_end_ns sample)"

definition classify_structural_stall :: "stall_config \<Rightarrow> stall_sample \<Rightarrow> stall_decision" where
  "classify_structural_stall config sample =
     (let result = \<lparr>sd_trusted = False, sd_structural = False, sd_raw_gap_ns = 0, sd_compensation_ns = 0\<rparr> in
      if sc_mode config = Mode_Disabled \<or> sc_pipeline_threshold_ns config = 0 \<or>
         ss_completion_timestamp_ns sample = 0 \<or> ss_previous_completion_timestamp_ns sample = 0 \<or>
         ss_completion_timestamp_ns sample \<le> ss_previous_completion_timestamp_ns sample \<or>
         ss_expected_gap_ns sample = 0 then result
      else
        let gap = ss_completion_timestamp_ns sample - ss_previous_completion_timestamp_ns sample;
            trusted = if sc_mode config = Mode_Enabled then ss_baseline_samples sample \<noteq> 0
              else ucast (sc_auto_warmup_samples config) \<le> ss_baseline_samples sample;
            result = result\<lparr>sd_raw_gap_ns := gap, sd_trusted := trusted\<rparr> in
        if \<not> trusted then result
        else if \<not> recent_pipeline config sample then result
        else if gap < outlier_threshold (ss_expected_gap_ns sample) then result
        else
          let excess = if ss_expected_gap_ns sample < gap then gap - ss_expected_gap_ns sample else 0;
              compensation = min (ss_pending_pipeline_duration_ns sample)
                (min excess (sc_max_compensation_ns config));
              structural = sc_pipeline_threshold_ns config \<le> compensation in
          result\<lparr>sd_structural := structural, sd_compensation_ns := if structural then compensation else 0\<rparr>)"

definition update_structural_baseline_ns :: "u64 \<Rightarrow> u64 \<Rightarrow> u64" where
  "update_structural_baseline_ns baseline clean =
     (if clean < kMinPlausibleFrameNs \<or> kMaxPlausibleFrameNs < clean then baseline
      else if baseline = 0 then clean
      else
        let lower_bound = max kMinPlausibleFrameNs (baseline div 2);
            upper_bound = min kMaxPlausibleFrameNs (saturating_double baseline);
            clean = clamp clean lower_bound upper_bound in
        if baseline \<le> clean then baseline + (clean - baseline) div 8
        else baseline - (baseline - clean) div 8)"

lemma saturating_double_bounds:
  "unat (saturating_double v) = min (2 * unat v) 18446744073709551615"
proof (cases "u64_max div 2 < v")
  case True
  then show ?thesis
    by (simp add: saturating_double_def word_less_nat_alt unat_div_distrib unat_u64_max)
next
  case False
  then have "unat v \<le> 9223372036854775807"
    by (simp add: word_less_nat_alt unat_div_distrib unat_u64_max)
  then show ?thesis
    using False unat_mult_no_overflow [of v 2] by (simp add: saturating_double_def)
qed

lemma outlier_threshold_bounds:
  "min (2 * unat v) 18446744073709551615 \<le> unat (outlier_threshold v)"
  by (simp add: outlier_threshold_def Let_def unat_max saturating_double_bounds)

text \<open>C36
  A stall is structural only on trust and with a recent slow pipeline, and the compensation is at
  least the threshold, at most the configured maximum, never more than the pipeline took, and never
  more than what the frame took beyond its expected gap.
\<close>

theorem stall_sound:
  assumes "d = classify_structural_stall config sample"
  shows "(sd_structural d \<longleftrightarrow> sd_compensation_ns d \<noteq> 0) \<and>
    (sd_structural d \<longrightarrow> sd_trusted d \<and> recent_pipeline config sample \<and>
      sc_pipeline_threshold_ns config \<le> sd_compensation_ns d \<and>
      sd_compensation_ns d \<le> sc_max_compensation_ns config \<and>
      sd_compensation_ns d \<le> ss_pending_pipeline_duration_ns sample \<and>
      unat (ss_expected_gap_ns sample) + unat (sd_compensation_ns d) \<le> unat (sd_raw_gap_ns d))"
proof (cases "sd_structural d")
  case False
  then show ?thesis
    by (auto simp: assms classify_structural_stall_def Let_def split: if_splits)
next
  case True
  define gap where "gap = ss_completion_timestamp_ns sample - ss_previous_completion_timestamp_ns sample"
  define c where "c = min (ss_pending_pipeline_duration_ns sample)
    (min (if ss_expected_gap_ns sample < gap then gap - ss_expected_gap_ns sample else 0) (sc_max_compensation_ns config))"
  let ?none = "sc_mode config = Mode_Disabled \<or> sc_pipeline_threshold_ns config = 0 \<or>
    ss_completion_timestamp_ns sample = 0 \<or> ss_previous_completion_timestamp_ns sample = 0 \<or>
    ss_completion_timestamp_ns sample \<le> ss_previous_completion_timestamp_ns sample \<or> ss_expected_gap_ns sample = 0"
  let ?trusted = "if sc_mode config = Mode_Enabled then ss_baseline_samples sample \<noteq> 0
    else ucast (sc_auto_warmup_samples config) \<le> ss_baseline_samples sample"
  let ?r = "\<lparr>sd_trusted = ?trusted, sd_structural = False, sd_raw_gap_ns = gap, sd_compensation_ns = 0\<rparr>"
  have e: "d = (if ?none then \<lparr>sd_trusted = False, sd_structural = False, sd_raw_gap_ns = 0, sd_compensation_ns = 0\<rparr>
      else if \<not> ?trusted then ?r else if \<not> recent_pipeline config sample then ?r
      else if gap < outlier_threshold (ss_expected_gap_ns sample) then ?r
      else ?r\<lparr>sd_structural := sc_pipeline_threshold_ns config \<le> c,
        sd_compensation_ns := if sc_pipeline_threshold_ns config \<le> c then c else 0\<rparr>)"
    unfolding assms classify_structural_stall_def Let_def gap_def c_def stall_decision.update_convs ..
  have n: "\<not> ?none"
  proof
    assume "?none"
    from trans [OF e if_P [OF this]] True show False by simp
  qed
  note e1 = trans [OF e if_not_P [OF n]]
  have t: "\<not> \<not> ?trusted"
  proof
    assume "\<not> ?trusted"
    from trans [OF e1 if_P [OF this]] True show False by simp
  qed
  note e2 = trans [OF e1 if_not_P [OF t]]
  have p: "\<not> \<not> recent_pipeline config sample"
  proof
    assume "\<not> recent_pipeline config sample"
    from trans [OF e2 if_P [OF this]] True show False by simp
  qed
  note e3 = trans [OF e2 if_not_P [OF p]]
  have f: "d = ?r\<lparr>sd_structural := sc_pipeline_threshold_ns config \<le> c,
      sd_compensation_ns := if sc_pipeline_threshold_ns config \<le> c then c else 0\<rparr>"
    using e3 True by (cases "gap < outlier_threshold (ss_expected_gap_ns sample)") simp_all
  have d: "sd_trusted d" "recent_pipeline config sample" "sc_pipeline_threshold_ns config \<le> c"
    "sd_compensation_ns d = c" "sd_raw_gap_ns d = gap" "sc_pipeline_threshold_ns config \<noteq> 0"
    using True n t p by (simp_all add: f)
  then have "c \<noteq> 0" using d(3,6) by auto
  then have e: "ss_expected_gap_ns sample < gap" by (rule contrapos_np) (simp add: c_def min_def)
  then have "c \<le> gap - ss_expected_gap_ns sample" by (simp add: c_def min.coboundedI1 min.coboundedI2)
  then have "unat (ss_expected_gap_ns sample) + unat c \<le> unat gap"
    using e by (simp add: word_le_nat_alt word_less_nat_alt unat_sub_le less_imp_le)
  moreover have "c \<le> sc_max_compensation_ns config" "c \<le> ss_pending_pipeline_duration_ns sample"
    by (simp_all add: c_def min.coboundedI1 min.coboundedI2)
  ultimately show ?thesis
    using True d \<open>c \<noteq> 0\<close> by simp
qed

theorem stall_sound_witness:
  "let d = classify_structural_stall
      \<lparr>sc_mode = Mode_Enabled, sc_pipeline_threshold_ns = 2000000, sc_recent_window_ns = 100000000,
       sc_max_compensation_ns = 50000000, sc_auto_warmup_samples = 8\<rparr>
      \<lparr>ss_completion_timestamp_ns = 40000000, ss_previous_completion_timestamp_ns = 10000000,
       ss_expected_gap_ns = 8000000, ss_baseline_samples = 3, ss_pending_pipeline_duration_ns = 20000000,
       ss_pending_pipeline_end_ns = 39000000\<rparr>
   in sd_structural d \<and> 8000000 + unat (sd_compensation_ns d) \<le> unat (sd_raw_gap_ns d)"
proof -
  let ?c = "\<lparr>sc_mode = Mode_Enabled, sc_pipeline_threshold_ns = 2000000, sc_recent_window_ns = 100000000,
    sc_max_compensation_ns = 50000000, sc_auto_warmup_samples = 8\<rparr>"
  let ?s = "\<lparr>ss_completion_timestamp_ns = 40000000, ss_previous_completion_timestamp_ns = 10000000,
    ss_expected_gap_ns = 8000000, ss_baseline_samples = 3, ss_pending_pipeline_duration_ns = 20000000,
    ss_pending_pipeline_end_ns = 39000000\<rparr>"
  have "sd_structural (classify_structural_stall ?c ?s)"
    by (simp add: classify_structural_stall_def recent_pipeline_def outlier_threshold_def
        saturating_double_def kOutlierFloorNs_def Let_def)
  then show ?thesis using stall_sound [OF refl, of ?c ?s] by (simp add: Let_def)
qed

text \<open>
  The baseline is zero or a plausible frame time.  Every update keeps that, which is what the bounds
  of its clamp rest on, and moves by at most an eighth of the baseline, whatever the sample.
\<close>

definition baseline_ok :: "u64 \<Rightarrow> bool" where
  "baseline_ok b \<longleftrightarrow> b = 0 \<or> (kMinPlausibleFrameNs \<le> b \<and> b \<le> kMaxPlausibleFrameNs)"

lemma baseline_clamp_defined:
  assumes "baseline_ok b" "b \<noteq> 0"
  shows "max kMinPlausibleFrameNs (b div 2) \<le> min kMaxPlausibleFrameNs (saturating_double b)"
proof -
  have "unat kMinPlausibleFrameNs = 500000" "unat kMaxPlausibleFrameNs = 100000000"
    by (simp_all add: kMinPlausibleFrameNs_def kMaxPlausibleFrameNs_def)
  then show ?thesis
    using assms by (auto simp: baseline_ok_def word_le_nat_alt unat_max unat_min saturating_double_bounds unat_div_distrib)
qed

lemma baseline_update:
  assumes "baseline_ok b" "b' = update_structural_baseline_ns b clean"
  shows "baseline_ok b' \<and> (b \<noteq> 0 \<longrightarrow>
    unat b - unat b div 8 \<le> unat b' \<and> unat b' \<le> unat b + unat b div 8)"
proof (cases "clean < kMinPlausibleFrameNs \<or> kMaxPlausibleFrameNs < clean \<or> b = 0")
  case True
  then show ?thesis
    using assms by (auto simp: update_structural_baseline_ns_def baseline_ok_def)
next
  case False
  let ?lo = "max kMinPlausibleFrameNs (b div 2)" and ?hi = "min kMaxPlausibleFrameNs (saturating_double b)"
  define c where "c = clamp clean ?lo ?hi"
  have k: "unat kMinPlausibleFrameNs = 500000" "unat kMaxPlausibleFrameNs = 100000000"
    by (simp_all add: kMinPlausibleFrameNs_def kMaxPlausibleFrameNs_def)
  have b: "500000 \<le> unat b" "unat b \<le> 100000000"
    using assms(1) False by (auto simp: baseline_ok_def word_le_nat_alt k)
  have "?lo \<le> c \<and> c \<le> ?hi"
    unfolding c_def by (rule clamp_bounds) (rule baseline_clamp_defined [OF assms(1)], use False in simp)
  then have c: "500000 \<le> unat c" "unat c \<le> 100000000" "unat b div 2 \<le> unat c" "unat c \<le> 2 * unat b"
    by (auto simp: word_le_nat_alt unat_max unat_min k saturating_double_bounds unat_div_distrib)
  have e: "b' = (if b \<le> c then b + (c - b) div 8 else b - (b - c) div 8)"
    using False by (simp add: assms(2) update_structural_baseline_ns_def Let_def c_def [symmetric])
  have n: "unat b' = (if unat b \<le> unat c then unat b + (unat c - unat b) div 8 else unat b - (unat b - unat c) div 8)"
  proof (cases "b \<le> c")
    case True
    then show ?thesis
      using unat_add_no_overflow [of b "(c - b) div 8"] b c
      by (simp add: e word_le_nat_alt unat_div_distrib unat_sub_le)
  next
    case no: False
    then have "(b - c) div 8 \<le> b"
      by (simp add: word_le_nat_alt unat_div_distrib unat_sub_le)
    then show ?thesis
      using no by (simp add: e word_le_nat_alt unat_div_distrib unat_sub_le)
  qed
  have "500000 \<le> unat b'" "unat b' \<le> 100000000"
    using b c by (auto simp: n)
  moreover have "unat b - unat b div 8 \<le> unat b'" "unat b' \<le> unat b + unat b div 8"
    using b c by (auto simp: n)
  ultimately show ?thesis
    by (simp add: baseline_ok_def word_le_nat_alt k)
qed

end
