(* ===== verification/ProbeTable.thy ===== *)
theory ProbeTable
  imports Prelude
begin

text \<open>
  The fixed hash tables of the audio and OpenXR timelines: an array of keys, 0 for a free slot, probed
  linearly from a start slot computed from the key.  The audio tables stop a search at the first free
  slot (their entries are never removed); the OpenXR table searches every slot.  The contract their
  clients rely on is the locale \<open>key_table\<close>.
\<close>

definition probe_order :: "nat \<Rightarrow> nat \<Rightarrow> nat list" where
  "probe_order n start = map (\<lambda>probe. (start + probe) mod n) [0..<n]"

text \<open>Search that stops at a free slot, search that does not, and the first free slot.\<close>

fun find_stop :: "(nat \<Rightarrow> u64) \<Rightarrow> u64 \<Rightarrow> nat list \<Rightarrow> nat option" where
  "find_stop keys k [] = None"
| "find_stop keys k (i # is) =
     (if keys i = k then Some i else if keys i = 0 then None else find_stop keys k is)"

fun find_skip :: "(nat \<Rightarrow> u64) \<Rightarrow> u64 \<Rightarrow> nat list \<Rightarrow> nat option" where
  "find_skip keys k [] = None"
| "find_skip keys k (i # is) = (if keys i = k then Some i else find_skip keys k is)"

fun first_free :: "(nat \<Rightarrow> u64) \<Rightarrow> nat list \<Rightarrow> nat option" where
  "first_free keys [] = None"
| "first_free keys (i # is) = (if keys i = 0 then Some i else first_free keys is)"

lemma probe_order_set: "0 < n \<Longrightarrow> set (probe_order n s) = {..<n}"
proof (intro equalityI subsetI)
  fix i assume "i \<in> {..<n}" and n: "0 < n"
  then have i: "i < n" by simp
  have "(s + (n - s mod n + i) mod n) mod n = i"
  proof -
    have "(s + (n - s mod n + i) mod n) mod n = (s mod n + (n - s mod n + i)) mod n"
      by (metis mod_add_left_eq mod_add_right_eq)
    also have "s mod n + (n - s mod n + i) = n + i" using mod_less_divisor [OF n, of s] by linarith
    finally show ?thesis using i by simp
  qed
  moreover have "(n - s mod n + i) mod n \<in> {0..<n}" using n by simp
  ultimately show "i \<in> set (probe_order n s)"
    unfolding probe_order_def by (metis (no_types, lifting) image_eqI set_map set_upt)
qed (auto simp: probe_order_def)

lemma find_stop_SomeD: "find_stop keys k is = Some i \<Longrightarrow> keys i = k \<and> i \<in> set is"
  by (induction "is") (auto split: if_splits)

lemma find_skip_SomeD: "find_skip keys k is = Some i \<Longrightarrow> keys i = k \<and> i \<in> set is"
  by (induction "is") (auto split: if_splits)

lemma find_skip_NoneD: "find_skip keys k is = None \<Longrightarrow> i \<in> set is \<Longrightarrow> keys i \<noteq> k"
  by (induction "is") (auto split: if_splits)

lemma first_free_SomeD:
  "first_free keys is = Some i \<Longrightarrow> \<exists>pre post. is = pre @ i # post \<and> keys i = 0 \<and> (\<forall>j \<in> set pre. keys j \<noteq> 0)"
proof (induction "is")
  case (Cons a js)
  show ?case
  proof (cases "keys a = 0")
    case True
    then show ?thesis using Cons.prems by (intro exI [of _ "[]"] exI [of _ js]) simp
  next
    case False
    with Cons obtain pre post where "js = pre @ i # post" "keys i = 0" "\<forall>j \<in> set pre. keys j \<noteq> 0" by auto
    then show ?thesis using False by (intro exI [of _ "a # pre"] exI [of _ post]) simp
  qed
qed simp

lemma first_free_NoneD: "first_free keys is = None \<Longrightarrow> i \<in> set is \<Longrightarrow> keys i \<noteq> 0"
  by (induction "is") (auto split: if_splits)

lemma find_stop_prefix:
  "\<forall>j \<in> set pre. keys j \<noteq> 0 \<and> keys j \<noteq> k \<Longrightarrow> find_stop keys k (pre @ is) = find_stop keys k is"
  by (induction pre) auto

lemma find_skip_prefix: "\<forall>j \<in> set pre. keys j \<noteq> k \<Longrightarrow> find_skip keys k (pre @ is) = find_skip keys k is"
  by (induction pre) auto

section \<open>The invariant of a table without removal\<close>

text \<open>Every slot before a key's own slot, in the key's probe order, holds another key.\<close>

definition reaches :: "(nat \<Rightarrow> u64) \<Rightarrow> nat list \<Rightarrow> nat \<Rightarrow> bool" where
  "reaches keys is i \<longleftrightarrow> (\<exists>pre post. is = pre @ i # post \<and> (\<forall>j \<in> set pre. keys j \<noteq> 0 \<and> keys j \<noteq> keys i))"

definition probes_ok :: "nat \<Rightarrow> (u64 \<Rightarrow> nat) \<Rightarrow> (nat \<Rightarrow> u64) \<Rightarrow> bool" where
  "probes_ok n h keys \<longleftrightarrow> (\<forall>i < n. keys i \<noteq> 0 \<longrightarrow> reaches keys (probe_order n (h (keys i))) i)"

lemma probes_ok_empty: "probes_ok n h (\<lambda>_. 0)"
  by (simp add: probes_ok_def)

lemma find_stop_complete:
  assumes "probes_ok n h keys" "i < n" "keys i = k" "k \<noteq> 0"
  shows "find_stop keys k (probe_order n (h k)) = Some i"
proof -
  from assms obtain pre post where o: "probe_order n (h k) = pre @ i # post"
    and p: "\<forall>j \<in> set pre. keys j \<noteq> 0 \<and> keys j \<noteq> k"
    by (auto simp: probes_ok_def reaches_def)
  show ?thesis unfolding o using find_stop_prefix [OF p] assms(3) by simp
qed

lemma find_stop_iff:
  assumes "probes_ok n h keys" "0 < n" "k \<noteq> 0"
  shows "find_stop keys k (probe_order n (h k)) = Some i \<longleftrightarrow> i < n \<and> keys i = k"
proof
  assume "find_stop keys k (probe_order n (h k)) = Some i"
  from find_stop_SomeD [OF this] show "i < n \<and> keys i = k" using probe_order_set [OF assms(2)] by simp
next
  assume "i < n \<and> keys i = k"
  then show "find_stop keys k (probe_order n (h k)) = Some i"
    using find_stop_complete [OF assms(1)] assms(3) by blast
qed

lemma keys_unique:
  assumes "probes_ok n h keys" "i < n" "j < n" "keys i = keys j" "keys i \<noteq> 0"
  shows "i = j"
proof -
  have "find_stop keys (keys i) (probe_order n (h (keys i))) = Some i"
    by (rule find_stop_complete [OF assms(1,2) refl assms(5)])
  moreover have "find_stop keys (keys i) (probe_order n (h (keys i))) = Some j"
    by (rule find_stop_complete [OF assms(1,3) assms(4) [symmetric] assms(5)])
  ultimately show ?thesis by simp
qed

lemma claim_probes_ok:
  assumes "probes_ok n h keys" "0 < n" "k \<noteq> 0"
    and "find_stop keys k (probe_order n (h k)) = None" "first_free keys (probe_order n (h k)) = Some i"
  shows "probes_ok n h (keys(i := k)) \<and> i < n \<and> keys i = 0"
proof -
  have new: "\<forall>j < n. keys j \<noteq> k"
    using find_stop_complete [OF assms(1)] assms(3,4) by fastforce
  obtain pre post where o: "probe_order n (h k) = pre @ i # post" and z: "keys i = 0"
    and p: "\<forall>j \<in> set pre. keys j \<noteq> 0"
    using first_free_SomeD [OF assms(5)] by blast
  have n: "i < n" "set pre \<subseteq> {..<n}"
    using probe_order_set [OF assms(2), of "h k"] unfolding o by auto
  have own: "reaches (keys(i := k)) (probe_order n (h k)) i"
    unfolding reaches_def o using p z new n by (intro exI [of _ pre] exI [of _ post]) auto
  have "reaches (keys(i := k)) (probe_order n (h (keys j))) j" if j: "j < n" "keys j \<noteq> 0" "j \<noteq> i" for j
  proof -
    from assms(1) j obtain qs rs where q: "probe_order n (h (keys j)) = qs @ j # rs"
      "\<forall>l \<in> set qs. keys l \<noteq> 0 \<and> keys l \<noteq> keys j"
      by (auto simp: probes_ok_def reaches_def)
    have "\<forall>l \<in> set qs. (keys(i := k)) l \<noteq> 0 \<and> (keys(i := k)) l \<noteq> keys j"
      using q(2) assms(3) new j by auto
    then show ?thesis
      unfolding reaches_def q(1) using j(3) by (intro exI [of _ qs] exI [of _ rs]) (simp only: fun_upd_other simp_thms)
  qed
  then have "probes_ok n h (keys(i := k))"
    using own by (auto simp: probes_ok_def)
  with n z show ?thesis by simp
qed

text \<open>There is a free slot exactly when fewer keys than slots are in the table.\<close>

lemma first_free_room:
  assumes "0 < n"
  shows "first_free keys (probe_order n s) \<noteq> None \<longleftrightarrow> card {i. i < n \<and> keys i \<noteq> 0} < n"
proof -
  have a: "first_free keys (probe_order n s) = None \<longleftrightarrow> (\<forall>i < n. keys i \<noteq> 0)"
    using first_free_NoneD [of keys "probe_order n s"] first_free_SomeD [of keys "probe_order n s"]
      probe_order_set [OF assms, of s]
    by (metis in_set_conv_decomp lessThan_iff not_None_eq)
  have b: "card {i. i < n \<and> keys i \<noteq> 0} = n \<longleftrightarrow> (\<forall>i < n. keys i \<noteq> 0)"
  proof
    assume "card {i. i < n \<and> keys i \<noteq> 0} = n"
    then have "{i. i < n \<and> keys i \<noteq> 0} = {..<n}"
      by (intro card_subset_eq) auto
    then show "\<forall>i < n. keys i \<noteq> 0" by auto
  next
    assume "\<forall>i < n. keys i \<noteq> 0"
    then have "{i. i < n \<and> keys i \<noteq> 0} = {..<n}" by auto
    then show "card {i. i < n \<and> keys i \<noteq> 0} = n" by simp
  qed
  have c: "card {i. i < n \<and> keys i \<noteq> 0} \<le> n"
    using card_mono [of "{..<n}" "{i. i < n \<and> keys i \<noteq> 0}"] by auto
  have "card {i. i < n \<and> keys i \<noteq> 0} < n \<longleftrightarrow> card {i. i < n \<and> keys i \<noteq> 0} \<noteq> n"
    using c by linarith
  then show ?thesis by (simp only: a b)
qed

text \<open>A table with distinct keys, seen as a map, has as many entries as occupied slots.\<close>

lemma map_card:
  assumes "\<And>c i. look c = Some i \<longleftrightarrow> c \<noteq> 0 \<and> i < n \<and> keys i = c"
    and "\<And>i j. i < n \<Longrightarrow> j < n \<Longrightarrow> keys i = keys j \<Longrightarrow> keys i \<noteq> 0 \<Longrightarrow> i = j"
  shows "card (dom (\<lambda>c. map_option f (look c))) = card {i. i < n \<and> keys i \<noteq> (0 :: u64)}"
proof -
  have "dom (\<lambda>c. map_option f (look c)) = keys ` {i. i < n \<and> keys i \<noteq> 0}"
    using assms(1) by (fastforce simp: dom_def)
  moreover have "inj_on keys {i. i < n \<and> keys i \<noteq> 0}"
    using assms(2) by (auto intro: inj_onI)
  ultimately show ?thesis by (simp add: card_image)
qed

section \<open>The contract of a key table\<close>

text \<open>
  \<open>find t k\<close> is the slot of a key, \<open>claim t k\<close> the table after finding or adding it and its slot, None
  when there is no room.
\<close>

locale key_table =
  fixes find :: "'t \<Rightarrow> u64 \<Rightarrow> nat option"
    and claim :: "'t \<Rightarrow> u64 \<Rightarrow> 't \<times> nat option"
    and ok :: "'t \<Rightarrow> bool"
  assumes claim_ok: "ok t \<Longrightarrow> ok (fst (claim t k))"
    and claim_finds: "ok t \<Longrightarrow> find (fst (claim t k)) k = snd (claim t k)"
    and claim_others: "ok t \<Longrightarrow> k' \<noteq> k \<Longrightarrow> find (fst (claim t k)) k' = find t k'"
    and claim_known: "ok t \<Longrightarrow> find t k = Some i \<Longrightarrow> snd (claim t k) = Some i"
    and slots_distinct: "ok t \<Longrightarrow> find t k = Some i \<Longrightarrow> find t k' = Some i \<Longrightarrow> k = k'"
begin

text \<open>A key keeps its slot through any further claims, and no other key gets it.\<close>

lemma slot_stable:
  "ok t \<Longrightarrow> find t k = Some i \<Longrightarrow> find (foldl (\<lambda>t k. fst (claim t k)) t ks) k = Some i"
proof (induction ks arbitrary: t)
  case Nil
  then show ?case by simp
next
  case (Cons k' ks)
  have "find (fst (claim t k')) k = Some i"
    using claim_finds [OF Cons.prems(1), of k'] claim_others [OF Cons.prems(1), of k k']
      claim_known [OF Cons.prems] Cons.prems(2) by (cases "k = k'") auto
  then show ?case using Cons.IH claim_ok [OF Cons.prems(1)] by simp
qed

end

end
