(* ===== verification/AudioModel.thy ===== *)
theory AudioModel
  imports Prelude
begin

text \<open>
  The arithmetic of the audio side: frame counts and reference times in nanoseconds
  (\<open>src/audio_latency_math.h\<close>), the choice of a shorter stream period (\<open>src/audio_period_policy.h\<close>)
  and the queue estimate built from one consistent reading of a client (\<open>src/audio_queue_model.h\<close>).
\<close>

section \<open>Rates and nanoseconds\<close>

definition kNsPerSecond :: u64 where "kNsPerSecond = 1000000000"

text \<open>The tail the two conversions share: whole seconds and a fraction, saturated.\<close>

definition seconds_to_ns :: "u64 \<Rightarrow> u64 \<Rightarrow> u64" where
  "seconds_to_ns whole fraction_ns =
     (if u64_max div kNsPerSecond < whole then u64_max
      else
        let whole_ns = whole * kNsPerSecond in
        if u64_max - fraction_ns < whole_ns then u64_max else whole_ns + fraction_ns)"

definition frames_to_ns :: "u64 \<Rightarrow> u32 \<Rightarrow> u64" where
  "frames_to_ns frames sample_rate =
     (if sample_rate = 0 then 0
      else
        let rate = ucast sample_rate in
        seconds_to_ns (frames div rate) ((frames mod rate) * kNsPerSecond div rate))"

definition hundred_ns_to_ns :: "u64 \<Rightarrow> u64" where
  "hundred_ns_to_ns v = (if u64_max div 100 < v then u64_max else v * 100)"

definition reference_time_to_ns :: "int \<Rightarrow> u64" where
  "reference_time_to_ns v = (if v \<le> 0 then 0 else hundred_ns_to_ns (word_of_int v))"

text \<open>The product of the remainder is taken in 128 bits.\<close>

definition rate_units_to_ns :: "u64 \<Rightarrow> u64 \<Rightarrow> u64" where
  "rate_units_to_ns v frequency =
     (if frequency = 0 then 0
      else seconds_to_ns (v div frequency)
        (ucast ((ucast (v mod frequency) * ucast kNsPerSecond :: 128 word) div ucast frequency)))"

lemma unat_kNsPerSecond: "unat kNsPerSecond = 1000000000"
  by (simp add: kNsPerSecond_def)

lemma u64_max_div_second: "unat (u64_max div kNsPerSecond) = 18446744073"
  by (simp add: unat_div_distrib unat_u64_max unat_kNsPerSecond)

text \<open>Saturation at the last representable nanosecond, with no wrap-around on the way.\<close>

lemma seconds_to_ns_saturates:
  "unat (seconds_to_ns w f) = min (unat w * 1000000000 + unat f) 18446744073709551615"
proof (cases "u64_max div kNsPerSecond < w")
  case True
  then have "18446744073 < unat w" by (simp add: word_less_nat_alt u64_max_div_second)
  then show ?thesis using True by (simp add: seconds_to_ns_def unat_u64_max)
next
  case False
  then have "unat w \<le> 18446744073" by (simp add: word_less_nat_alt u64_max_div_second)
  then have m: "unat (w * kNsPerSecond) = unat w * 1000000000"
    using unat_mult_no_overflow [of w kNsPerSecond] by (simp add: unat_kNsPerSecond)
  have s: "unat (u64_max - f) = 18446744073709551615 - unat f"
    by (simp add: unat_sub_le unat_u64_max)
  show ?thesis
  proof (cases "u64_max - f < w * kNsPerSecond")
    case True
    then have "18446744073709551615 < unat w * 1000000000 + unat f"
      by (simp add: word_less_nat_alt s m)
    then show ?thesis using False True by (simp add: seconds_to_ns_def Let_def unat_u64_max)
  next
    case no: False
    then have "unat w * 1000000000 \<le> 18446744073709551615 - unat f"
      by (simp add: word_less_nat_alt s m)
    then have "unat w * 1000000000 + unat f < 18446744073709551616"
      using unat_lt_u64 [of f] by simp
    then show ?thesis
      using False no unat_add_no_overflow [of "w * kNsPerSecond" f] by (simp add: seconds_to_ns_def Let_def m)
  qed
qed

lemma quotient_split:
  fixes v f b :: nat
  assumes "0 < f"
  shows "v div f * b + v mod f * b div f = v * b div f"
proof -
  have "v * b = (v div f * b) * f + v mod f * b"
    by (metis add_mult_distrib div_mult_mod_eq mult.assoc mult.commute)
  then show ?thesis using assms by simp
qed

text \<open>Both conversions are the rounded-down quotient, saturated: the split loses nothing.\<close>

lemma frames_to_ns_exact:
  assumes "sample_rate \<noteq> 0"
  shows "unat (frames_to_ns frames sample_rate) =
    min (unat frames * 1000000000 div unat sample_rate) 18446744073709551615"
proof -
  let ?r = "ucast sample_rate :: u64"
  have r: "unat ?r = unat sample_rate" by (rule unat_ucast_up) simp
  have p: "0 < unat sample_rate" using assms by (simp add: unat_gt_0)
  have "unat frames mod unat sample_rate * 1000000000 < 18446744073709551616"
    using mod_less_divisor [OF p, of "unat frames"] unat_lt_u32 [of sample_rate]
      mult_strict_right_mono [of "unat frames mod unat sample_rate" 4294967296 1000000000] by simp
  then have "unat (frames mod ?r * kNsPerSecond) = unat frames mod unat sample_rate * 1000000000"
    using unat_mult_no_overflow [of "frames mod ?r" kNsPerSecond] by (simp add: unat_kNsPerSecond unat_mod_distrib r)
  then have "unat (frames mod ?r * kNsPerSecond div ?r) = unat frames mod unat sample_rate * 1000000000 div unat sample_rate"
    by (simp add: unat_div_distrib r)
  then show ?thesis
    using assms quotient_split [OF p, of "unat frames" 1000000000]
    by (simp add: frames_to_ns_def Let_def seconds_to_ns_saturates unat_div_distrib r)
qed

lemma rate_units_to_ns_exact:
  assumes "frequency \<noteq> 0"
  shows "unat (rate_units_to_ns v frequency) =
    min (unat v * 1000000000 div unat frequency) 18446744073709551615"
proof -
  have p: "0 < unat frequency" using assms by (simp add: unat_gt_0)
  let ?w = "ucast (v mod frequency) :: 128 word" and ?f = "ucast frequency :: 128 word"
  have c: "unat ?w = unat v mod unat frequency" "unat ?f = unat frequency"
      "unat (ucast kNsPerSecond :: 128 word) = 1000000000"
    by (simp_all add: unat_ucast_up unat_mod_distrib unat_kNsPerSecond)
  have lt: "unat v mod unat frequency < 18446744073709551616"
    using mod_less_divisor [OF p, of "unat v"] unat_lt_u64 [of frequency] by linarith
  have "unat (?w * ucast kNsPerSecond) = unat v mod unat frequency * 1000000000"
    using unat_mult_no_overflow [of ?w "ucast kNsPerSecond"] lt by (simp add: c)
  then have q: "unat (?w * ucast kNsPerSecond div ?f) = unat v mod unat frequency * 1000000000 div unat frequency"
    by (simp add: unat_div_distrib c)
  have "unat v mod unat frequency * 1000000000 div unat frequency < 1000000000"
    using p by (simp add: less_mult_imp_div_less)
  then have "unat (ucast (?w * ucast kNsPerSecond div ?f) :: u64) =
      unat v mod unat frequency * 1000000000 div unat frequency"
    using q by (simp add: unsigned_ucast_eq take_bit_nat_eq_self)
  then show ?thesis
    using assms quotient_split [OF p, of "unat v" 1000000000]
    by (simp add: rate_units_to_ns_def seconds_to_ns_saturates unat_div_distrib)
qed

lemma hundred_ns_exact: "unat (hundred_ns_to_ns v) = min (unat v * 100) 18446744073709551615"
proof (cases "u64_max div 100 < v")
  case True
  then show ?thesis by (simp add: hundred_ns_to_ns_def word_less_nat_alt unat_div_distrib unat_u64_max)
next
  case False
  then have "unat v \<le> 184467440737095516"
    by (simp add: word_less_nat_alt unat_div_distrib unat_u64_max)
  then show ?thesis using False unat_mult_no_overflow [of v 100] by (simp add: hundred_ns_to_ns_def)
qed

section \<open>Stream period\<close>

record period_range =
  pr_sample_rate :: u32
  pr_requested_frames :: u32
  pr_default_frames :: u32
  pr_fundamental_frames :: u32
  pr_min_frames :: u32
  pr_max_frames :: u32

record period_decision =
  pd_valid :: bool
  pd_change :: bool
  pd_requested_frames :: u32
  pd_candidate_frames :: u32
  pd_target_frames :: u32

definition us_to_frames_ceil :: "u32 \<Rightarrow> u32 \<Rightarrow> u32" where
  "us_to_frames_ceil us rate =
     (if us = 0 \<or> rate = 0 then 0
      else
        let product = ucast us * ucast rate :: u64
        in ucast (min ((product + 999999) div 1000000) (ucast (u32_max :: u32))))"

definition align_period_up :: "u32 \<Rightarrow> u32 \<Rightarrow> u32" where
  "align_period_up frames fundamental =
     (if fundamental = 0 then frames
      else
        let rem = frames mod fundamental in
        if rem = 0 then frames
        else let add = fundamental - rem in if u32_max - add < frames then u32_max else frames + add)"

definition period_in_range :: "period_range \<Rightarrow> bool" where
  "period_in_range i \<longleftrightarrow>
     \<not> (pr_sample_rate i = 0 \<or> pr_requested_frames i = 0 \<or> pr_fundamental_frames i = 0 \<or>
        pr_min_frames i = 0 \<or> pr_max_frames i = 0 \<or> pr_max_frames i < pr_min_frames i \<or>
        pr_requested_frames i < pr_min_frames i \<or> pr_max_frames i < pr_requested_frames i)"

definition period_target :: "period_range \<Rightarrow> u32 \<Rightarrow> u32" where
  "period_target i target_us =
     clamp (align_period_up (us_to_frames_ceil target_us (pr_sample_rate i)) (pr_fundamental_frames i))
       (pr_min_frames i) (pr_max_frames i)"

text \<open>The shortest period one step may reach: the reduction is a percentage between 1 and 90.\<close>

definition floor_by_step :: "u32 \<Rightarrow> u8 \<Rightarrow> u32" where
  "floor_by_step requested max_reduction_percent =
     (let reduction = clamp (ucast max_reduction_percent) 1 90 :: u32
      in ucast ((ucast requested * ucast (100 - reduction) + 99 :: u64) div 100))"

definition choose_period_candidate :: "period_range \<Rightarrow> u32 \<Rightarrow> u8 \<Rightarrow> period_decision" where
  "choose_period_candidate i target_us max_reduction_percent =
     (let out = \<lparr>pd_valid = False, pd_change = False, pd_requested_frames = pr_requested_frames i,
        pd_candidate_frames = 0, pd_target_frames = 0\<rparr> in
      if \<not> period_in_range i then out
      else
        let target = period_target i target_us;
            out = out\<lparr>pd_valid := True, pd_target_frames := target\<rparr> in
        if pr_requested_frames i \<le> target then out\<lparr>pd_candidate_frames := pr_requested_frames i\<rparr>
        else
          let candidate = max target (floor_by_step (pr_requested_frames i) max_reduction_percent);
              candidate = align_period_up candidate (pr_fundamental_frames i);
              candidate = clamp candidate (pr_min_frames i) (pr_requested_frames i)
          in out\<lparr>pd_candidate_frames := candidate, pd_change := candidate < pr_requested_frames i\<rparr>)"

lemma align_cases:
  assumes "fundamental \<noteq> 0"
  shows "align_period_up frames fundamental = u32_max \<or>
    (frames \<le> align_period_up frames fundamental \<and> unat fundamental dvd unat (align_period_up frames fundamental))"
proof -
  let ?f = "unat fundamental" and ?n = "unat frames"
  have f: "0 < ?f" using assms by (simp add: unat_gt_0)
  have r: "unat (frames mod fundamental) = ?n mod ?f" by (simp add: unat_mod_distrib)
  show ?thesis
  proof (cases "frames mod fundamental = 0")
    case True
    then have "?f dvd ?n" using r by (metis dvd_eq_mod_eq_0 unat_0)
    then show ?thesis using assms True by (simp add: align_period_up_def)
  next
    case False
    let ?add = "fundamental - frames mod fundamental"
    have le: "frames mod fundamental \<le> fundamental"
      using mod_less_divisor [OF f, of ?n] by (simp add: word_le_nat_alt r)
    have a: "unat ?add = ?f - ?n mod ?f" using le by (simp add: unat_sub_le r)
    show ?thesis
    proof (cases "u32_max - ?add < frames")
      case True
      then show ?thesis using assms False by (simp add: align_period_up_def Let_def)
    next
      case no: False
      then have "?n \<le> 4294967295 - unat ?add"
        by (simp add: word_less_nat_alt unat_sub_le unat_u32_max)
      then have "?n + unat ?add < 4294967296" using unat_lt_u32 [of ?add] by simp
      then have s: "unat (frames + ?add) = ?n + (?f - ?n mod ?f)"
        using unat_add_no_overflow [of frames ?add] by (simp add: a)
      have "?n + (?f - ?n mod ?f) = ?n div ?f * ?f + ?f"
        using mod_less_divisor [OF f, of ?n] div_mult_mod_eq [of ?n ?f] by linarith
      then have "?f dvd unat (frames + ?add)" unfolding s by simp
      moreover have "frames \<le> frames + ?add" by (simp add: word_le_nat_alt s)
      ultimately show ?thesis using assms False no by (simp add: align_period_up_def Let_def)
    qed
  qed
qed

lemma floor_by_step_bound:
  "unat requested * (100 - unat (clamp (ucast p) 1 90 :: u32)) \<le> 100 * unat (floor_by_step requested p)"
proof -
  let ?r = "clamp (ucast p) 1 90 :: u32"
  have b: "1 \<le> unat ?r" "unat ?r \<le> 90"
    using clamp_bounds [of 1 "90 :: u32" "ucast p"] by (simp_all add: word_le_nat_alt)
  have s: "unat (100 - ?r) = 100 - unat ?r" using b by (simp add: unat_sub_le word_le_nat_alt)
  let ?q = "unat requested * (100 - unat ?r)"
  have lt: "unat requested * (100 - unat ?r) \<le> 4294967295 * 99"
    using unat_lt_u32 [of requested] b by (intro mult_le_mono) simp_all
  have "unat (ucast requested * ucast (100 - ?r) :: u64) = ?q"
    using lt by (subst unat_mult_no_overflow) (simp_all add: unat_ucast_up s)
  then have "unat (ucast requested * ucast (100 - ?r) + 99 :: u64) = ?q + 99"
    using lt by (subst unat_add_no_overflow) simp_all
  then have "unat ((ucast requested * ucast (100 - ?r) + 99 :: u64) div 100) = (?q + 99) div 100"
    by (simp add: unat_div_distrib)
  moreover have "(?q + 99) div 100 < 4294967296" using lt by simp
  ultimately have "unat (floor_by_step requested p) = (?q + 99) div 100"
    by (simp add: floor_by_step_def Let_def unsigned_ucast_eq take_bit_nat_eq_self)
  then show ?thesis by simp
qed

text \<open>
  A negotiated period never exceeds the application's own.  If it is changed at all, the new period is
  a multiple of the fundamental one, at least the engine's minimum and at least the target, and no
  shorter than the configured percentage of the requested one; no step of the arithmetic wraps.
\<close>

lemma period_sound:
  assumes "d = choose_period_candidate i target_us p" "pd_valid d"
  shows "pd_candidate_frames d \<le> pr_requested_frames i \<and>
    (if pd_change d
     then unat (pr_fundamental_frames i) dvd unat (pd_candidate_frames d) \<and>
       pr_min_frames i \<le> pd_candidate_frames d \<and> pd_candidate_frames d < pr_requested_frames i \<and>
       pd_target_frames d \<le> pd_candidate_frames d \<and>
       unat (pr_requested_frames i) * (100 - unat (clamp (ucast p) 1 90 :: u32)) \<le> 100 * unat (pd_candidate_frames d)
     else pd_candidate_frames d = pr_requested_frames i)"
proof -
  from assms have ok: "period_in_range i"
    by (simp add: choose_period_candidate_def Let_def split: if_splits)
  then have f: "pr_fundamental_frames i \<noteq> 0" and m: "pr_min_frames i \<le> pr_requested_frames i"
    by (simp_all add: period_in_range_def not_less)
  define t where "t = period_target i target_us"
  show ?thesis
  proof (cases "pr_requested_frames i \<le> t")
    case True
    then show ?thesis using ok assms(1) by (simp add: choose_period_candidate_def Let_def t_def)
  next
    case False
    let ?s = "max t (floor_by_step (pr_requested_frames i) p)"
    let ?a = "align_period_up ?s (pr_fundamental_frames i)"
    define c where "c = clamp ?a (pr_min_frames i) (pr_requested_frames i)"
    have d: "pd_candidate_frames d = c" "pd_change d = (c < pr_requested_frames i)" "pd_target_frames d = t"
      using False ok by (simp_all add: assms(1) choose_period_candidate_def Let_def t_def c_def)
    have le: "pr_min_frames i \<le> c" "c \<le> pr_requested_frames i"
      using clamp_bounds [OF m] by (simp_all add: c_def)
    have "unat (pr_fundamental_frames i) dvd unat c \<and> ?s \<le> c" if lt: "c < pr_requested_frames i"
    proof -
      have "pr_min_frames i \<le> t" using ok clamp_bounds [of "pr_min_frames i" "pr_max_frames i"]
        by (simp add: t_def period_target_def period_in_range_def not_less)
      have "?a \<noteq> u32_max"
      proof
        assume "?a = u32_max"
        then have "\<not> ?a < pr_requested_frames i" by (simp add: not_less)
        then have "c = pr_requested_frames i"
          using m \<open>?a = u32_max\<close> by (auto simp: c_def clamp_def not_less intro: order.antisym)
        with lt show False by simp
      qed
      with align_cases [OF f, of ?s] have a: "?s \<le> ?a" "unat (pr_fundamental_frames i) dvd unat ?a" by auto
      have "pr_min_frames i \<le> ?a"
        using \<open>pr_min_frames i \<le> t\<close> a(1) by (metis max.cobounded1 order_trans)
      then have "c = ?a" using lt by (auto simp: c_def clamp_def split: if_splits)
      with a show ?thesis by simp
    qed
    moreover have "unat (pr_requested_frames i) * (100 - unat (clamp (ucast p) 1 90 :: u32)) \<le> 100 * unat c" if "?s \<le> c"
      using floor_by_step_bound [of "pr_requested_frames i" p] that
      by (simp add: word_le_nat_alt unat_max)
    ultimately show ?thesis using le by (auto simp: d not_less)
  qed
qed

lemma period_sound_sample:
  "let d = choose_period_candidate \<lparr>pr_sample_rate = 48000, pr_requested_frames = 480, pr_default_frames = 480,
      pr_fundamental_frames = 48, pr_min_frames = 96, pr_max_frames = 960\<rparr> 2500 50
   in pd_change d \<and> pd_candidate_frames d = 240 \<and> (48 :: nat) dvd unat (pd_candidate_frames d)"
proof -
  let ?i = "\<lparr>pr_sample_rate = 48000, pr_requested_frames = 480, pr_default_frames = 480,
      pr_fundamental_frames = 48, pr_min_frames = 96, pr_max_frames = 960\<rparr> :: period_range"
  have "pd_valid (choose_period_candidate ?i 2500 50)" "pd_change (choose_period_candidate ?i 2500 50)"
    "pd_candidate_frames (choose_period_candidate ?i 2500 50) = 240"
    by code_simp+
  with period_sound [OF refl this(1)] show ?thesis by (simp add: Let_def)
qed

section \<open>Queue estimate\<close>

datatype queue_confidence = Conf_None | Conf_Padding | Conf_Buffered | Conf_ClockCorrelated

record queue_input =
  qi_render :: bool
  qi_shared :: bool
  qi_initialized :: bool
  qi_sample_rate :: u32
  qi_buffer_frames :: u32
  qi_padding_frames :: u32
  qi_current_period_frames :: u32
  qi_engine_sample_rate :: u32
  qi_default_period_frames :: u32
  qi_device_default_period_100ns :: int
  qi_stream_latency_100ns :: int
  qi_padding_observed_host_ns :: u64
  qi_clock_frequency :: u64
  qi_clock_position :: u64
  qi_clock_qpc_host_ns :: u64
  qi_clock_observed_host_ns :: u64

record queue_estimate =
  qe_valid :: bool
  qe_padding_fresh :: bool
  qe_period_known :: bool
  qe_clock_correlated :: bool
  qe_confidence :: queue_confidence
  qe_sample_rate :: u32
  qe_padding_frames :: u32
  qe_buffer_frames :: u32
  qe_period_frames :: u32
  qe_fill_permille :: u16
  qe_endpoint_queued_ns :: u64
  qe_buffer_capacity_ns :: u64
  qe_available_buffer_ns :: u64
  qe_engine_period_ns :: u64
  qe_stream_latency_ns :: u64
  qe_padding_age_ns :: u64
  qe_clock_sample_age_ns :: u64
  qe_clock_position_ns :: u64

definition queue_none :: queue_estimate where
  "queue_none = \<lparr>qe_valid = False, qe_padding_fresh = False, qe_period_known = False, qe_clock_correlated = False,
     qe_confidence = Conf_None, qe_sample_rate = 0, qe_padding_frames = 0, qe_buffer_frames = 0,
     qe_period_frames = 0, qe_fill_permille = 0, qe_endpoint_queued_ns = 0, qe_buffer_capacity_ns = 0,
     qe_available_buffer_ns = 0, qe_engine_period_ns = 0, qe_stream_latency_ns = 0, qe_padding_age_ns = 0,
     qe_clock_sample_age_ns = 0, qe_clock_position_ns = 0\<rparr>"

definition queue_fill :: "u32 \<Rightarrow> u32 \<Rightarrow> u16" where
  "queue_fill padding buffer = ucast ((ucast (min padding buffer) * 1000 :: u64) div ucast buffer)"

text \<open>The steps of \<open>build_queue_estimate\<close> in order: queued time and age, fill, period, clock.\<close>

definition estimate_levels :: "queue_input \<Rightarrow> u64 \<Rightarrow> u64 \<Rightarrow> queue_estimate \<Rightarrow> queue_estimate" where
  "estimate_levels i now_ns stale_after_ns out =
     (let available_frames = if qi_padding_frames i < qi_buffer_frames i
            then ucast (qi_buffer_frames i - qi_padding_frames i) else 0;
          age = if qi_padding_observed_host_ns i \<le> now_ns then now_ns - qi_padding_observed_host_ns i
            else qe_padding_age_ns out
      in out\<lparr>qe_valid := True,
           qe_endpoint_queued_ns := frames_to_ns (ucast (qi_padding_frames i)) (qi_sample_rate i),
           qe_buffer_capacity_ns := frames_to_ns (ucast (qi_buffer_frames i)) (qi_sample_rate i),
           qe_available_buffer_ns := frames_to_ns available_frames (qi_sample_rate i),
           qe_stream_latency_ns := reference_time_to_ns (qi_stream_latency_100ns i),
           qe_padding_age_ns := age, qe_padding_fresh := age \<le> stale_after_ns\<rparr>)"

definition estimate_fill :: "queue_input \<Rightarrow> queue_estimate \<Rightarrow> queue_estimate" where
  "estimate_fill i out =
     (if qi_buffer_frames i \<noteq> 0
      then out\<lparr>qe_fill_permille := queue_fill (qi_padding_frames i) (qi_buffer_frames i), qe_confidence := Conf_Buffered\<rparr>
      else out\<lparr>qe_confidence := Conf_Padding\<rparr>)"

definition estimate_period :: "queue_input \<Rightarrow> queue_estimate \<Rightarrow> queue_estimate" where
  "estimate_period i out =
     (if qi_current_period_frames i \<noteq> 0 then
        let engine_rate = if qi_engine_sample_rate i \<noteq> 0 then qi_engine_sample_rate i else qi_sample_rate i
        in out\<lparr>qe_period_frames := qi_current_period_frames i,
             qe_engine_period_ns := frames_to_ns (ucast (qi_current_period_frames i)) engine_rate,
             qe_period_known := True\<rparr>
      else if qi_default_period_frames i \<noteq> 0 then
        out\<lparr>qe_period_frames := qi_default_period_frames i,
          qe_engine_period_ns := frames_to_ns (ucast (qi_default_period_frames i)) (qi_sample_rate i),
          qe_period_known := True\<rparr>
      else if 0 < qi_device_default_period_100ns i then
        out\<lparr>qe_engine_period_ns := reference_time_to_ns (qi_device_default_period_100ns i), qe_period_known := True\<rparr>
      else out)"

definition estimate_clock :: "queue_input \<Rightarrow> u64 \<Rightarrow> u64 \<Rightarrow> queue_estimate \<Rightarrow> queue_estimate" where
  "estimate_clock i now_ns stale_after_ns out =
     (if qi_clock_frequency i \<noteq> 0 \<and> qi_clock_observed_host_ns i \<noteq> 0 then
        let clock_not_from_future = qi_clock_observed_host_ns i \<le> now_ns;
            age = if clock_not_from_future then now_ns - qi_clock_observed_host_ns i else qe_clock_sample_age_ns out;
            correlated = clock_not_from_future \<and> age \<le> stale_after_ns \<and> qi_clock_qpc_host_ns i \<noteq> 0
        in out\<lparr>qe_clock_position_ns := rate_units_to_ns (qi_clock_position i) (qi_clock_frequency i),
             qe_clock_sample_age_ns := age, qe_clock_correlated := correlated,
             qe_confidence := if correlated \<and> qe_confidence out = Conf_Buffered
               then Conf_ClockCorrelated else qe_confidence out\<rparr>
      else out)"

definition build_queue_estimate :: "queue_input \<Rightarrow> u64 \<Rightarrow> u64 \<Rightarrow> queue_estimate" where
  "build_queue_estimate i now_ns stale_after_ns =
     (let out = queue_none\<lparr>qe_sample_rate := qi_sample_rate i, qe_padding_frames := qi_padding_frames i,
        qe_buffer_frames := qi_buffer_frames i\<rparr> in
      if \<not> qi_initialized i \<or> \<not> qi_render i \<or> \<not> qi_shared i \<or> qi_sample_rate i = 0 \<or>
         qi_padding_observed_host_ns i = 0 then out
      else estimate_clock i now_ns stale_after_ns
        (estimate_period i (estimate_fill i (estimate_levels i now_ns stale_after_ns out))))"

lemma queue_fill_bound:
  assumes "buffer \<noteq> 0"
  shows "unat (queue_fill padding buffer) = min (unat padding) (unat buffer) * 1000 div unat buffer \<and>
    unat (queue_fill padding buffer) \<le> 1000"
proof -
  have b: "0 < unat buffer" using assms by (simp add: unat_gt_0)
  let ?m = "min (unat padding) (unat buffer)"
  have lt: "?m * 1000 < 18446744073709551616"
    using unat_lt_u32 [of buffer] by linarith
  have "unat (ucast (min padding buffer) * 1000 :: u64) = ?m * 1000"
    using lt by (subst unat_mult_no_overflow) (simp_all add: unat_ucast_up unat_min)
  then have q: "unat ((ucast (min padding buffer) * 1000 :: u64) div ucast buffer) = ?m * 1000 div unat buffer"
    by (simp add: unat_div_distrib unat_ucast_up)
  have "?m * 1000 div unat buffer \<le> unat buffer * 1000 div unat buffer"
    by (intro div_le_mono) simp
  then have le: "?m * 1000 div unat buffer \<le> 1000" using b by simp
  then have "unat (queue_fill padding buffer) = ?m * 1000 div unat buffer"
    using q by (simp add: queue_fill_def unsigned_ucast_eq take_bit_nat_eq_self)
  with le show ?thesis by simp
qed

lemmas estimate_defs = estimate_levels_def estimate_fill_def estimate_period_def estimate_clock_def

text \<open>
  A queue estimate claims only what its input supports: it is valid only for an initialised shared
  render stream with a rate and an observed padding; the queued and available parts of the buffer are
  the exact nanoseconds of their frames; the fill is at most one thousand; freshness means an age
  within the limit; and clock correlation needs a clock sample with a time stamp that is neither from
  the future nor older than the limit.
\<close>

lemma estimate_sound:
  assumes "e = build_queue_estimate i now_ns stale_after_ns"
  shows "(qe_valid e \<longleftrightarrow> qi_initialized i \<and> qi_render i \<and> qi_shared i \<and> qi_sample_rate i \<noteq> 0 \<and>
      qi_padding_observed_host_ns i \<noteq> 0) \<and>
    unat (qe_fill_permille e) \<le> 1000 \<and>
    (qe_valid e \<longrightarrow>
      unat (qe_endpoint_queued_ns e) = unat (qi_padding_frames i) * 1000000000 div unat (qi_sample_rate i) \<and>
      (qi_padding_frames i \<le> qi_buffer_frames i \<longrightarrow> unat (qe_available_buffer_ns e) =
        (unat (qi_buffer_frames i) - unat (qi_padding_frames i)) * 1000000000 div unat (qi_sample_rate i)) \<and>
      (qi_padding_observed_host_ns i \<le> now_ns \<longrightarrow>
        (qe_padding_fresh e \<longleftrightarrow> now_ns - qi_padding_observed_host_ns i \<le> stale_after_ns))) \<and>
    (qe_clock_correlated e \<longrightarrow> qi_clock_frequency i \<noteq> 0 \<and> qi_clock_qpc_host_ns i \<noteq> 0 \<and>
      qi_clock_observed_host_ns i \<le> now_ns \<and> now_ns - qi_clock_observed_host_ns i \<le> stale_after_ns) \<and>
    (qe_confidence e = Conf_ClockCorrelated \<longrightarrow> qe_clock_correlated e \<and> qi_buffer_frames i \<noteq> 0)"
proof (cases "qi_initialized i \<and> qi_render i \<and> qi_shared i \<and> qi_sample_rate i \<noteq> 0 \<and> qi_padding_observed_host_ns i \<noteq> 0")
  case False
  then have "e = queue_none\<lparr>qe_sample_rate := qi_sample_rate i, qe_padding_frames := qi_padding_frames i,
      qe_buffer_frames := qi_buffer_frames i\<rparr>"
    by (auto simp: assms build_queue_estimate_def Let_def)
  then show ?thesis using False by (auto simp: queue_none_def)
next
  case True
  define out where "out = queue_none\<lparr>qe_sample_rate := qi_sample_rate i, qe_padding_frames := qi_padding_frames i,
      qe_buffer_frames := qi_buffer_frames i\<rparr>"
  have e: "e = estimate_clock i now_ns stale_after_ns
      (estimate_period i (estimate_fill i (estimate_levels i now_ns stale_after_ns out)))"
    using True by (simp add: assms build_queue_estimate_def Let_def out_def)
  have out: "qe_fill_permille out = 0" "\<not> qe_clock_correlated out" by (simp_all add: out_def queue_none_def)
  have r: "0 < unat (qi_sample_rate i)" "qi_sample_rate i \<noteq> 0" using True by (simp_all add: unat_gt_0)
  have ns: "unat (frames_to_ns f (qi_sample_rate i)) = unat f * 1000000000 div unat (qi_sample_rate i)"
    if "unat f < 4294967296" for f
  proof -
    have "unat f * 1000000000 div unat (qi_sample_rate i) \<le> 4294967295 * 1000000000"
      using that by (intro le_trans [OF div_le_dividend]) simp
    then show ?thesis using frames_to_ns_exact [OF r(2), of f] by simp
  qed
  have valid: "qe_valid e" by (simp add: e estimate_defs Let_def)
  have queued: "unat (qe_endpoint_queued_ns e) = unat (qi_padding_frames i) * 1000000000 div unat (qi_sample_rate i)"
    using unat_lt_u32 [of "qi_padding_frames i"] by (simp add: e estimate_defs Let_def ns unat_ucast_up)
  have avail: "unat (qe_available_buffer_ns e) =
      (unat (qi_buffer_frames i) - unat (qi_padding_frames i)) * 1000000000 div unat (qi_sample_rate i)"
    if "qi_padding_frames i \<le> qi_buffer_frames i"
  proof -
    have s: "unat (qi_buffer_frames i - qi_padding_frames i) = unat (qi_buffer_frames i) - unat (qi_padding_frames i)"
      using that by (rule unat_sub_le)
    have "qe_available_buffer_ns e = frames_to_ns (if qi_padding_frames i < qi_buffer_frames i
        then ucast (qi_buffer_frames i - qi_padding_frames i) else 0) (qi_sample_rate i)"
      by (simp add: e estimate_defs Let_def)
    then show ?thesis
      using unat_lt_u32 [of "qi_buffer_frames i"] s
      by (auto simp: ns unat_ucast_up word_less_nat_alt)
  qed
  have fill: "unat (qe_fill_permille e) \<le> 1000"
  proof -
    have "qe_fill_permille e =
        (if qi_buffer_frames i \<noteq> 0 then queue_fill (qi_padding_frames i) (qi_buffer_frames i) else 0)"
      using out(1) by (simp add: e estimate_defs Let_def)
    then show ?thesis
      using queue_fill_bound [of "qi_buffer_frames i" "qi_padding_frames i", THEN conjunct2] by simp
  qed
  have clock: "qe_clock_correlated e \<longleftrightarrow> qi_clock_frequency i \<noteq> 0 \<and> qi_clock_observed_host_ns i \<noteq> 0 \<and>
      qi_clock_observed_host_ns i \<le> now_ns \<and> now_ns - qi_clock_observed_host_ns i \<le> stale_after_ns \<and>
      qi_clock_qpc_host_ns i \<noteq> 0"
    using out(2) by (auto simp: e estimate_defs Let_def)
  have conf: "qe_confidence e = Conf_ClockCorrelated \<longrightarrow> qe_clock_correlated e \<and> qi_buffer_frames i \<noteq> 0"
    unfolding clock by (auto simp: e estimate_defs Let_def)
  have fresh: "qe_padding_fresh e \<longleftrightarrow> now_ns - qi_padding_observed_host_ns i \<le> stale_after_ns"
    if "qi_padding_observed_host_ns i \<le> now_ns"
    using that by (simp add: e estimate_defs Let_def)
  show ?thesis
    using True valid queued avail fill clock conf fresh by blast
qed

lemma estimate_sound_sample:
  "unat (qe_endpoint_queued_ns (build_queue_estimate
      \<lparr>qi_render = True, qi_shared = True, qi_initialized = True, qi_sample_rate = 48000, qi_buffer_frames = 960,
       qi_padding_frames = 480, qi_current_period_frames = 480, qi_engine_sample_rate = 0,
       qi_default_period_frames = 0, qi_device_default_period_100ns = 0, qi_stream_latency_100ns = 0,
       qi_padding_observed_host_ns = 1000, qi_clock_frequency = 0, qi_clock_position = 0,
       qi_clock_qpc_host_ns = 0, qi_clock_observed_host_ns = 0\<rparr> 5000 500000000)) = 10000000"
  by (subst estimate_sound [OF refl, THEN conjunct2, THEN conjunct2, THEN conjunct1, THEN mp, THEN conjunct1];
      (subst estimate_sound [OF refl, THEN conjunct1])?) simp_all

end
