(* ===== verification/AudioTimeline.thy ===== *)
theory AudioTimeline
  imports Interfaces ProbeTable AudioModel
begin

text \<open>
  The audio client timeline (\<open>src/audio_timeline.h\<close>, \<open>src/audio_timeline.cpp\<close>): a table of 32 client
  slots and one of 32 clock bindings, both never erased, and process counters.  Every public operation
  is one step.  The tables are refined to partial maps from client addresses to client states and from
  clock addresses to clients.
\<close>

section \<open>Data\<close>

datatype stream_flow = SF_Unknown | SF_Render | SF_Capture
datatype share_mode = SM_Unknown | SM_Shared | SM_Exclusive

record client_state =
  cs_key :: u64
  cs_epoch :: u64
  cs_flow :: stream_flow
  cs_share_mode :: share_mode
  cs_stream_flags :: u32
  cs_sample_rate :: u32
  cs_channels :: u16
  cs_bits_per_sample :: u16
  cs_buffer_frames :: u32
  cs_padding_frames :: u32
  cs_requested_period_frames :: u32
  cs_default_period_frames :: u32
  cs_fundamental_period_frames :: u32
  cs_min_period_frames :: u32
  cs_max_period_frames :: u32
  cs_current_period_frames :: u32
  cs_engine_sample_rate :: u32
  cs_requested_buffer_duration :: int
  cs_requested_periodicity :: int
  cs_stream_latency :: int
  cs_device_default_period :: int
  cs_device_min_period :: int
  cs_padding_observed_host_ns :: u64
  cs_clock_frequency :: u64
  cs_clock_position :: u64
  cs_clock_qpc_host_ns :: u64
  cs_clock_observed_host_ns :: u64
  cs_next_clock_probe_host_ns :: u64
  cs_flags :: u8

record clock_binding =
  cb_key :: u64
  cb_client :: u64

record audio_stats =
  as_clients :: u64
  as_initializations :: u64
  as_starts :: u64
  as_stops :: u64
  as_padding_samples :: u64
  as_period_samples :: u64
  as_clock_bindings :: u64
  as_clock_samples :: u64
  as_active_probes :: u64
  as_active_probe_failures :: u64
  as_queue_model_samples :: u64
  as_queue_total_ns :: u64
  as_queue_max_ns :: u64
  as_dropped :: u64

record audio_timeline =
  at_clients :: "nat \<Rightarrow> client_state"
  at_clocks :: "nat \<Rightarrow> clock_binding"
  at_stats :: audio_stats

definition kClientSlots :: nat where "kClientSlots = 32"
definition kClockSlots :: nat where "kClockSlots = 32"

definition AF_Initialized :: u8 where "AF_Initialized = shl1 0"
definition AF_Running :: u8 where "AF_Running = shl1 1"
definition AF_SharedStreamV3 :: u8 where "AF_SharedStreamV3 = shl1 2"
definition AF_ActiveProbeAttempted :: u8 where "AF_ActiveProbeAttempted = shl1 3"
definition AF_PeriodProbeValid :: u8 where "AF_PeriodProbeValid = shl1 4"
definition AF_ClockProbeValid :: u8 where "AF_ClockProbeValid = shl1 5"
definition AF_QueueModelLogged :: u8 where "AF_QueueModelLogged = shl1 6"
definition AF_Initializing :: u8 where "AF_Initializing = shl1 7"

lemmas audio_flag_defs = AF_Initialized_def AF_Running_def AF_SharedStreamV3_def AF_ActiveProbeAttempted_def
  AF_PeriodProbeValid_def AF_ClockProbeValid_def AF_QueueModelLogged_def AF_Initializing_def

section \<open>The tables\<close>

definition slot_start :: "u64 \<Rightarrow> nat \<Rightarrow> nat" where
  "slot_start key capacity = unat (drop_bit 4 key XOR drop_bit 13 key) mod capacity"

abbreviation client_keys :: "audio_timeline \<Rightarrow> nat \<Rightarrow> u64" where
  "client_keys t \<equiv> \<lambda>i. cs_key (at_clients t i)"

abbreviation clock_keys :: "audio_timeline \<Rightarrow> nat \<Rightarrow> u64" where
  "clock_keys t \<equiv> \<lambda>i. cb_key (at_clocks t i)"

abbreviation client_order :: "u64 \<Rightarrow> nat list" where
  "client_order k \<equiv> probe_order kClientSlots (slot_start k kClientSlots)"

abbreviation clock_order :: "u64 \<Rightarrow> nat list" where
  "clock_order k \<equiv> probe_order kClockSlots (slot_start k kClockSlots)"

definition audio_find :: "audio_timeline \<Rightarrow> u64 \<Rightarrow> nat option" where
  "audio_find t client = (if client = 0 then None else find_stop (client_keys t) client (client_order client))"

definition put_client :: "audio_timeline \<Rightarrow> nat \<Rightarrow> client_state \<Rightarrow> audio_timeline" where
  "put_client t i s = t\<lparr>at_clients := (at_clients t)(i := s)\<rparr>"

definition count_stat :: "(audio_stats \<Rightarrow> audio_stats) \<Rightarrow> audio_timeline \<Rightarrow> audio_timeline" where
  "count_stat f t = t\<lparr>at_stats := f (at_stats t)\<rparr>"

definition client_zero :: client_state where
  "client_zero = \<lparr>cs_key = 0, cs_epoch = 0, cs_flow = SF_Unknown, cs_share_mode = SM_Unknown, cs_stream_flags = 0,
     cs_sample_rate = 0, cs_channels = 0, cs_bits_per_sample = 0, cs_buffer_frames = 0, cs_padding_frames = 0,
     cs_requested_period_frames = 0, cs_default_period_frames = 0, cs_fundamental_period_frames = 0,
     cs_min_period_frames = 0, cs_max_period_frames = 0, cs_current_period_frames = 0,
     cs_engine_sample_rate = 0, cs_requested_buffer_duration = 0, cs_requested_periodicity = 0,
     cs_stream_latency = 0, cs_device_default_period = 0, cs_device_min_period = 0,
     cs_padding_observed_host_ns = 0, cs_clock_frequency = 0, cs_clock_position = 0, cs_clock_qpc_host_ns = 0,
     cs_clock_observed_host_ns = 0, cs_next_clock_probe_host_ns = 0, cs_flags = 0\<rparr>"

text \<open>A claimed slot: every field is reset, the epoch goes up, the key is published last.\<close>

definition claimed :: "u64 \<Rightarrow> u64 \<Rightarrow> stream_flow \<Rightarrow> client_state" where
  "claimed epoch client flow = client_zero\<lparr>cs_key := client, cs_epoch := epoch + 1, cs_flow := flow\<rparr>"

definition set_flow :: "stream_flow \<Rightarrow> client_state \<Rightarrow> client_state" where
  "set_flow flow s = (if flow \<noteq> SF_Unknown then s\<lparr>cs_flow := flow\<rparr> else s)"

definition audio_find_or_claim :: "audio_timeline \<Rightarrow> u64 \<Rightarrow> stream_flow \<Rightarrow> audio_timeline \<times> nat option" where
  "audio_find_or_claim t client flow =
     (if client = 0 then (t, None)
      else case audio_find t client of
        Some i \<Rightarrow> (put_client t i (set_flow flow (at_clients t i)), Some i)
      | None \<Rightarrow>
          (case first_free (client_keys t) (client_order client) of
             Some i \<Rightarrow>
               (count_stat (\<lambda>n. n\<lparr>as_clients := as_clients n + 1\<rparr>)
                  (put_client t i (claimed (cs_epoch (at_clients t i)) client flow)), Some i)
           | None \<Rightarrow> (count_stat (\<lambda>n. n\<lparr>as_dropped := as_dropped n + 1\<rparr>) t, None)))"

definition register_client :: "audio_timeline \<Rightarrow> u64 \<Rightarrow> stream_flow \<Rightarrow> audio_timeline" where
  "register_client t client flow = fst (audio_find_or_claim t client flow)"

section \<open>Operations\<close>

text \<open>
  Most operations are \<open>if (auto* state = find(client))\<close> with stores to the slot and to the counters:
  \<open>f\<close> is what they do to the slot, \<open>g\<close>, given the slot's state before, to the counters.
\<close>

definition on_client ::
  "audio_timeline \<Rightarrow> u64 \<Rightarrow> (client_state \<Rightarrow> client_state) \<Rightarrow> (client_state \<Rightarrow> audio_stats \<Rightarrow> audio_stats) \<Rightarrow> audio_timeline" where
  "on_client t client f g =
     (case audio_find t client of
        None \<Rightarrow> t
      | Some i \<Rightarrow> count_stat (g (at_clients t i)) (put_client t i (f (at_clients t i))))"

text \<open>The second initialisation of a slot: everything but the key and, for an unknown flow, the flow.\<close>

definition initialized ::
  "stream_flow \<Rightarrow> share_mode \<Rightarrow> u32 \<Rightarrow> u32 \<Rightarrow> u16 \<Rightarrow> u16 \<Rightarrow> int \<Rightarrow> int \<Rightarrow> bool \<Rightarrow> u32 \<Rightarrow> client_state \<Rightarrow> client_state" where
  "initialized flow mode stream_flags sample_rate channels bits duration periodicity v3 requested_period s =
     client_zero\<lparr>cs_key := cs_key s, cs_epoch := cs_epoch s + 1,
       cs_flow := (if flow \<noteq> SF_Unknown then flow else cs_flow s),
       cs_share_mode := mode, cs_stream_flags := stream_flags, cs_sample_rate := sample_rate,
       cs_channels := channels, cs_bits_per_sample := bits, cs_requested_buffer_duration := duration,
       cs_requested_periodicity := periodicity, cs_requested_period_frames := requested_period,
       cs_flags := (if v3 then AF_Initialized OR AF_SharedStreamV3 else AF_Initialized)\<rparr>"

definition audio_on_initialize ::
  "audio_timeline \<Rightarrow> u64 \<Rightarrow> stream_flow \<Rightarrow> share_mode \<Rightarrow> u32 \<Rightarrow> u32 \<Rightarrow> u16 \<Rightarrow> u16 \<Rightarrow> int \<Rightarrow> int \<Rightarrow> bool \<Rightarrow> u32 \<Rightarrow>
   audio_timeline" where
  "audio_on_initialize t client flow mode stream_flags sample_rate channels bits duration periodicity v3 requested_period =
     (case audio_find_or_claim t client flow of
        (t, None) \<Rightarrow> t
      | (t, Some i) \<Rightarrow>
          count_stat (\<lambda>n. n\<lparr>as_initializations := as_initializations n + 1\<rparr>)
            (put_client t i (initialized flow mode stream_flags sample_rate channels bits duration periodicity v3
               requested_period (at_clients t i))))"

definition audio_on_buffer_size :: "audio_timeline \<Rightarrow> u64 \<Rightarrow> u32 \<Rightarrow> audio_timeline" where
  "audio_on_buffer_size t client frames = on_client t client (\<lambda>s. s\<lparr>cs_buffer_frames := frames\<rparr>) (\<lambda>_ n. n)"

definition padding_counts :: "u32 \<Rightarrow> client_state \<Rightarrow> audio_stats \<Rightarrow> audio_stats" where
  "padding_counts frames s n =
     (let n = n\<lparr>as_padding_samples := as_padding_samples n + 1\<rparr> in
      if cs_flow s = SF_Render \<and> cs_share_mode s = SM_Shared \<and> cs_sample_rate s \<noteq> 0 then
        let queued_ns = frames_to_ns (ucast frames) (cs_sample_rate s) in
        n\<lparr>as_queue_model_samples := as_queue_model_samples n + 1, as_queue_total_ns := as_queue_total_ns n + queued_ns,
          as_queue_max_ns := (if as_queue_max_ns n < queued_ns then queued_ns else as_queue_max_ns n)\<rparr>
      else n)"

definition audio_on_padding :: "audio_timeline \<Rightarrow> u64 \<Rightarrow> u32 \<Rightarrow> u64 \<Rightarrow> audio_timeline" where
  "audio_on_padding t client frames host_ns =
     on_client t client (\<lambda>s. s\<lparr>cs_padding_frames := frames, cs_padding_observed_host_ns := host_ns\<rparr>)
       (padding_counts frames)"

definition audio_on_stream_latency :: "audio_timeline \<Rightarrow> u64 \<Rightarrow> int \<Rightarrow> audio_timeline" where
  "audio_on_stream_latency t client latency = on_client t client (\<lambda>s. s\<lparr>cs_stream_latency := latency\<rparr>) (\<lambda>_ n. n)"

definition audio_on_device_period :: "audio_timeline \<Rightarrow> u64 \<Rightarrow> int \<Rightarrow> int \<Rightarrow> audio_timeline" where
  "audio_on_device_period t client default_period min_period =
     on_client t client (\<lambda>s. s\<lparr>cs_device_default_period := default_period, cs_device_min_period := min_period\<rparr>) (\<lambda>_ n. n)"

definition count_period :: "client_state \<Rightarrow> audio_stats \<Rightarrow> audio_stats" where
  "count_period s n = n\<lparr>as_period_samples := as_period_samples n + 1\<rparr>"

definition audio_on_period_range :: "audio_timeline \<Rightarrow> u64 \<Rightarrow> u32 \<Rightarrow> u32 \<Rightarrow> u32 \<Rightarrow> u32 \<Rightarrow> audio_timeline" where
  "audio_on_period_range t client default_frames fundamental_frames min_frames max_frames =
     on_client t client (\<lambda>s. s\<lparr>cs_default_period_frames := default_frames,
       cs_fundamental_period_frames := fundamental_frames, cs_min_period_frames := min_frames,
       cs_max_period_frames := max_frames\<rparr>) count_period"

definition audio_on_current_period :: "audio_timeline \<Rightarrow> u64 \<Rightarrow> u32 \<Rightarrow> u32 \<Rightarrow> audio_timeline" where
  "audio_on_current_period t client current_frames sample_rate =
     on_client t client (\<lambda>s.
       let s = s\<lparr>cs_current_period_frames := current_frames\<rparr>
       in if sample_rate \<noteq> 0 then s\<lparr>cs_engine_sample_rate := sample_rate\<rparr> else s) count_period"

definition audio_on_start :: "audio_timeline \<Rightarrow> u64 \<Rightarrow> audio_timeline" where
  "audio_on_start t client =
     on_client t client (\<lambda>s. s\<lparr>cs_flags := cs_flags s OR AF_Running\<rparr>) (\<lambda>_ n. n\<lparr>as_starts := as_starts n + 1\<rparr>)"

definition audio_on_stop :: "audio_timeline \<Rightarrow> u64 \<Rightarrow> audio_timeline" where
  "audio_on_stop t client =
     on_client t client (\<lambda>s. s\<lparr>cs_flags := cs_flags s AND NOT AF_Running\<rparr>) (\<lambda>_ n. n\<lparr>as_stops := as_stops n + 1\<rparr>)"

definition probe_bits :: "bool \<Rightarrow> bool \<Rightarrow> u8" where
  "probe_bits period_valid clock_valid =
     AF_ActiveProbeAttempted OR (if period_valid then AF_PeriodProbeValid else 0) OR
       (if clock_valid then AF_ClockProbeValid else 0)"

definition audio_on_active_probe :: "audio_timeline \<Rightarrow> u64 \<Rightarrow> bool \<Rightarrow> bool \<Rightarrow> audio_timeline" where
  "audio_on_active_probe t client period_valid clock_valid =
     on_client t client (\<lambda>s. s\<lparr>cs_flags := cs_flags s OR probe_bits period_valid clock_valid\<rparr>)
       (\<lambda>_ n. let n = n\<lparr>as_active_probes := as_active_probes n + 1\<rparr>
         in if \<not> period_valid \<and> \<not> clock_valid then n\<lparr>as_active_probe_failures := as_active_probe_failures n + 1\<rparr> else n)"

text \<open>The next clock probe: due when none was scheduled or its time has come; the sum saturates.\<close>

definition probe_due :: "u64 \<Rightarrow> client_state \<Rightarrow> bool" where
  "probe_due host_ns s \<longleftrightarrow> \<not> (cs_next_clock_probe_host_ns s \<noteq> 0 \<and> host_ns < cs_next_clock_probe_host_ns s)"

definition next_probe :: "u64 \<Rightarrow> u64 \<Rightarrow> u64" where
  "next_probe host_ns interval_ns = (if u64_max - interval_ns < host_ns then u64_max else host_ns + interval_ns)"

definition audio_should_probe_clock :: "audio_timeline \<Rightarrow> u64 \<Rightarrow> u64 \<Rightarrow> u64 \<Rightarrow> audio_timeline \<times> bool" where
  "audio_should_probe_clock t client host_ns interval_ns =
     (case audio_find t client of
        None \<Rightarrow> (t, False)
      | Some i \<Rightarrow>
          if \<not> probe_due host_ns (at_clients t i) then (t, False)
          else (put_client t i ((at_clients t i)\<lparr>cs_next_clock_probe_host_ns := next_probe host_ns interval_ns\<rparr>), True))"

definition audio_mark_queue_model_logged :: "audio_timeline \<Rightarrow> u64 \<Rightarrow> audio_timeline \<times> bool" where
  "audio_mark_queue_model_logged t client =
     (case audio_find t client of
        None \<Rightarrow> (t, False)
      | Some i \<Rightarrow>
          if cs_flags (at_clients t i) AND AF_QueueModelLogged = 0
          then (put_client t i ((at_clients t i)\<lparr>cs_flags := cs_flags (at_clients t i) OR AF_QueueModelLogged\<rparr>), True)
          else (t, False))"

definition audio_queue_model_logged :: "audio_timeline \<Rightarrow> u64 \<Rightarrow> bool" where
  "audio_queue_model_logged t client =
     (case audio_find t client of
        None \<Rightarrow> False
      | Some i \<Rightarrow> cs_flags (at_clients t i) AND AF_QueueModelLogged \<noteq> 0)"

definition audio_clock_frequency :: "audio_timeline \<Rightarrow> u64 \<Rightarrow> u64" where
  "audio_clock_frequency t client =
     (case audio_find t client of None \<Rightarrow> 0 | Some i \<Rightarrow> cs_clock_frequency (at_clients t i))"

section \<open>Clock bindings\<close>

text \<open>The loop of \<open>bind_clock\<close> over the probe order.\<close>

fun bind_loop :: "audio_timeline \<Rightarrow> u64 \<Rightarrow> u64 \<Rightarrow> nat list \<Rightarrow> audio_timeline" where
  "bind_loop t clock client [] = count_stat (\<lambda>n. n\<lparr>as_dropped := as_dropped n + 1\<rparr>) t"
| "bind_loop t clock client (i # is) =
     (if clock_keys t i = clock then t\<lparr>at_clocks := (at_clocks t)(i := (at_clocks t i)\<lparr>cb_client := client\<rparr>)\<rparr>
      else if clock_keys t i \<noteq> 0 then bind_loop t clock client is
      else count_stat (\<lambda>n. n\<lparr>as_clock_bindings := as_clock_bindings n + 1\<rparr>)
        (t\<lparr>at_clocks := (at_clocks t)(i := \<lparr>cb_key = clock, cb_client = client\<rparr>)\<rparr>))"

definition audio_bind_clock :: "audio_timeline \<Rightarrow> u64 \<Rightarrow> u64 \<Rightarrow> audio_timeline" where
  "audio_bind_clock t clock client =
     (if clock = 0 \<or> client = 0 then t else bind_loop t clock client (clock_order clock))"

definition clock_find :: "audio_timeline \<Rightarrow> u64 \<Rightarrow> nat option" where
  "clock_find t clock = (if clock = 0 then None else find_stop (clock_keys t) clock (clock_order clock))"

definition client_for_clock :: "audio_timeline \<Rightarrow> u64 \<Rightarrow> u64" where
  "client_for_clock t clock = (case clock_find t clock of None \<Rightarrow> 0 | Some i \<Rightarrow> cb_client (at_clocks t i))"

text \<open>
  The calling thread's cache for this timeline, a clock and its slot, and the lookup through it with
  the cache it leaves.
\<close>

type_synonym clock_cache = "(u64 \<times> nat) option"

definition cached_client_for_clock :: "clock_cache \<Rightarrow> audio_timeline \<Rightarrow> u64 \<Rightarrow> u64 \<times> clock_cache" where
  "cached_client_for_clock cache t clock =
     (if clock = 0 then (0, cache)
      else if (case cache of Some (c, i) \<Rightarrow> c = clock \<and> clock_keys t i = clock | None \<Rightarrow> False)
      then (case cache of Some (c, i) \<Rightarrow> (cb_client (at_clocks t i), cache) | None \<Rightarrow> (0, cache))
      else (case clock_find t clock of
          None \<Rightarrow> (0, cache)
        | Some i \<Rightarrow> (cb_client (at_clocks t i), Some (clock, i))))"

definition audio_on_client_clock_frequency :: "audio_timeline \<Rightarrow> u64 \<Rightarrow> u64 \<Rightarrow> audio_timeline" where
  "audio_on_client_clock_frequency t client frequency =
     on_client t client (\<lambda>s. s\<lparr>cs_clock_frequency := frequency\<rparr>) (\<lambda>_ n. n)"

definition audio_on_client_clock_position :: "audio_timeline \<Rightarrow> u64 \<Rightarrow> u64 \<Rightarrow> u64 \<Rightarrow> u64 \<Rightarrow> audio_timeline" where
  "audio_on_client_clock_position t client position qpc_host_ns observed_host_ns =
     on_client t client (\<lambda>s. s\<lparr>cs_clock_position := position, cs_clock_qpc_host_ns := qpc_host_ns,
       cs_clock_observed_host_ns := observed_host_ns\<rparr>) (\<lambda>_ n. n\<lparr>as_clock_samples := as_clock_samples n + 1\<rparr>)"

definition audio_on_clock_frequency :: "audio_timeline \<Rightarrow> u64 \<Rightarrow> u64 \<Rightarrow> audio_timeline" where
  "audio_on_clock_frequency t clock frequency = audio_on_client_clock_frequency t (client_for_clock t clock) frequency"

definition audio_on_clock_position :: "audio_timeline \<Rightarrow> u64 \<Rightarrow> u64 \<Rightarrow> u64 \<Rightarrow> u64 \<Rightarrow> audio_timeline" where
  "audio_on_clock_position t clock position qpc_host_ns observed_host_ns =
     audio_on_client_clock_position t (client_for_clock t clock) position qpc_host_ns observed_host_ns"

section \<open>Queries\<close>

record client_token =
  ct_state :: client_state
  ct_initialized :: bool
  ct_running :: bool
  ct_shared_stream_v3 :: bool
  ct_active_probe_attempted :: bool
  ct_period_probe_valid :: bool
  ct_clock_probe_valid :: bool

text \<open>The token of a slot whose key is the client; none while the slot is being initialised.\<close>

definition audio_token_from :: "client_state \<Rightarrow> client_token option" where
  "audio_token_from s =
     (if cs_flags s AND AF_Initializing \<noteq> 0 then None
      else Some \<lparr>ct_state = s, ct_initialized = (cs_flags s AND AF_Initialized \<noteq> 0),
        ct_running = (cs_flags s AND AF_Running \<noteq> 0), ct_shared_stream_v3 = (cs_flags s AND AF_SharedStreamV3 \<noteq> 0),
        ct_active_probe_attempted = (cs_flags s AND AF_ActiveProbeAttempted \<noteq> 0),
        ct_period_probe_valid = (cs_flags s AND AF_PeriodProbeValid \<noteq> 0),
        ct_clock_probe_valid = (cs_flags s AND AF_ClockProbeValid \<noteq> 0)\<rparr>)"

definition audio_client :: "audio_timeline \<Rightarrow> u64 \<Rightarrow> client_token option" where
  "audio_client t client =
     (case audio_find t client of None \<Rightarrow> None | Some i \<Rightarrow> audio_token_from (at_clients t i))"

definition queue_input_of :: "client_token \<Rightarrow> queue_input" where
  "queue_input_of k = (let s = ct_state k in
     \<lparr>qi_render = (cs_flow s = SF_Render), qi_shared = (cs_share_mode s = SM_Shared),
      qi_initialized = ct_initialized k, qi_sample_rate = cs_sample_rate s, qi_buffer_frames = cs_buffer_frames s,
      qi_padding_frames = cs_padding_frames s, qi_current_period_frames = cs_current_period_frames s,
      qi_engine_sample_rate = cs_engine_sample_rate s, qi_default_period_frames = cs_default_period_frames s,
      qi_device_default_period_100ns = cs_device_default_period s, qi_stream_latency_100ns = cs_stream_latency s,
      qi_padding_observed_host_ns = cs_padding_observed_host_ns s, qi_clock_frequency = cs_clock_frequency s,
      qi_clock_position = cs_clock_position s, qi_clock_qpc_host_ns = cs_clock_qpc_host_ns s,
      qi_clock_observed_host_ns = cs_clock_observed_host_ns s\<rparr>)"

definition audio_queue_estimate :: "audio_timeline \<Rightarrow> u64 \<Rightarrow> u64 \<Rightarrow> u64 \<Rightarrow> queue_estimate" where
  "audio_queue_estimate t client now_ns stale_after_ns =
     (case audio_client t client of
        None \<Rightarrow> queue_none
      | Some k \<Rightarrow> build_queue_estimate (queue_input_of k) now_ns stale_after_ns)"

section \<open>The tables are maps\<close>

definition audio_ok :: "audio_timeline \<Rightarrow> bool" where
  "audio_ok t \<longleftrightarrow> probes_ok kClientSlots (\<lambda>k. slot_start k kClientSlots) (client_keys t) \<and>
     probes_ok kClockSlots (\<lambda>k. slot_start k kClockSlots) (clock_keys t) \<and>
     (\<forall>i < kClientSlots. client_keys t i = 0 \<longrightarrow> cs_epoch (at_clients t i) = 0)"

definition audio_empty :: audio_timeline where
  "audio_empty = \<lparr>at_clients = (\<lambda>_. client_zero), at_clocks = (\<lambda>_. \<lparr>cb_key = 0, cb_client = 0\<rparr>),
     at_stats = \<lparr>as_clients = 0, as_initializations = 0, as_starts = 0, as_stops = 0, as_padding_samples = 0,
       as_period_samples = 0, as_clock_bindings = 0, as_clock_samples = 0, as_active_probes = 0,
       as_active_probe_failures = 0, as_queue_model_samples = 0, as_queue_total_ns = 0, as_queue_max_ns = 0,
       as_dropped = 0\<rparr>\<rparr>"

definition clients_map :: "audio_timeline \<Rightarrow> u64 \<Rightarrow> client_state option" where
  "clients_map t client = map_option (at_clients t) (audio_find t client)"

definition clocks_map :: "audio_timeline \<Rightarrow> u64 \<Rightarrow> u64 option" where
  "clocks_map t clock = map_option (\<lambda>i. cb_client (at_clocks t i)) (clock_find t clock)"

lemma audio_ok_empty: "audio_ok audio_empty"
  by (simp add: audio_ok_def audio_empty_def client_zero_def probes_ok_empty)

lemma slots_pos: "0 < kClientSlots" "0 < kClockSlots"
  by (simp_all add: kClientSlots_def kClockSlots_def)

lemma audio_find_iff:
  assumes "audio_ok t"
  shows "audio_find t c = Some i \<longleftrightarrow> c \<noteq> 0 \<and> i < kClientSlots \<and> client_keys t i = c"
  using assms find_stop_iff [of kClientSlots "\<lambda>k. slot_start k kClientSlots" "client_keys t" c i] slots_pos(1)
  by (auto simp: audio_find_def audio_ok_def)

lemma clock_find_iff:
  assumes "audio_ok t"
  shows "clock_find t k = Some i \<longleftrightarrow> k \<noteq> 0 \<and> i < kClockSlots \<and> clock_keys t i = k"
  using assms find_stop_iff [of kClockSlots "\<lambda>k. slot_start k kClockSlots" "clock_keys t" k i] slots_pos(2)
  by (auto simp: clock_find_def audio_ok_def)

lemma audio_find_key_unique:
  assumes "audio_ok t" "audio_find t c = Some i" "audio_find t d = Some i"
  shows "c = d"
  using assms by (simp add: audio_find_iff)

text \<open>Storing into a found slot without touching its key.\<close>

lemma put_slots: "at_clients (put_client t i s) = (at_clients t)(i := s)"
  by (simp add: put_client_def)

lemma put_keys:
  assumes "cs_key s = client_keys t i"
  shows "client_keys (put_client t i s) = client_keys t"
  using assms by (auto simp: put_client_def)

lemma put_ok:
  assumes "audio_ok t" "audio_find t c = Some i" "cs_key s = c"
  shows "audio_ok (put_client t i s) \<and> audio_find (put_client t i s) = audio_find t \<and>
    clients_map (put_client t i s) = (clients_map t)(c \<mapsto> s) \<and> clocks_map (put_client t i s) = clocks_map t"
proof -
  from assms have i: "c \<noteq> 0" "i < kClientSlots" "client_keys t i = c" by (simp_all add: audio_find_iff)
  have k: "client_keys (put_client t i s) = client_keys t"
    using i(3) assms(3) by (intro put_keys) simp
  have f: "audio_find (put_client t i s) = audio_find t"
    by (rule ext) (simp only: audio_find_def k)
  have c: "clock_find (put_client t i s) = clock_find t" "at_clocks (put_client t i s) = at_clocks t"
    by (simp_all add: clock_find_def put_client_def fun_eq_iff)
  have "audio_ok (put_client t i s)"
    unfolding audio_ok_def k using assms(1,3) i by (auto simp: audio_ok_def put_client_def)
  moreover have "clients_map (put_client t i s) d = ((clients_map t)(c \<mapsto> s)) d" for d
  proof (cases "d = c")
    case False
    then have "audio_find t d \<noteq> Some i" using audio_find_key_unique [OF assms(1,2), of d] by blast
    then show ?thesis using False by (cases "audio_find t d") (simp_all add: clients_map_def f put_slots)
  qed (simp add: clients_map_def f put_slots assms(2))
  ultimately show ?thesis using f c by (auto simp: clocks_map_def)
qed

lemma count_frame [simp]:
  "audio_ok (count_stat g t) = audio_ok t" "audio_find (count_stat g t) = audio_find t"
  "clients_map (count_stat g t) = clients_map t" "clocks_map (count_stat g t) = clocks_map t"
  "at_clients (count_stat g t) = at_clients t" "at_clocks (count_stat g t) = at_clocks t"
  by (auto simp: count_stat_def audio_ok_def audio_find_def clients_map_def clocks_map_def clock_find_def fun_eq_iff)

lemma clients_room:
  assumes "audio_ok t"
  shows "first_free (client_keys t) (client_order c) \<noteq> None \<longleftrightarrow> card (dom (clients_map t)) < kClientSlots"
proof -
  have "card (dom (clients_map t)) = card {i. i < kClientSlots \<and> client_keys t i \<noteq> 0}"
    unfolding clients_map_def
    using audio_find_iff [OF assms] keys_unique [of kClientSlots "\<lambda>k. slot_start k kClientSlots" "client_keys t"] assms
    by (intro map_card) (auto simp: audio_ok_def)
  then show ?thesis by (simp only: first_free_room [OF slots_pos(1)])
qed

lemma clocks_room:
  assumes "audio_ok t"
  shows "first_free (clock_keys t) (clock_order c) \<noteq> None \<longleftrightarrow> card (dom (clocks_map t)) < kClockSlots"
proof -
  have "card (dom (clocks_map t)) = card {i. i < kClockSlots \<and> clock_keys t i \<noteq> 0}"
    unfolding clocks_map_def
    using clock_find_iff [OF assms] keys_unique [of kClockSlots "\<lambda>k. slot_start k kClockSlots" "clock_keys t"] assms
    by (intro map_card) (auto simp: audio_ok_def)
  then show ?thesis by (simp only: first_free_room [OF slots_pos(2)])
qed

lemma claim_new:
  assumes "audio_ok t" "c \<noteq> 0" "audio_find t c = None" "first_free (client_keys t) (client_order c) = Some i"
    and "cs_key s = c"
  shows "audio_ok (put_client t i s) \<and> clients_map (put_client t i s) = (clients_map t)(c \<mapsto> s) \<and>
    clocks_map (put_client t i s) = clocks_map t \<and> audio_find (put_client t i s) c = Some i \<and>
    cs_epoch (at_clients t i) = 0"
proof -
  have P: "probes_ok kClientSlots (\<lambda>k. slot_start k kClientSlots) ((client_keys t)(i := c)) \<and> i < kClientSlots \<and> client_keys t i = 0"
    using assms slots_pos(1) by (intro claim_probes_ok) (simp_all add: audio_ok_def audio_find_def)
  have k: "client_keys (put_client t i s) = (client_keys t)(i := c)"
    using assms(5) by (auto simp: put_client_def)
  have c: "clock_find (put_client t i s) = clock_find t" "at_clocks (put_client t i s) = at_clocks t"
    by (simp_all add: clock_find_def put_client_def fun_eq_iff)
  have ok: "audio_ok (put_client t i s)"
    using P assms(1) by (simp add: audio_ok_def k) (auto simp: put_client_def assms(2,5))
  have f: "audio_find (put_client t i s) d = (if d = c then Some i else audio_find t d)" for d
  proof (cases "d = c")
    case True
    have "client_keys (put_client t i s) i = c" by (simp add: put_client_def assms(5))
    then show ?thesis using True audio_find_iff [OF ok, of c i] P assms(2) by simp
  next
    case False
    have kj: "client_keys (put_client t i s) j = (if j = i then c else client_keys t j)" for j
      using fun_cong [OF k, of j] by simp
    have "audio_find (put_client t i s) d = Some j \<longleftrightarrow> audio_find t d = Some j" for j
      unfolding audio_find_iff [OF ok] audio_find_iff [OF assms(1)] kj using P False by auto
    then show ?thesis using False by (metis option.exhaust)
  qed
  have "clients_map (put_client t i s) d = ((clients_map t)(c \<mapsto> s)) d" for d
  proof (cases "d = c")
    case False
    then have "audio_find t d \<noteq> Some i" using P audio_find_iff [OF assms(1), of d i] by auto
    then show ?thesis using False by (cases "audio_find t d") (auto simp: clients_map_def f put_slots)
  qed (simp add: clients_map_def f put_slots)
  then show ?thesis using ok f c P assms(1) by (auto simp: clocks_map_def audio_ok_def)
qed

section \<open>The abstract timeline\<close>

record audio_spec =
  sp_clients :: "u64 \<Rightarrow> client_state option"
  sp_clocks :: "u64 \<Rightarrow> u64 option"

definition spec_claim :: "(u64 \<Rightarrow> client_state option) \<Rightarrow> u64 \<Rightarrow> stream_flow \<Rightarrow> u64 \<Rightarrow> client_state option" where
  "spec_claim m c flow =
     (if c = 0 then m
      else case m c of
        Some s \<Rightarrow> m(c \<mapsto> set_flow flow s)
      | None \<Rightarrow> if card (dom m) < kClientSlots then m(c \<mapsto> claimed 0 c flow) else m)"

definition spec_on :: "(u64 \<Rightarrow> client_state option) \<Rightarrow> u64 \<Rightarrow> (client_state \<Rightarrow> client_state) \<Rightarrow> u64 \<Rightarrow> client_state option" where
  "spec_on m c f = (case m c of None \<Rightarrow> m | Some s \<Rightarrow> m(c \<mapsto> f s))"

definition audio_abs :: "audio_timeline \<Rightarrow> audio_spec" where
  "audio_abs t = \<lparr>sp_clients = clients_map t, sp_clocks = clocks_map t\<rparr>"

lemma set_flow_key [simp]: "cs_key (set_flow flow s) = cs_key s"
  by (simp add: set_flow_def)

lemma claimed_key [simp]: "cs_key (claimed e c flow) = c"
  by (simp add: claimed_def)

lemma found_key: "audio_ok t \<Longrightarrow> audio_find t c = Some i \<Longrightarrow> cs_key (at_clients t i) = c"
  by (simp add: audio_find_iff)

lemma find_or_claim_spec:
  assumes "audio_ok t" "audio_find_or_claim t c flow = (t', r)"
  shows "audio_ok t' \<and> audio_abs t' = (audio_abs t)\<lparr>sp_clients := spec_claim (clients_map t) c flow\<rparr> \<and>
    audio_find t' c = r \<and> (r = None \<longrightarrow> clients_map t' c = None)"
proof (cases "c = 0")
  case True
  then show ?thesis
    using assms by (auto simp: audio_find_or_claim_def spec_claim_def audio_abs_def audio_find_def clients_map_def)
next
  case nz: False
  show ?thesis
  proof (cases "audio_find t c")
    case (Some i)
    have t': "t' = put_client t i (set_flow flow (at_clients t i))" "r = Some i"
      using assms(2) nz Some by (auto simp: audio_find_or_claim_def)
    have m: "clients_map t c = Some (at_clients t i)" by (simp add: clients_map_def Some)
    show ?thesis
      using put_ok [OF assms(1) Some, of "set_flow flow (at_clients t i)"] found_key [OF assms(1) Some] nz m Some
      by (simp add: t' audio_abs_def spec_claim_def)
  next
    case None
    show ?thesis
    proof (cases "first_free (client_keys t) (client_order c)")
      case free: None
      then have "\<not> card (dom (clients_map t)) < kClientSlots" using clients_room [OF assms(1), of c] by simp
      have t': "t' = count_stat (\<lambda>n. n\<lparr>as_dropped := as_dropped n + 1\<rparr>) t" "r = None"
        using assms(2) nz None free by (auto simp: audio_find_or_claim_def)
      have m: "clients_map t c = None" by (simp add: clients_map_def None)
      show ?thesis
        using assms(1) nz None m \<open>\<not> card (dom (clients_map t)) < kClientSlots\<close>
        by (simp add: t' audio_abs_def spec_claim_def)
    next
      case free: (Some i)
      then have room: "card (dom (clients_map t)) < kClientSlots" using clients_room [OF assms(1), of c] by simp
      note N = claim_new [OF assms(1) nz None free claimed_key, of 0 flow]
      have t': "t' = count_stat (\<lambda>n. n\<lparr>as_clients := as_clients n + 1\<rparr>) (put_client t i (claimed 0 c flow))" "r = Some i"
        using assms(2) nz None free N by (auto simp: audio_find_or_claim_def)
      have m: "clients_map t c = None" by (simp add: clients_map_def None)
      show ?thesis
        using N nz None room m by (simp add: t' audio_abs_def spec_claim_def)
    qed
  qed
qed

lemma on_client_spec:
  assumes "audio_ok t" "\<And>s. cs_key (f s) = cs_key s"
  shows "audio_ok (on_client t c f g) \<and>
    audio_abs (on_client t c f g) = (audio_abs t)\<lparr>sp_clients := spec_on (clients_map t) c f\<rparr>"
proof (cases "audio_find t c")
  case None
  then show ?thesis using assms(1) by (simp add: on_client_def spec_on_def clients_map_def audio_abs_def)
next
  case (Some i)
  then have m: "clients_map t c = Some (at_clients t i)" by (simp add: clients_map_def)
  show ?thesis
    using put_ok [OF assms(1) Some, of "f (at_clients t i)"] assms(2) found_key [OF assms(1) Some] m Some
    by (simp add: on_client_def spec_on_def audio_abs_def)
qed

definition put_binding :: "audio_timeline \<Rightarrow> nat \<Rightarrow> clock_binding \<Rightarrow> audio_timeline" where
  "put_binding t i b = t\<lparr>at_clocks := (at_clocks t)(i := b)\<rparr>"

lemma bind_loop_search:
  assumes "clock \<noteq> 0"
  shows "bind_loop t clock client is =
    (case find_stop (clock_keys t) clock is of
       Some i \<Rightarrow> put_binding t i ((at_clocks t i)\<lparr>cb_client := client\<rparr>)
     | None \<Rightarrow>
         (case first_free (clock_keys t) is of
            Some i \<Rightarrow> count_stat (\<lambda>n. n\<lparr>as_clock_bindings := as_clock_bindings n + 1\<rparr>)
              (put_binding t i \<lparr>cb_key = clock, cb_client = client\<rparr>)
          | None \<Rightarrow> count_stat (\<lambda>n. n\<lparr>as_dropped := as_dropped n + 1\<rparr>) t))"
proof (induction "is")
  case (Cons a js)
  then show ?case
    using assms by (cases "clock_keys t a = clock"; cases "clock_keys t a = 0") (simp_all add: put_binding_def cong: option.case_cong)
qed simp

text \<open>A binding stored in the slot of its clock, or in the slot the clock claims.\<close>

lemma put_binding_ok:
  assumes "audio_ok t" "cb_key b = k" "k \<noteq> 0"
    and "clock_find t k = Some i \<or>
      (clock_find t k = None \<and> first_free (clock_keys t) (clock_order k) = Some i)"
  shows "audio_ok (put_binding t i b) \<and> clocks_map (put_binding t i b) = (clocks_map t)(k \<mapsto> cb_client b) \<and>
    clients_map (put_binding t i b) = clients_map t"
proof -
  let ?t = "put_binding t i b"
  have i: "i < kClockSlots \<and> probes_ok kClockSlots (\<lambda>k. slot_start k kClockSlots) ((clock_keys t)(i := k)) \<and>
      (clock_keys t i = k \<or> clock_keys t i = 0)"
  proof (cases "clock_find t k = Some i")
    case True
    then have k: "i < kClockSlots" "clock_keys t i = k" using clock_find_iff [OF assms(1)] by auto
    then have "(clock_keys t)(i := k) = clock_keys t" by (intro fun_upd_idem)
    then show ?thesis using assms(1) k by (simp add: audio_ok_def)
  next
    case False
    then show ?thesis
      using assms slots_pos(2)
        claim_probes_ok [of kClockSlots "\<lambda>k. slot_start k kClockSlots" "clock_keys t" k i]
      by (auto simp: audio_ok_def clock_find_def)
  qed
  have k: "clock_keys ?t = (clock_keys t)(i := k)" by (auto simp: put_binding_def assms(2))
  have kj: "clock_keys ?t j = (if j = i then k else clock_keys t j)" for j using fun_cong [OF k, of j] by simp
  have c: "at_clients ?t = at_clients t" "audio_find ?t = audio_find t"
    by (simp_all add: put_binding_def audio_find_def fun_eq_iff)
  have ok: "audio_ok ?t" using assms(1) i by (simp add: audio_ok_def k c)
  have slot: "clock_find ?t k = Some i" unfolding clock_find_iff [OF ok] kj using i assms(3) by simp
  have other: "clock_find ?t d = clock_find t d" if "d \<noteq> k" for d
  proof -
    have "clock_find ?t d = Some j \<longleftrightarrow> clock_find t d = Some j" for j
      unfolding clock_find_iff [OF ok] clock_find_iff [OF assms(1)] kj using i that by auto
    then show ?thesis by (metis option.exhaust)
  qed
  have "clocks_map ?t d = ((clocks_map t)(k \<mapsto> cb_client b)) d" for d
  proof (cases "d = k")
    case True
    then show ?thesis using slot by (simp add: clocks_map_def put_binding_def [of t])
  next
    case False
    have "clock_find t d \<noteq> Some i" using i False clock_find_iff [OF assms(1), of d i] by auto
    then show ?thesis
      using False other [OF False] by (cases "clock_find t d") (auto simp: clocks_map_def put_binding_def [of t])
  qed
  then show ?thesis using ok c by (auto simp: clients_map_def)
qed

definition spec_bind :: "(u64 \<Rightarrow> u64 option) \<Rightarrow> u64 \<Rightarrow> u64 \<Rightarrow> u64 \<Rightarrow> u64 option" where
  "spec_bind m clock client =
     (if clock = 0 \<or> client = 0 then m
      else if m clock \<noteq> None \<or> card (dom m) < kClockSlots then m(clock \<mapsto> client)
      else m)"

lemma bind_clock_spec:
  assumes "audio_ok t"
  shows "audio_ok (audio_bind_clock t clock client) \<and>
    audio_abs (audio_bind_clock t clock client) = (audio_abs t)\<lparr>sp_clocks := spec_bind (clocks_map t) clock client\<rparr>"
proof (cases "clock = 0 \<or> client = 0")
  case True
  then show ?thesis using assms by (auto simp: audio_bind_clock_def spec_bind_def audio_abs_def)
next
  case False
  then have nz: "clock \<noteq> 0" "client \<noteq> 0" by simp_all
  have f: "find_stop (clock_keys t) clock (clock_order clock) = clock_find t clock"
    using nz by (simp add: clock_find_def)
  have e: "audio_bind_clock t clock client = bind_loop t clock client (clock_order clock)"
    using False by (simp add: audio_bind_clock_def)
  consider (found) i where "clock_find t clock = Some i"
    | (free) i where "clock_find t clock = None" "first_free (clock_keys t) (clock_order clock) = Some i"
    | (full) "clock_find t clock = None" "first_free (clock_keys t) (clock_order clock) = None"
    by fastforce
  then show ?thesis
  proof cases
    case found
    then have k: "cb_key (at_clocks t i) = clock" using clock_find_iff [OF assms] by simp
    have m: "clocks_map t clock \<noteq> None" by (simp add: clocks_map_def found)
    show ?thesis
      using put_binding_ok [OF assms, of "(at_clocks t i)\<lparr>cb_client := client\<rparr>" clock i] found k nz m
      by (simp add: e bind_loop_search [OF nz(1)] f audio_abs_def spec_bind_def)
  next
    case free
    then have "card (dom (clocks_map t)) < kClockSlots" using clocks_room [OF assms, of clock] by simp
    then show ?thesis
      using put_binding_ok [OF assms, of "\<lparr>cb_key = clock, cb_client = client\<rparr>" clock i] free nz
      by (simp add: e bind_loop_search [OF nz(1)] f audio_abs_def spec_bind_def)
  next
    case full
    then have "\<not> card (dom (clocks_map t)) < kClockSlots" using clocks_room [OF assms, of clock] by simp
    moreover have "clocks_map t clock = None" by (simp add: clocks_map_def full)
    ultimately show ?thesis
      using assms full nz by (simp add: e bind_loop_search [OF nz(1)] f audio_abs_def spec_bind_def)
  qed
qed

lemma client_for_clock_map: "client_for_clock t k = (case clocks_map t k of None \<Rightarrow> 0 | Some c \<Rightarrow> c)"
  by (simp add: client_for_clock_def clocks_map_def split: option.split)

section \<open>Refinement\<close>

datatype audio_op =
    AO_Register u64 stream_flow
  | AO_Initialize u64 stream_flow share_mode u32 u32 u16 u16 int int bool u32
  | AO_BufferSize u64 u32
  | AO_Padding u64 u32 u64
  | AO_StreamLatency u64 int
  | AO_DevicePeriod u64 int int
  | AO_PeriodRange u64 u32 u32 u32 u32
  | AO_CurrentPeriod u64 u32 u32
  | AO_Start u64
  | AO_Stop u64
  | AO_ActiveProbe u64 bool bool
  | AO_ProbeClock u64 u64 u64
  | AO_MarkLogged u64
  | AO_BindClock u64 u64
  | AO_ClientClockFrequency u64 u64
  | AO_ClientClockPosition u64 u64 u64 u64
  | AO_ClockFrequency u64 u64
  | AO_ClockPosition u64 u64 u64 u64

fun audio_step :: "audio_timeline \<Rightarrow> audio_op \<Rightarrow> audio_timeline" where
  "audio_step t (AO_Register c flow) = register_client t c flow"
| "audio_step t (AO_Initialize c flow mode fl rate ch bits dur per v3 req) =
     audio_on_initialize t c flow mode fl rate ch bits dur per v3 req"
| "audio_step t (AO_BufferSize c n) = audio_on_buffer_size t c n"
| "audio_step t (AO_Padding c n ns) = audio_on_padding t c n ns"
| "audio_step t (AO_StreamLatency c l) = audio_on_stream_latency t c l"
| "audio_step t (AO_DevicePeriod c d m) = audio_on_device_period t c d m"
| "audio_step t (AO_PeriodRange c d f lo hi) = audio_on_period_range t c d f lo hi"
| "audio_step t (AO_CurrentPeriod c n r) = audio_on_current_period t c n r"
| "audio_step t (AO_Start c) = audio_on_start t c"
| "audio_step t (AO_Stop c) = audio_on_stop t c"
| "audio_step t (AO_ActiveProbe c p k) = audio_on_active_probe t c p k"
| "audio_step t (AO_ProbeClock c now iv) = fst (audio_should_probe_clock t c now iv)"
| "audio_step t (AO_MarkLogged c) = fst (audio_mark_queue_model_logged t c)"
| "audio_step t (AO_BindClock k c) = audio_bind_clock t k c"
| "audio_step t (AO_ClientClockFrequency c f) = audio_on_client_clock_frequency t c f"
| "audio_step t (AO_ClientClockPosition c p q ob) = audio_on_client_clock_position t c p q ob"
| "audio_step t (AO_ClockFrequency k f) = audio_on_clock_frequency t k f"
| "audio_step t (AO_ClockPosition k p q ob) = audio_on_clock_position t k p q ob"

text \<open>What an operation does to the state of one client, and the client it concerns.\<close>

fun op_effect :: "audio_op \<Rightarrow> client_state \<Rightarrow> client_state" where
  "op_effect (AO_Register c flow) = (\<lambda>s. s)"
| "op_effect (AO_Initialize c flow mode fl rate ch bits dur per v3 req) = (\<lambda>s.
     initialized flow mode fl rate ch bits dur per v3 req s)"
| "op_effect (AO_BufferSize c n) = (\<lambda>s. s\<lparr>cs_buffer_frames := n\<rparr>)"
| "op_effect (AO_Padding c n ns) = (\<lambda>s. s\<lparr>cs_padding_frames := n, cs_padding_observed_host_ns := ns\<rparr>)"
| "op_effect (AO_StreamLatency c l) = (\<lambda>s. s\<lparr>cs_stream_latency := l\<rparr>)"
| "op_effect (AO_DevicePeriod c d m) = (\<lambda>s. s\<lparr>cs_device_default_period := d, cs_device_min_period := m\<rparr>)"
| "op_effect (AO_PeriodRange c d f lo hi) = (\<lambda>s. s\<lparr>cs_default_period_frames := d, cs_fundamental_period_frames := f,
     cs_min_period_frames := lo, cs_max_period_frames := hi\<rparr>)"
| "op_effect (AO_CurrentPeriod c n r) = (\<lambda>s. (if r \<noteq> 0
     then s\<lparr>cs_current_period_frames := n, cs_engine_sample_rate := r\<rparr> else s\<lparr>cs_current_period_frames := n\<rparr>))"
| "op_effect (AO_Start c) = (\<lambda>s. s\<lparr>cs_flags := cs_flags s OR AF_Running\<rparr>)"
| "op_effect (AO_Stop c) = (\<lambda>s. s\<lparr>cs_flags := cs_flags s AND NOT AF_Running\<rparr>)"
| "op_effect (AO_ActiveProbe c p k) = (\<lambda>s. s\<lparr>cs_flags := cs_flags s OR probe_bits p k\<rparr>)"
| "op_effect (AO_ProbeClock c now iv) = (\<lambda>s.
     (if probe_due now s then s\<lparr>cs_next_clock_probe_host_ns := next_probe now iv\<rparr> else s))"
| "op_effect (AO_MarkLogged c) = (\<lambda>s. s\<lparr>cs_flags := cs_flags s OR AF_QueueModelLogged\<rparr>)"
| "op_effect (AO_BindClock k c) = (\<lambda>s. s)"
| "op_effect (AO_ClientClockFrequency c f) = (\<lambda>s. s\<lparr>cs_clock_frequency := f\<rparr>)"
| "op_effect (AO_ClientClockPosition c p q ob) = (\<lambda>s.
     s\<lparr>cs_clock_position := p, cs_clock_qpc_host_ns := q, cs_clock_observed_host_ns := ob\<rparr>)"
| "op_effect (AO_ClockFrequency k f) = (\<lambda>s. s\<lparr>cs_clock_frequency := f\<rparr>)"
| "op_effect (AO_ClockPosition k p q ob) = (\<lambda>s.
     s\<lparr>cs_clock_position := p, cs_clock_qpc_host_ns := q, cs_clock_observed_host_ns := ob\<rparr>)"

fun op_client :: "(u64 \<Rightarrow> u64 option) \<Rightarrow> audio_op \<Rightarrow> u64" where
  "op_client m (AO_Register c _) = c"
| "op_client m (AO_Initialize c _ _ _ _ _ _ _ _ _ _) = c"
| "op_client m (AO_BufferSize c _) = c"
| "op_client m (AO_Padding c _ _) = c"
| "op_client m (AO_StreamLatency c _) = c"
| "op_client m (AO_DevicePeriod c _ _) = c"
| "op_client m (AO_PeriodRange c _ _ _ _) = c"
| "op_client m (AO_CurrentPeriod c _ _) = c"
| "op_client m (AO_Start c) = c"
| "op_client m (AO_Stop c) = c"
| "op_client m (AO_ActiveProbe c _ _) = c"
| "op_client m (AO_ProbeClock c _ _) = c"
| "op_client m (AO_MarkLogged c) = c"
| "op_client m (AO_BindClock _ _) = 0"
| "op_client m (AO_ClientClockFrequency c _) = c"
| "op_client m (AO_ClientClockPosition c _ _ _) = c"
| "op_client m (AO_ClockFrequency k _) = (case m k of None \<Rightarrow> 0 | Some c \<Rightarrow> c)"
| "op_client m (AO_ClockPosition k _ _ _) = (case m k of None \<Rightarrow> 0 | Some c \<Rightarrow> c)"

text \<open>The abstract step: registration may add the client, then the effect is applied if it is known.\<close>

definition spec_step :: "audio_spec \<Rightarrow> audio_op \<Rightarrow> audio_spec" where
  "spec_step sp op =
     (let c = op_client (sp_clocks sp) op;
          known = (case op of
              AO_Register _ flow \<Rightarrow> spec_claim (sp_clients sp) c flow
            | AO_Initialize _ flow _ _ _ _ _ _ _ _ _ \<Rightarrow> spec_claim (sp_clients sp) c flow
            | _ \<Rightarrow> sp_clients sp)
      in \<lparr>sp_clients = spec_on known c (op_effect op),
          sp_clocks = (case op of AO_BindClock k c \<Rightarrow> spec_bind (sp_clocks sp) k c | _ \<Rightarrow> sp_clocks sp)\<rparr>)"

lemma spec_on_id [simp]: "spec_on m c (\<lambda>s. s) = m" "m c = None \<Longrightarrow> spec_on m c f = m"
  by (auto simp: spec_on_def fun_upd_idem split: option.split)

lemma put_same [simp]: "put_client t i (at_clients t i) = t"
  by (simp add: put_client_def)

lemma count_same [simp]: "count_stat (\<lambda>n. n) t = t"
  by (simp add: count_stat_def)

lemma probe_clock_on: "fst (audio_should_probe_clock t c now iv) = on_client t c (op_effect (AO_ProbeClock c now iv)) (\<lambda>_ n. n)"
  by (simp add: audio_should_probe_clock_def on_client_def split: option.split)

lemma mark_logged_on: "fst (audio_mark_queue_model_logged t c) = on_client t c (op_effect (AO_MarkLogged c)) (\<lambda>_ n. n)"
proof -
  have "s\<lparr>cs_flags := cs_flags s OR AF_QueueModelLogged\<rparr> = s" if "cs_flags s AND AF_QueueModelLogged \<noteq> 0" for s :: client_state
  proof -
    have "cs_flags s OR AF_QueueModelLogged = cs_flags s"
      using that by (intro bit_word_eqI) (auto simp: audio_flag_defs and_shl1_eq_0_iff bit_or_shl1)
    then show ?thesis by simp
  qed
  then show ?thesis
    by (simp add: audio_mark_queue_model_logged_def on_client_def split: option.split)
qed

text \<open>Every operation on a known client, as its effect.\<close>

lemmas audio_on_defs = audio_on_buffer_size_def audio_on_padding_def audio_on_stream_latency_def
  audio_on_device_period_def audio_on_period_range_def audio_on_current_period_def audio_on_start_def
  audio_on_stop_def audio_on_active_probe_def audio_on_client_clock_frequency_def
  audio_on_client_clock_position_def audio_on_clock_frequency_def audio_on_clock_position_def

fun claims :: "audio_op \<Rightarrow> bool" where
  "claims (AO_Register _ _) = True"
| "claims (AO_Initialize _ _ _ _ _ _ _ _ _ _ _) = True"
| "claims (AO_BindClock _ _) = True"
| "claims _ = False"

lemma op_effect_key: "\<not> claims op \<Longrightarrow> cs_key (op_effect op s) = cs_key s"
  by (cases op) simp_all

lemma step_on:
  assumes "\<not> claims op"
  shows "\<exists>g. audio_step t op = on_client t (op_client (clocks_map t) op) (op_effect op) g"
  using assms
  by (cases op) (auto simp: audio_on_defs probe_clock_on mark_logged_on client_for_clock_map Let_def)

lemma initialized_key [simp]: "cs_key (initialized flow mode fl rate ch bits dur per v3 req s) = cs_key s"
  by (simp add: initialized_def)

lemma audio_step_refines:
  assumes "audio_ok t"
  shows "audio_ok (audio_step t op) \<and> audio_abs (audio_step t op) = spec_step (audio_abs t) op"
proof (cases "claims op")
  case False
  then obtain g where e: "audio_step t op = on_client t (op_client (clocks_map t) op) (op_effect op) g"
    using step_on by blast
  have "spec_step (audio_abs t) op =
      (audio_abs t)\<lparr>sp_clients := spec_on (clients_map t) (op_client (clocks_map t) op) (op_effect op)\<rparr>"
    using False by (cases op) (simp_all add: spec_step_def audio_abs_def)
  then show ?thesis
    using on_client_spec [OF assms, of "op_effect op"] op_effect_key [OF False] by (simp add: e)
next
  case True
  have zero: "clients_map t 0 = None" by (simp add: clients_map_def audio_find_def)
  consider (reg) c flow where "op = AO_Register c flow"
    | (init) c flow mode fl rate ch bits dur per v3 req where "op = AO_Initialize c flow mode fl rate ch bits dur per v3 req"
    | (bind) k c where "op = AO_BindClock k c"
    using True by (cases op) auto
  then show ?thesis
  proof cases
    case reg
    obtain t' r where f: "audio_find_or_claim t c flow = (t', r)" by force
    show ?thesis
      using find_or_claim_spec [OF assms f] by (simp add: reg f register_client_def spec_step_def audio_abs_def)
  next
    case init
    obtain t' r where f: "audio_find_or_claim t c flow = (t', r)" by force
    note S = find_or_claim_spec [OF assms f]
    then have m: "clients_map t' = spec_claim (clients_map t) c flow" "clocks_map t' = clocks_map t"
      by (simp_all add: audio_abs_def)
    show ?thesis
    proof (cases r)
      case None
      then show ?thesis
        using S m by (simp add: init f audio_on_initialize_def spec_step_def audio_abs_def)
    next
      case (Some i)
      let ?s = "initialized flow mode fl rate ch bits dur per v3 req (at_clients t' i)"
      have i: "audio_ok t'" "audio_find t' c = Some i" using S Some by simp_all
      have "clients_map t' c = Some (at_clients t' i)" by (simp add: clients_map_def i(2))
      then have "spec_on (clients_map t') c (op_effect op) = (clients_map t')(c \<mapsto> ?s)"
        by (simp add: init spec_on_def)
      then show ?thesis
        using put_ok [OF i, of ?s] found_key [OF i] m Some
        by (simp add: init f audio_on_initialize_def spec_step_def audio_abs_def)
    qed
  next
    case bind
    then show ?thesis
      using bind_clock_spec [OF assms] zero by (simp add: spec_step_def audio_abs_def)
  qed
qed

interpretation audio: simulation audio_step audio_ok spec_step audio_abs
  by unfold_locales (simp_all add: audio_step_refines)

lemma audio_abs_empty: "audio_abs audio_empty = \<lparr>sp_clients = (\<lambda>_. None), sp_clocks = (\<lambda>_. None)\<rparr>"
proof -
  have "find_stop (\<lambda>_. 0) k is = None" if "k \<noteq> 0" for k "is"
    using that by (cases "is") simp_all
  then show ?thesis
    by (simp add: audio_abs_def clients_map_def clocks_map_def audio_find_def clock_find_def audio_empty_def
        client_zero_def fun_eq_iff)
qed

text \<open>C35
  The hash tables are partial maps.  Over any sequence of operations the timeline simulates maps from
  client addresses to client states and from clock addresses to clients: an operation changes the
  state of the one client it concerns, found through the clock binding where it names a clock, in the
  stated way and no other; and an entry is refused only when the 32 slots hold other keys.
\<close>

theorem audio_refines_maps:
  "audio_abs (foldl audio_step audio_empty ops) =
    foldl spec_step \<lparr>sp_clients = (\<lambda>_. None), sp_clocks = (\<lambda>_. None)\<rparr> ops"
  using audio.abs_run [OF audio_ok_empty, of ops] by (simp only: audio_abs_empty)

text \<open>The slot table is a key table: claimed slots are stable and never shared.\<close>

interpretation client_table: key_table audio_find "\<lambda>t c. audio_find_or_claim t c SF_Unknown" audio_ok
proof
  fix t k k' i
  assume ok: "audio_ok t"
  obtain t' r where f: "audio_find_or_claim t k SF_Unknown = (t', r)" by force
  note S = find_or_claim_spec [OF ok f]
  show "audio_ok (fst (audio_find_or_claim t k SF_Unknown))" using S by (simp add: f)
  show "audio_find (fst (audio_find_or_claim t k SF_Unknown)) k = snd (audio_find_or_claim t k SF_Unknown)"
    using S by (simp add: f)
  show "k' \<noteq> k \<Longrightarrow> audio_find (fst (audio_find_or_claim t k SF_Unknown)) k' = audio_find t k'"
  proof -
    assume ne: "k' \<noteq> k"
    have ok': "audio_ok t'" using S by simp
    have keys: "client_keys t' j = k' \<longleftrightarrow> client_keys t j = k'" if "k' \<noteq> 0" "j < kClientSlots" for j
    proof (cases "k = 0")
      case True
      then show ?thesis using f by (simp add: audio_find_or_claim_def)
    next
      case nz: False
      show ?thesis
      proof (cases "audio_find t k")
        case (Some l)
        then show ?thesis using f nz by (auto simp: audio_find_or_claim_def put_client_def set_flow_def)
      next
        case None
        show ?thesis
        proof (cases "first_free (client_keys t) (client_order k)")
          case (Some l)
          have "client_keys t l = 0"
            using claim_new [OF ok nz None Some claimed_key] first_free_SomeD [OF Some] by blast
          then show ?thesis
            using f nz None Some ne that(1) by (auto simp: audio_find_or_claim_def put_client_def count_stat_def)
        next
          case free: None
          then show ?thesis using f nz None by (auto simp: audio_find_or_claim_def count_stat_def)
        qed
      qed
    qed
    have "audio_find t' k' = Some j \<longleftrightarrow> audio_find t k' = Some j" for j
      unfolding audio_find_iff [OF ok'] audio_find_iff [OF ok] using keys by blast
    then show "audio_find (fst (audio_find_or_claim t k SF_Unknown)) k' = audio_find t k'"
      by (simp add: f) (metis option.exhaust)
  qed
  show "audio_find t k = Some i \<Longrightarrow> snd (audio_find_or_claim t k SF_Unknown) = Some i"
    using audio_find_iff [OF ok, of k i] by (simp add: audio_find_or_claim_def)
  show "audio_find t k = Some i \<Longrightarrow> audio_find t k' = Some i \<Longrightarrow> k = k'"
    using audio_find_key_unique [OF ok] by blast
qed

text \<open>
  The per-thread clock cache never changes an answer: whatever clock and slot a thread has cached, on
  any reachable timeline a cached lookup gives the client the table holds for the clock.
\<close>

lemma clock_cache_transparent:
  assumes "t = foldl audio_step audio_empty ops" "\<And>c i. cache = Some (c, i) \<Longrightarrow> i < kClockSlots"
  shows "fst (cached_client_for_clock cache t clock) = client_for_clock t clock"
proof -
  have ok: "audio_ok t" unfolding assms(1) by (rule audio.inv_run [OF audio_ok_empty])
  have "clock_find t clock = Some i" if "cache = Some (clock, i)" "clock_keys t i = clock" "clock \<noteq> 0" for i
    using that assms(2) clock_find_iff [OF ok] by blast
  then show ?thesis
    by (auto simp: cached_client_for_clock_def client_for_clock_def clock_find_def split: option.splits)
qed

lemma clock_cache_transparent_sample:
  "fst (cached_client_for_clock (Some (32, 2)) (foldl audio_step audio_empty [AO_BindClock 32 7, AO_BindClock 32 9]) 32) = 9"
proof -
  let ?ops = "[AO_BindClock 32 7, AO_BindClock 32 9]"
  have "sp_clocks (audio_abs (foldl audio_step audio_empty ?ops)) 32 = Some 9"
    unfolding audio.abs_run [OF audio_ok_empty] audio_abs_empty
    by (simp add: spec_step_def spec_bind_def kClockSlots_def)
  then have "client_for_clock (foldl audio_step audio_empty ?ops) 32 = 9"
    by (simp only: client_for_clock_map audio_abs_def audio_spec.select_convs option.case)
  moreover have "fst (cached_client_for_clock (Some (32, 2)) (foldl audio_step audio_empty ?ops) 32) =
      client_for_clock (foldl audio_step audio_empty ?ops) 32"
    by (rule clock_cache_transparent [OF refl]) (simp add: kClockSlots_def)
  ultimately show ?thesis by metis
qed

section \<open>Claiming under concurrency\<close>

text \<open>
  Two threads that register the same new client are not steps of the machine above.  The accesses of
  \<open>find_or_claim\<close> to the keys, one per step: search, compare-exchange of each slot from 0 to the busy
  mark, publication of the key.
\<close>

datatype claim_pc = CL_Search "nat list" | CL_Probe "nat list" | CL_Publish nat | CL_Done "nat option"

definition audio_kBusy :: u64 where "audio_kBusy = u64_max"

fun claim_advance :: "(nat \<Rightarrow> u64) \<Rightarrow> u64 \<Rightarrow> claim_pc \<Rightarrow> (nat \<Rightarrow> u64) \<times> claim_pc" where
  "claim_advance keys k (CL_Search []) = (keys, CL_Probe (client_order k))"
| "claim_advance keys k (CL_Search (i # is)) =
     (if keys i = k then (keys, CL_Done (Some i))
      else if keys i = 0 then (keys, CL_Probe (client_order k))
      else (keys, CL_Search is))"
| "claim_advance keys k (CL_Probe []) = (keys, CL_Done None)"
| "claim_advance keys k (CL_Probe (i # is)) =
     (if keys i = 0 then (keys(i := audio_kBusy), CL_Publish i) else (keys, CL_Probe is))"
| "claim_advance keys k (CL_Publish i) = (keys(i := k), CL_Done (Some i))"
| "claim_advance keys k (CL_Done r) = (keys, CL_Done r)"

text \<open>A schedule of two threads, True for the second.\<close>

fun claim_race :: "u64 \<Rightarrow> (nat \<Rightarrow> u64) \<Rightarrow> claim_pc \<Rightarrow> claim_pc \<Rightarrow> bool list \<Rightarrow> (nat \<Rightarrow> u64) \<times> claim_pc \<times> claim_pc" where
  "claim_race k keys p q [] = (keys, p, q)"
| "claim_race k keys p q (b # bs) =
     (if b then let (keys', q') = claim_advance keys k q in claim_race k keys' p q' bs
      else let (keys', p') = claim_advance keys k p in claim_race k keys' p' q bs)"

lemma client_order_16: "\<exists>rest. client_order 16 = 1 # 2 # rest"
proof -
  have "[0..<32] = 0 # 1 # [Suc 1..<32]"
    using upt_conv_Cons [of 0 32] upt_conv_Cons [of "Suc 0" 32] by simp
  then show ?thesis by (simp only: probe_order_def slot_start_def kClientSlots_def list.map) simp
qed

text \<open>
  Uniqueness of the slots needs the registrations of one client to be serialised: two that overlap can
  both miss it, and the one whose exchange fails on the busy slot goes on and claims the next one.
\<close>

lemma duplicate_claim:
  "\<exists>bs. claim_race 16 (\<lambda>_. 0) (CL_Search (client_order 16)) (CL_Search (client_order 16)) bs =
    ((\<lambda>_. 0)(1 := 16, 2 := 16), CL_Done (Some 1), CL_Done (Some 2))"
proof -
  obtain rest where o: "client_order 16 = 1 # 2 # rest" using client_order_16 by blast
  show ?thesis
    by (rule exI [of _ "[False, True, False, True, True, False, True]"])
      (simp add: o audio_kBusy_def fun_upd_twist)
qed

end
