(* ===== verification/XrTimeline.thy ===== *)
theory XrTimeline
  imports Interfaces ProbeTable TimingPolicies HybridTimeline
begin

text \<open>
  The OpenXR frame timeline (\<open>src/openxr_timeline.h\<close>, \<open>src/openxr_timeline.cpp\<close>): 16 session slots,
  each a ring of 16 frames through which the frame loop wait, begin, end goes in order, the correlation
  of a finished frame with a canonical render token, and the statistics.  Every public operation is one
  step; the revision counters that let a reader notice a concurrent update are kept, the interleaving
  of a reader with an update is not.
\<close>

section \<open>Data\<close>

record xr_frame =
  xf_sequence :: u64
  xf_revision :: u64
  xf_epoch :: u64
  xf_predicted_time :: int
  xf_predicted_period :: int
  xf_submitted_time :: int
  xf_wait_return_ns :: u64
  xf_begin_return_ns :: u64
  xf_end_return_ns :: u64
  xf_predicted_host_ns :: u64
  xf_submitted_host_ns :: u64
  xf_wait_to_display_ns :: int
  xf_end_to_display_ns :: int
  xf_watermark :: u64
  xf_watermark_epoch :: u64
  xf_render_epoch :: u64
  xf_render_sequence :: u64
  xf_flags :: u8

record xr_counts =
  xc_waits :: u64
  xc_begins :: u64
  xc_ends :: u64
  xc_discarded :: u64
  xc_correlated :: u64
  xc_clocked_waits :: u64
  xc_clocked_ends :: u64

record xr_session =
  xs_key :: u64
  xs_ready :: bool
  xs_epoch :: u64
  xs_next_sequence :: u64
  xs_next_begin :: u64
  xs_active_begin :: u64
  xs_latest :: u64
  xs_counts :: xr_counts
  xs_frames :: "nat \<Rightarrow> xr_frame"

text \<open>The retired totals, and the samples dropped.\<close>

record xr_timeline =
  xt_sessions :: "nat \<Rightarrow> xr_session"
  xt_counts :: xr_counts
  xt_dropped :: u64

record xr_token =
  xk_epoch :: u64
  xk_sequence :: u64
  xk_session :: u64
  xk_predicted_time :: int
  xk_predicted_period :: int
  xk_submitted_time :: int
  xk_wait_return_ns :: u64
  xk_begin_return_ns :: u64
  xk_end_return_ns :: u64
  xk_predicted_host_ns :: u64
  xk_submitted_host_ns :: u64
  xk_wait_to_display_ns :: int
  xk_end_to_display_ns :: int
  xk_render_epoch :: u64
  xk_render_sequence :: u64
  xk_should_render :: bool
  xk_begun :: bool
  xk_ended :: bool
  xk_discarded :: bool
  xk_predicted_clock_valid :: bool
  xk_submitted_clock_valid :: bool

definition kSessionSlots :: nat where "kSessionSlots = 16"
definition kFramesPerSession :: nat where "kFramesPerSession = 16"
definition xr_kBusy :: u64 where "xr_kBusy = u64_max"

definition XF_ShouldRender :: u8 where "XF_ShouldRender = shl1 0"
definition XF_Begun :: u8 where "XF_Begun = shl1 1"
definition XF_Ended :: u8 where "XF_Ended = shl1 2"
definition XF_Discarded :: u8 where "XF_Discarded = shl1 3"
definition XF_PredictedClockValid :: u8 where "XF_PredictedClockValid = shl1 4"
definition XF_SubmittedClockValid :: u8 where "XF_SubmittedClockValid = shl1 5"

lemmas xr_flag_defs = XF_ShouldRender_def XF_Begun_def XF_Ended_def XF_Discarded_def
  XF_PredictedClockValid_def XF_SubmittedClockValid_def

definition counts_zero :: xr_counts where
  "counts_zero = \<lparr>xc_waits = 0, xc_begins = 0, xc_ends = 0, xc_discarded = 0, xc_correlated = 0,
     xc_clocked_waits = 0, xc_clocked_ends = 0\<rparr>"

definition counts_add :: "xr_counts \<Rightarrow> xr_counts \<Rightarrow> xr_counts" where
  "counts_add a b = \<lparr>xc_waits = xc_waits a + xc_waits b, xc_begins = xc_begins a + xc_begins b,
     xc_ends = xc_ends a + xc_ends b, xc_discarded = xc_discarded a + xc_discarded b,
     xc_correlated = xc_correlated a + xc_correlated b, xc_clocked_waits = xc_clocked_waits a + xc_clocked_waits b,
     xc_clocked_ends = xc_clocked_ends a + xc_clocked_ends b\<rparr>"

definition xr_frame_zero :: xr_frame where
  "xr_frame_zero = \<lparr>xf_sequence = 0, xf_revision = 0, xf_epoch = 0, xf_predicted_time = 0, xf_predicted_period = 0,
     xf_submitted_time = 0, xf_wait_return_ns = 0, xf_begin_return_ns = 0, xf_end_return_ns = 0,
     xf_predicted_host_ns = 0, xf_submitted_host_ns = 0, xf_wait_to_display_ns = 0, xf_end_to_display_ns = 0,
     xf_watermark = 0, xf_watermark_epoch = 0, xf_render_epoch = 0, xf_render_sequence = 0, xf_flags = 0\<rparr>"

definition xr_empty :: xr_timeline where
  "xr_empty = \<lparr>xt_sessions = (\<lambda>_. \<lparr>xs_key = 0, xs_ready = False, xs_epoch = 1, xs_next_sequence = 0,
     xs_next_begin = 0, xs_active_begin = 0, xs_latest = 0, xs_counts = counts_zero,
     xs_frames = (\<lambda>_. xr_frame_zero)\<rparr>), xt_counts = counts_zero, xt_dropped = 0\<rparr>"

definition frame_clear :: "xr_frame \<Rightarrow> xr_frame" where
  "frame_clear f = f\<lparr>xf_revision := 0, xf_sequence := 0\<rparr>"

definition session_clear :: "xr_session \<Rightarrow> xr_session" where
  "session_clear s = s\<lparr>xs_epoch := xs_epoch s + 1, xs_next_sequence := 0, xs_next_begin := 0,
     xs_active_begin := 0, xs_latest := 0, xs_counts := counts_zero, xs_frames := frame_clear \<circ> xs_frames s\<rparr>"

definition xr_reset :: "xr_timeline \<Rightarrow> xr_timeline" where
  "xr_reset t = \<lparr>xt_sessions = (\<lambda>i. (session_clear (xt_sessions t i))\<lparr>xs_ready := False, xs_key := 0\<rparr>),
     xt_counts = counts_zero, xt_dropped = 0\<rparr>"

section \<open>Sessions\<close>

abbreviation session_keys :: "xr_timeline \<Rightarrow> nat \<Rightarrow> u64" where
  "session_keys t \<equiv> \<lambda>i. xs_key (xt_sessions t i)"

definition session_order :: "u64 \<Rightarrow> nat list" where
  "session_order session = probe_order kSessionSlots (unat (drop_bit 4 session) mod kSessionSlots)"

definition xr_find :: "xr_timeline \<Rightarrow> u64 \<Rightarrow> nat option" where
  "xr_find t session =
     (if session = 0 then None
      else case find_skip (session_keys t) session (session_order session) of
        None \<Rightarrow> None
      | Some i \<Rightarrow> if xs_ready (xt_sessions t i) then Some i else None)"

text \<open>The calling thread's cache for this timeline: a session and its slot.\<close>

definition cached_xr_find :: "(u64 \<times> nat) option \<Rightarrow> xr_timeline \<Rightarrow> u64 \<Rightarrow> nat option" where
  "cached_xr_find cache t session =
     (if session = 0 then None
      else case cache of
        Some (s, i) \<Rightarrow> if s = session \<and> session_keys t i = session \<and> xs_ready (xt_sessions t i) then Some i
          else xr_find t session
      | None \<Rightarrow> xr_find t session)"

definition put_session :: "xr_timeline \<Rightarrow> nat \<Rightarrow> xr_session \<Rightarrow> xr_timeline" where
  "put_session t i s = t\<lparr>xt_sessions := (xt_sessions t)(i := s)\<rparr>"

fun claim_session :: "xr_timeline \<Rightarrow> u64 \<Rightarrow> nat list \<Rightarrow> xr_timeline \<times> nat option" where
  "claim_session t session [] = (t, None)"
| "claim_session t session (i # is) =
     (if session_keys t i = session then (t, if xs_ready (xt_sessions t i) then Some i else None)
      else if session_keys t i \<noteq> 0 then claim_session t session is
      else (put_session t i ((session_clear (xt_sessions t i))\<lparr>xs_key := session, xs_ready := True\<rparr>), Some i))"

definition xr_find_or_claim :: "xr_timeline \<Rightarrow> u64 \<Rightarrow> xr_timeline \<times> nat option" where
  "xr_find_or_claim t session =
     (if session = 0 then (t, None)
      else case xr_find t session of
        Some i \<Rightarrow> (t, Some i)
      | None \<Rightarrow> claim_session t session (session_order session))"

definition xr_frame_for :: "xr_session \<Rightarrow> u64 \<Rightarrow> nat option" where
  "xr_frame_for s sequence =
     (if sequence = 0 \<or> sequence = xr_kBusy then None
      else let j = slot kFramesPerSession sequence in
        if xf_sequence (xs_frames s j) \<noteq> sequence then None else Some j)"

text \<open>The token of a published frame that is not being updated, else the empty token.\<close>

definition xr_no_token :: xr_token where
  "xr_no_token = \<lparr>xk_epoch = 0, xk_sequence = 0, xk_session = 0, xk_predicted_time = 0, xk_predicted_period = 0,
     xk_submitted_time = 0, xk_wait_return_ns = 0, xk_begin_return_ns = 0, xk_end_return_ns = 0,
     xk_predicted_host_ns = 0, xk_submitted_host_ns = 0, xk_wait_to_display_ns = 0, xk_end_to_display_ns = 0,
     xk_render_epoch = 0, xk_render_sequence = 0, xk_should_render = False, xk_begun = False, xk_ended = False,
     xk_discarded = False, xk_predicted_clock_valid = False, xk_submitted_clock_valid = False\<rparr>"

definition xr_token_of :: "u64 \<Rightarrow> xr_frame \<Rightarrow> xr_token" where
  "xr_token_of session f =
     \<lparr>xk_epoch = xf_epoch f, xk_sequence = xf_sequence f, xk_session = session,
      xk_predicted_time = xf_predicted_time f, xk_predicted_period = xf_predicted_period f,
      xk_submitted_time = xf_submitted_time f, xk_wait_return_ns = xf_wait_return_ns f,
      xk_begin_return_ns = xf_begin_return_ns f, xk_end_return_ns = xf_end_return_ns f,
      xk_predicted_host_ns = xf_predicted_host_ns f, xk_submitted_host_ns = xf_submitted_host_ns f,
      xk_wait_to_display_ns = xf_wait_to_display_ns f, xk_end_to_display_ns = xf_end_to_display_ns f,
      xk_render_epoch = xf_render_epoch f, xk_render_sequence = xf_render_sequence f,
      xk_should_render = (xf_flags f AND XF_ShouldRender \<noteq> 0), xk_begun = (xf_flags f AND XF_Begun \<noteq> 0),
      xk_ended = (xf_flags f AND XF_Ended \<noteq> 0), xk_discarded = (xf_flags f AND XF_Discarded \<noteq> 0),
      xk_predicted_clock_valid = (xf_flags f AND XF_PredictedClockValid \<noteq> 0),
      xk_submitted_clock_valid = (xf_flags f AND XF_SubmittedClockValid \<noteq> 0)\<rparr>"

definition xr_token_from :: "u64 \<Rightarrow> xr_frame \<Rightarrow> xr_token" where
  "xr_token_from session f =
     (if xf_sequence f = 0 \<or> xf_sequence f = xr_kBusy \<or> xf_revision f AND 1 \<noteq> 0 then xr_no_token
      else xr_token_of session f)"

definition xr_token_ok :: "xr_token \<Rightarrow> bool" where
  "xr_token_ok k \<longleftrightarrow> xk_epoch k \<noteq> 0 \<and> xk_sequence k \<noteq> 0 \<and> xk_session k \<noteq> 0"

definition valid_token :: "xr_token \<Rightarrow> xr_token option" where
  "valid_token k = (if xr_token_ok k then Some k else None)"

section \<open>The frame loop\<close>

text \<open>The arguments of \<open>on_wait\<close> besides the session.\<close>

record wait_call =
  wc_time :: int
  wc_period :: int
  wc_should_render :: bool
  wc_return_ns :: u64
  wc_watermark :: u64
  wc_host_ns :: "u64 option"
  wc_watermark_epoch :: u64

definition value_or_zero :: "u64 option \<Rightarrow> u64" where
  "value_or_zero v = (case v of None \<Rightarrow> 0 | Some x \<Rightarrow> x)"

text \<open>The margin of a host time over a return time, 0 when there is no host time.\<close>

definition host_margin :: "u64 option \<Rightarrow> u64 \<Rightarrow> int" where
  "host_margin host reference = (case host of None \<Rightarrow> 0 | Some h \<Rightarrow> signed_delta_ns h reference)"

definition put_frame :: "xr_session \<Rightarrow> nat \<Rightarrow> xr_frame \<Rightarrow> xr_session" where
  "put_frame s j f = s\<lparr>xs_frames := (xs_frames s)(j := f)\<rparr>"

definition drop_sample :: "xr_timeline \<Rightarrow> xr_timeline" where
  "drop_sample t = t\<lparr>xt_dropped := xt_dropped t + 1\<rparr>"

definition wait_frame :: "u64 \<Rightarrow> u64 \<Rightarrow> wait_call \<Rightarrow> xr_frame" where
  "wait_frame epoch sequence w =
     \<lparr>xf_sequence = sequence, xf_revision = 0, xf_epoch = epoch, xf_predicted_time = wc_time w,
      xf_predicted_period = wc_period w, xf_submitted_time = 0, xf_wait_return_ns = wc_return_ns w,
      xf_begin_return_ns = 0, xf_end_return_ns = 0, xf_predicted_host_ns = value_or_zero (wc_host_ns w),
      xf_submitted_host_ns = 0, xf_wait_to_display_ns = host_margin (wc_host_ns w) (wc_return_ns w),
      xf_end_to_display_ns = 0, xf_watermark = wc_watermark w, xf_watermark_epoch = wc_watermark_epoch w,
      xf_render_epoch = 0, xf_render_sequence = 0,
      xf_flags = (let flags = if wc_should_render w then XF_ShouldRender else 0
                  in if wc_host_ns w \<noteq> None then flags OR XF_PredictedClockValid else flags)\<rparr>"

definition count_wait :: "bool \<Rightarrow> xr_counts \<Rightarrow> xr_counts" where
  "count_wait clocked c =
     (let c1 = if clocked then c\<lparr>xc_clocked_waits := xc_clocked_waits c + 1\<rparr> else c
      in c1\<lparr>xc_waits := xc_waits c1 + 1\<rparr>)"

definition session_wait :: "xr_session \<Rightarrow> wait_call \<Rightarrow> xr_session \<times> xr_frame" where
  "session_wait s w =
     (let sequence = xs_next_sequence s + 1;
          f = wait_frame (xs_epoch s) sequence w
      in ((put_frame s (slot kFramesPerSession sequence) f)
            \<lparr>xs_next_sequence := sequence, xs_latest := sequence,
             xs_counts := count_wait (wc_host_ns w \<noteq> None) (xs_counts s)\<rparr>, f))"

definition xr_on_wait :: "xr_timeline \<Rightarrow> u64 \<Rightarrow> wait_call \<Rightarrow> xr_timeline \<times> xr_token option" where
  "xr_on_wait t session w =
     (let (t1, r) = xr_find_or_claim t session in
      case r of
        None \<Rightarrow> (drop_sample t1, None)
      | Some i \<Rightarrow> let (s, f) = session_wait (xt_sessions t1 i) w
          in (put_session t1 i s, Some (xr_token_from session f)))"

definition frame_discarded :: "xr_frame \<Rightarrow> xr_frame" where
  "frame_discarded f = f\<lparr>xf_flags := xf_flags f OR XF_Discarded, xf_revision := xf_revision f + 2\<rparr>"

definition session_discard :: "xr_session \<Rightarrow> xr_session" where
  "session_discard s =
     (let previous = xs_active_begin s; s1 = s\<lparr>xs_active_begin := 0\<rparr> in
      case xr_frame_for s1 previous of
        None \<Rightarrow> s1
      | Some j \<Rightarrow> (put_frame s1 j (frame_discarded (xs_frames s1 j)))
          \<lparr>xs_counts := (xs_counts s1)\<lparr>xc_discarded := xc_discarded (xs_counts s1) + 1\<rparr>\<rparr>)"

definition frame_begun :: "u64 \<Rightarrow> xr_frame \<Rightarrow> xr_frame" where
  "frame_begun ns f = f\<lparr>xf_begin_return_ns := ns, xf_flags := xf_flags f OR XF_Begun, xf_revision := xf_revision f + 2\<rparr>"

definition session_begin :: "xr_session \<Rightarrow> bool \<Rightarrow> u64 \<Rightarrow> xr_session \<times> xr_frame option" where
  "session_begin s discarded_previous ns =
     (let s1 = if discarded_previous then session_discard s else s;
          sequence = xs_next_begin s1 + 1;
          s2 = s1\<lparr>xs_next_begin := sequence\<rparr>
      in case xr_frame_for s2 sequence of
        None \<Rightarrow> (s2, None)
      | Some j \<Rightarrow> let f = frame_begun ns (xs_frames s2 j)
          in ((put_frame s2 j f)
                \<lparr>xs_active_begin := sequence,
                 xs_counts := (xs_counts s2)\<lparr>xc_begins := xc_begins (xs_counts s2) + 1\<rparr>\<rparr>, Some f))"

definition frame_clocked :: "u64 option \<Rightarrow> u64 \<Rightarrow> xr_frame \<Rightarrow> xr_frame" where
  "frame_clocked host ns f = (case host of
       None \<Rightarrow> f
     | Some h \<Rightarrow> f\<lparr>xf_end_to_display_ns := signed_delta_ns h ns, xf_flags := xf_flags f OR XF_SubmittedClockValid\<rparr>)"

text \<open>The render token a frame is correlated with: the newest one, its number lowered to the first after the watermark.\<close>

definition correlates :: "u64 \<Rightarrow> u64 \<Rightarrow> frame_token option \<Rightarrow> (u64 \<times> u64) option" where
  "correlates watermark watermark_epoch latest = (case latest of
       None \<Rightarrow> None
     | Some r \<Rightarrow>
         if ft_sequence r > watermark \<and> (watermark = 0 \<or> watermark_epoch = 0 \<or> ft_epoch r = watermark_epoch)
         then Some (ft_epoch r, if watermark \<noteq> 0 then watermark + 1 else ft_sequence r)
         else None)"

definition frame_correlation :: "xr_frame \<Rightarrow> frame_token option \<Rightarrow> (u64 \<times> u64) option" where
  "frame_correlation f latest =
     (if xf_flags f AND XF_ShouldRender \<noteq> 0 then correlates (xf_watermark f) (xf_watermark_epoch f) latest else None)"

definition frame_correlated :: "frame_token option \<Rightarrow> xr_frame \<Rightarrow> xr_frame" where
  "frame_correlated latest f = (case frame_correlation f latest of
       None \<Rightarrow> f
     | Some (e, q) \<Rightarrow> f\<lparr>xf_render_epoch := e, xf_render_sequence := q\<rparr>)"

text \<open>The arguments of \<open>on_end\<close> besides the session.\<close>

record end_call =
  ec_time :: int
  ec_return_ns :: u64
  ec_latest :: "frame_token option"
  ec_host_ns :: "u64 option"

definition frame_submitted :: "end_call \<Rightarrow> xr_frame \<Rightarrow> xr_frame" where
  "frame_submitted e f = f\<lparr>xf_submitted_time := ec_time e, xf_end_return_ns := ec_return_ns e,
     xf_submitted_host_ns := value_or_zero (ec_host_ns e)\<rparr>"

definition frame_ended :: "end_call \<Rightarrow> xr_frame \<Rightarrow> xr_frame" where
  "frame_ended e f =
     (let f1 = frame_correlated (ec_latest e) f
      in f1\<lparr>xf_flags := xf_flags f1 OR XF_Ended, xf_revision := xf_revision f1 + 2\<rparr>)"

definition count_end :: "bool \<Rightarrow> bool \<Rightarrow> xr_counts \<Rightarrow> xr_counts" where
  "count_end clocked correlated c =
     (let c1 = if clocked then c\<lparr>xc_clocked_ends := xc_clocked_ends c + 1\<rparr> else c;
          c2 = if correlated then c1\<lparr>xc_correlated := xc_correlated c1 + 1\<rparr> else c1
      in c2\<lparr>xc_ends := xc_ends c2 + 1\<rparr>)"

definition session_end :: "xr_session \<Rightarrow> end_call \<Rightarrow> xr_session \<times> xr_frame option" where
  "session_end s e =
     (let sequence = xs_active_begin s; s1 = s\<lparr>xs_active_begin := 0\<rparr> in
      case xr_frame_for s1 sequence of
        None \<Rightarrow> (s1, None)
      | Some j \<Rightarrow> let f = frame_clocked (ec_host_ns e) (ec_return_ns e) (frame_submitted e (xs_frames s1 j));
            f' = frame_ended e f
          in ((put_frame s1 j f')
                \<lparr>xs_counts := count_end (ec_host_ns e \<noteq> None) (frame_correlation f (ec_latest e) \<noteq> None) (xs_counts s1)\<rparr>,
              Some f'))"

text \<open>The outcome of begin and end on the session's slot: a frame's token, or a dropped sample.\<close>

definition xr_finish :: "xr_timeline \<Rightarrow> u64 \<Rightarrow> nat \<Rightarrow> xr_session \<times> xr_frame option \<Rightarrow> xr_timeline \<times> xr_token option" where
  "xr_finish t session i r = (case r of
       (s, None) \<Rightarrow> (drop_sample (put_session t i s), None)
     | (s, Some f) \<Rightarrow> (put_session t i s, valid_token (xr_token_from session f)))"

definition xr_on_begin :: "xr_timeline \<Rightarrow> u64 \<Rightarrow> bool \<Rightarrow> u64 \<Rightarrow> xr_timeline \<times> xr_token option" where
  "xr_on_begin t session discarded_previous ns = (case xr_find t session of
       None \<Rightarrow> (drop_sample t, None)
     | Some i \<Rightarrow> xr_finish t session i (session_begin (xt_sessions t i) discarded_previous ns))"

definition xr_on_end :: "xr_timeline \<Rightarrow> u64 \<Rightarrow> end_call \<Rightarrow> xr_timeline \<times> xr_token option" where
  "xr_on_end t session e = (case xr_find t session of
       None \<Rightarrow> (drop_sample t, None)
     | Some i \<Rightarrow> xr_finish t session i (session_end (xt_sessions t i) e))"

definition xr_on_destroy_session :: "xr_timeline \<Rightarrow> u64 \<Rightarrow> xr_timeline" where
  "xr_on_destroy_session t session = (case xr_find t session of
       None \<Rightarrow> t
     | Some i \<Rightarrow> let s = xt_sessions t i
         in (put_session t i (s\<lparr>xs_ready := False, xs_epoch := xs_epoch s + 1, xs_active_begin := 0,
               xs_latest := 0, xs_key := 0\<rparr>))
              \<lparr>xt_counts := counts_add (xt_counts t) (xs_counts s)\<rparr>)"

definition xr_latest :: "xr_timeline \<Rightarrow> u64 \<Rightarrow> xr_token option" where
  "xr_latest t session = (case xr_find t session of
       None \<Rightarrow> None
     | Some i \<Rightarrow> (case xr_frame_for (xt_sessions t i) (xs_latest (xt_sessions t i)) of
           None \<Rightarrow> None
         | Some j \<Rightarrow> valid_token (xr_token_from session (xs_frames (xt_sessions t i) j))))"

text \<open>The seven totals of \<open>stats\<close>; the eighth is \<open>xt_dropped\<close>.\<close>

definition live_counts :: "xr_session \<Rightarrow> xr_counts" where
  "live_counts s = (if xs_key s = 0 \<or> \<not> xs_ready s then counts_zero else xs_counts s)"

definition xr_stats :: "xr_timeline \<Rightarrow> xr_counts" where
  "xr_stats t = foldl (\<lambda>r i. counts_add r (live_counts (xt_sessions t i))) (xt_counts t) [0..<kSessionSlots]"

datatype xr_op =
    XO_Reset
  | XO_Wait u64 wait_call
  | XO_Begin u64 bool u64
  | XO_End u64 end_call
  | XO_Destroy u64

fun xr_exec :: "xr_timeline \<Rightarrow> xr_op \<Rightarrow> xr_timeline \<times> xr_token option" where
  "xr_exec t XO_Reset = (xr_reset t, None)"
| "xr_exec t (XO_Wait h w) = xr_on_wait t h w"
| "xr_exec t (XO_Begin h d ns) = xr_on_begin t h d ns"
| "xr_exec t (XO_End h e) = xr_on_end t h e"
| "xr_exec t (XO_Destroy h) = (xr_on_destroy_session t h, None)"

abbreviation xr_step :: "xr_timeline \<Rightarrow> xr_op \<Rightarrow> xr_timeline" where
  "xr_step t op \<equiv> fst (xr_exec t op)"

section \<open>The frame loop as a history\<close>

text \<open>
  What the timeline promises: for every session a numbered history of wait records, of which the last 16
  can still be begun and ended, the number of begin calls, and the frame that is begun and not yet
  ended (0 when there is none).  Tokens carry no epoch here.
\<close>

record loop_frame =
  lf_token :: xr_token
  lf_watermark :: u64
  lf_watermark_epoch :: u64

record xr_loop =
  lp_waits :: nat
  lp_begins :: nat
  lp_active :: nat
  lp_frames :: "nat \<Rightarrow> loop_frame option"

record xr_spec =
  sx_loops :: "u64 \<Rightarrow> xr_loop option"
  sx_counts :: xr_counts
  sx_dropped :: u64

definition waited :: "u64 \<Rightarrow> nat \<Rightarrow> wait_call \<Rightarrow> loop_frame" where
  "waited h k w = \<lparr>lf_token = xr_no_token\<lparr>xk_sequence := word_of_nat k, xk_session := h,
       xk_predicted_time := wc_time w, xk_predicted_period := wc_period w, xk_wait_return_ns := wc_return_ns w,
       xk_predicted_host_ns := value_or_zero (wc_host_ns w),
       xk_wait_to_display_ns := host_margin (wc_host_ns w) (wc_return_ns w),
       xk_should_render := wc_should_render w, xk_predicted_clock_valid := (wc_host_ns w \<noteq> None)\<rparr>,
     lf_watermark = wc_watermark w, lf_watermark_epoch = wc_watermark_epoch w\<rparr>"

definition on_token :: "(xr_token \<Rightarrow> xr_token) \<Rightarrow> loop_frame \<Rightarrow> loop_frame" where
  "on_token g f = f\<lparr>lf_token := g (lf_token f)\<rparr>"

definition token_begun :: "u64 \<Rightarrow> xr_token \<Rightarrow> xr_token" where
  "token_begun ns k = k\<lparr>xk_begin_return_ns := ns, xk_begun := True\<rparr>"

definition token_discarded :: "xr_token \<Rightarrow> xr_token" where
  "token_discarded k = k\<lparr>xk_discarded := True\<rparr>"

definition loop_correlation :: "loop_frame \<Rightarrow> frame_token option \<Rightarrow> (u64 \<times> u64) option" where
  "loop_correlation f latest =
     (if xk_should_render (lf_token f) then correlates (lf_watermark f) (lf_watermark_epoch f) latest else None)"

definition token_ended :: "end_call \<Rightarrow> (u64 \<times> u64) option \<Rightarrow> xr_token \<Rightarrow> xr_token" where
  "token_ended e c k = k\<lparr>xk_submitted_time := ec_time e, xk_end_return_ns := ec_return_ns e,
     xk_submitted_host_ns := value_or_zero (ec_host_ns e),
     xk_end_to_display_ns := (case ec_host_ns e of None \<Rightarrow> xk_end_to_display_ns k | Some x \<Rightarrow> signed_delta_ns x (ec_return_ns e)),
     xk_submitted_clock_valid := (xk_submitted_clock_valid k \<or> ec_host_ns e \<noteq> None),
     xk_render_epoch := (case c of None \<Rightarrow> xk_render_epoch k | Some (ep, q) \<Rightarrow> ep),
     xk_render_sequence := (case c of None \<Rightarrow> xk_render_sequence k | Some (ep, q) \<Rightarrow> q),
     xk_ended := True\<rparr>"

definition loop_new :: xr_loop where
  "loop_new = \<lparr>lp_waits = 0, lp_begins = 0, lp_active = 0, lp_frames = (\<lambda>_. None)\<rparr>"

definition loop_wait :: "u64 \<Rightarrow> wait_call \<Rightarrow> xr_loop \<Rightarrow> xr_loop" where
  "loop_wait h w l =
     (let k = Suc (lp_waits l)
      in l\<lparr>lp_waits := k, lp_frames := (\<lambda>q. if q = k then Some (waited h k w)
            else if q + kFramesPerSession \<le> k then None else lp_frames l q)\<rparr>)"

definition loop_discard :: "xr_loop \<Rightarrow> xr_loop" where
  "loop_discard l = l\<lparr>lp_active := 0, lp_frames := (case lp_frames l (lp_active l) of
       None \<Rightarrow> lp_frames l
     | Some f \<Rightarrow> (lp_frames l)(lp_active l \<mapsto> on_token token_discarded f))\<rparr>"

definition loop_begin :: "bool \<Rightarrow> u64 \<Rightarrow> xr_loop \<Rightarrow> xr_loop \<times> xr_token option" where
  "loop_begin discarded_previous ns l =
     (let l1 = if discarded_previous then loop_discard l else l; k = Suc (lp_begins l1); l2 = l1\<lparr>lp_begins := k\<rparr>
      in case lp_frames l2 k of
        None \<Rightarrow> (l2, None)
      | Some f \<Rightarrow> let f' = on_token (token_begun ns) f
          in (l2\<lparr>lp_active := k, lp_frames := (lp_frames l2)(k \<mapsto> f')\<rparr>, Some (lf_token f')))"

definition loop_end :: "end_call \<Rightarrow> xr_loop \<Rightarrow> xr_loop \<times> xr_token option" where
  "loop_end e l =
     (let k = lp_active l; l1 = l\<lparr>lp_active := 0\<rparr>
      in case lp_frames l1 k of
        None \<Rightarrow> (l1, None)
      | Some f \<Rightarrow> let f' = on_token (token_ended e (loop_correlation f (ec_latest e))) f
          in (l1\<lparr>lp_frames := (lp_frames l1)(k \<mapsto> f')\<rparr>, Some (lf_token f')))"

text \<open>What a call adds to the statistics.\<close>

definition one_if :: "bool \<Rightarrow> u64" where "one_if b = (if b then 1 else 0)"

definition wait_delta :: "wait_call \<Rightarrow> xr_counts" where
  "wait_delta w = counts_zero\<lparr>xc_waits := 1, xc_clocked_waits := one_if (wc_host_ns w \<noteq> None)\<rparr>"

definition begin_delta :: "bool \<Rightarrow> u64 \<Rightarrow> xr_loop \<Rightarrow> xr_counts" where
  "begin_delta d ns l = counts_zero\<lparr>xc_discarded := one_if (d \<and> lp_frames l (lp_active l) \<noteq> None),
     xc_begins := one_if (snd (loop_begin d ns l) \<noteq> None)\<rparr>"

definition end_delta :: "end_call \<Rightarrow> xr_loop \<Rightarrow> xr_counts" where
  "end_delta e l = (case lp_frames l (lp_active l) of
       None \<Rightarrow> counts_zero
     | Some f \<Rightarrow> counts_zero\<lparr>xc_ends := 1, xc_clocked_ends := one_if (ec_host_ns e \<noteq> None),
         xc_correlated := one_if (loop_correlation f (ec_latest e) \<noteq> None)\<rparr>)"

definition spec_put :: "xr_spec \<Rightarrow> u64 \<Rightarrow> xr_loop \<Rightarrow> xr_counts \<Rightarrow> xr_spec" where
  "spec_put sp h l d = sp\<lparr>sx_loops := (sx_loops sp)(h \<mapsto> l), sx_counts := counts_add d (sx_counts sp)\<rparr>"

definition spec_drop :: "xr_spec \<Rightarrow> xr_spec" where
  "spec_drop sp = sp\<lparr>sx_dropped := sx_dropped sp + 1\<rparr>"

definition spec_finish :: "xr_spec \<Rightarrow> u64 \<Rightarrow> xr_loop \<times> xr_token option \<Rightarrow> xr_counts \<Rightarrow> xr_spec \<times> xr_token option" where
  "spec_finish sp h r d =
     (let sp1 = spec_put sp h (fst r) d in (if snd r = None then spec_drop sp1 else sp1, snd r))"

fun loop_exec :: "xr_spec \<Rightarrow> xr_op \<Rightarrow> xr_spec \<times> xr_token option" where
  "loop_exec sp XO_Reset = (\<lparr>sx_loops = (\<lambda>_. None), sx_counts = counts_zero, sx_dropped = 0\<rparr>, None)"
| "loop_exec sp (XO_Wait h w) =
     (if h = 0 \<or> (sx_loops sp h = None \<and> \<not> card (dom (sx_loops sp)) < kSessionSlots) then (spec_drop sp, None)
      else let l = loop_wait h w (case sx_loops sp h of None \<Rightarrow> loop_new | Some l \<Rightarrow> l)
        in (spec_put sp h l (wait_delta w), map_option lf_token (lp_frames l (lp_waits l))))"
| "loop_exec sp (XO_Begin h d ns) = (case sx_loops sp h of
       None \<Rightarrow> (spec_drop sp, None)
     | Some l \<Rightarrow> spec_finish sp h (loop_begin d ns l) (begin_delta d ns l))"
| "loop_exec sp (XO_End h e) = (case sx_loops sp h of
       None \<Rightarrow> (spec_drop sp, None)
     | Some l \<Rightarrow> spec_finish sp h (loop_end e l) (end_delta e l))"
| "loop_exec sp (XO_Destroy h) = (sp\<lparr>sx_loops := (sx_loops sp)(h := None)\<rparr>, None)"

section \<open>The invariant\<close>

text \<open>The sequence number slot \<open>j\<close> holds after \<open>n\<close> waits: the greatest up to \<open>n\<close> that belongs in it.\<close>

definition held :: "nat \<Rightarrow> nat \<Rightarrow> nat" where
  "held n j = (if j \<le> n then j + 16 * ((n - j) div 16) else 0)"

lemma div_16_iff: "(m :: nat) div 16 = a \<longleftrightarrow> 16 * a \<le> m \<and> m < 16 * a + 16"
  by auto

lemma held_same: "j = Suc n mod 16 \<Longrightarrow> held (Suc n) j = Suc n"
proof -
  assume j: "j = Suc n mod 16"
  then have "Suc n - j = 16 * (Suc n div 16)" by (simp only: minus_mod_eq_mult_div)
  moreover from this have "(Suc n - j) div 16 = Suc n div 16" by simp
  moreover have "j \<le> Suc n" using j by (simp only: mod_less_eq_dividend)
  ultimately show ?thesis by (simp add: held_def)
qed

lemma held_other:
  assumes "j < 16" "j \<noteq> Suc n mod 16"
  shows "held (Suc n) j = held n j"
proof (cases "j \<le> n")
  case True
  have "Suc (n - j) mod 16 \<noteq> 0"
  proof
    assume "Suc (n - j) mod 16 = 0"
    then have "Suc (n - j) = 16 * (Suc (n - j) div 16)"
      using div_mult_mod_eq [of "Suc (n - j)" 16] by linarith
    then have "Suc n = 16 * (Suc (n - j) div 16) + j" using True by linarith
    then have "Suc n mod 16 = j mod 16" by (metis mod_mult_self4)
    then show False using assms by simp
  qed
  then have "Suc (n - j) div 16 = (n - j) div 16" by (simp add: div_Suc)
  then show ?thesis using True by (simp add: held_def Suc_diff_le)
next
  case False
  then have "j \<noteq> Suc n" using assms by auto
  then show ?thesis using False by (simp add: held_def)
qed

lemma held_iff:
  assumes "0 < k"
  shows "held n (k mod 16) = k \<longleftrightarrow> k \<le> n \<and> n < k + 16"
proof -
  have k: "k = 16 * (k div 16) + k mod 16" by simp
  show ?thesis
  proof (cases "k mod 16 \<le> n")
    case True
    then have "held n (k mod 16) = k \<longleftrightarrow> (n - k mod 16) div 16 = k div 16"
      using True k by (simp only: held_def if_True) linarith
    also have "\<dots> \<longleftrightarrow> k \<le> n \<and> n < k + 16"
      unfolding div_16_iff using k True by linarith
    finally show ?thesis .
  next
    case False
    then show ?thesis using k assms by (simp add: held_def) linarith
  qed
qed

lemma held_zero [simp]: "held 0 j = 0"
  by (simp add: held_def)

lemma held_le: "held n j \<le> n"
  using div_mult_mod_eq [of "n - j" 16] by (simp add: held_def) linarith

definition frame_inv :: "nat \<Rightarrow> nat \<Rightarrow> xr_frame \<Rightarrow> bool" where
  "frame_inv n j f \<longleftrightarrow> xf_sequence f = word_of_nat (held n j) \<and>
     (xf_sequence f \<noteq> 0 \<longrightarrow> xf_epoch f \<noteq> 0 \<and> xf_revision f AND 1 = 0)"

text \<open>Bounds \<open>e\<close> on the session's epoch and \<open>n\<close> on its counters.\<close>

definition session_inv :: "nat \<Rightarrow> nat \<Rightarrow> xr_session \<Rightarrow> bool" where
  "session_inv e n s \<longleftrightarrow> xs_epoch s \<noteq> 0 \<and> unat (xs_epoch s) \<le> e \<and> unat (xs_next_sequence s) \<le> n \<and>
     unat (xs_next_begin s) \<le> n \<and> (\<forall>j < 16. frame_inv (unat (xs_next_sequence s)) j (xs_frames s j))"

definition xr_inv :: "nat \<Rightarrow> xr_timeline \<Rightarrow> bool" where
  "xr_inv n t \<longleftrightarrow> (\<forall>i < kSessionSlots. session_inv (Suc n) n (xt_sessions t i) \<and>
       (session_keys t i \<noteq> 0 \<longrightarrow> xs_ready (xt_sessions t i))) \<and>
     (\<forall>i < kSessionSlots. \<forall>j < kSessionSlots. session_keys t i = session_keys t j \<longrightarrow> session_keys t i \<noteq> 0 \<longrightarrow> i = j)"

definition xr_limit :: nat where "xr_limit = 2 ^ 64 - 3"

definition loop_view :: "u64 \<Rightarrow> xr_frame \<Rightarrow> loop_frame" where
  "loop_view h f = \<lparr>lf_token = (xr_token_of h f)\<lparr>xk_epoch := 0\<rparr>, lf_watermark = xf_watermark f,
     lf_watermark_epoch = xf_watermark_epoch f\<rparr>"

definition loop_abs :: "u64 \<Rightarrow> xr_session \<Rightarrow> xr_loop" where
  "loop_abs h s = (let n = unat (xs_next_sequence s) in
     \<lparr>lp_waits = n, lp_begins = unat (xs_next_begin s), lp_active = unat (xs_active_begin s),
      lp_frames = (\<lambda>k. if 0 < k \<and> k \<le> n \<and> n < k + 16 then Some (loop_view h (xs_frames s (k mod 16))) else None)\<rparr>)"

definition xr_abs :: "xr_timeline \<Rightarrow> xr_spec" where
  "xr_abs t = \<lparr>sx_loops = (\<lambda>h. map_option (\<lambda>i. loop_abs h (xt_sessions t i)) (xr_find t h)),
     sx_counts = xr_stats t, sx_dropped = xt_dropped t\<rparr>"

text \<open>A frame number resolves exactly in the window of the last 16 waits.\<close>

lemma frame_for_iff:
  assumes "session_inv e n s" "n \<le> xr_limit"
  shows "xr_frame_for s q = (if 0 < unat q \<and> unat q \<le> unat (xs_next_sequence s) \<and> unat (xs_next_sequence s) < unat q + 16
    then Some (unat q mod 16) else None)"
proof -
  let ?N = "unat (xs_next_sequence s)" and ?j = "unat q mod 16"
  have b: "?N < 2 ^ 64 - 1" using assms by (simp add: session_inv_def xr_limit_def)
  have f: "xf_sequence (xs_frames s ?j) = word_of_nat (held ?N ?j)"
    using assms(1) by (simp add: session_inv_def frame_inv_def)
  have h: "unat (word_of_nat (held ?N ?j) :: u64) = held ?N ?j"
    using held_le [of ?N ?j] b by (simp add: unat_of_nat take_bit_nat_eq_self)
  have m: "xf_sequence (xs_frames s ?j) = q \<longleftrightarrow> held ?N ?j = unat q"
    using f h by (metis word_unat_eq_iff)
  have z: "q = 0 \<longleftrightarrow> unat q = 0" by (simp add: unat_eq_zero)
  have k: "q = xr_kBusy \<Longrightarrow> \<not> unat q \<le> ?N" using b unat_u64_max by (simp add: xr_kBusy_def)
  show ?thesis
    using held_iff [of "unat q" ?N] z k
    by (auto simp: xr_frame_for_def Let_def slot_def kFramesPerSession_def m)
qed

section \<open>Frames and their views\<close>

lemma flag_nonzero: "n < 8 \<Longrightarrow> (shl1 n :: u8) \<noteq> 0"
  using bit_shl1 [of n n, where 'a = 8] by auto

lemmas flag_reads = xr_flag_defs and_shl1_eq_0_iff bit_or_shl1 flag_nonzero

lemma view_wait:
  "unat q = k \<Longrightarrow> loop_view h (wait_frame ep q w) = waited h k w"
  by (cases "wc_host_ns w"; cases "wc_should_render w")
    (auto simp: loop_view_def xr_token_of_def wait_frame_def waited_def xr_no_token_def flag_reads Let_def bit_shl1)

lemma view_discarded: "loop_view h (frame_discarded f) = on_token token_discarded (loop_view h f)"
  by (simp add: loop_view_def xr_token_of_def frame_discarded_def on_token_def token_discarded_def flag_reads)

lemma view_begun: "loop_view h (frame_begun ns f) = on_token (token_begun ns) (loop_view h f)"
  by (simp add: loop_view_def xr_token_of_def frame_begun_def on_token_def token_begun_def flag_reads)

lemma view_correlation: "loop_correlation (loop_view h f) latest = frame_correlation f latest"
  by (simp add: loop_correlation_def frame_correlation_def loop_view_def xr_token_of_def)

definition frame_before_end :: "end_call \<Rightarrow> xr_frame \<Rightarrow> xr_frame" where
  "frame_before_end e f = frame_clocked (ec_host_ns e) (ec_return_ns e) (frame_submitted e f)"

lemma before_end_correlation: "frame_correlation (frame_before_end e f) latest = frame_correlation f latest"
  by (cases "ec_host_ns e")
    (simp_all add: frame_correlation_def frame_before_end_def frame_clocked_def frame_submitted_def flag_reads)

lemma view_ended:
  "loop_view h (frame_ended e (frame_before_end e f)) =
    on_token (token_ended e (loop_correlation (loop_view h f) (ec_latest e))) (loop_view h f)"
proof -
  have c: "frame_correlated l (frame_before_end e f) = (case frame_correlation f l of
      None \<Rightarrow> frame_before_end e f
    | Some (ep, q) \<Rightarrow> (frame_before_end e f)\<lparr>xf_render_epoch := ep, xf_render_sequence := q\<rparr>)" for l
    by (simp only: frame_correlated_def before_end_correlation)
  show ?thesis
    unfolding view_correlation frame_ended_def c
    by (cases "ec_host_ns e"; cases "frame_correlation f (ec_latest e)")
      (auto simp: frame_before_end_def Let_def frame_clocked_def frame_submitted_def loop_view_def xr_token_of_def
        on_token_def token_ended_def flag_reads)
qed

text \<open>Updates of a published frame keep its number, its epoch and an even revision.\<close>

definition frame_kept :: "xr_frame \<Rightarrow> xr_frame \<Rightarrow> bool" where
  "frame_kept f g \<longleftrightarrow> xf_sequence g = xf_sequence f \<and> xf_epoch g = xf_epoch f \<and> (xf_revision g AND 1 = 0 \<longleftrightarrow> xf_revision f AND 1 = 0)"

lemma revision_even: "(r + 2) AND 1 = (0 :: u64) \<longleftrightarrow> r AND 1 = 0"
  by (simp add: and_one_eq even_iff_mod_2_eq_zero [symmetric])

lemma kept [simp]:
  "frame_kept f (frame_discarded f)" "frame_kept f (frame_begun ns f)"
  "frame_kept f (frame_ended e (frame_before_end e f))"
  by (auto simp: frame_kept_def frame_discarded_def frame_begun_def frame_ended_def frame_correlated_def
      frame_before_end_def frame_clocked_def frame_submitted_def Let_def revision_even split: option.split)

lemma frame_kept_inv: "frame_kept f g \<Longrightarrow> frame_inv n j f \<Longrightarrow> frame_inv n j g"
  by (auto simp: frame_inv_def frame_kept_def)

section \<open>Sessions\<close>

lemma put_frame_fields [simp]:
  "xs_key (put_frame s j f) = xs_key s" "xs_ready (put_frame s j f) = xs_ready s" "xs_epoch (put_frame s j f) = xs_epoch s"
  "xs_next_sequence (put_frame s j f) = xs_next_sequence s" "xs_next_begin (put_frame s j f) = xs_next_begin s"
  "xs_active_begin (put_frame s j f) = xs_active_begin s" "xs_latest (put_frame s j f) = xs_latest s"
  "xs_counts (put_frame s j f) = xs_counts s" "xs_frames (put_frame s j f) = (xs_frames s)(j := f)"
  by (simp_all add: put_frame_def)

text \<open>A session is changed within its identity.\<close>

definition same_session :: "xr_session \<Rightarrow> xr_session \<Rightarrow> bool" where
  "same_session s s' \<longleftrightarrow> xs_key s' = xs_key s \<and> xs_ready s' = xs_ready s \<and> xs_epoch s' = xs_epoch s"

lemma session_wait_spec:
  assumes "session_inv e n s" "n < xr_limit" "session_wait s w = (s', f)"
  shows "session_inv e (Suc n) s' \<and> same_session s s' \<and> loop_abs h s' = loop_wait h w (loop_abs h s) \<and>
    loop_view h f = waited h (Suc (unat (xs_next_sequence s))) w \<and> xr_token_from h f = xr_token_of h f \<and>
    xs_counts s' = counts_add (wait_delta w) (xs_counts s)"
proof -
  let ?N = "unat (xs_next_sequence s)" and ?q = "xs_next_sequence s + 1"
  have N: "?N \<le> n" "unat (xs_next_begin s) \<le> n" "xs_epoch s \<noteq> 0" "unat (xs_epoch s) \<le> e"
    and F: "\<And>j. j < 16 \<Longrightarrow> frame_inv ?N j (xs_frames s j)"
    using assms(1) by (auto simp: session_inv_def)
  have lim: "Suc n < 2 ^ 64 - 1" using assms(2) by (simp add: xr_limit_def)
  have q: "unat ?q = Suc ?N" using N(1) lim unat_u64_max by (intro unat_plus_one) auto
  have qz: "?q \<noteq> 0" using q by (metis unat_0 nat.distinct(1))
  have qb: "?q \<noteq> xr_kBusy"
  proof
    assume "?q = xr_kBusy"
    then have "unat ?q = 18446744073709551615" by (simp only: xr_kBusy_def unat_u64_max)
    then show False using q N(1) lim by simp
  qed
  have f: "f = wait_frame (xs_epoch s) ?q w" and s': "s' = (put_frame s (Suc ?N mod 16) f)
      \<lparr>xs_next_sequence := ?q, xs_latest := ?q, xs_counts := count_wait (wc_host_ns w \<noteq> None) (xs_counts s)\<rparr>"
    using assms(3) by (auto simp: session_wait_def Let_def slot_def kFramesPerSession_def q)
  have "(word_of_nat (Suc ?N) :: u64) = ?q" unfolding q [symmetric] by simp
  then have new: "frame_inv (Suc ?N) (Suc ?N mod 16) f"
    unfolding frame_inv_def held_same [OF refl] using qz N(3) by (simp add: f wait_frame_def)
  have old: "frame_inv (Suc ?N) j (xs_frames s j)" if "j < 16" "j \<noteq> Suc ?N mod 16" for j
    using F [OF that(1)] by (simp add: frame_inv_def held_other [OF that])
  have "session_inv e (Suc n) s'"
    using N new old by (simp add: session_inv_def s' q)
  moreover have view: "loop_view h f = waited h (Suc ?N) w"
    unfolding f by (rule view_wait [OF q])
  moreover have "loop_abs h s' = loop_wait h w (loop_abs h s)"
  proof -
    have d: "Suc ?N mod 16 = k mod 16 \<Longrightarrow> 0 < k \<Longrightarrow> k \<le> Suc ?N \<Longrightarrow> Suc ?N < k + 16 \<Longrightarrow> k = Suc ?N" for k
      using held_same [OF refl, of ?N] held_iff [of k "Suc ?N"] by simp
    have "k mod 16 = Suc ?N mod 16 \<Longrightarrow> 0 < k \<Longrightarrow> k \<le> ?N \<Longrightarrow> \<not> 15 + k \<le> ?N \<Longrightarrow> False" for k
      using d [of k] by simp
    then show ?thesis
      by (auto simp: loop_abs_def loop_wait_def s' q view Let_def kFramesPerSession_def fun_eq_iff)
  qed
  moreover have "xr_token_from h f = xr_token_of h f"
    using qz qb by (simp add: xr_token_from_def f wait_frame_def)
  moreover have "xs_counts s' = counts_add (wait_delta w) (xs_counts s)"
    by (simp add: s' count_wait_def wait_delta_def counts_add_def counts_zero_def one_if_def Let_def)
  ultimately show ?thesis by (simp add: same_session_def s')
qed

lemma session_inv_mono: "session_inv e n s \<Longrightarrow> e \<le> e' \<Longrightarrow> n \<le> n' \<Longrightarrow> session_inv e' n' s"
  by (auto simp: session_inv_def)

lemma session_clear_inv:
  assumes "session_inv e n s" "e < 2 ^ 64 - 1"
  shows "session_inv (Suc e) 0 (session_clear s)"
proof -
  have "unat (xs_epoch s + 1) = Suc (unat (xs_epoch s))"
    using assms unat_u64_max by (intro unat_plus_one) (auto simp: session_inv_def)
  then show ?thesis
    using assms(1) by (auto simp: session_inv_def session_clear_def frame_inv_def frame_clear_def unat_eq_zero [symmetric])
qed

lemma session_inv_identity: "session_inv e n (s\<lparr>xs_key := k, xs_ready := r\<rparr>) = session_inv e n s"
  by (simp add: session_inv_def)

lemma session_clear_abs: "loop_abs h ((session_clear s)\<lparr>xs_key := k, xs_ready := r\<rparr>) = loop_new"
  by (auto simp: loop_abs_def session_clear_def loop_new_def)

text \<open>Replacing a resolved frame by a later version of it.\<close>

lemma put_frame_inv:
  assumes "session_inv e n s" "frame_kept (xs_frames s j) f"
  shows "session_inv e n (put_frame s j f)"
  using assms frame_kept_inv [OF assms(2)] by (auto simp: session_inv_def)

lemma put_frame_abs:
  assumes "lp_frames (loop_abs h s) k = Some g"
  shows "lp_frames (loop_abs h (put_frame s (k mod 16) f)) = (lp_frames (loop_abs h s))(k \<mapsto> loop_view h f)"
proof -
  let ?N = "unat (xs_next_sequence s)"
  have k: "0 < k" "k \<le> ?N" "?N < k + 16" using assms by (auto simp: loop_abs_def Let_def split: if_splits)
  have "k mod 16 = q mod 16 \<Longrightarrow> 0 < q \<Longrightarrow> q \<le> ?N \<Longrightarrow> ?N < q + 16 \<Longrightarrow> q = k" for q
    using held_iff [of k ?N] held_iff [of q ?N] k by simp
  then show ?thesis using k by (auto simp: loop_abs_def Let_def fun_eq_iff)
qed

lemma frame_for_abs:
  assumes "session_inv e n s" "n \<le> xr_limit"
  shows "xr_frame_for s q = (if lp_frames (loop_abs h s) (unat q) = None then None else Some (unat q mod 16))"
  unfolding frame_for_iff [OF assms] by (simp add: loop_abs_def Let_def)

lemma abs_frame:
  "lp_frames (loop_abs h s) k = Some g \<Longrightarrow> g = loop_view h (xs_frames s (k mod 16))"
  by (simp add: loop_abs_def Let_def split: if_splits)

lemma loop_abs_fields:
  "lp_waits (loop_abs h s) = unat (xs_next_sequence s)" "lp_begins (loop_abs h s) = unat (xs_next_begin s)"
  "lp_active (loop_abs h s) = unat (xs_active_begin s)"
  by (simp_all add: loop_abs_def Let_def)

lemma loop_abs_cong:
  "xs_next_sequence s' = xs_next_sequence s \<Longrightarrow> xs_frames s' = xs_frames s \<Longrightarrow>
   lp_frames (loop_abs h s') = lp_frames (loop_abs h s)"
  by (simp add: loop_abs_def Let_def cong: if_cong)

lemma loop_eqI:
  "lp_waits a = lp_waits b \<Longrightarrow> lp_begins a = lp_begins b \<Longrightarrow> lp_active a = lp_active b \<Longrightarrow>
   lp_frames a = lp_frames b \<Longrightarrow> a = (b :: xr_loop)"
  by simp

text \<open>A resolved frame gives its token.\<close>

lemma resolved_token:
  fixes q :: u64
  assumes "session_inv e n s" "n \<le> xr_limit" "lp_frames (loop_abs h s) (unat q) = Some g"
    and "frame_kept (xs_frames s (unat q mod 16)) f"
  shows "xr_token_from h f = xr_token_of h f \<and> xf_sequence f \<noteq> 0 \<and> xf_epoch f \<noteq> 0"
proof -
  have "xr_frame_for s q = Some (unat q mod 16)" using frame_for_abs [OF assms(1,2), of q h] assms(3) by simp
  then have "q \<noteq> 0" "q \<noteq> xr_kBusy" "xf_sequence (xs_frames s (unat q mod 16)) = q"
    by (auto simp: xr_frame_for_def Let_def slot_def kFramesPerSession_def split: if_splits)
  moreover have "frame_inv (unat (xs_next_sequence s)) (unat q mod 16) (xs_frames s (unat q mod 16))"
    using assms(1) by (simp add: session_inv_def)
  ultimately show ?thesis
    using assms(4) by (auto simp: frame_inv_def frame_kept_def xr_token_from_def)
qed

lemma session_discard_spec:
  assumes "session_inv e n s" "n \<le> xr_limit"
  shows "session_inv e n (session_discard s) \<and> same_session s (session_discard s) \<and>
    loop_abs h (session_discard s) = loop_discard (loop_abs h s) \<and>
    xs_next_begin (session_discard s) = xs_next_begin s \<and>
    xs_counts (session_discard s) =
      counts_add (counts_zero\<lparr>xc_discarded := one_if (lp_frames (loop_abs h s) (lp_active (loop_abs h s)) \<noteq> None)\<rparr>) (xs_counts s)"
proof -
  let ?k = "unat (xs_active_begin s)" and ?s1 = "s\<lparr>xs_active_begin := 0\<rparr>"
  have i1: "session_inv e n ?s1" using assms(1) by (simp add: session_inv_def)
  have l1: "lp_frames (loop_abs h ?s1) = lp_frames (loop_abs h s)" by (rule loop_abs_cong) simp_all
  have r: "xr_frame_for ?s1 (xs_active_begin s) = (if lp_frames (loop_abs h s) ?k = None then None else Some (?k mod 16))"
    unfolding frame_for_abs [OF i1 assms(2), of _ h] l1 ..
  show ?thesis
  proof (cases "lp_frames (loop_abs h s) ?k")
    case None
    then have "session_discard s = ?s1" by (simp add: session_discard_def Let_def r)
    moreover from this have "loop_abs h (session_discard s) = loop_discard (loop_abs h s)"
      using None l1 by (intro loop_eqI) (simp_all add: loop_abs_fields loop_discard_def)
    ultimately show ?thesis
      using i1 None by (simp add: same_session_def loop_abs_fields counts_add_def counts_zero_def one_if_def)
  next
    case (Some g)
    let ?f = "frame_discarded (xs_frames s (?k mod 16))"
    let ?p = "put_frame ?s1 (?k mod 16) ?f"
    have d: "session_discard s = ?p\<lparr>xs_counts := (xs_counts s)\<lparr>xc_discarded := xc_discarded (xs_counts s) + 1\<rparr>\<rparr>"
      using Some by (simp add: session_discard_def Let_def r)
    have "lp_frames (loop_abs h ?p) = (lp_frames (loop_abs h s))(?k \<mapsto> on_token token_discarded g)"
      using put_frame_abs [of h ?s1 ?k g ?f] Some abs_frame [OF Some] by (simp add: l1 view_discarded)
    moreover have "lp_frames (loop_abs h (session_discard s)) = lp_frames (loop_abs h ?p)"
      by (rule loop_abs_cong) (simp_all add: d)
    ultimately have "loop_abs h (session_discard s) = loop_discard (loop_abs h s)"
      using Some by (intro loop_eqI) (simp_all add: loop_abs_fields d loop_discard_def)
    moreover have "session_inv e n (session_discard s)"
      using put_frame_inv [OF i1, of "?k mod 16" ?f] by (simp add: d session_inv_def)
    ultimately show ?thesis
      using Some by (simp add: d same_session_def loop_abs_fields counts_add_def counts_zero_def one_if_def)
  qed
qed

lemma session_begin_spec:
  assumes "session_inv e n s" "n < xr_limit" "session_begin s d ns = (s', r)"
  shows "session_inv e (Suc n) s' \<and> same_session s s' \<and> loop_abs h s' = fst (loop_begin d ns (loop_abs h s)) \<and>
    map_option (\<lambda>f. lf_token (loop_view h f)) r = snd (loop_begin d ns (loop_abs h s)) \<and>
    (\<forall>f. r = Some f \<longrightarrow> xr_token_from h f = xr_token_of h f \<and> xf_sequence f \<noteq> 0 \<and> xf_epoch f \<noteq> 0) \<and>
    xs_counts s' = counts_add (begin_delta d ns (loop_abs h s)) (xs_counts s)"
proof -
  define s1 where "s1 = (if d then session_discard s else s)"
  define l1 where "l1 = (if d then loop_discard (loop_abs h s) else loop_abs h s)"
  let ?dc = "counts_zero\<lparr>xc_discarded := one_if (d \<and> lp_frames (loop_abs h s) (lp_active (loop_abs h s)) \<noteq> None)\<rparr>"
  have n: "n \<le> xr_limit" using assms(2) by simp
  have S: "session_inv e n s1" "same_session s s1" "loop_abs h s1 = l1" "xs_next_begin s1 = xs_next_begin s"
    "xs_counts s1 = counts_add ?dc (xs_counts s)"
    using assms(1) session_discard_spec [OF assms(1) n, of h]
    by (cases d; simp add: s1_def l1_def same_session_def counts_add_def counts_zero_def one_if_def)+
  let ?q = "xs_next_begin s1 + 1"
  let ?s2 = "s1\<lparr>xs_next_begin := ?q\<rparr>" and ?k = "Suc (lp_begins l1)"
  have q: "unat ?q = ?k"
  proof -
    have "unat (xs_next_begin s1) \<le> n" using S(1) by (simp add: session_inv_def)
    then have "unat ?q = Suc (unat (xs_next_begin s1))"
      using assms(2) unat_u64_max by (intro unat_plus_one) (auto simp: xr_limit_def)
    then show ?thesis using S(3) by (auto simp: loop_abs_fields)
  qed
  have i2: "session_inv e (Suc n) ?s2"
    using S(1,3) q by (auto simp: session_inv_def loop_abs_fields)
  have l2: "lp_frames (loop_abs h ?s2) = lp_frames l1" unfolding S(3) [symmetric] by (rule loop_abs_cong) simp_all
  have fa: "xr_frame_for ?s2 ?q = (if lp_frames l1 ?k = None then None else Some (?k mod 16))"
    using frame_for_abs [OF i2, of ?q h] assms(2) by (simp add: l2 q)
  have L1: "fst (loop_begin d ns (loop_abs h s)) = l1\<lparr>lp_begins := ?k\<rparr>" "snd (loop_begin d ns (loop_abs h s)) = None"
    if "lp_frames l1 ?k = None"
    using that by (auto simp: loop_begin_def Let_def l1_def)
  have L2: "loop_begin d ns (loop_abs h s) = (let f' = on_token (token_begun ns) g in
      (l1\<lparr>lp_begins := ?k, lp_active := ?k, lp_frames := (lp_frames l1)(?k \<mapsto> f')\<rparr>, Some (lf_token f')))"
    if "lp_frames l1 ?k = Some g" for g
    using that by (auto simp: loop_begin_def Let_def l1_def)
  have B: "begin_delta d ns (loop_abs h s) = counts_add (counts_zero\<lparr>xc_begins := one_if (lp_frames l1 ?k \<noteq> None)\<rparr>) ?dc"
    by (cases "lp_frames l1 ?k") (simp_all add: begin_delta_def L1 L2 Let_def counts_add_def counts_zero_def)
  have lm: "lp_waits l1 = lp_waits (loop_abs h s1)" "lp_active l1 = unat (xs_active_begin s1)"
    using S(3) by (auto simp: loop_abs_fields)
  show ?thesis
  proof (cases "lp_frames l1 ?k")
    case None
    have e: "s' = ?s2" "r = None"
      using assms(3) fa None by (auto simp: session_begin_def Let_def s1_def [symmetric])
    have "loop_abs h s' = l1\<lparr>lp_begins := ?k\<rparr>"
      using l2 lm q by (intro loop_eqI) (simp_all add: e loop_abs_fields)
    then show ?thesis
      using i2 S(2,5) None by (simp add: e(1,2) L1 [OF None] B same_session_def counts_add_def counts_zero_def one_if_def)
  next
    case (Some g)
    let ?f = "frame_begun ns (xs_frames s1 (?k mod 16))"
    let ?p = "put_frame ?s2 (?k mod 16) ?f"
    have e: "s' = ?p\<lparr>xs_active_begin := ?q, xs_counts := (xs_counts s1)\<lparr>xc_begins := xc_begins (xs_counts s1) + 1\<rparr>\<rparr>"
        "r = Some ?f"
      using assms(3) fa Some by (auto simp: session_begin_def Let_def s1_def [symmetric])
    have v: "loop_view h ?f = on_token (token_begun ns) g"
      using abs_frame [of h ?s2 ?k g] Some by (simp add: l2 view_begun)
    have "lp_frames (loop_abs h ?p) = (lp_frames l1)(?k \<mapsto> on_token (token_begun ns) g)"
      using put_frame_abs [of h ?s2 ?k g ?f] Some by (simp add: l2 v)
    moreover have "lp_frames (loop_abs h s') = lp_frames (loop_abs h ?p)"
      by (rule loop_abs_cong) (simp_all add: e)
    ultimately have "loop_abs h s' = fst (loop_begin d ns (loop_abs h s))"
      using lm q by (intro loop_eqI) (simp_all add: L2 [OF Some] e loop_abs_fields Let_def)
    moreover have "session_inv e (Suc n) s'"
      using put_frame_inv [OF i2, of "?k mod 16" ?f] by (simp add: e session_inv_def)
    moreover have "xr_token_from h ?f = xr_token_of h ?f \<and> xf_sequence ?f \<noteq> 0 \<and> xf_epoch ?f \<noteq> 0"
      using resolved_token [OF i2, where q = ?q and h = h and g = g and f = ?f] assms(2) Some q by (simp add: l2)
    ultimately show ?thesis
      using S(2,5) Some by (simp add: e L2 [OF Some] B v same_session_def counts_add_def counts_zero_def one_if_def Let_def)
  qed
qed

lemma session_end_spec:
  assumes "session_inv e n s" "n < xr_limit" "session_end s c = (s', r)"
  shows "session_inv e (Suc n) s' \<and> same_session s s' \<and> loop_abs h s' = fst (loop_end c (loop_abs h s)) \<and>
    map_option (\<lambda>f. lf_token (loop_view h f)) r = snd (loop_end c (loop_abs h s)) \<and>
    (\<forall>f. r = Some f \<longrightarrow> xr_token_from h f = xr_token_of h f \<and> xf_sequence f \<noteq> 0 \<and> xf_epoch f \<noteq> 0) \<and>
    xs_counts s' = counts_add (end_delta c (loop_abs h s)) (xs_counts s)"
proof -
  let ?k = "unat (xs_active_begin s)" and ?s1 = "s\<lparr>xs_active_begin := 0\<rparr>"
  have i1: "session_inv e (Suc n) ?s1" using assms(1) by (auto simp: session_inv_def)
  have l1: "lp_frames (loop_abs h ?s1) = lp_frames (loop_abs h s)" by (rule loop_abs_cong) simp_all
  have fa: "xr_frame_for ?s1 (xs_active_begin s) = (if lp_frames (loop_abs h s) ?k = None then None else Some (?k mod 16))"
    using frame_for_abs [OF i1, of "xs_active_begin s" h] assms(2) by (simp add: l1)
  show ?thesis
  proof (cases "lp_frames (loop_abs h s) ?k")
    case None
    have e: "s' = ?s1" "r = None"
      using assms(3) fa None by (auto simp: session_end_def Let_def)
    have "loop_abs h s' = (loop_abs h s)\<lparr>lp_active := 0\<rparr>"
      using l1 by (intro loop_eqI) (simp_all add: e loop_abs_fields)
    then show ?thesis
      using i1 None
      by (simp add: e loop_end_def end_delta_def Let_def loop_abs_fields same_session_def counts_add_def counts_zero_def)
  next
    case (Some g)
    let ?o = "xs_frames s (?k mod 16)"
    let ?f = "frame_ended c (frame_before_end c ?o)"
    let ?p = "put_frame ?s1 (?k mod 16) ?f" and ?cor = "frame_correlation ?o (ec_latest c)"
    have e: "s' = ?p\<lparr>xs_counts := count_end (ec_host_ns c \<noteq> None) (?cor \<noteq> None) (xs_counts s)\<rparr>" "r = Some ?f"
      using assms(3) fa Some
      by (auto simp: session_end_def Let_def frame_before_end_def [symmetric] before_end_correlation)
    have g: "g = loop_view h ?o" by (rule abs_frame [OF Some])
    have v: "loop_view h ?f = on_token (token_ended c (loop_correlation g (ec_latest c))) g"
      unfolding g by (rule view_ended)
    have L: "loop_end c (loop_abs h s) = (let f' = on_token (token_ended c (loop_correlation g (ec_latest c))) g in
        ((loop_abs h s)\<lparr>lp_active := 0, lp_frames := (lp_frames (loop_abs h s))(?k \<mapsto> f')\<rparr>, Some (lf_token f')))"
      using Some by (simp add: loop_end_def Let_def loop_abs_fields)
    have "lp_frames (loop_abs h ?p) = (lp_frames (loop_abs h s))(?k \<mapsto> loop_view h ?f)"
      using put_frame_abs [of h ?s1 ?k g ?f] Some by (simp add: l1)
    moreover have "lp_frames (loop_abs h s') = lp_frames (loop_abs h ?p)"
      by (rule loop_abs_cong) (simp_all add: e)
    ultimately have "loop_abs h s' = fst (loop_end c (loop_abs h s))"
      by (intro loop_eqI) (simp_all add: L e loop_abs_fields Let_def v)
    moreover have "session_inv e (Suc n) s'"
      using put_frame_inv [OF i1, of "?k mod 16" ?f] by (simp add: e session_inv_def)
    moreover have "xr_token_from h ?f = xr_token_of h ?f \<and> xf_sequence ?f \<noteq> 0 \<and> xf_epoch ?f \<noteq> 0"
      using resolved_token [OF i1, where q = "xs_active_begin s" and h = h and g = g and f = ?f] assms(2) Some by (simp add: l1)
    moreover have "xs_counts s' = counts_add (end_delta c (loop_abs h s)) (xs_counts s)"
      using Some by (cases "ec_host_ns c"; cases ?cor)
        (simp_all add: e count_end_def end_delta_def loop_abs_fields g view_correlation counts_add_def counts_zero_def one_if_def Let_def)
    ultimately show ?thesis
      by (simp add: e L v same_session_def Let_def)
  qed
qed

section \<open>Statistics\<close>

lemma counts_ac:
  "counts_add a (counts_add b c) = counts_add (counts_add a b) c" "counts_add a b = counts_add b a"
  "counts_add counts_zero a = a" "counts_add a counts_zero = a"
  by (simp_all add: counts_add_def counts_zero_def ac_simps)

definition sum_counts :: "(nat \<Rightarrow> xr_counts) \<Rightarrow> xr_counts \<Rightarrow> nat list \<Rightarrow> xr_counts" where
  "sum_counts g a is = foldl (\<lambda>r i. counts_add r (g i)) a is"

lemma sum_counts_simps [simp]:
  "sum_counts g a [] = a" "sum_counts g a (i # is) = sum_counts g (counts_add a (g i)) is"
  by (simp_all add: sum_counts_def)

lemma sum_counts_shift: "sum_counts g (counts_add d a) is = counts_add d (sum_counts g a is)"
  by (induction "is" arbitrary: a) (simp_all add: counts_ac(1) [symmetric])

lemma sum_counts_outside: "i \<notin> set is \<Longrightarrow> sum_counts (g(i := c)) a is = sum_counts g a is"
  by (induction "is" arbitrary: a) auto

lemma sum_counts_grow:
  "distinct is \<Longrightarrow> i \<in> set is \<Longrightarrow> sum_counts (g(i := counts_add d (g i))) a is = counts_add d (sum_counts g a is)"
proof (induction "is" arbitrary: a)
  case (Cons j js)
  show ?case
  proof (cases "j = i")
    case True
    have "counts_add a (counts_add d (g i)) = counts_add d (counts_add a (g i))"
      by (metis counts_ac(1,2))
    moreover have "sum_counts (g(i := c)) b js = sum_counts g b js" for c b
      using Cons.prems(1) True by (intro sum_counts_outside) simp
    ultimately show ?thesis by (simp only: True sum_counts_simps fun_upd_same sum_counts_shift)
  qed (use Cons in auto)
qed simp

lemma sum_counts_zero: "sum_counts (\<lambda>_. counts_zero) a is = a"
  by (induction "is" arbitrary: a) (simp_all add: counts_ac)

abbreviation live_of :: "xr_timeline \<Rightarrow> nat \<Rightarrow> xr_counts" where
  "live_of t i \<equiv> live_counts (xt_sessions t i)"

lemma stats_sum: "xr_stats t = sum_counts (live_of t) (xt_counts t) [0..<kSessionSlots]"
  by (simp add: xr_stats_def sum_counts_def)

lemma put_session_fields [simp]:
  "xt_sessions (put_session t i s) = (xt_sessions t)(i := s)" "xt_counts (put_session t i s) = xt_counts t"
  "xt_dropped (put_session t i s) = xt_dropped t"
  by (simp_all add: put_session_def)

lemma stats_put:
  assumes "i < kSessionSlots" "live_counts s = counts_add d (live_of t i)"
  shows "xr_stats (put_session t i s) = counts_add d (xr_stats t)"
proof -
  have "live_of (put_session t i s) = (live_of t)(i := counts_add d (live_of t i))"
    using assms(2) by auto
  then show ?thesis
    using sum_counts_grow [of "[0..<kSessionSlots]" i "live_of t" d] assms(1)
    by (simp only: stats_sum put_session_fields) simp
qed

section \<open>The table\<close>

lemma session_order_set: "set (session_order h) = {..<kSessionSlots}"
  by (simp add: session_order_def probe_order_set kSessionSlots_def)

lemma xr_find_iff:
  assumes "xr_inv n t"
  shows "xr_find t h = Some i \<longleftrightarrow> h \<noteq> 0 \<and> i < kSessionSlots \<and> session_keys t i = h"
proof -
  have r: "xs_ready (xt_sessions t j)" if "j < kSessionSlots" "session_keys t j \<noteq> 0" for j
    using assms that by (simp add: xr_inv_def)
  have u: "i = j" if "i < kSessionSlots" "j < kSessionSlots" "session_keys t i = session_keys t j" "session_keys t i \<noteq> 0" for i j
    using assms that by (auto simp: xr_inv_def)
  show ?thesis
  proof (cases "find_skip (session_keys t) h (session_order h)")
    case None
    then show ?thesis using find_skip_NoneD [OF None, of i] by (auto simp: xr_find_def session_order_set)
  next
    case (Some j)
    then have j: "session_keys t j = h" "j < kSessionSlots"
      using find_skip_SomeD [OF Some] by (auto simp: session_order_set)
    then show ?thesis using r [of j] u [of i j] by (auto simp: xr_find_def Some)
  qed
qed

lemma xr_inv_mono: "xr_inv n t \<Longrightarrow> n \<le> m \<Longrightarrow> xr_inv m t"
  using session_inv_mono unfolding xr_inv_def by (meson Suc_le_mono)

lemma drop_sample_sessions [simp]: "xt_sessions (drop_sample t) = xt_sessions t"
  by (simp add: drop_sample_def)

lemma drop_sample_inv [simp]: "xr_inv n (drop_sample t) = xr_inv n t"
  by (simp add: xr_inv_def)

lemma xr_find_drop [simp]: "xr_find (drop_sample t) h = xr_find t h"
  by (simp only: xr_find_def drop_sample_sessions)

lemma drop_sample_abs: "xr_abs (drop_sample t) = spec_drop (xr_abs t)"
  by (simp add: xr_abs_def spec_drop_def xr_stats_def) (simp add: drop_sample_def)

text \<open>Writing back the session found.\<close>

lemma put_known:
  assumes "xr_inv n t" "n \<le> m" "xr_find t h = Some i" "session_inv (Suc m) m s"
    and "same_session (xt_sessions t i) s" "xs_counts s = counts_add d (xs_counts (xt_sessions t i))"
  shows "xr_inv m (put_session t i s) \<and> xr_abs (put_session t i s) = spec_put (xr_abs t) h (loop_abs h s) d"
proof -
  have i: "h \<noteq> 0" "i < kSessionSlots" "session_keys t i = h" using xr_find_iff [OF assms(1)] assms(3) by auto
  have r: "xs_ready (xt_sessions t i)" using assms(1) i by (simp add: xr_inv_def)
  have k: "xs_key (xt_sessions (put_session t i s) j) = xs_key (xt_sessions t j)" for j
    using assms(5) by (simp add: same_session_def)
  have rd: "xs_ready (xt_sessions (put_session t i s) j) = xs_ready (xt_sessions t j)" for j
    using assms(5) by (simp add: same_session_def)
  have inv: "xr_inv m (put_session t i s)"
    using xr_inv_mono [OF assms(1,2)] assms(4) unfolding xr_inv_def k rd by simp
  have f: "xr_find (put_session t i s) g = xr_find t g" for g
    by (simp only: xr_find_def k rd)
  have st: "xr_stats (put_session t i s) = counts_add d (xr_stats t)"
    using assms(5,6) i r by (intro stats_put) (simp_all add: live_counts_def same_session_def)
  have ne: "xr_find t g \<noteq> Some i" if "g \<noteq> h" for g
    using xr_find_iff [OF assms(1)] i that by auto
  have "map_option (\<lambda>j. loop_abs g (((xt_sessions t)(i := s)) j)) (xr_find t g) =
      (if g = h then Some (loop_abs h s) else map_option (\<lambda>j. loop_abs g (xt_sessions t j)) (xr_find t g))" for g
    using assms(3) ne [of g] by (cases "xr_find t g"; cases "g = h") auto
  then show ?thesis
    using inv by (auto simp: xr_abs_def spec_put_def f st fun_eq_iff)
qed

lemma spec_eqI:
  "sx_loops a = sx_loops b \<Longrightarrow> sx_counts a = sx_counts b \<Longrightarrow> sx_dropped a = sx_dropped b \<Longrightarrow> a = (b :: xr_spec)"
  by simp

text \<open>Claiming a free slot.\<close>

definition new_session :: "xr_timeline \<Rightarrow> nat \<Rightarrow> u64 \<Rightarrow> xr_session" where
  "new_session t i h = (session_clear (xt_sessions t i))\<lparr>xs_key := h, xs_ready := True\<rparr>"

lemma claim_first_free:
  "\<forall>i \<in> set is. session_keys t i \<noteq> h \<Longrightarrow> claim_session t h is =
    (case first_free (session_keys t) is of
       None \<Rightarrow> (t, None)
     | Some i \<Rightarrow> (put_session t i (new_session t i h), Some i))"
  by (induction "is") (auto simp: new_session_def)

lemma find_loops: "sx_loops (xr_abs t) h = None \<longleftrightarrow> xr_find t h = None"
  by (simp add: xr_abs_def)

lemma sessions_room:
  assumes "xr_inv n t"
  shows "first_free (session_keys t) (session_order h) \<noteq> None \<longleftrightarrow> card (dom (sx_loops (xr_abs t))) < kSessionSlots"
proof -
  have "dom (sx_loops (xr_abs t)) = dom (\<lambda>h. map_option (\<lambda>i. ()) (xr_find t h))"
    by (auto simp: xr_abs_def dom_def)
  also have "card \<dots> = card {i. i < kSessionSlots \<and> session_keys t i \<noteq> 0}"
    using xr_find_iff [OF assms] assms by (intro map_card) (auto simp: xr_inv_def)
  finally show ?thesis
    unfolding session_order_def using first_free_room [of kSessionSlots] by (simp add: kSessionSlots_def)
qed

lemma claim_new_session:
  assumes "xr_inv n t" "n < xr_limit" "h \<noteq> 0" "xr_find t h = None" "i < kSessionSlots" "session_keys t i = 0"
  defines "t' \<equiv> put_session t i (new_session t i h)"
  shows "xr_inv (Suc n) t' \<and> xr_find t' h = Some i \<and> xr_abs t' = spec_put (xr_abs t) h loop_new counts_zero \<and>
    session_inv (Suc (Suc n)) 0 (xt_sessions t' i) \<and> loop_abs h (xt_sessions t' i) = loop_new \<and>
    xs_counts (xt_sessions t' i) = counts_zero"
proof -
  have si: "session_inv (Suc n) n (xt_sessions t i)" using assms(1,5) by (simp add: xr_inv_def)
  have ni: "session_inv (Suc (Suc n)) 0 (new_session t i h)"
    using session_clear_inv [OF si] assms(2) by (simp add: new_session_def xr_limit_def session_inv_identity)
  have fresh: "session_keys t j \<noteq> h" if "j < kSessionSlots" for j
    using xr_find_iff [OF assms(1), of h j] assms(3,4) that by auto
  have key: "xs_key (new_session t i h) = h" "xs_ready (new_session t i h)" "xs_counts (new_session t i h) = counts_zero"
    by (simp_all add: new_session_def session_clear_def)
  have inv: "xr_inv (Suc n) t'"
    using xr_inv_mono [OF assms(1), of "Suc n"] session_inv_mono [OF ni, of "Suc (Suc n)" "Suc n"] fresh
    by (auto simp: xr_inv_def t'_def key)
  have find: "xr_find t' g = (if g = h then Some i else xr_find t g)" for g
  proof -
    have "xr_find t' g = Some j \<longleftrightarrow> (if g = h then Some i else xr_find t g) = Some j" for j
      using xr_find_iff [OF inv, of g j] xr_find_iff [OF assms(1), of g j] fresh assms(3,5,6)
      by (auto simp: t'_def key)
    then show ?thesis by (metis option.exhaust)
  qed
  have st: "xr_stats t' = counts_add counts_zero (xr_stats t)"
    unfolding t'_def using assms(5,6) by (intro stats_put) (simp_all add: live_counts_def key counts_ac)
  have old: "xr_find t g \<noteq> Some i" if "g \<noteq> 0" for g
    using xr_find_iff [OF assms(1), of g i] assms(6) that by auto
  have l: "loop_abs h (new_session t i h) = loop_new" by (simp add: new_session_def session_clear_abs)
  have "sx_loops (xr_abs t') g = ((sx_loops (xr_abs t))(h \<mapsto> loop_new)) g" for g
  proof (cases "g = h \<or> xr_find t g = None")
    case True
    then show ?thesis using find by (auto simp: xr_abs_def l t'_def)
  next
    case False
    then obtain j where j: "xr_find t g = Some j" by auto
    then have "j \<noteq> i" using xr_find_iff [OF assms(1), of g j] assms(6) by auto
    then show ?thesis using False find j by (simp add: xr_abs_def t'_def)
  qed
  then have "xr_abs t' = spec_put (xr_abs t) h loop_new counts_zero"
    by (intro spec_eqI) (auto simp: spec_put_def st [unfolded t'_def] xr_abs_def t'_def)
  then show ?thesis using inv find ni l key by (simp add: t'_def)
qed

section \<open>Every call commutes with the abstraction\<close>

definition without_epoch :: "xr_token \<Rightarrow> xr_token" where
  "without_epoch k = k\<lparr>xk_epoch := 0\<rparr>"

text \<open>A call that behaves as the history says.\<close>

definition commutes :: "nat \<Rightarrow> xr_timeline \<times> xr_token option \<Rightarrow> xr_spec \<times> xr_token option \<Rightarrow> bool" where
  "commutes n r sr \<longleftrightarrow> xr_inv (Suc n) (fst r) \<and> xr_abs (fst r) = fst sr \<and> map_option without_epoch (snd r) = snd sr"

lemma commutes_drop: "xr_inv n t \<Longrightarrow> commutes n (drop_sample t, None) (spec_drop (xr_abs t), None)"
  using xr_inv_mono [of n t "Suc n"] by (simp add: commutes_def drop_sample_abs)

lemma token_of_view: "without_epoch (xr_token_of h f) = lf_token (loop_view h f)"
  by (simp add: without_epoch_def loop_view_def)

lemma valid_token_of:
  "xr_token_from h f = xr_token_of h f \<Longrightarrow> xf_sequence f \<noteq> 0 \<Longrightarrow> xf_epoch f \<noteq> 0 \<Longrightarrow> h \<noteq> 0 \<Longrightarrow>
   valid_token (xr_token_from h f) = Some (xr_token_of h f)"
  by (simp add: valid_token_def xr_token_ok_def) (simp add: xr_token_of_def)

lemma spec_put_twice: "spec_put (spec_put sp h l counts_zero) h l' d = spec_put sp h l' d"
  by (simp add: spec_put_def counts_ac)

lemma known_session:
  assumes "xr_inv n t" "xr_find t h = Some i"
  shows "session_inv (Suc n) n (xt_sessions t i) \<and> sx_loops (xr_abs t) h = Some (loop_abs h (xt_sessions t i)) \<and> h \<noteq> 0 \<and>
    i < kSessionSlots"
  using assms xr_find_iff [OF assms(1), of h i] by (auto simp: xr_inv_def xr_abs_def)

lemma wait_commutes:
  assumes "xr_inv n t" "n < xr_limit"
  shows "commutes n (xr_on_wait t h w) (loop_exec (xr_abs t) (XO_Wait h w))"
proof -
  have finish: "commutes n (xr_on_wait t h w) (loop_exec (xr_abs t) (XO_Wait h w))"
    if c: "xr_find_or_claim t h = (t1, Some i)" "xr_inv m t1" "m \<le> Suc n" "xr_find t1 h = Some i"
      and si: "session_inv (Suc (Suc n)) k (xt_sessions t1 i)" "k \<le> n"
      and h: "h \<noteq> 0" "sx_loops (xr_abs t) h = None \<Longrightarrow> card (dom (sx_loops (xr_abs t))) < kSessionSlots"
      and l: "loop_abs h (xt_sessions t1 i) = (case sx_loops (xr_abs t) h of None \<Rightarrow> loop_new | Some l \<Rightarrow> l)"
      and a: "\<And>l' d. spec_put (xr_abs t1) h l' d = spec_put (xr_abs t) h l' d"
    for t1 i m k
  proof -
    obtain s' f where sw: "session_wait (xt_sessions t1 i) w = (s', f)" by force
    have "k < xr_limit" using si(2) assms(2) by simp
    note S = session_wait_spec [OF si(1) this sw, of h]
    have si': "session_inv (Suc (Suc n)) (Suc n) s'" using S si(2) by (meson session_inv_mono order_refl Suc_le_mono)
    have "same_session (xt_sessions t1 i) s'" "xs_counts s' = counts_add (wait_delta w) (xs_counts (xt_sessions t1 i))"
      using S by simp_all
    note P = put_known [OF c(2,3,4) si' this]
    let ?l = "loop_wait h w (case sx_loops (xr_abs t) h of None \<Rightarrow> loop_new | Some l \<Rightarrow> l)"
    have nw: "Suc (unat (xs_next_sequence (xt_sessions t1 i))) = lp_waits ?l"
      unfolding l [symmetric] by (simp add: loop_wait_def Let_def loop_abs_fields)
    have "lp_frames ?l (lp_waits ?l) = Some (loop_view h f)"
      using S nw unfolding l [symmetric] by (simp add: loop_wait_def Let_def)
    moreover have "xr_on_wait t h w = (put_session t1 i s', Some (xr_token_of h f))"
      using S by (simp add: xr_on_wait_def c(1) sw)
    ultimately show ?thesis
      using P S h by (auto simp: commutes_def Let_def a l token_of_view)
  qed
  show ?thesis
  proof (cases "h = 0")
    case True
    then show ?thesis
      using commutes_drop [OF assms(1)] by (simp add: xr_on_wait_def xr_find_or_claim_def)
  next
    case h: False
    show ?thesis
    proof (cases "xr_find t h")
      case (Some i)
      note K = known_session [OF assms(1) Some]
      show ?thesis
      proof (rule finish [of t i n n])
        show "session_inv (Suc (Suc n)) n (xt_sessions t i)"
          using K session_inv_mono [of "Suc n" n "xt_sessions t i" "Suc (Suc n)" n] by simp
      qed (use K Some assms(1) h in \<open>auto simp: xr_find_or_claim_def\<close>)
    next
      case None
      have fresh: "\<forall>i \<in> set (session_order h). session_keys t i \<noteq> h"
        using xr_find_iff [OF assms(1), of h] None h by (auto simp: session_order_set)
      have none: "sx_loops (xr_abs t) h = None" using None by (simp add: find_loops)
      show ?thesis
      proof (cases "first_free (session_keys t) (session_order h)")
        case free: None
        then have "\<not> card (dom (sx_loops (xr_abs t))) < kSessionSlots" using sessions_room [OF assms(1), of h] by simp
        moreover have "xr_find_or_claim t h = (t, None)"
          using h None free claim_first_free [OF fresh] by (simp add: xr_find_or_claim_def)
        ultimately show ?thesis using commutes_drop [OF assms(1)] h none by (simp add: xr_on_wait_def)
      next
        case free: (Some i)
        have i: "i < kSessionSlots" "session_keys t i = 0"
          using first_free_SomeD [OF free] session_order_set [of h] by (auto simp: set_eq_iff)
        have room: "card (dom (sx_loops (xr_abs t))) < kSessionSlots" using sessions_room [OF assms(1), of h] free by simp
        note C = claim_new_session [OF assms h None i]
        have "xr_find_or_claim t h = (put_session t i (new_session t i h), Some i)"
          using h None free claim_first_free [OF fresh] by (simp add: xr_find_or_claim_def)
        then show ?thesis
          by (rule finish [of _ _ "Suc n" 0]) (use C h none room in \<open>simp_all add: spec_put_twice\<close>)
      qed
    qed
  qed
qed

text \<open>Begin and end: the session is found, changed and written back.\<close>

lemma finish_commutes:
  assumes "xr_inv n t" "xr_find t h = Some i"
    and "session_inv (Suc n) (Suc n) (fst r) \<and> same_session (xt_sessions t i) (fst r) \<and> loop_abs h (fst r) = fst lr \<and>
      map_option (\<lambda>f. lf_token (loop_view h f)) (snd r) = snd lr \<and>
      (\<forall>f. snd r = Some f \<longrightarrow> xr_token_from h f = xr_token_of h f \<and> xf_sequence f \<noteq> 0 \<and> xf_epoch f \<noteq> 0) \<and>
      xs_counts (fst r) = counts_add d (xs_counts (xt_sessions t i))"
  shows "commutes n (xr_finish t h i r) (spec_finish (xr_abs t) h lr d)"
proof -
  obtain s' x where r: "r = (s', x)" by force
  have "session_inv (Suc (Suc n)) (Suc n) s'" using assms(3) r session_inv_mono [of "Suc n" "Suc n" s'] by simp
  then have P: "xr_inv (Suc n) (put_session t i s')" "xr_abs (put_session t i s') = spec_put (xr_abs t) h (loop_abs h s') d"
    using put_known [OF assms(1) _ assms(2), of "Suc n" s' d] assms(3) r by simp_all
  have h: "h \<noteq> 0" using known_session [OF assms(1,2)] by simp
  show ?thesis
  proof (cases x)
    case None
    then show ?thesis
      using P assms(3) r by (auto simp: commutes_def xr_finish_def spec_finish_def drop_sample_abs Let_def)
  next
    case (Some f)
    then have "valid_token (xr_token_from h f) = Some (xr_token_of h f)" using assms(3) r h by (intro valid_token_of) simp_all
    moreover have "snd lr = Some (lf_token (loop_view h f))" using assms(3) r Some by auto
    ultimately show ?thesis
      using P assms(3) r Some by (simp add: commutes_def xr_finish_def spec_finish_def token_of_view Let_def)
  qed
qed

lemma begin_commutes:
  assumes "xr_inv n t" "n < xr_limit"
  shows "commutes n (xr_on_begin t h d ns) (loop_exec (xr_abs t) (XO_Begin h d ns))"
proof (cases "xr_find t h")
  case None
  then show ?thesis
    using commutes_drop [OF assms(1)] find_loops [of t h] by (simp add: xr_on_begin_def)
next
  case (Some i)
  note K = known_session [OF assms(1) Some]
  then have "session_inv (Suc n) n (xt_sessions t i)" by simp
  from session_begin_spec [OF this assms(2) prod.collapse [symmetric], of d ns h]
  have "commutes n (xr_finish t h i (session_begin (xt_sessions t i) d ns))
      (spec_finish (xr_abs t) h (loop_begin d ns (loop_abs h (xt_sessions t i))) (begin_delta d ns (loop_abs h (xt_sessions t i))))"
    by (rule finish_commutes [OF assms(1) Some])
  then show ?thesis using K by (simp add: xr_on_begin_def Some)
qed

lemma end_commutes:
  assumes "xr_inv n t" "n < xr_limit"
  shows "commutes n (xr_on_end t h e) (loop_exec (xr_abs t) (XO_End h e))"
proof (cases "xr_find t h")
  case None
  then show ?thesis
    using commutes_drop [OF assms(1)] find_loops [of t h] by (simp add: xr_on_end_def)
next
  case (Some i)
  note K = known_session [OF assms(1) Some]
  then have "session_inv (Suc n) n (xt_sessions t i)" by simp
  from session_end_spec [OF this assms(2) prod.collapse [symmetric], of e h]
  have "commutes n (xr_finish t h i (session_end (xt_sessions t i) e))
      (spec_finish (xr_abs t) h (loop_end e (loop_abs h (xt_sessions t i))) (end_delta e (loop_abs h (xt_sessions t i))))"
    by (rule finish_commutes [OF assms(1) Some])
  then show ?thesis using K by (simp add: xr_on_end_def Some)
qed

lemma sum_counts_retire:
  assumes "distinct is" "i \<in> set is"
  shows "sum_counts (g(i := counts_zero)) (counts_add a (g i)) is = sum_counts g a is"
proof -
  have "sum_counts g a is = sum_counts ((g(i := counts_zero))(i := counts_add (g i) ((g(i := counts_zero)) i))) a is"
    by (simp add: counts_ac)
  also have "\<dots> = counts_add (g i) (sum_counts (g(i := counts_zero)) a is)"
    by (rule sum_counts_grow [OF assms])
  also have "\<dots> = sum_counts (g(i := counts_zero)) (counts_add a (g i)) is"
    unfolding sum_counts_shift [symmetric] by (simp add: counts_ac(2))
  finally show ?thesis ..
qed

lemma epoch_step:
  assumes "session_inv (Suc n) n s" "n < xr_limit"
  shows "xs_epoch s + 1 \<noteq> 0 \<and> unat (xs_epoch s + 1) \<le> Suc (Suc n)"
proof -
  have "unat (xs_epoch s + 1) = Suc (unat (xs_epoch s))"
    using assms unat_u64_max by (intro unat_plus_one) (auto simp: session_inv_def xr_limit_def)
  then show ?thesis using assms(1) by (auto simp: session_inv_def unat_eq_zero [symmetric])
qed

lemma destroy_commutes:
  assumes "xr_inv n t" "n < xr_limit"
  shows "commutes n (xr_on_destroy_session t h, None) (loop_exec (xr_abs t) (XO_Destroy h))"
proof (cases "xr_find t h")
  case None
  then have "(sx_loops (xr_abs t))(h := None) = sx_loops (xr_abs t)" using find_loops by (simp add: fun_upd_idem)
  then show ?thesis
    using None xr_inv_mono [OF assms(1), of "Suc n"] by (simp add: commutes_def xr_on_destroy_session_def)
next
  case (Some i)
  let ?s = "xt_sessions t i"
  define s' where "s' = ?s\<lparr>xs_ready := False, xs_epoch := xs_epoch ?s + 1, xs_active_begin := 0, xs_latest := 0, xs_key := 0\<rparr>"
  define t' where "t' = (put_session t i s')\<lparr>xt_counts := counts_add (xt_counts t) (xs_counts ?s)\<rparr>"
  have t': "xr_on_destroy_session t h = t'"
    by (simp add: xr_on_destroy_session_def Some t'_def s'_def Let_def)
  note K = known_session [OF assms(1) Some]
  have i: "h \<noteq> 0" "i < kSessionSlots" "xs_key ?s = h" "xs_ready ?s"
    using xr_find_iff [OF assms(1), of h i] Some assms(1) by (auto simp: xr_inv_def)
  have si: "session_inv (Suc (Suc n)) (Suc n) s'"
    using K epoch_step [of n ?s] assms(2) by (auto simp: session_inv_def s'_def)
  have inv: "xr_inv (Suc n) t'"
    using xr_inv_mono [OF assms(1), of "Suc n"] si by (auto simp: xr_inv_def t'_def s'_def)
  have find: "xr_find t' g = (if g = h then None else xr_find t g)" for g
  proof -
    have "xr_find t' g = Some j \<longleftrightarrow> (if g = h then None else xr_find t g) = Some j" for j
      using xr_find_iff [OF inv, of g j] xr_find_iff [OF assms(1), of g j] xr_find_iff [OF assms(1), of h i] assms(1) i
      by (auto simp: t'_def s'_def xr_inv_def)
    then show ?thesis by (metis option.exhaust)
  qed
  have "live_of t' = (live_of t)(i := counts_zero)" by (auto simp: t'_def s'_def live_counts_def)
  moreover have "xs_counts ?s = live_of t i" using i by (simp add: live_counts_def)
  ultimately have st: "xr_stats t' = xr_stats t"
    using sum_counts_retire [of "[0..<kSessionSlots]" i "live_of t" "xt_counts t"] i(2)
    by (simp only: stats_sum t'_def xr_timeline.simps) simp
  have ne: "xr_find t g \<noteq> Some i" if "g \<noteq> h" for g
    using xr_find_iff [OF assms(1)] i that by auto
  have "sx_loops (xr_abs t') = (sx_loops (xr_abs t))(h := None)"
  proof
    fix g
    have l: "sx_loops (xr_abs u) g = map_option (\<lambda>j. loop_abs g (xt_sessions u j)) (xr_find u g)" for u
      by (simp add: xr_abs_def)
    have "xt_sessions t' j = xt_sessions t j" if "j \<noteq> i" for j using that by (simp add: t'_def)
    then show "sx_loops (xr_abs t') g = ((sx_loops (xr_abs t))(h := None)) g"
      unfolding l [of t'] find using ne [of g] by (cases "g = h"; cases "xr_find t g") (auto simp: l)
  qed
  moreover have "sx_counts (xr_abs t') = sx_counts (xr_abs t)" by (simp add: xr_abs_def st)
  moreover have "sx_dropped (xr_abs t') = sx_dropped (xr_abs t)" by (simp add: xr_abs_def t'_def)
  ultimately have "xr_abs t' = fst (loop_exec (xr_abs t) (XO_Destroy h))"
    by (intro spec_eqI) simp_all
  then show ?thesis using inv by (simp add: commutes_def t')
qed

definition spec_empty :: xr_spec where
  "spec_empty = \<lparr>sx_loops = (\<lambda>_. None), sx_counts = counts_zero, sx_dropped = 0\<rparr>"

lemma keyless_abs:
  assumes "\<And>i. session_keys t i = 0" "xt_counts t = counts_zero" "xt_dropped t = 0"
  shows "xr_abs t = spec_empty"
proof -
  have "live_of t = (\<lambda>_. counts_zero)" by (simp add: live_counts_def assms(1))
  moreover have "xr_find t h = None" for h
    using find_skip_SomeD [of "session_keys t" h] assms(1) by (auto simp: xr_find_def split: option.split)
  ultimately show ?thesis
    by (simp add: xr_abs_def spec_empty_def stats_sum sum_counts_zero assms(2,3))
qed

lemma reset_commutes:
  assumes "xr_inv n t" "n < xr_limit"
  shows "commutes n (xr_reset t, None) (loop_exec (xr_abs t) XO_Reset)"
proof -
  have "session_inv (Suc (Suc n)) (Suc n) ((session_clear (xt_sessions t i))\<lparr>xs_ready := False, xs_key := 0\<rparr>)"
    if "i < kSessionSlots" for i
  proof -
    have "session_inv (Suc n) n (xt_sessions t i)" using assms(1) that by (simp add: xr_inv_def)
    from session_clear_inv [OF this] assms(2) have "session_inv (Suc (Suc n)) 0 (session_clear (xt_sessions t i))"
      by (simp add: xr_limit_def)
    then show ?thesis by (auto simp: session_inv_def)
  qed
  then have "xr_inv (Suc n) (xr_reset t)" by (simp add: xr_inv_def xr_reset_def)
  moreover have "xr_abs (xr_reset t) = spec_empty" by (rule keyless_abs) (simp_all add: xr_reset_def)
  ultimately show ?thesis by (simp add: commutes_def spec_empty_def)
qed

lemma exec_commutes:
  "xr_inv n t \<Longrightarrow> n < xr_limit \<Longrightarrow> commutes n (xr_exec t op) (loop_exec (xr_abs t) op)"
  using wait_commutes begin_commutes end_commutes destroy_commutes reset_commutes by (cases op) simp_all

lemma xr_empty_inv: "xr_inv 0 xr_empty"
  by (simp add: xr_inv_def xr_empty_def session_inv_def frame_inv_def xr_frame_zero_def)

lemma xr_empty_abs: "xr_abs xr_empty = spec_empty"
  by (rule keyless_abs) (simp_all add: xr_empty_def)

abbreviation loop_step :: "xr_spec \<Rightarrow> xr_op \<Rightarrow> xr_spec" where
  "loop_step sp op \<equiv> fst (loop_exec sp op)"

interpretation xr: bounded_simulation xr_step xr_inv xr_limit loop_step xr_abs
  by unfold_locales (use exec_commutes in \<open>simp_all add: commutes_def\<close>)

lemma xr_run_abs:
  assumes "length ops < xr_limit"
  shows "xr_inv (length ops) (foldl xr_step xr_empty ops) \<and>
    xr_abs (foldl xr_step xr_empty ops) = foldl loop_step spec_empty ops"
  using xr.bounded_run [OF xr_empty_inv, of ops] assms by (simp add: xr_empty_abs)

text \<open>C37
  The rings and the hash table are an unbounded history.  For any sequence of calls on any sessions, the
  timeline answers the next call as the history does, up to the epoch of the token: the k-th wait of a
  session is numbered k; the k-th begin answers with the record of the k-th wait, provided it is one of
  the last 16, and is dropped otherwise; an end answers with the frame begun last and not yet ended or
  discarded; and the statistics and the session map agree.
\<close>

theorem xr_refines_history:
  assumes "length ops < xr_limit"
  shows "xr_abs (foldl xr_step xr_empty ops) = foldl loop_step spec_empty ops \<and>
    map_option without_epoch (snd (xr_exec (foldl xr_step xr_empty ops) op)) = snd (loop_exec (foldl loop_step spec_empty ops) op)"
  using xr_run_abs [OF assms] exec_commutes [of "length ops" _ op] assms by (fastforce simp: commutes_def)

definition sample_wait :: "int \<Rightarrow> wait_call" where
  "sample_wait time = \<lparr>wc_time = time, wc_period = 11, wc_should_render = True, wc_return_ns = 100, wc_watermark = 4,
     wc_host_ns = Some 130, wc_watermark_epoch = 2\<rparr>"

definition sample_end :: end_call where
  "sample_end = \<lparr>ec_time = 9, ec_return_ns = 120, ec_latest = Some (no_frame_token\<lparr>ft_epoch := 2, ft_sequence := 7\<rparr>),
     ec_host_ns = None\<rparr>"

definition sample_calls :: "xr_op list" where
  "sample_calls = [XO_Wait 16 (sample_wait 70), XO_Wait 16 (sample_wait 80), XO_Begin 16 False 105, XO_Begin 16 True 106]"

lemmas sample_loop_defs = sample_calls_def sample_wait_def sample_end_def spec_empty_def kSessionSlots_def
  kFramesPerSession_def loop_wait_def loop_new_def loop_begin_def loop_discard_def loop_end_def spec_put_def
  spec_finish_def waited_def on_token_def token_begun_def token_discarded_def token_ended_def xr_no_token_def
  loop_correlation_def correlates_def no_frame_token_def host_margin_def value_or_zero_def Let_def

lemma sample_answer:
  "map_option (\<lambda>k. (xk_sequence k, xk_predicted_time k, xk_begin_return_ns k, xk_render_sequence k))
     (snd (loop_exec (foldl loop_step spec_empty sample_calls) (XO_End 16 sample_end))) = Some (2, 80, 106, 5)"
  by (simp add: sample_loop_defs)

lemma sample_length: "length sample_calls < xr_limit"
  by (simp add: sample_calls_def xr_limit_def)

theorem xr_refines_history_witness:
  "map_option (\<lambda>k. (xk_sequence k, xk_predicted_time k, xk_begin_return_ns k, xk_render_sequence k))
     (snd (xr_exec (foldl xr_step xr_empty sample_calls) (XO_End 16 sample_end))) = Some (2, 80, 106, 5)"
proof -
  let ?g = "\<lambda>k. (xk_sequence k, xk_predicted_time k, xk_begin_return_ns k, xk_render_sequence k)"
  let ?r = "snd (xr_exec (foldl xr_step xr_empty sample_calls) (XO_End 16 sample_end))"
  have "map_option ?g ?r = map_option ?g (map_option without_epoch ?r)"
    by (simp add: option.map_comp comp_def without_epoch_def)
  also have "\<dots> = map_option ?g (snd (loop_exec (foldl loop_step spec_empty sample_calls) (XO_End 16 sample_end)))"
    by (simp only: xr_refines_history [OF sample_length, THEN conjunct2])
  also have "\<dots> = Some (2, 80, 106, 5)" by (rule sample_answer)
  finally show ?thesis .
qed

section \<open>What an ended frame reports\<close>

text \<open>A frame of the history stems from a wait call of its session, and is uncorrelated until it is ended.\<close>

definition stems :: "loop_frame \<Rightarrow> wait_call \<Rightarrow> bool" where
  "stems f w \<longleftrightarrow> xk_predicted_time (lf_token f) = wc_time w \<and> xk_predicted_period (lf_token f) = wc_period w \<and>
     xk_wait_return_ns (lf_token f) = wc_return_ns w \<and> xk_should_render (lf_token f) = wc_should_render w \<and>
     lf_watermark f = wc_watermark w \<and> lf_watermark_epoch f = wc_watermark_epoch w"

definition loop_ok :: "wait_call set \<Rightarrow> xr_loop \<Rightarrow> bool" where
  "loop_ok W l \<longleftrightarrow> lp_active l \<le> lp_begins l \<and> lp_frames l 0 = None \<and>
     (\<forall>q f. lp_frames l q = Some f \<longrightarrow> (\<exists>w \<in> W. stems f w) \<and>
       (lp_begins l < q \<or> q = lp_active l \<longrightarrow> xk_render_sequence (lf_token f) = 0 \<and> xk_render_epoch (lf_token f) = 0))"

definition waits_on :: "u64 \<Rightarrow> xr_op list \<Rightarrow> wait_call set" where
  "waits_on h ops = {w. XO_Wait h w \<in> set ops}"

definition spec_ok :: "xr_op list \<Rightarrow> xr_spec \<Rightarrow> bool" where
  "spec_ok ops sp \<longleftrightarrow> (\<forall>h l. sx_loops sp h = Some l \<longrightarrow> loop_ok (waits_on h ops) l)"

lemma loop_ok_new: "loop_ok W loop_new"
  by (simp add: loop_ok_def loop_new_def)

lemma loop_ok_wait: "loop_ok W l \<Longrightarrow> loop_ok (insert w W) (loop_wait h w l)"
  by (auto simp: loop_ok_def loop_wait_def Let_def stems_def waited_def xr_no_token_def)

lemma stems_token [simp]:
  "stems (on_token (token_begun ns) f) w = stems f w" "stems (on_token token_discarded f) w = stems f w"
  "stems (on_token (token_ended e c) f) w = stems f w"
  by (simp_all add: stems_def on_token_def token_begun_def token_discarded_def token_ended_def)

lemma uncorrelated_token [simp]:
  "xk_render_sequence (lf_token (on_token (token_begun ns) f)) = xk_render_sequence (lf_token f)"
  "xk_render_epoch (lf_token (on_token (token_begun ns) f)) = xk_render_epoch (lf_token f)"
  "xk_render_sequence (lf_token (on_token token_discarded f)) = xk_render_sequence (lf_token f)"
  "xk_render_epoch (lf_token (on_token token_discarded f)) = xk_render_epoch (lf_token f)"
  by (simp_all add: on_token_def token_begun_def token_discarded_def)

lemma active_pos: "loop_ok W l \<Longrightarrow> lp_frames l (lp_active l) = Some f \<Longrightarrow> 0 < lp_active l"
  by (cases "lp_active l") (simp_all add: loop_ok_def)

lemma loop_ok_discard: "loop_ok W l \<Longrightarrow> loop_ok W (loop_discard l)"
  using active_pos [of W l]
  by (cases "lp_frames l (lp_active l)") (auto simp: loop_ok_def loop_discard_def)

lemma loop_ok_begin:
  assumes "loop_ok W l"
  shows "loop_ok W (fst (loop_begin d ns l))"
proof -
  define l1 where "l1 = (if d then loop_discard l else l)"
  have o: "loop_ok W l1" using assms loop_ok_discard by (simp add: l1_def)
  show ?thesis
  proof (cases "lp_frames l1 (Suc (lp_begins l1))")
    case None
    then have "fst (loop_begin d ns l) = l1\<lparr>lp_begins := Suc (lp_begins l1)\<rparr>"
      by (auto simp: loop_begin_def Let_def l1_def)
    then show ?thesis using o by (auto simp: loop_ok_def)
  next
    case (Some f)
    then have "fst (loop_begin d ns l) = l1\<lparr>lp_begins := Suc (lp_begins l1), lp_active := Suc (lp_begins l1),
        lp_frames := (lp_frames l1)(Suc (lp_begins l1) \<mapsto> on_token (token_begun ns) f)\<rparr>"
      by (auto simp: loop_begin_def Let_def l1_def)
    then show ?thesis using o Some by (auto simp: loop_ok_def)
  qed
qed

lemma loop_ok_end:
  assumes "loop_ok W l"
  shows "loop_ok W (fst (loop_end e l))"
proof (cases "lp_frames l (lp_active l)")
  case None
  then show ?thesis using assms by (auto simp: loop_end_def loop_ok_def Let_def)
next
  case (Some f)
  then have "0 < lp_active l" using active_pos assms by blast
  then show ?thesis using assms Some by (auto simp: loop_end_def loop_ok_def Let_def)
qed

lemma waits_on_snoc: "waits_on h (ops @ [op]) = (case op of XO_Wait g w \<Rightarrow> if g = h then insert w (waits_on h ops) else waits_on h ops | _ \<Rightarrow> waits_on h ops)"
  by (auto simp: waits_on_def split: xr_op.split)

lemma loop_ok_mono: "loop_ok W l \<Longrightarrow> W \<subseteq> W' \<Longrightarrow> loop_ok W' l"
  by (fastforce simp: loop_ok_def)

lemma spec_ok_put:
  "spec_ok ops sp \<Longrightarrow> loop_ok (waits_on h ops) l \<Longrightarrow> spec_ok ops (spec_put sp h l d)"
  by (simp add: spec_ok_def spec_put_def)

lemma spec_ok_drop [simp]: "spec_ok ops (spec_drop sp) = spec_ok ops sp"
  by (simp add: spec_ok_def spec_drop_def)

lemma spec_ok_step:
  assumes "spec_ok ops sp"
  shows "spec_ok (ops @ [op]) (loop_step sp op)"
proof -
  have grow: "waits_on h ops \<subseteq> waits_on h (ops @ [op])" for h by (auto simp: waits_on_def)
  have m: "spec_ok (ops @ [op]) sp" using assms loop_ok_mono [OF _ grow] by (auto simp: spec_ok_def)
  show ?thesis
  proof (cases op)
    case (XO_Wait h w)
    have "loop_ok (waits_on h ops) (case sx_loops sp h of None \<Rightarrow> loop_new | Some l \<Rightarrow> l)"
      using assms loop_ok_new by (auto simp: spec_ok_def split: option.split)
    from loop_ok_wait [OF this, of w h]
    have "loop_ok (waits_on h (ops @ [op])) (loop_wait h w (case sx_loops sp h of None \<Rightarrow> loop_new | Some l \<Rightarrow> l))"
      by (simp add: waits_on_snoc XO_Wait)
    then show ?thesis using m spec_ok_put [OF m] by (simp add: XO_Wait Let_def)
  next
    case (XO_Begin h d ns)
    then show ?thesis
      using m spec_ok_put [OF m] loop_ok_begin [of "waits_on h (ops @ [op])" _ d ns]
      by (auto simp: spec_finish_def Let_def spec_ok_def [of _ sp] split: option.split)
  next
    case (XO_End h e)
    then show ?thesis
      using m spec_ok_put [OF m] loop_ok_end [of "waits_on h (ops @ [op])" _ e]
      by (auto simp: spec_finish_def Let_def spec_ok_def [of _ sp] split: option.split)
  qed (use m in \<open>auto simp: spec_ok_def\<close>)
qed

lemma spec_ok_run: "spec_ok ops (foldl loop_step spec_empty ops)"
proof (induction ops rule: rev_induct)
  case Nil
  show ?case by (simp add: spec_ok_def spec_empty_def)
qed (simp add: spec_ok_step)

text \<open>The newest render token is eligible for a frame waited for with \<open>w\<close>.\<close>

definition eligible_render :: "wait_call \<Rightarrow> frame_token \<Rightarrow> bool" where
  "eligible_render w r \<longleftrightarrow> wc_should_render w \<and> wc_watermark w < ft_sequence r \<and>
     (wc_watermark w = 0 \<or> wc_watermark_epoch w = 0 \<or> ft_epoch r = wc_watermark_epoch w)"

definition first_render :: "wait_call \<Rightarrow> frame_token \<Rightarrow> u64" where
  "first_render w r = (if wc_watermark w = 0 then ft_sequence r else wc_watermark w + 1)"

lemma first_render_bounds:
  "wc_watermark w < ft_sequence r \<Longrightarrow> wc_watermark w < first_render w r \<and> first_render w r \<le> ft_sequence r"
proof -
  assume l: "wc_watermark w < ft_sequence r"
  then have "wc_watermark w \<noteq> u64_max" by (metis word_order.extremum_strict)
  then show ?thesis using l less_plus_one [of "wc_watermark w"] inc_le [OF l] by (auto simp: first_render_def)
qed

lemma loop_end_reports:
  assumes "loop_ok W l" "snd (loop_end e l) = Some k"
  shows "\<exists>w \<in> W. xk_predicted_time k = wc_time w \<and> xk_wait_return_ns k = wc_return_ns w \<and>
    xk_should_render k = wc_should_render w \<and> xk_submitted_time k = ec_time e \<and>
    (xk_render_epoch k, xk_render_sequence k) = (case ec_latest e of
        None \<Rightarrow> (0, 0)
      | Some r \<Rightarrow> if eligible_render w r then (ft_epoch r, first_render w r) else (0, 0))"
proof -
  obtain f where f: "lp_frames l (lp_active l) = Some f"
    using assms(2) by (cases "lp_frames l (lp_active l)") (auto simp: loop_end_def Let_def)
  obtain w where w: "w \<in> W" "stems f w" and z: "xk_render_sequence (lf_token f) = 0" "xk_render_epoch (lf_token f) = 0"
    using assms(1) f by (auto simp: loop_ok_def)
  have k: "k = token_ended e (loop_correlation f (ec_latest e)) (lf_token f)"
    using assms(2) f by (simp add: loop_end_def Let_def on_token_def)
  have "loop_correlation f (ec_latest e) = (case ec_latest e of None \<Rightarrow> None
      | Some r \<Rightarrow> if eligible_render w r then Some (ft_epoch r, first_render w r) else None)"
    using w(2) by (auto simp: loop_correlation_def correlates_def eligible_render_def first_render_def stems_def split: option.split)
  then show ?thesis
    using w z by (intro bexI [of _ w]) (auto simp: k token_ended_def stems_def split: option.split)
qed

text \<open>C38
  An ended frame is reported truthfully.  Its token carries the predicted time and the render advice
  of a wait call of the same session and the submitted time of the end call, and it is correlated with
  a render token exactly when the runtime asked to render and the newest token is later than the
  watermark of that wait (and of its epoch): then with the first number after the watermark, which is
  never beyond the newest token.
\<close>

theorem xr_end_truthful:
  assumes "length ops < xr_limit" "snd (xr_exec (foldl xr_step xr_empty ops) (XO_End h e)) = Some k"
  shows "\<exists>w. XO_Wait h w \<in> set ops \<and> xk_predicted_time k = wc_time w \<and> xk_wait_return_ns k = wc_return_ns w \<and>
    xk_should_render k = wc_should_render w \<and> xk_submitted_time k = ec_time e \<and>
    (case ec_latest e of
        None \<Rightarrow> xk_render_sequence k = 0
      | Some r \<Rightarrow> if eligible_render w r
          then xk_render_epoch k = ft_epoch r \<and> xk_render_sequence k = first_render w r \<and>
            wc_watermark w < xk_render_sequence k \<and> xk_render_sequence k \<le> ft_sequence r
          else xk_render_sequence k = 0)"
proof -
  let ?sp = "foldl loop_step spec_empty ops"
  have "snd (loop_exec ?sp (XO_End h e)) = Some (without_epoch k)"
    using xr_run_abs [OF assms(1)] exec_commutes [of "length ops" _ "XO_End h e"] assms by (fastforce simp: commutes_def)
  then obtain l where l: "sx_loops ?sp h = Some l" "snd (loop_end e l) = Some (without_epoch k)"
    by (auto simp: spec_finish_def Let_def split: option.splits)
  have "loop_ok (waits_on h ops) l" using spec_ok_run [of ops] l(1) by (simp add: spec_ok_def)
  from loop_end_reports [OF this l(2)] obtain w where w: "XO_Wait h w \<in> set ops"
    "xk_predicted_time k = wc_time w" "xk_wait_return_ns k = wc_return_ns w"
    "xk_should_render k = wc_should_render w" "xk_submitted_time k = ec_time e"
    and c: "(xk_render_epoch k, xk_render_sequence k) = (case ec_latest e of
        None \<Rightarrow> (0, 0)
      | Some r \<Rightarrow> if eligible_render w r then (ft_epoch r, first_render w r) else (0, 0))"
    by (auto simp: waits_on_def without_epoch_def)
  have "wc_watermark w < first_render w r \<and> first_render w r \<le> ft_sequence r" if "eligible_render w r" for r
    using first_render_bounds that by (simp add: eligible_render_def)
  then show ?thesis using w c by (intro exI [of _ w]) (auto split: option.splits if_splits)
qed

theorem xr_end_truthful_witness:
  "\<exists>k. snd (xr_exec (foldl xr_step xr_empty sample_calls) (XO_End 16 sample_end)) = Some k \<and>
    xk_submitted_time k = 9 \<and> xk_render_epoch k = 2 \<and> xk_render_sequence k = 5"
proof -
  let ?r = "snd (xr_exec (foldl xr_step xr_empty sample_calls) (XO_End 16 sample_end))"
  have "?r \<noteq> None"
  proof
    assume "?r = None"
    then have "snd (loop_exec (foldl loop_step spec_empty sample_calls) (XO_End 16 sample_end)) = None"
      using xr_run_abs [OF sample_length] exec_commutes [of "length sample_calls" _ "XO_End 16 sample_end"] sample_length
      by (fastforce simp: commutes_def)
    then show False using sample_answer by simp
  qed
  then obtain k where k: "?r = Some k" by auto
  then show ?thesis
    using xr_end_truthful [OF sample_length k]
    by (intro exI [of _ k])
      (auto simp: sample_calls_def sample_wait_def sample_end_def eligible_render_def first_render_def no_frame_token_def)
qed

section \<open>The statistics\<close>

text \<open>The calls of a run that was not reset, with their answers.\<close>

fun xr_trace :: "xr_timeline \<Rightarrow> xr_op list \<Rightarrow> (xr_op \<times> xr_token option) list" where
  "xr_trace t [] = []"
| "xr_trace t (op # ops) = (op, snd (xr_exec t op)) # xr_trace (xr_step t op) ops"

definition tally :: "(xr_op \<Rightarrow> bool) \<Rightarrow> bool \<Rightarrow> (xr_op \<times> xr_token option) list \<Rightarrow> u64" where
  "tally kind answered tr = word_of_nat (length (filter (\<lambda>(op, r). kind op \<and> (r \<noteq> None) = answered) tr))"

lemma tally_simps [simp]:
  "tally kind b [] = 0"
  "tally kind b ((op, r) # tr) = one_if (kind op \<and> (r \<noteq> None) = b) + tally kind b tr"
  by (simp_all add: tally_def one_if_def)

fun is_wait :: "xr_op \<Rightarrow> bool" where "is_wait (XO_Wait _ _) = True" | "is_wait _ = False"
fun is_begin :: "xr_op \<Rightarrow> bool" where "is_begin (XO_Begin _ _ _) = True" | "is_begin _ = False"
fun is_end :: "xr_op \<Rightarrow> bool" where "is_end (XO_End _ _) = True" | "is_end _ = False"

lemma spec_counts_step:
  assumes "op \<noteq> XO_Reset" "loop_exec sp op = (sp', r)"
  shows "xc_waits (sx_counts sp') = xc_waits (sx_counts sp) + one_if (is_wait op \<and> r \<noteq> None) \<and>
    xc_begins (sx_counts sp') = xc_begins (sx_counts sp) + one_if (is_begin op \<and> r \<noteq> None) \<and>
    xc_ends (sx_counts sp') = xc_ends (sx_counts sp) + one_if (is_end op \<and> r \<noteq> None) \<and>
    sx_dropped sp' = sx_dropped sp + one_if ((is_wait op \<or> is_begin op \<or> is_end op) \<and> r = None)"
proof (cases op)
  case XO_Reset
  then show ?thesis using assms(1) by simp
next
  case (XO_Wait h w)
  then show ?thesis
    using assms(2)
    by (auto simp: spec_drop_def spec_put_def wait_delta_def counts_add_def counts_zero_def one_if_def loop_wait_def Let_def
        split: if_splits)
next
  case (XO_Begin h d ns)
  then show ?thesis
    using assms(2)
    by (auto simp: spec_finish_def spec_drop_def spec_put_def begin_delta_def counts_add_def counts_zero_def one_if_def Let_def
        split: option.splits if_splits)
next
  case (XO_End h e)
  then show ?thesis
    using assms(2)
    by (auto simp: spec_finish_def spec_drop_def spec_put_def end_delta_def loop_end_def counts_add_def counts_zero_def
        one_if_def Let_def split: option.splits if_splits)
next
  case (XO_Destroy h)
  then show ?thesis using assms(2) by (auto simp: one_if_def)
qed

lemma counts_run:
  assumes "xr_inv n t" "n + length ops < xr_limit" "XO_Reset \<notin> set ops"
  defines "t' \<equiv> foldl xr_step t ops" and "tr \<equiv> xr_trace t ops"
  shows "xc_waits (xr_stats t') = xc_waits (xr_stats t) + tally is_wait True tr \<and>
    xc_begins (xr_stats t') = xc_begins (xr_stats t) + tally is_begin True tr \<and>
    xc_ends (xr_stats t') = xc_ends (xr_stats t) + tally is_end True tr \<and>
    xt_dropped t' = xt_dropped t + tally (\<lambda>op. is_wait op \<or> is_begin op \<or> is_end op) False tr"
  using assms(1-3) unfolding t'_def tr_def
proof (induction ops arbitrary: n t)
  case (Cons op ops)
  obtain t1 r where e: "xr_exec t op = (t1, r)" by force
  have c: "commutes n (t1, r) (loop_exec (xr_abs t) op)"
    using exec_commutes [OF Cons.prems(1), of op] Cons.prems(2) by (simp add: e)
  then obtain sp' where s: "loop_exec (xr_abs t) op = (sp', map_option without_epoch r)" "xr_abs t1 = sp'" "xr_inv (Suc n) t1"
    by (cases "loop_exec (xr_abs t) op") (auto simp: commutes_def)
  have "op \<noteq> XO_Reset" using Cons.prems(3) by auto
  from spec_counts_step [OF this s(1)] s(2)
  have "xc_waits (xr_stats t1) = xc_waits (xr_stats t) + one_if (is_wait op \<and> r \<noteq> None) \<and>
    xc_begins (xr_stats t1) = xc_begins (xr_stats t) + one_if (is_begin op \<and> r \<noteq> None) \<and>
    xc_ends (xr_stats t1) = xc_ends (xr_stats t) + one_if (is_end op \<and> r \<noteq> None) \<and>
    xt_dropped t1 = xt_dropped t + one_if ((is_wait op \<or> is_begin op \<or> is_end op) \<and> r = None)"
    by (auto simp: xr_abs_def)
  then show ?case
    using Cons.IH [OF s(3)] Cons.prems by (simp add: e add.assoc)
qed simp

lemma xr_empty_stats: "xr_stats xr_empty = counts_zero" "xt_dropped xr_empty = 0"
  using xr_empty_abs by (auto simp: xr_abs_def spec_empty_def)

text \<open>C39
  The statistics count what the calls answered.  After any calls, sessions destroyed included, the
  numbers of waits, begins and ends are those of the calls of that kind that answered with a token, and
  the number of dropped samples is that of the calls of these kinds that did not.
\<close>

theorem xr_statistics_exact:
  assumes "length ops < xr_limit" "XO_Reset \<notin> set ops"
  defines "t \<equiv> foldl xr_step xr_empty ops" and "tr \<equiv> xr_trace xr_empty ops"
  shows "xc_waits (xr_stats t) = tally is_wait True tr \<and> xc_begins (xr_stats t) = tally is_begin True tr \<and>
    xc_ends (xr_stats t) = tally is_end True tr \<and>
    xt_dropped t = tally (\<lambda>op. is_wait op \<or> is_begin op \<or> is_end op) False tr"
  using counts_run [OF xr_empty_inv, of ops] assms(1,2) unfolding t_def tr_def
  by (simp add: xr_empty_stats counts_zero_def)

theorem xr_statistics_exact_witness:
  "xt_dropped (foldl xr_step xr_empty [XO_Begin 16 False 5, XO_Destroy 16, XO_End 0 sample_end]) = 2"
proof -
  have "snd (xr_exec t (XO_Begin h d ns)) = None" "snd (xr_exec t (XO_End h sample_end)) = None" if "xr_find t h = None" for t h d ns
    using that by (simp_all add: xr_on_begin_def xr_on_end_def)
  moreover have "xr_find xr_empty h = None" for h
    using xr_empty_abs by (auto simp: find_loops [symmetric] spec_empty_def)
  moreover have "xr_find t 0 = None" for t by (simp add: xr_find_def)
  ultimately have tr: "tally (\<lambda>op. is_wait op \<or> is_begin op \<or> is_end op) False
      (xr_trace xr_empty [XO_Begin 16 False 5, XO_Destroy 16, XO_End 0 sample_end]) = 2"
    by (simp only: xr_trace.simps tally_simps is_wait.simps is_begin.simps is_end.simps xr_exec.simps snd_conv) (simp add: one_if_def)
  show ?thesis
    using xr_statistics_exact [of "[XO_Begin 16 False 5, XO_Destroy 16, XO_End 0 sample_end]"] tr by (simp add: xr_limit_def)
qed

section \<open>The session cache\<close>

text \<open>A cached session never changes the slot a call works on.\<close>

lemma cached_find_transparent:
  assumes "xr_inv n t" "\<And>s i. cache = Some (s, i) \<Longrightarrow> i < kSessionSlots"
  shows "cached_xr_find cache t h = xr_find t h"
proof -
  have "xr_find t h = Some i" if "cache = Some (h, i)" "session_keys t i = h" "h \<noteq> 0" for i
    using that assms(2) xr_find_iff [OF assms(1)] by blast
  then show ?thesis
    by (cases "h = 0") (auto simp: cached_xr_find_def xr_find_def [of t 0] split: option.splits prod.splits)
qed

end
