(* ===== verification/LatencyContext.thy ===== *)
theory LatencyContext
  imports HybridTimeline XrTimeline TransportTruth FgCadence
begin

text \<open>
  The latency context (\<open>src/low_latency.h\<close>, \<open>src/low_latency.cpp\<close>): the one object that owns the active
  back end, the input arbiter, hybrid fusion and the OpenXR timeline.  Its published copies of the
  active back end, API, device and routing signature are stored together with the originals under the
  mutex, so each pair is one field here.  Calls into the back end are recorded in a log, what they answer and
  what the system answers is the record \<open>host\<close> of \<open>LatencyRouting\<close>.  Flags that only suppress repeated log
  messages and the frame reports (theory \<open>FrameReports\<close>), which nothing here reads, are not part of this state.  Every public call is one
  step, in which the compare-exchange of \<open>observe_input\<close> succeeds at once.
\<close>

section \<open>Data\<close>

datatype marker_type =
    SIMULATION_START | SIMULATION_END | RENDERSUBMIT_START | RENDERSUBMIT_END | PRESENT_START | PRESENT_END
  | INPUT_SAMPLE | TRIGGER_FLASH | PC_LATENCY_PING | OUT_OF_BAND_RENDERSUBMIT_START
  | OUT_OF_BAND_RENDERSUBMIT_END | OUT_OF_BAND_PRESENT_START | OUT_OF_BAND_PRESENT_END

datatype force_reflex = InGame | ForceDisable | ForceEnable

datatype tech_mode = Mode_LatencyFlex | Mode_AntiLag2 | Mode_XeLL | Mode_AntiLagVk | Mode_VulkanFlex

record sleep_mode =
  sm_enabled :: bool
  sm_boost :: bool
  sm_minimum_interval_us :: u32
  sm_use_markers :: bool

record sleep_params =
  sl_enabled :: bool
  sl_fullscreen_vrr :: bool
  sl_vsync_override :: bool

record presentation_params =
  pp_render_frame_id :: u64
  pp_present_frame_id :: u64
  pp_generation :: u32
  pp_interpolated :: bool

text \<open>The calls the context makes: to the active back end (T) and to the translation observer (O).\<close>

datatype command =
    T_Init backend u64 | T_InitContext backend u64 | T_Deinit
  | T_SetSleepMode sleep_mode | T_SetFgState bool | T_SetOverride force_reflex
  | T_Sleep | T_SleepFrame u64 | T_Marker marker_type u64 | T_AsyncMarker marker_type u64
  | T_FgType bool u64 | T_Presentation presentation_params | T_Queue u64
  | T_Acquire u64 u32 | T_BeginPresent u64 u32 | T_CompletePresent u64 bool bool | T_DestroySwapchain u64 | T_Stall u64 u64
  | O_Init u64 | O_Deinit | O_FrameStart u64 | O_Marker marker_type u64
  | O_Presentation presentation_params | O_Queue u64

record latency =
  ll_backend :: backend
  ll_api :: graphics_api
  ll_d3d_device :: u64
  ll_vk_device :: u64
  ll_vk_published :: u64
  ll_signature :: u64
  ll_pending_signature :: u64
  ll_delay_deinit :: u32
  ll_observer :: bool
  ll_forced_context :: u64
  ll_forced_mode :: tech_mode
  ll_forced_fg :: "bool option"
  ll_fg :: bool
  ll_applied_fg :: "bool option"
  ll_applied_override :: "force_reflex option"
  ll_arbiter :: arbiter
  ll_fusion :: fusion
  ll_xr :: xr_timeline
  ll_selected :: input_frontend
  ll_sleep_modes :: "nat \<Rightarrow> u64"
  ll_sleep_sequence :: "nat \<Rightarrow> u64"
  ll_applied_sleep_mode :: u64
  ll_applied_sleep_frontend :: input_frontend
  ll_applied_signature :: u64
  ll_hotpath :: bool
  ll_control_epoch :: u64
  ll_applied_control_epoch :: u64
  ll_truth :: truth
  ll_router :: router
  ll_locals :: "u64 \<Rightarrow> local_state"
  ll_log :: "command list"

definition fusion_initial :: fusion where
  "fusion_initial = \<lparr>hf_controls = (\<lambda>_. 0), hf_frames = (\<lambda>_. frame_zero),
     hf_presentations = (\<lambda>_. presentation_zero), hf_bindings = (\<lambda>_ _. binding_zero),
     hf_aspect_owner = (\<lambda>_. FE_Auto), hf_frozen_owner_word = 0, hf_pacing_seen_mask = 0,
     hf_fg_seen_mask = 0, hf_startup_begin = 0, hf_transport = Transport_Unknown,
     hf_epoch = 1, hf_next_token = 0, hf_latest_token = 0, hf_next_presentation = 0,
     hf_last_source_token = (\<lambda>_. 0), hf_token_gate = False, hf_presentation_gate = False,
     hf_lock_state = 0\<rparr>"

definition latency_initial :: latency where
  "latency_initial = \<lparr>ll_backend = BE_Auto, ll_api = D3D12, ll_d3d_device = 0, ll_vk_device = 0, ll_vk_published = 0,
     ll_signature = 0, ll_pending_signature = 0, ll_delay_deinit = 0, ll_observer = False, ll_forced_context = 0,
     ll_forced_mode = Mode_LatencyFlex, ll_forced_fg = None, ll_fg = False, ll_applied_fg = None,
     ll_applied_override = None, ll_arbiter = arbiter_reset, ll_fusion = fusion_initial, ll_xr = xr_empty,
     ll_selected = FE_Auto, ll_sleep_modes = (\<lambda>_. 0), ll_sleep_sequence = (\<lambda>_. 0), ll_applied_sleep_mode = 0,
     ll_applied_sleep_frontend = FE_Auto, ll_applied_signature = 0, ll_hotpath = False, ll_control_epoch = 1,
     ll_applied_control_epoch = 0, ll_truth = truth_reset,
     ll_router = \<lparr>ro_owner = 0, ro_owner_frame_encoded = 0\<rparr>, ll_locals = (\<lambda>_. local_bind 0), ll_log = []\<rparr>"

fun normalize_marker :: "marker_type \<Rightarrow> normalized_marker" where
  "normalize_marker SIMULATION_START = SimulationStart"
| "normalize_marker SIMULATION_END = SimulationEnd"
| "normalize_marker RENDERSUBMIT_START = RenderSubmitStart"
| "normalize_marker RENDERSUBMIT_END = RenderSubmitEnd"
| "normalize_marker PRESENT_START = PresentStart"
| "normalize_marker PRESENT_END = PresentEnd"
| "normalize_marker INPUT_SAMPLE = InputSample"
| "normalize_marker TRIGGER_FLASH = TriggerFlash"
| "normalize_marker PC_LATENCY_PING = PcLatencyPing"
| "normalize_marker OUT_OF_BAND_RENDERSUBMIT_START = OutOfBandRenderSubmitStart"
| "normalize_marker OUT_OF_BAND_RENDERSUBMIT_END = OutOfBandRenderSubmitEnd"
| "normalize_marker OUT_OF_BAND_PRESENT_START = OutOfBandPresentStart"
| "normalize_marker OUT_OF_BAND_PRESENT_END = OutOfBandPresentEnd"

fun frontend_index :: "input_frontend \<Rightarrow> nat option" where
  "frontend_index Reflex = Some 0"
| "frontend_index VkNvLowLatency2 = Some 1"
| "frontend_index XeLL = Some 2"
| "frontend_index AntiLag2 = Some 3"
| "frontend_index FE_Auto = None"

definition kSleepModeValid :: u64 where "kSleepModeValid = shl1 0"
definition kSleepModeEnabled :: u64 where "kSleepModeEnabled = shl1 1"
definition kSleepModeBoost :: u64 where "kSleepModeBoost = shl1 2"
definition kSleepModeMarkers :: u64 where "kSleepModeMarkers = shl1 3"

definition pack_sleep_mode :: "sleep_mode \<Rightarrow> u64" where
  "pack_sleep_mode mode =
     kSleepModeValid OR
     (if sm_enabled mode then kSleepModeEnabled else 0) OR
     (if sm_boost mode then kSleepModeBoost else 0) OR
     (if sm_use_markers mode then kSleepModeMarkers else 0) OR
     push_bit 32 (ucast (sm_minimum_interval_us mode))"

definition unpack_sleep_mode :: "u64 \<Rightarrow> sleep_mode" where
  "unpack_sleep_mode packed = \<lparr>
     sm_enabled = (packed AND kSleepModeEnabled \<noteq> 0),
     sm_boost = (packed AND kSleepModeBoost \<noteq> 0),
     sm_minimum_interval_us = ucast (drop_bit 32 packed),
     sm_use_markers = (packed AND kSleepModeMarkers \<noteq> 0)\<rparr>"

definition get_force_reflex :: "snapshot \<Rightarrow> force_reflex" where
  "get_force_reflex sn = (if lg_force_reflex (sn_legacy sn) = 1 then ForceDisable
     else if lg_force_reflex (sn_legacy sn) = 2 then ForceEnable else InGame)"

definition emit :: "command \<Rightarrow> latency \<Rightarrow> latency" where
  "emit c s = s\<lparr>ll_log := ll_log s @ [c]\<rparr>"

section \<open>Which frontends may drive\<close>

definition hybrid_execution_active :: "snapshot \<Rightarrow> latency \<Rightarrow> bool" where
  "hybrid_execution_active sn s =
     (if \<not> hp_startup_locked (sn_hybrid sn) then False
      else case ll_api s of
        D3D12 \<Rightarrow>
          (if ll_backend s = VulkanFlex
           then hp_vulkan_fusion (sn_hybrid sn) \<and> vf_vkd3d_bridge (sn_vulkanflex sn)
           else hp_xell_fusion (sn_hybrid sn) \<and> (ll_backend s = BE_XeLL \<or> ll_backend s = AmdAntiLagVk))
      | D3D11 \<Rightarrow> hp_vulkan_fusion (sn_hybrid sn) \<and> vf_dxvk_bridge (sn_vulkanflex sn) \<and> ll_backend s = VulkanFlex
      | Vulkan \<Rightarrow> hp_vulkan_fusion (sn_hybrid sn) \<and> ll_backend s = VulkanFlex)"

definition input_can_drive :: "latency \<Rightarrow> input_frontend \<Rightarrow> bool" where
  "input_can_drive s f \<longleftrightarrow> ll_selected s = f"

text \<open>The mode a frontend asked for, None before it has said so.\<close>

definition frontend_requested_enabled :: "latency \<Rightarrow> input_frontend \<Rightarrow> bool option" where
  "frontend_requested_enabled s f =
     (case frontend_index f of
        None \<Rightarrow> None
      | Some i \<Rightarrow> let packed = ll_sleep_modes s i in
          if packed AND kSleepModeValid = 0 then None else Some (packed AND kSleepModeEnabled \<noteq> 0))"

definition frontend_selection_enabled :: "snapshot \<Rightarrow> latency \<Rightarrow> input_frontend \<Rightarrow> bool" where
  "frontend_selection_enabled sn s f =
     (case frontend_index f of
        None \<Rightarrow> False
      | Some i \<Rightarrow>
          let packed = ll_sleep_modes s i in
          if packed AND kSleepModeValid = 0 then True
          else if f = Reflex \<and> get_force_reflex sn = ForceDisable then False
          else if f = Reflex \<and> get_force_reflex sn = ForceEnable then True
          else packed AND kSleepModeEnabled \<noteq> 0)"

definition frontend_selection_mask :: "snapshot \<Rightarrow> latency \<Rightarrow> u8" where
  "frontend_selection_mask sn s =
     fold (\<lambda>(i, f) mask. if frontend_selection_enabled sn s f then mask OR shl1 i else mask)
       [(0, Reflex), (1, VkNvLowLatency2), (2, XeLL), (3, AntiLag2)] 0"

section \<open>Observation\<close>

text \<open>A marker as evidence for its frontend, and the selection that follows; answers whether this frontend drives.\<close>

definition observe_input :: "snapshot \<Rightarrow> latency \<Rightarrow> input_frontend \<Rightarrow> marker_type \<Rightarrow> u64 \<Rightarrow> latency \<times> bool" where
  "observe_input sn s f marker frame_id =
     (if ll_hotpath s then (s, ll_selected s = f)
      else
        let a = observe (ll_arbiter s) f (normalize_marker marker) frame_id;
            previous = ll_selected s;
            mask = frontend_selection_mask sn s;
            (h, next) = (if hybrid_execution_active sn s
              then resolve_pacing_source (ll_fusion s) sn a mask
              else (ll_fusion s, select a sn previous mask));
            s1 = s\<lparr>ll_arbiter := a, ll_fusion := h\<rparr>;
            desired = or_auto next;
            s2 = (if desired = previous then s1
              else s1\<lparr>ll_selected := desired, ll_applied_sleep_mode := 0, ll_applied_sleep_frontend := FE_Auto,
                     ll_applied_signature := 0, ll_control_epoch := ll_control_epoch s1 + 1\<rparr>)
        in (if desired \<noteq> FE_Auto \<and> locked h then s2\<lparr>ll_hotpath := True\<rparr> else s2, desired = f))"

definition observe_start :: "u64 \<Rightarrow> latency \<Rightarrow> latency" where
  "observe_start q s = (if ll_observer s then emit (O_FrameStart q) s else s)"

text \<open>A canonical token for the pacing frontend's native frame id, told to the observer.\<close>

definition canonical_start :: "latency \<Rightarrow> input_frontend \<Rightarrow> u64 \<Rightarrow> latency \<times> u64" where
  "canonical_start s f frame_id =
     (let (h, token) = canonicalize_pacing_observation (ll_fusion s) f frame_id;
          s1 = s\<lparr>ll_fusion := h\<rparr>
      in case token of
        None \<Rightarrow> (s1, frame_id)
      | Some t \<Rightarrow> (observe_start (ft_sequence t) s1, ft_sequence t))"

definition INVALID_ID :: u64 where "INVALID_ID = u64_max"

text \<open>The answer, and the frame id the sleep is for.\<close>

definition observe_sleep_input :: "snapshot \<Rightarrow> latency \<Rightarrow> input_frontend \<Rightarrow> u64 \<Rightarrow> latency \<times> bool \<times> u64" where
  "observe_sleep_input sn s f frame_id =
     (case frontend_index f of
        None \<Rightarrow> (s, False, frame_id)
      | Some i \<Rightarrow>
          let id = (if frame_id = INVALID_ID then ll_sleep_sequence s i + 1 else frame_id);
              s1 = s\<lparr>ll_sleep_sequence := (ll_sleep_sequence s)(i := id)\<rparr>
          in if ll_hotpath s1 then (let (s2, e) = canonical_start s1 f id in (s2, ll_selected s2 = f, e))
             else
               let s2 = s1\<lparr>ll_arbiter := note_evidence (ll_arbiter s1) f Sleep\<rparr>;
                   s3 = (if hybrid_execution_active sn s2
                         then s2\<lparr>ll_fusion := publish_pacing_observation (ll_fusion s2) f id\<rparr> else s2);
                   (s4, drives) = observe_input sn s3 f SIMULATION_START id
               in if drives \<and> locked (ll_fusion s4)
                  then (let (s5, e) = canonical_start s4 f id in (s5, drives, e))
                  else (s4, drives, id))"

section \<open>Control\<close>

fun hybrid_control_fields :: "input_frontend \<Rightarrow> u8" where
  "hybrid_control_fields Reflex = HybridControlEnabled OR HybridControlBoost OR HybridControlMinimumInterval OR HybridControlMarkers"
| "hybrid_control_fields VkNvLowLatency2 = HybridControlEnabled OR HybridControlBoost OR HybridControlMinimumInterval OR HybridControlMarkers"
| "hybrid_control_fields XeLL = HybridControlEnabled OR HybridControlBoost OR HybridControlMinimumInterval"
| "hybrid_control_fields AntiLag2 = HybridControlEnabled OR HybridControlMinimumInterval"
| "hybrid_control_fields FE_Auto = 0"

definition note_input :: "latency \<Rightarrow> input_frontend \<Rightarrow> input_evidence \<Rightarrow> latency" where
  "note_input s f e = s\<lparr>ll_arbiter := note_evidence (ll_arbiter s) f e\<rparr>"

definition note_unlocked :: "latency \<Rightarrow> input_frontend \<Rightarrow> input_evidence \<Rightarrow> latency" where
  "note_unlocked s f e = (if ll_hotpath s then s else note_input s f e)"

definition store_frontend_sleep_mode :: "latency \<Rightarrow> input_frontend \<Rightarrow> sleep_mode \<Rightarrow> latency" where
  "store_frontend_sleep_mode s0 f mode =
     (let s = note_unlocked s0 f Control in
      case frontend_index f of
        None \<Rightarrow> s
      | Some i \<Rightarrow>
          let packed = pack_sleep_mode mode;
              packet = \<lparr>cp_enabled = sm_enabled mode, cp_boost = sm_boost mode,
                cp_minimum_interval_us = sm_minimum_interval_us mode, cp_use_markers = sm_use_markers mode,
                cp_valid_fields = hybrid_control_fields f\<rparr>
          in s\<lparr>ll_sleep_modes := (ll_sleep_modes s)(i := packed),
               ll_fusion := publish_control (ll_fusion s) f packet,
               ll_control_epoch := (if ll_sleep_modes s i \<noteq> packed then ll_control_epoch s + 1 else ll_control_epoch s)\<rparr>)"

definition resolved_mode :: "resolved_control \<Rightarrow> sleep_mode" where
  "resolved_mode r = \<lparr>sm_enabled = cp_enabled (rc_value r), sm_boost = cp_boost (rc_value r),
     sm_minimum_interval_us = cp_minimum_interval_us (rc_value r), sm_use_markers = cp_use_markers (rc_value r)\<rparr>"

text \<open>The three stores after a \<open>set_sleep_mode\<close>.\<close>

definition set_sleep_mode :: "sleep_mode \<Rightarrow> u64 \<Rightarrow> input_frontend \<Rightarrow> u64 \<Rightarrow> u64 \<Rightarrow> latency \<Rightarrow> latency" where
  "set_sleep_mode mode packed f signature epoch s =
     (emit (T_SetSleepMode mode) s)\<lparr>ll_applied_sleep_mode := packed, ll_applied_sleep_frontend := f,
        ll_applied_signature := signature, ll_applied_control_epoch := epoch\<rparr>"

definition apply_hybrid_control :: "snapshot \<Rightarrow> latency \<Rightarrow> latency" where
  "apply_hybrid_control sn s =
     (let (h, resolved) = resolve_control (ll_fusion s) sn (ll_arbiter s) (frontend_selection_mask sn s);
          s1 = s\<lparr>ll_fusion := h\<rparr>
      in case resolved of
        None \<Rightarrow> s1
      | Some r \<Rightarrow>
          if ll_applied_signature s1 = rc_signature r then s1\<lparr>ll_applied_control_epoch := ll_control_epoch s\<rparr>
          else if ll_backend s1 = BE_Auto then s1
          else set_sleep_mode (resolved_mode r) (pack_sleep_mode (resolved_mode r)) (rc_pacing_source r)
                 (rc_signature r) (ll_control_epoch s) s1)"

definition apply_frontend_sleep_mode :: "snapshot \<Rightarrow> latency \<Rightarrow> input_frontend \<Rightarrow> latency" where
  "apply_frontend_sleep_mode sn s f =
     (case frontend_index f of
        None \<Rightarrow> s
      | Some i \<Rightarrow>
          if ll_hotpath s \<and> ll_applied_control_epoch s = ll_control_epoch s then s
          else if ll_hotpath s \<or> hybrid_execution_active sn s then apply_hybrid_control sn s
          else let packed = ll_sleep_modes s i in
            if packed AND kSleepModeValid = 0 then s
            else if ll_applied_sleep_frontend s = f \<and> ll_applied_sleep_mode s = packed then s
            else if ll_backend s = BE_Auto then s
            else set_sleep_mode (unpack_sleep_mode packed) packed f 0 (ll_control_epoch s) s)"

text \<open>The canonical frame id under which a marker is passed on, None when it is not.\<close>

definition hybrid_accept_marker ::
  "snapshot \<Rightarrow> latency \<Rightarrow> input_frontend \<Rightarrow> marker_type \<Rightarrow> u64 \<Rightarrow> latency \<times> u64 option" where
  "hybrid_accept_marker sn s f marker frame_id =
     (if ll_hotpath s
      then (let (h, token) = canonicalize_marker_locked (ll_fusion s) f (normalize_marker marker) frame_id
            in (s\<lparr>ll_fusion := h\<rparr>, map_option ft_sequence token))
      else if \<not> hybrid_execution_active sn s
      then (s, if input_can_drive s f then Some frame_id else None)
      else
        let (h, token) = canonicalize_marker (ll_fusion s) f (normalize_marker marker) frame_id sn
               (ll_arbiter s) (frontend_selection_mask sn s);
            s1 = s\<lparr>ll_fusion := h\<rparr>
        in (if locked h then s1\<lparr>ll_hotpath := True\<rparr> else s1, map_option ft_sequence token))"

definition update_effective_fg_state :: "latency \<Rightarrow> latency" where
  "update_effective_fg_state s =
     (let wanted = (case ll_forced_fg s of Some b \<Rightarrow> b | None \<Rightarrow> ll_fg s) in
      if ll_applied_fg s = Some wanted then s
      else if ll_backend s = BE_Auto then s
      else (emit (T_SetFgState wanted) s)\<lparr>ll_applied_fg := Some wanted\<rparr>)"

definition update_enabled_override :: "snapshot \<Rightarrow> latency \<Rightarrow> latency" where
  "update_enabled_override sn s =
     (let wanted = get_force_reflex sn in
      if ll_applied_override s = Some wanted then s
      else if ll_backend s = BE_Auto then s
      else (emit (T_SetOverride wanted) s)\<lparr>ll_applied_override := Some wanted\<rparr>)"

definition set_forced_fg :: "latency \<Rightarrow> bool option \<Rightarrow> latency" where
  "set_forced_fg s forced = s\<lparr>ll_forced_fg := forced, ll_applied_fg := None\<rparr>"

definition set_fg_type :: "latency \<Rightarrow> bool \<Rightarrow> u64 \<Rightarrow> latency" where
  "set_fg_type s interpolated frame_id = (if ll_backend s = BE_Auto then s else emit (T_FgType interpolated frame_id) s)"

section \<open>OpenXR\<close>

definition openxr_wait_call :: "fusion \<Rightarrow> int \<Rightarrow> int \<Rightarrow> bool \<Rightarrow> u64 \<Rightarrow> u64 option \<Rightarrow> wait_call" where
  "openxr_wait_call h time period should_render return_ns host_ns =
     (let latest = latest_canonical_frame h in
      \<lparr>wc_time = time, wc_period = period, wc_should_render = should_render, wc_return_ns = return_ns,
       wc_watermark = (case latest of None \<Rightarrow> 0 | Some t \<Rightarrow> ft_sequence t), wc_host_ns = host_ns,
       wc_watermark_epoch = (case latest of None \<Rightarrow> 0 | Some t \<Rightarrow> ft_epoch t)\<rparr>)"

definition OpenXROnWaitFrame ::
  "latency \<Rightarrow> u64 \<Rightarrow> int \<Rightarrow> int \<Rightarrow> bool \<Rightarrow> u64 \<Rightarrow> u64 option \<Rightarrow> latency" where
  "OpenXROnWaitFrame s session time period should_render return_ns host_ns =
     (if session = 0 then s
      else s\<lparr>ll_xr := fst (xr_on_wait (ll_xr s) session
             (openxr_wait_call (ll_fusion s) time period should_render return_ns host_ns))\<rparr>)"

definition OpenXROnBeginFrame :: "latency \<Rightarrow> u64 \<Rightarrow> bool \<Rightarrow> u64 \<Rightarrow> latency" where
  "OpenXROnBeginFrame s session discarded_previous return_ns =
     (if session = 0 then s else s\<lparr>ll_xr := fst (xr_on_begin (ll_xr s) session discarded_previous return_ns)\<rparr>)"

definition OpenXROnEndFrame :: "latency \<Rightarrow> u64 \<Rightarrow> int \<Rightarrow> u64 \<Rightarrow> u64 option \<Rightarrow> latency" where
  "OpenXROnEndFrame s session time return_ns host_ns =
     (if session = 0 then s
      else s\<lparr>ll_xr := fst (xr_on_end (ll_xr s) session
             \<lparr>ec_time = time, ec_return_ns = return_ns, ec_latest = latest_canonical_frame (ll_fusion s),
              ec_host_ns = host_ns\<rparr>)\<rparr>)"

definition OpenXROnDestroySession :: "latency \<Rightarrow> u64 \<Rightarrow> latency" where
  "OpenXROnDestroySession s session =
     (if session = 0 then s else s\<lparr>ll_xr := xr_on_destroy_session (ll_xr s) session\<rparr>)"

section \<open>Teardown\<close>

definition deinit_translation_observer :: "latency \<Rightarrow> latency" where
  "deinit_translation_observer s = (if ll_observer s then emit O_Deinit (s\<lparr>ll_observer := False\<rparr>) else s)"

definition deinit_current_tech :: "latency \<Rightarrow> latency \<times> bool" where
  "deinit_current_tech s0 =
     (let s = deinit_translation_observer s0 in
      if ll_backend s = BE_Auto then (s, False)
      else ((emit T_Deinit s)\<lparr>ll_backend := BE_Auto, ll_d3d_device := 0, ll_vk_device := 0, ll_vk_published := 0,
              ll_signature := 0, ll_pending_signature := 0, ll_applied_sleep_mode := 0,
              ll_applied_sleep_frontend := FE_Auto, ll_applied_signature := 0, ll_applied_control_epoch := 0,
              ll_hotpath := False, ll_applied_fg := None, ll_applied_override := None, ll_fg := False,
              ll_router := \<lparr>ro_owner = 0, ro_owner_frame_encoded = 0\<rparr>,
              ll_selected := FE_Auto, ll_arbiter := arbiter_reset, ll_fusion := fusion_reset (ll_fusion s)\<rparr>, True))"

text \<open>What the program gets to know of the active back end: context pointer and mode.\<close>

fun mode_of_backend :: "backend \<Rightarrow> tech_mode" where
  "mode_of_backend BE_AntiLag2 = Mode_AntiLag2"
| "mode_of_backend BE_XeLL = Mode_XeLL"
| "mode_of_backend AmdAntiLagVk = Mode_AntiLagVk"
| "mode_of_backend VulkanFlex = Mode_VulkanFlex"
| "mode_of_backend _ = Mode_LatencyFlex"

definition get_low_latency_context :: "(backend \<Rightarrow> u64) \<Rightarrow> latency \<Rightarrow> latency \<times> (u64 \<times> tech_mode) option" where
  "get_low_latency_context context_of s =
     (if ll_backend s = BE_Auto then (s, None)
      else if 0 < ll_delay_deinit s then (s\<lparr>ll_delay_deinit := 1\<rparr>, Some (0, mode_of_backend (ll_backend s)))
      else (s, Some (context_of (ll_backend s), mode_of_backend (ll_backend s))))"

end
