(* ===== verification/LatencyRouting.thy ===== *)
theory LatencyRouting
  imports LatencyContext PolicyEngine
begin

text \<open>
  How the latency context finds and replaces its back end (\<open>src/low_latency_d3d.cpp\<close>,
  \<open>src/low_latency_vk.cpp\<close>): detection of the usable back ends, the candidate loop, the fast path of the
  steady state and the conditions for a teardown.  What COM, the loader, the drivers and the back ends
  answer is the record \<open>host\<close>.
\<close>

section \<open>What the system answers\<close>

record dxvk_capabilities =
  dx_interop :: bool
  dx_device :: u64
  dx_low_latency_supported :: bool

record vkd3d_capabilities =
  vk_interop :: bool
  vk_interop_v2 :: bool
  vk_device :: u64
  vk_amd_extension :: bool
  vk_amd_feature :: bool

record host =
  ho_snapshot :: snapshot
  ho_is_d3d12 :: "u64 \<Rightarrow> bool"
  ho_module_loaded :: "string \<Rightarrow> bool"
  ho_library_present :: "string \<Rightarrow> bool"
  ho_dxvk :: "u64 \<Rightarrow> dxvk_capabilities option"
  ho_antilag2_interface :: "u64 \<Rightarrow> bool"
  ho_vkd3d :: "u64 \<Rightarrow> vkd3d_capabilities option"
  ho_vk_anti_lag :: "u64 \<Rightarrow> bool option"
  ho_native_low_latency2 :: "u64 \<Rightarrow> bool"
  ho_init :: "backend \<Rightarrow> u64 \<Rightarrow> bool"
  ho_init_context :: "backend \<Rightarrow> u64 \<Rightarrow> bool"
  ho_init_observer :: "u64 \<Rightarrow> bool"
  ho_status :: sleep_params

definition OutputEvidenceSoftwareFallback :: u16 where "OutputEvidenceSoftwareFallback = shl1 0"
definition OutputEvidenceModuleLoaded :: u16 where "OutputEvidenceModuleLoaded = shl1 1"
definition OutputEvidenceLibraryPresent :: u16 where "OutputEvidenceLibraryPresent = shl1 2"
definition OutputEvidenceDeviceInterface :: u16 where "OutputEvidenceDeviceInterface = shl1 3"
definition OutputEvidenceVulkanInterop :: u16 where "OutputEvidenceVulkanInterop = shl1 4"
definition OutputEvidenceNativeExtension :: u16 where "OutputEvidenceNativeExtension = shl1 5"
definition OutputEvidenceNativeFeature :: u16 where "OutputEvidenceNativeFeature = shl1 6"
definition OutputEvidenceEntryPoint :: u16 where "OutputEvidenceEntryPoint = shl1 7"

text \<open>A call that changes the transport truth, run without interference.\<close>

fun truth_advances :: "nat \<Rightarrow> truth \<times> truth_pc \<Rightarrow> truth \<times> truth_pc" where
  "truth_advances 0 c = c"
| "truth_advances (Suc n) c = truth_advances n (truth_advance (fst c) (snd c) False)"

definition truth_run :: "truth \<Rightarrow> truth_call \<Rightarrow> truth" where
  "truth_run g call = fst (truth_advances 4 (g, begin_call call))"

section \<open>Detection\<close>

definition detect_d3d_api :: "host \<Rightarrow> u64 \<Rightarrow> graphics_api" where
  "detect_d3d_api ho device = (if device = 0 then D3D12 else if ho_is_d3d12 ho device then D3D12 else D3D11)"

fun backend_from_mode :: "tech_mode \<Rightarrow> backend" where
  "backend_from_mode Mode_AntiLag2 = BE_AntiLag2"
| "backend_from_mode Mode_XeLL = BE_XeLL"
| "backend_from_mode Mode_LatencyFlex = LatencyFlex"
| "backend_from_mode Mode_AntiLagVk = AmdAntiLagVk"
| "backend_from_mode Mode_VulkanFlex = VulkanFlex"

text \<open>The back ends the two factories can make.\<close>

definition makes_d3d_backend :: "backend \<Rightarrow> bool" where
  "makes_d3d_backend b \<longleftrightarrow> b = AmdAntiLagVk \<or> b = BE_AntiLag2 \<or> b = BE_XeLL \<or> b = LatencyFlex \<or> b = VulkanFlex"

definition makes_vulkan_backend :: "backend \<Rightarrow> bool" where
  "makes_vulkan_backend b \<longleftrightarrow> b = AmdAntiLagVk \<or> b = LatencyFlex \<or> b = VulkanFlex"

definition startup_hybrid_configured :: "snapshot \<Rightarrow> graphics_api \<Rightarrow> bool" where
  "startup_hybrid_configured sn api =
     (if \<not> hp_startup_locked (sn_hybrid sn) then False
      else case api of
        D3D12 \<Rightarrow> hp_xell_fusion (sn_hybrid sn) \<or>
          (vf_enabled (sn_vulkanflex sn) \<and> vf_vkd3d_bridge (sn_vulkanflex sn) \<and> hp_vulkan_fusion (sn_hybrid sn))
      | D3D11 \<Rightarrow> vf_enabled (sn_vulkanflex sn) \<and> vf_dxvk_bridge (sn_vulkanflex sn) \<and>
          vf_dxvk_execution (sn_vulkanflex sn) \<noteq> AB_Disabled \<and> hp_vulkan_fusion (sn_hybrid sn)
      | Vulkan \<Rightarrow> False)"

definition startup_vulkan_hybrid_configured :: "snapshot \<Rightarrow> truth \<Rightarrow> bool" where
  "startup_vulkan_hybrid_configured sn g =
     (if snapshot_access g = Blocked then False
      else vf_enabled (sn_vulkanflex sn) \<and> hp_vulkan_fusion (sn_hybrid sn) \<and> hp_startup_locked (sn_hybrid sn) \<and>
        (op_vulkan (sn_output sn) = BE_Auto \<or> op_vulkan (sn_output sn) = VulkanFlex))"

definition software_fallback :: recognizer where
  "software_fallback = recognizer_observe recognizer_reset LatencyFlex Available 50 OutputEvidenceSoftwareFallback"

text \<open>A library that is loaded, found on disk, or neither.\<close>

definition observe_library ::
  "host \<Rightarrow> string \<Rightarrow> backend \<Rightarrow> u8 \<Rightarrow> output_availability \<Rightarrow> u8 \<Rightarrow> recognizer \<Rightarrow> recognizer" where
  "observe_library ho name b loaded_confidence found found_confidence r =
     (if ho_module_loaded ho name then recognizer_observe r b Available loaded_confidence OutputEvidenceModuleLoaded
      else if ho_library_present ho name then recognizer_observe r b found found_confidence OutputEvidenceLibraryPresent
      else recognizer_observe r b Unknown 10 0)"

definition detect_d3d11_outputs :: "host \<Rightarrow> u64 \<Rightarrow> truth \<Rightarrow> truth \<times> recognizer" where
  "detect_d3d11_outputs ho device g =
     (let sn = ho_snapshot ho;
          r = observe_library ho ''amdxx64.dll'' BE_AntiLag2 75 Available 60 software_fallback;
          found = (case ho_dxvk ho device of Some d \<Rightarrow> dx_interop d \<and> dx_device d \<noteq> 0 | None \<Rightarrow> False);
          supported = (case ho_dxvk ho device of Some d \<Rightarrow> dx_low_latency_supported d | None \<Rightarrow> False);
          bridge = (vf_enabled (sn_vulkanflex sn) \<and> vf_dxvk_bridge (sn_vulkanflex sn) \<and> found);
          executable = (bridge \<and> vf_dxvk_execution (sn_vulkanflex sn) \<noteq> AB_Disabled \<and>
            (supported \<or> vf_dxvk_execution (sn_vulkanflex sn) = AB_Enabled))
      in (if found then truth_run g ConfirmDxvk else g,
          recognizer_observe r VulkanFlex (if executable then Available else Unavailable)
            (if executable then (if supported then 99 else 94) else 100)
            (if bridge then OutputEvidenceVulkanInterop OR OutputEvidenceDeviceInterface OR
               (if supported then OutputEvidenceNativeFeature else 0) else 0)))"

definition detect_d3d12_outputs :: "host \<Rightarrow> u64 \<Rightarrow> truth \<Rightarrow> truth \<times> recognizer" where
  "detect_d3d12_outputs ho device g =
     (let sn = ho_snapshot ho;
          r = observe_library ho ''libxell.dll'' BE_XeLL 95 Available 80 software_fallback
      in if device = 0 \<or> \<not> ho_is_d3d12 ho device
         then (g, recognizer_observe (recognizer_observe r AmdAntiLagVk Unavailable 100 0) VulkanFlex Unavailable 100 0)
         else
           let r = (if ho_antilag2_interface ho device
                    then recognizer_observe r BE_AntiLag2 Available 95 OutputEvidenceDeviceInterface
                    else observe_library ho ''amdxc64.dll'' BE_AntiLag2 75 Unknown 60 r);
               caps = ho_vkd3d ho device;
               g = (case caps of Some c \<Rightarrow> if vk_interop c \<and> vk_device c \<noteq> 0 then truth_run g ConfirmVkd3d else g | None \<Rightarrow> g)
           in case caps of
             None \<Rightarrow> (g, recognizer_observe (recognizer_observe r AmdAntiLagVk Unavailable 100 0) VulkanFlex Unavailable 100 0)
           | Some c \<Rightarrow>
               if \<not> vk_interop c
               then (g, recognizer_observe (recognizer_observe r AmdAntiLagVk Unavailable 100 0) VulkanFlex Unavailable 100 0)
               else
                 let usable = (vf_enabled (sn_vulkanflex sn) \<and> vf_vkd3d_bridge (sn_vulkanflex sn) \<and> vk_device c \<noteq> 0);
                     r = recognizer_observe r VulkanFlex (if usable then Available else Unavailable)
                       (if usable then (if vk_interop_v2 c then 99 else 97) else 100)
                       (if usable then OutputEvidenceVulkanInterop OR OutputEvidenceDeviceInterface OR OutputEvidenceSoftwareFallback
                        else OutputEvidenceVulkanInterop);
                     r = recognizer_observe r AmdAntiLagVk Unknown (if vk_interop_v2 c then 78 else 70)
                       (OutputEvidenceVulkanInterop OR OutputEvidenceDeviceInterface)
                 in (g, if vk_amd_extension c \<and> vk_amd_feature c \<and> vk_device c \<noteq> 0
                        then recognizer_observe r AmdAntiLagVk Available 98
                          (OutputEvidenceVulkanInterop OR OutputEvidenceNativeExtension OR OutputEvidenceNativeFeature)
                        else recognizer_observe r AmdAntiLagVk Unavailable 100
                          (OutputEvidenceVulkanInterop OR (if vk_amd_extension c then OutputEvidenceNativeExtension else 0))))"

definition detect_d3d_outputs :: "host \<Rightarrow> graphics_api \<Rightarrow> u64 \<Rightarrow> truth \<Rightarrow> truth \<times> recognizer" where
  "detect_d3d_outputs ho api device g =
     (case api of
        D3D11 \<Rightarrow> detect_d3d11_outputs ho device g
      | D3D12 \<Rightarrow> detect_d3d12_outputs ho device g
      | Vulkan \<Rightarrow> (g, software_fallback))"

definition detect_vulkan_outputs :: "host \<Rightarrow> u64 \<Rightarrow> truth \<Rightarrow> recognizer" where
  "detect_vulkan_outputs ho device g =
     (let access = snapshot_access g;
          available = (vf_enabled (sn_vulkanflex (ho_snapshot ho)) \<and> access \<noteq> Blocked);
          r = recognizer_observe software_fallback VulkanFlex (if available then Available else Unavailable)
            (if available then (if access = FullWsi then 100 else 85) else 100)
            (if available then OutputEvidenceSoftwareFallback OR (if access = FullWsi then OutputEvidenceDeviceInterface else 0) else 0)
      in case ho_vk_anti_lag ho device of
        None \<Rightarrow> recognizer_observe r AmdAntiLagVk Unknown 10 0
      | Some ready \<Rightarrow>
          if ready then recognizer_observe r AmdAntiLagVk Available 100
            (OutputEvidenceNativeExtension OR OutputEvidenceNativeFeature OR OutputEvidenceEntryPoint)
          else recognizer_observe r AmdAntiLagVk Unavailable 100 0)"

section \<open>The D3D back end\<close>

definition init_translation_observer :: "host \<Rightarrow> latency \<Rightarrow> u64 \<Rightarrow> backend \<Rightarrow> latency \<times> bool" where
  "init_translation_observer ho s0 device b =
     (let s = deinit_translation_observer s0 in
      if device = 0 \<or> b = VulkanFlex \<or> b = AmdAntiLagVk then (s, False)
      else if \<not> vf_enabled (sn_vulkanflex (ho_snapshot ho)) then (s, False)
      else let s = emit (O_Init device) s in
        if ho_init_observer ho device then (s\<lparr>ll_observer := True\<rparr>, True) else (s, False))"

definition cached_d3d_api :: "host \<Rightarrow> latency \<Rightarrow> u64 \<Rightarrow> graphics_api" where
  "cached_d3d_api ho s device =
     (if ll_backend s \<noteq> BE_Auto \<and> ll_d3d_device s = device then ll_api s else detect_d3d_api ho device)"

text \<open>The stores that make a back end the active one.\<close>

definition activate_d3d :: "snapshot \<Rightarrow> backend \<Rightarrow> graphics_api \<Rightarrow> u64 \<Rightarrow> latency \<Rightarrow> latency" where
  "activate_d3d sn b api device s = s\<lparr>ll_backend := b, ll_api := api, ll_d3d_device := device,
     ll_signature := sn_routing_signature sn, ll_vk_device := 0, ll_vk_published := 0, ll_pending_signature := 0\<rparr>"

definition change_transport :: "frame_transport \<Rightarrow> latency \<Rightarrow> latency" where
  "change_transport tr s = s\<lparr>ll_fusion := set_transport (ll_fusion s) tr\<rparr>"

definition attach_translation :: "host \<Rightarrow> backend \<Rightarrow> graphics_api \<Rightarrow> u64 \<Rightarrow> latency \<Rightarrow> latency" where
  "attach_translation ho b api device s =
     (case api of
        D3D12 \<Rightarrow> (let (s, observer) = init_translation_observer ho s device b
                   in change_transport (if observer \<or> b = VulkanFlex \<or> b = AmdAntiLagVk then Vkd3dD3D12 else Transport_D3D12) s)
      | D3D11 \<Rightarrow> (let (s, observer) = init_translation_observer ho s device b
                   in change_transport (if observer \<or> b = VulkanFlex then DxvkD3D11 else Transport_Unknown) s)
      | Vulkan \<Rightarrow> s)"

fun try_d3d_backends :: "host \<Rightarrow> graphics_api \<Rightarrow> u64 \<Rightarrow> backend list \<Rightarrow> latency \<Rightarrow> latency \<times> bool" where
  "try_d3d_backends ho api device [] s = (s, False)"
| "try_d3d_backends ho api device (b # bs) s =
     (if \<not> makes_d3d_backend b then try_d3d_backends ho api device bs s
      else let s = emit (T_Init b device) s in
        if ho_init ho b device
        then (attach_translation ho b api device
                ((activate_d3d (ho_snapshot ho) b api device s)\<lparr>ll_delay_deinit := 0\<rparr>), True)
        else try_d3d_backends ho api device bs s)"

text \<open>Initialization under the mutex: an external context first, else the candidates in order.\<close>

definition init_d3d :: "host \<Rightarrow> latency \<Rightarrow> u64 \<Rightarrow> graphics_api \<Rightarrow> latency \<times> bool" where
  "init_d3d ho s device api =
     (if ll_forced_context s \<noteq> 0
      then
        let b = backend_from_mode (ll_forced_mode s); s = emit (T_InitContext b (ll_forced_context s)) s in
        if makes_d3d_backend b \<and> ho_init_context ho b (ll_forced_context s)
        then (change_transport Transport_D3D12 (activate_d3d (ho_snapshot ho) b api device s), True)
        else (s, False)
      else
        let (g, r) = detect_d3d_outputs ho api device (ll_truth s)
        in try_d3d_backends ho api device (fo_list (build_backend_candidates (ho_snapshot ho) api (Some r)))
             (s\<lparr>ll_truth := g\<rparr>))"

definition route_fresh :: "snapshot \<Rightarrow> latency \<Rightarrow> bool" where
  "route_fresh sn s \<longleftrightarrow> \<not> gp_runtime_switching (sn_general sn) \<or> ll_signature s = sn_routing_signature sn"

definition reinit_d3d :: "host \<Rightarrow> latency \<Rightarrow> u64 \<Rightarrow> graphics_api \<Rightarrow> latency \<times> bool" where
  "reinit_d3d ho s device api =
     (if ll_backend s = BE_Auto then init_d3d ho s device api else init_d3d ho (fst (deinit_current_tech s)) device api)"

definition update_low_latency_tech_d3d ::
  "host \<Rightarrow> latency \<Rightarrow> u64 \<Rightarrow> graphics_api option \<Rightarrow> latency \<times> bool" where
  "update_low_latency_tech_d3d ho s device api_hint =
     (let sn = ho_snapshot ho;
          api = (case api_hint of Some a \<Rightarrow> a | None \<Rightarrow> cached_d3d_api ho s device)
      in if ll_backend s \<noteq> BE_Auto \<and> ll_api s = api \<and> (device = 0 \<or> ll_d3d_device s = device) \<and> route_fresh sn s
         then (s, True)
         else if ll_backend s \<noteq> BE_Auto \<and> ll_api s = api \<and>
             \<not> (device \<noteq> 0 \<and> ll_d3d_device s \<noteq> 0 \<and> ll_d3d_device s \<noteq> device)
         then
           if route_fresh sn s
           then (if device \<noteq> 0 \<and> ll_d3d_device s = 0 then s\<lparr>ll_d3d_device := device\<rparr> else s, True)
           else if ll_backend s = BE_AntiLag2
           then
             if ll_pending_signature s \<noteq> sn_routing_signature sn
             then (s\<lparr>ll_pending_signature := sn_routing_signature sn, ll_delay_deinit := 50\<rparr>, True)
             else if ll_delay_deinit s = 0 then reinit_d3d ho s device api
             else
               let s = s\<lparr>ll_delay_deinit := ll_delay_deinit s - 1\<rparr> in
               if 0 < ll_delay_deinit s then (s, True) else reinit_d3d ho s device api
           else reinit_d3d ho s device api
         else reinit_d3d ho s device api)"

definition set_low_latency_context :: "host \<Rightarrow> latency \<Rightarrow> u64 \<Rightarrow> tech_mode \<Rightarrow> latency \<times> bool" where
  "set_low_latency_context ho s context mode =
     (let s = fst (deinit_current_tech (s\<lparr>ll_forced_context := context, ll_forced_mode := mode\<rparr>)) in
      if context \<noteq> 0 then update_low_latency_tech_d3d ho s 0 None else (s, True))"

section \<open>The Vulkan back end\<close>

definition shadowed_by_translation :: "latency \<Rightarrow> bool" where
  "shadowed_by_translation s =
     (if ll_backend s = BE_Auto then False
      else case ll_api s of
        D3D12 \<Rightarrow> has_confirmed_vkd3d (ll_truth s)
      | D3D11 \<Rightarrow> has_confirmed_dxvk (ll_truth s)
      | Vulkan \<Rightarrow> False)"

fun try_vulkan_backends :: "host \<Rightarrow> u64 \<Rightarrow> backend list \<Rightarrow> latency \<Rightarrow> latency \<times> bool" where
  "try_vulkan_backends ho device [] s = (s, False)"
| "try_vulkan_backends ho device (b # bs) s =
     (if \<not> makes_vulkan_backend b then try_vulkan_backends ho device bs s
      else
        let arg = (if b = VulkanFlex then 0 else device); s = emit (T_Init b arg) s in
        if ho_init ho b arg
        then (change_transport NativeVulkan (s\<lparr>ll_backend := b, ll_api := Vulkan, ll_d3d_device := 0, ll_vk_device := device,
                ll_vk_published := device, ll_signature := sn_routing_signature (ho_snapshot ho),
                ll_pending_signature := 0, ll_delay_deinit := 0\<rparr>), True)
        else try_vulkan_backends ho device bs s)"

definition init_vulkan :: "host \<Rightarrow> latency \<Rightarrow> u64 \<Rightarrow> latency \<times> bool" where
  "init_vulkan ho s device =
     try_vulkan_backends ho device
       (fo_list (build_backend_candidates (ho_snapshot ho) Vulkan (Some (detect_vulkan_outputs ho device (ll_truth s))))) s"

definition update_low_latency_tech_vulkan :: "host \<Rightarrow> latency \<Rightarrow> u64 \<Rightarrow> latency \<times> bool" where
  "update_low_latency_tech_vulkan ho s device =
     (let sn = ho_snapshot ho in
      if shadowed_by_translation s then (s, True)
      else if snapshot_access (ll_truth s) = Blocked then (s, False)
      else if ll_backend s \<noteq> BE_Auto \<and> ll_api s = Vulkan \<and> ll_vk_published s = device \<and> route_fresh sn s then (s, True)
      else if ll_backend s = BE_Auto then init_vulkan ho s device
      else if ll_api s \<noteq> Vulkan \<or> (ll_vk_device s \<noteq> 0 \<and> ll_vk_device s \<noteq> device) \<or> \<not> route_fresh sn s
      then init_vulkan ho (fst (deinit_current_tech s)) device
      else (s\<lparr>ll_vk_published := device\<rparr>, True))"

end
