(* ===== verification/LatencyFrontends.thy ===== *)
theory LatencyFrontends
  imports LatencyRouting
begin

text \<open>
  What the game's calls do (\<open>src/low_latency_d3d.cpp\<close>, \<open>src/low_latency_vk.cpp\<close>): the frontend bridges of D3D
  and Vulkan, the NvAPI entry points above them, and the context as a machine whose events are these
  calls.  A device or swapchain is its address, 0 for null.
\<close>

section \<open>D3D frontends\<close>

text \<open>Control-plane initialization before any evidence: the execution back end of a hybrid startup.\<close>

definition prepare_d3d :: "host \<Rightarrow> latency \<Rightarrow> graphics_api \<Rightarrow> u64 \<Rightarrow> latency \<times> bool" where
  "prepare_d3d ho s api device =
     (if ll_backend s = BE_Auto \<and> startup_hybrid_configured (ho_snapshot ho) api
      then update_low_latency_tech_d3d ho s device (Some api) else (s, True))"

text \<open>Control of the pacing owner, for a call that does not drive itself.\<close>

definition apply_selected :: "snapshot \<Rightarrow> latency \<Rightarrow> latency" where
  "apply_selected sn s = (if ll_selected s \<noteq> FE_Auto then apply_frontend_sleep_mode sn s (ll_selected s) else s)"

definition FrontendSetSleepMode ::
  "host \<Rightarrow> latency \<Rightarrow> input_frontend \<Rightarrow> graphics_api \<Rightarrow> u64 \<Rightarrow> sleep_mode \<Rightarrow> latency \<times> bool" where
  "FrontendSetSleepMode ho s0 f api device mode =
     (let sn = ho_snapshot ho;
          (s, ok) = prepare_d3d ho (store_frontend_sleep_mode s0 f mode) api device
      in if \<not> ok then (s, False)
      else if \<not> input_can_drive s f
      then (if hybrid_execution_active sn s \<and> ll_backend s \<noteq> BE_Auto then apply_selected sn s else s, True)
      else
        let (s, ok) = update_low_latency_tech_d3d ho s device (Some api) in
        if \<not> ok then (s, False)
        else (apply_frontend_sleep_mode sn (update_enabled_override sn s) f, True))"

definition passive_status :: "snapshot \<Rightarrow> latency \<Rightarrow> input_frontend \<Rightarrow> sleep_params" where
  "passive_status sn s f =
     (let p = \<lparr>sl_enabled = False, sl_fullscreen_vrr = True, sl_vsync_override = False\<rparr> in
      if \<not> hybrid_execution_active sn s then p
      else
        let p = (case frontend_requested_enabled s f of Some b \<Rightarrow> p\<lparr>sl_enabled := b\<rparr> | None \<Rightarrow> p) in
        if f = Reflex \<and> get_force_reflex sn = ForceDisable then p\<lparr>sl_enabled := False\<rparr>
        else if f = Reflex \<and> get_force_reflex sn = ForceEnable then p\<lparr>sl_enabled := True\<rparr>
        else p)"

definition FrontendGetSleepStatus ::
  "host \<Rightarrow> latency \<Rightarrow> input_frontend \<Rightarrow> graphics_api \<Rightarrow> u64 \<Rightarrow> latency \<times> sleep_params option" where
  "FrontendGetSleepStatus ho s0 f api device =
     (let sn = ho_snapshot ho;
          (s, ok) = prepare_d3d ho (note_input s0 f Capability) api device
      in if \<not> ok then (s, None)
      else if \<not> input_can_drive s f then (s, Some (passive_status sn s f))
      else
        let (s, ok) = update_low_latency_tech_d3d ho s device (Some api) in
        if \<not> ok then (s, None)
        else
          let s = apply_frontend_sleep_mode sn (update_enabled_override sn s) f in
          if ll_backend s = BE_Auto then (s, None) else (s, Some (ho_status ho)))"

text \<open>The back end sleeps, with the frame id when hybrid execution is on.\<close>

definition drive_sleep :: "snapshot \<Rightarrow> latency \<Rightarrow> input_frontend \<Rightarrow> u64 \<Rightarrow> latency \<times> bool" where
  "drive_sleep sn s0 f frame_id =
     (let s = apply_frontend_sleep_mode sn (update_enabled_override sn (update_effective_fg_state s0)) f in
      if ll_backend s = BE_Auto then (s, False)
      else (emit (if ll_hotpath s \<or> hybrid_execution_active sn s then T_SleepFrame frame_id else T_Sleep) s, True))"

definition FrontendSleep ::
  "host \<Rightarrow> latency \<Rightarrow> input_frontend \<Rightarrow> graphics_api \<Rightarrow> u64 \<Rightarrow> u64 \<Rightarrow> latency \<times> bool" where
  "FrontendSleep ho s0 f api device frame_id =
     (let sn = ho_snapshot ho; (s, ok) = prepare_d3d ho s0 api device in
      if \<not> ok then (s, False)
      else
        let (s, drives, effective) = observe_sleep_input sn s f frame_id in
        if \<not> drives then (s, True)
        else
          let (s, ok) = update_low_latency_tech_d3d ho s device (Some api) in
          if \<not> ok then (s, False) else drive_sleep sn s f effective)"

definition observer_marker :: "marker_type \<Rightarrow> u64 \<Rightarrow> latency \<Rightarrow> latency" where
  "observer_marker marker q s = (if ll_observer s then emit (O_Marker marker q) s else s)"

text \<open>State resolution and dispatch of an accepted marker.\<close>

definition dispatch_marker :: "snapshot \<Rightarrow> latency \<Rightarrow> marker_type \<Rightarrow> u64 \<Rightarrow> latency \<times> bool" where
  "dispatch_marker sn s0 marker q =
     (let s = apply_selected sn (update_enabled_override sn (update_effective_fg_state s0)) in
      if ll_backend s = BE_Auto then (s, False) else (emit (T_Marker marker q) s, True))"

definition FrontendSetMarker ::
  "host \<Rightarrow> latency \<Rightarrow> input_frontend \<Rightarrow> graphics_api \<Rightarrow> u64 \<Rightarrow> marker_type \<Rightarrow> u64 \<Rightarrow> latency \<times> bool" where
  "FrontendSetMarker ho s0 f api device marker frame_id =
     (let sn = ho_snapshot ho; (s, ok) = prepare_d3d ho s0 api device in
      if \<not> ok then (s, False)
      else
        let (s, pacing) = observe_input sn s f marker frame_id;
            (s, ok) = (if pacing then update_low_latency_tech_d3d ho s device (Some api) else (s, True))
        in if \<not> ok then (s, False)
        else if \<not> pacing \<and> ((\<not> ll_hotpath s \<and> \<not> hybrid_execution_active sn s) \<or> ll_backend s = BE_Auto) then (s, True)
        else
          let (s, accepted) = hybrid_accept_marker sn s f marker frame_id in
          case accepted of
            None \<Rightarrow> (s, True)
          | Some q \<Rightarrow> let (s, ok) = dispatch_marker sn s marker q in
              (if ok then observer_marker marker q s else s, ok))"

definition observe_queue :: "u64 \<Rightarrow> latency \<Rightarrow> latency" where
  "observe_queue queue s =
     (let s = (if ll_backend s \<noteq> BE_Auto then emit (T_Queue queue) s else s)
      in if ll_observer s then emit (O_Queue queue) s else s)"

definition FrontendSetAsyncMarker :: "host \<Rightarrow> latency \<Rightarrow> input_frontend \<Rightarrow> marker_type \<Rightarrow> u64 \<Rightarrow> u64 \<Rightarrow> latency" where
  "FrontendSetAsyncMarker ho s0 f marker frame_id queue =
     (let sn = ho_snapshot ho;
          (s, pacing) = observe_input sn (note_unlocked s0 f AsyncMarker) f marker frame_id;
          s = (if queue \<noteq> 0 then observe_queue queue s else s)
      in if \<not> pacing \<and> ((\<not> ll_hotpath s \<and> \<not> hybrid_execution_active sn s) \<or> ll_backend s = BE_Auto) then s
      else if ll_backend s = BE_Auto then s
      else
        let (s, accepted) = hybrid_accept_marker sn s f marker frame_id in
        case accepted of
          None \<Rightarrow> s
        | Some q \<Rightarrow> observer_marker marker q (emit (T_AsyncMarker marker q) s))"

definition presentation_of :: "presentation_token \<Rightarrow> presentation_params" where
  "presentation_of t = \<lparr>pp_render_frame_id = pt_render_sequence t, pp_present_frame_id = pt_sequence t,
     pp_generation = pt_generation t, pp_interpolated = pt_interpolated t\<rparr>"

definition tell_presentation :: "presentation_token option \<Rightarrow> latency \<Rightarrow> latency" where
  "tell_presentation r s =
     (case r of
        None \<Rightarrow> s
      | Some t \<Rightarrow>
          let s = (if ll_backend s \<noteq> BE_Auto then emit (T_Presentation (presentation_of t)) s else s)
          in if ll_observer s then emit (O_Presentation (presentation_of t)) s else s)"

definition FrontendSetFgType :: "host \<Rightarrow> latency \<Rightarrow> input_frontend \<Rightarrow> bool \<Rightarrow> u64 \<Rightarrow> latency" where
  "FrontendSetFgType ho s0 f interpolated frame_id =
     (let sn = ho_snapshot ho; s = note_unlocked s0 f FrameGen in
      if ll_hotpath s
      then (let (h, r) = canonicalize_fg_presentation_locked (ll_fusion s) f frame_id interpolated
            in tell_presentation r (s\<lparr>ll_fusion := h\<rparr>))
      else if hybrid_execution_active sn s
      then (let (h, r) = canonicalize_fg_presentation (ll_fusion s) f frame_id interpolated sn (ll_arbiter s)
                  (frontend_selection_mask sn s);
                s1 = s\<lparr>ll_fusion := h\<rparr>
            in tell_presentation r (if locked h then s1\<lparr>ll_hotpath := True\<rparr> else s1))
      else if \<not> input_can_drive s f \<or> ll_backend s = BE_Auto then s
      else emit (T_FgType interpolated frame_id) s)"

section \<open>The Reflex entry points of D3D\<close>

definition Sleep_d3d :: "host \<Rightarrow> latency \<Rightarrow> u64 \<Rightarrow> latency \<times> bool" where
  "Sleep_d3d ho s device = FrontendSleep ho s Reflex (cached_d3d_api ho s device) device INVALID_ID"

definition SetSleepMode_d3d :: "host \<Rightarrow> latency \<Rightarrow> u64 \<Rightarrow> sleep_mode \<Rightarrow> latency \<times> bool" where
  "SetSleepMode_d3d ho s device mode = FrontendSetSleepMode ho s Reflex (cached_d3d_api ho s device) device mode"

definition SetLatencyMarker_d3d :: "host \<Rightarrow> latency \<Rightarrow> u64 \<Rightarrow> marker_type \<Rightarrow> u64 \<Rightarrow> latency \<times> bool" where
  "SetLatencyMarker_d3d ho s device marker frame_id =
     FrontendSetMarker ho s Reflex (cached_d3d_api ho s device) device marker frame_id"

text \<open>The address of the cadence router of the context; a thread is named by the address of its local state.\<close>

definition cadence_router_address :: u64 where "cadence_router_address = 1"

definition cadence_decision_of :: "router_pc \<Rightarrow> cadence_decision" where
  "cadence_decision_of p = (case p of RP_Done d \<Rightarrow> d | _ \<Rightarrow> NoChange)"

definition observe_cadence :: "latency \<Rightarrow> u64 \<Rightarrow> u64 \<Rightarrow> latency" where
  "observe_cadence s thread frame_id =
     (let fg = ll_fg s;
          (r, l, p) = router_observe cadence_router_address (ll_router s) (ll_locals s thread) thread frame_id fg;
          s = s\<lparr>ll_router := r, ll_locals := (ll_locals s)(thread := l)\<rparr>
      in if cadence_decision_of p = Enable \<and> \<not> fg then update_effective_fg_state (s\<lparr>ll_fg := True\<rparr>)
      else if cadence_decision_of p = Disable \<and> fg then update_effective_fg_state (s\<lparr>ll_fg := False\<rparr>)
      else s)"

definition SetAsyncFrameMarker :: "host \<Rightarrow> latency \<Rightarrow> u64 \<Rightarrow> u64 \<Rightarrow> marker_type \<Rightarrow> u64 \<Rightarrow> latency" where
  "SetAsyncFrameMarker ho s thread queue marker frame_id =
     FrontendSetAsyncMarker ho
       (if marker = OUT_OF_BAND_PRESENT_START then observe_cadence s thread frame_id else s) Reflex marker frame_id queue"

definition NotifyOutOfBandCommandQueue :: "latency \<Rightarrow> u64 \<Rightarrow> latency" where
  "NotifyOutOfBandCommandQueue s queue = (if queue = 0 then s else observe_queue queue s)"

section \<open>Vulkan frontends\<close>

definition prepare_vulkan :: "host \<Rightarrow> latency \<Rightarrow> u64 \<Rightarrow> latency \<times> bool" where
  "prepare_vulkan ho s device =
     (if ll_backend s = BE_Auto \<and> startup_vulkan_hybrid_configured (ho_snapshot ho) (ll_truth s)
      then update_low_latency_tech_vulkan ho s device else (s, True))"

definition VulkanFrontendSetSleepMode :: "host \<Rightarrow> latency \<Rightarrow> input_frontend \<Rightarrow> u64 \<Rightarrow> sleep_mode \<Rightarrow> latency \<times> bool" where
  "VulkanFrontendSetSleepMode ho s0 f device mode =
     (if shadowed_by_translation s0 then (s0, True)
      else
        let sn = ho_snapshot ho; (s, ok) = prepare_vulkan ho (store_frontend_sleep_mode s0 f mode) device in
        if \<not> ok then (s, False)
        else if \<not> input_can_drive s f then (s, True)
        else
          let (s, ok) = update_low_latency_tech_vulkan ho s device in
          if \<not> ok then (s, False)
          else (apply_frontend_sleep_mode sn (update_enabled_override sn s) f, True))"

definition VulkanFrontendDriveSleep :: "host \<Rightarrow> latency \<Rightarrow> input_frontend \<Rightarrow> u64 \<Rightarrow> u64 \<Rightarrow> latency \<times> bool" where
  "VulkanFrontendDriveSleep ho s f device frame_id =
     (if shadowed_by_translation s then (s, True)
      else if \<not> input_can_drive s f then (s, True)
      else
        let (s, ok) = update_low_latency_tech_vulkan ho s device in
        if \<not> ok then (s, False) else drive_sleep (ho_snapshot ho) s f frame_id)"

definition VulkanFrontendSleep :: "host \<Rightarrow> latency \<Rightarrow> input_frontend \<Rightarrow> u64 \<Rightarrow> u64 \<Rightarrow> latency \<times> bool" where
  "VulkanFrontendSleep ho s0 f device frame_id =
     (if shadowed_by_translation s0 then (s0, True)
      else
        let (s, ok) = prepare_vulkan ho s0 device in
        if \<not> ok then (s, False)
        else
          let (s, drives, effective) = observe_sleep_input (ho_snapshot ho) s f frame_id in
          if \<not> drives then (s, True) else VulkanFrontendDriveSleep ho s f device effective)"

definition VulkanFrontendSetMarker ::
  "host \<Rightarrow> latency \<Rightarrow> input_frontend \<Rightarrow> u64 \<Rightarrow> marker_type \<Rightarrow> u64 \<Rightarrow> latency \<times> bool" where
  "VulkanFrontendSetMarker ho s0 f device marker frame_id =
     (if shadowed_by_translation s0 then (s0, True)
      else
        let sn = ho_snapshot ho; (s, ok) = prepare_vulkan ho s0 device in
        if \<not> ok then (s, False)
        else
          let (s, pacing) = observe_input sn s f marker frame_id;
              (s, ok) = (if pacing then update_low_latency_tech_vulkan ho s device else (s, True))
          in if \<not> ok then (s, False)
          else if \<not> pacing \<and> ((\<not> ll_hotpath s \<and> \<not> hybrid_execution_active sn s) \<or> ll_backend s = BE_Auto) then (s, True)
          else
            let (s, accepted) = hybrid_accept_marker sn s f marker frame_id in
            case accepted of None \<Rightarrow> (s, True) | Some q \<Rightarrow> dispatch_marker sn s marker q)"

definition VulkanFrontendObserveSleep :: "host \<Rightarrow> latency \<Rightarrow> input_frontend \<Rightarrow> u64 \<Rightarrow> latency \<times> bool" where
  "VulkanFrontendObserveSleep ho s f frame_id =
     (if shadowed_by_translation s then (s, True)
      else let (s, drives, _) = observe_sleep_input (ho_snapshot ho) s f frame_id in (s, drives))"

definition VulkanFrontendObserveMarker :: "host \<Rightarrow> latency \<Rightarrow> input_frontend \<Rightarrow> marker_type \<Rightarrow> u64 \<Rightarrow> latency \<times> bool" where
  "VulkanFrontendObserveMarker ho s f marker frame_id =
     (if shadowed_by_translation s then (s, True) else observe_input (ho_snapshot ho) s f marker frame_id)"

definition GetSleepStatus_vulkan :: "host \<Rightarrow> latency \<Rightarrow> u64 \<Rightarrow> latency \<times> bool option" where
  "GetSleepStatus_vulkan ho s device =
     (if shadowed_by_translation s
      then (s, Some (if ll_backend s \<noteq> BE_Auto then sl_enabled (ho_status ho) else False))
      else if \<not> input_can_drive s Reflex then (s, Some False)
      else
        let (s, ok) = update_low_latency_tech_vulkan ho s device in
        if \<not> ok then (s, None)
        else
          let s = apply_frontend_sleep_mode (ho_snapshot ho) s Reflex in
          if ll_backend s = BE_Auto then (s, None) else (s, Some (sl_enabled (ho_status ho))))"

section \<open>The VulkanFlex window system path\<close>

definition VulkanFlexOnAcquire :: "host \<Rightarrow> latency \<Rightarrow> u64 \<Rightarrow> u64 \<Rightarrow> u32 \<Rightarrow> latency \<times> bool" where
  "VulkanFlexOnAcquire ho s device swapchain index =
     (let sn = ho_snapshot ho in
      if shadowed_by_translation s then (s, True)
      else if \<not> vf_enabled (sn_vulkanflex sn) \<or> \<not> vf_core_pacing (sn_vulkanflex sn) then (s, True)
      else if op_vulkan (sn_output sn) \<noteq> VulkanFlex \<and> ho_native_low_latency2 ho device \<and>
          vp_prefer_native_extensions (sn_vulkan sn) then (s, True)
      else
        let (s, ok) = update_low_latency_tech_vulkan ho s device in
        if \<not> ok then (s, False)
        else if ll_backend s \<noteq> VulkanFlex then (s, True)
        else (emit (T_Acquire swapchain index) s, True))"

definition vulkanflex_route :: "latency \<Rightarrow> u64 \<Rightarrow> bool" where
  "vulkanflex_route s device \<longleftrightarrow> ll_api s = Vulkan \<and> ll_vk_published s = device \<and> ll_backend s = VulkanFlex"

definition VulkanFlexBeginPresent :: "latency \<Rightarrow> u64 \<Rightarrow> u64 \<Rightarrow> u32 \<Rightarrow> latency" where
  "VulkanFlexBeginPresent s device swapchain index =
     (if vulkanflex_route s device then emit (T_BeginPresent swapchain index) s else s)"

definition VulkanFlexCompletePresent :: "latency \<Rightarrow> bool \<Rightarrow> u64 \<Rightarrow> u64 \<Rightarrow> bool \<Rightarrow> bool \<Rightarrow> latency" where
  "VulkanFlexCompletePresent s ticket device present_id uses_present_id2 timing_requested =
     (if ticket \<and> vulkanflex_route s device
      then emit (T_CompletePresent present_id uses_present_id2 timing_requested) s else s)"

definition VulkanFlexOnDestroySwapchain :: "latency \<Rightarrow> u64 \<Rightarrow> u64 \<Rightarrow> latency" where
  "VulkanFlexOnDestroySwapchain s device swapchain =
     (if vulkanflex_route s device then emit (T_DestroySwapchain swapchain) s else s)"

definition VulkanFlexOnStructuralStall :: "latency \<Rightarrow> u64 \<Rightarrow> u64 \<Rightarrow> u64 \<Rightarrow> latency" where
  "VulkanFlexOnStructuralStall s device duration_ns end_ns =
     (if vulkanflex_route s device then emit (T_Stall duration_ns end_ns) s else s)"

section \<open>The context as a machine\<close>

datatype latency_call =
    LC_SetSleepMode input_frontend graphics_api u64 sleep_mode
  | LC_GetSleepStatus input_frontend graphics_api u64
  | LC_Sleep input_frontend graphics_api u64 u64
  | LC_Marker input_frontend graphics_api u64 marker_type u64
  | LC_AsyncMarker input_frontend marker_type u64 u64
  | LC_AsyncFrameMarker u64 u64 marker_type u64
  | LC_FgType input_frontend bool u64
  | LC_Queue u64
  | LC_Evidence input_frontend input_evidence
  | LC_Update u64
  | LC_ForcedFg "bool option"
  | LC_SetFgType bool u64
  | LC_Deinit
  | LC_SetContext u64 tech_mode
  | LC_VkSetSleepMode input_frontend u64 sleep_mode
  | LC_VkGetSleepStatus u64
  | LC_VkSleep input_frontend u64 u64
  | LC_VkDriveSleep input_frontend u64 u64
  | LC_VkMarker input_frontend u64 marker_type u64
  | LC_VkObserveSleep input_frontend u64
  | LC_VkObserveMarker input_frontend marker_type u64
  | LC_Acquire u64 u64 u32
  | LC_BeginPresent u64 u64 u32
  | LC_CompletePresent bool u64 u64 bool bool
  | LC_DestroySwapchain u64 u64
  | LC_Stall u64 u64 u64
  | LC_XrWait u64 int int bool u64 "u64 option"
  | LC_XrBegin u64 bool u64
  | LC_XrEnd u64 int u64 "u64 option"
  | LC_XrDestroy u64
  | LC_Truth truth_call

fun latency_step :: "latency \<Rightarrow> host \<times> latency_call \<Rightarrow> latency" where
  "latency_step s (ho, LC_SetSleepMode f api d mode) = fst (FrontendSetSleepMode ho s f api d mode)"
| "latency_step s (ho, LC_GetSleepStatus f api d) = fst (FrontendGetSleepStatus ho s f api d)"
| "latency_step s (ho, LC_Sleep f api d x) = fst (FrontendSleep ho s f api d x)"
| "latency_step s (ho, LC_Marker f api d m x) = fst (FrontendSetMarker ho s f api d m x)"
| "latency_step s (ho, LC_AsyncMarker f m x q) = FrontendSetAsyncMarker ho s f m x q"
| "latency_step s (ho, LC_AsyncFrameMarker th q m x) = SetAsyncFrameMarker ho s th q m x"
| "latency_step s (ho, LC_FgType f b x) = FrontendSetFgType ho s f b x"
| "latency_step s (ho, LC_Queue q) = NotifyOutOfBandCommandQueue s q"
| "latency_step s (ho, LC_Evidence f e) = note_input s f e"
| "latency_step s (ho, LC_Update d) = fst (update_low_latency_tech_d3d ho s d None)"
| "latency_step s (ho, LC_ForcedFg b) = set_forced_fg s b"
| "latency_step s (ho, LC_SetFgType b x) = set_fg_type s b x"
| "latency_step s (ho, LC_Deinit) = fst (deinit_current_tech s)"
| "latency_step s (ho, LC_SetContext c m) = fst (set_low_latency_context ho s c m)"
| "latency_step s (ho, LC_VkSetSleepMode f d mode) = fst (VulkanFrontendSetSleepMode ho s f d mode)"
| "latency_step s (ho, LC_VkGetSleepStatus d) = fst (GetSleepStatus_vulkan ho s d)"
| "latency_step s (ho, LC_VkSleep f d x) = fst (VulkanFrontendSleep ho s f d x)"
| "latency_step s (ho, LC_VkDriveSleep f d x) = fst (VulkanFrontendDriveSleep ho s f d x)"
| "latency_step s (ho, LC_VkMarker f d m x) = fst (VulkanFrontendSetMarker ho s f d m x)"
| "latency_step s (ho, LC_VkObserveSleep f x) = fst (VulkanFrontendObserveSleep ho s f x)"
| "latency_step s (ho, LC_VkObserveMarker f m x) = fst (VulkanFrontendObserveMarker ho s f m x)"
| "latency_step s (ho, LC_Acquire d w i) = fst (VulkanFlexOnAcquire ho s d w i)"
| "latency_step s (ho, LC_BeginPresent d w i) = VulkanFlexBeginPresent s d w i"
| "latency_step s (ho, LC_CompletePresent k d p b c) = VulkanFlexCompletePresent s k d p b c"
| "latency_step s (ho, LC_DestroySwapchain d w) = VulkanFlexOnDestroySwapchain s d w"
| "latency_step s (ho, LC_Stall d n e) = VulkanFlexOnStructuralStall s d n e"
| "latency_step s (ho, LC_XrWait k t p b r v) = OpenXROnWaitFrame s k t p b r v"
| "latency_step s (ho, LC_XrBegin k b r) = OpenXROnBeginFrame s k b r"
| "latency_step s (ho, LC_XrEnd k t r v) = OpenXROnEndFrame s k t r v"
| "latency_step s (ho, LC_XrDestroy k) = OpenXROnDestroySession s k"
| "latency_step s (ho, LC_Truth c) = s\<lparr>ll_truth := truth_run (ll_truth s) c\<rparr>"

end
