(* ===== verification/LatencyLedger.thy ===== *)
theory LatencyLedger
  imports LatencyFrontends "HOL-Library.Multiset"
begin

text \<open>
  What the latency context tells its back end.  Every public call is a chain of small changes; \<open>moves\<close>
  says what such a chain may add to the log while the hot path is on: no change of the pacing owner, sleeps
  for its frontend only, and no marker that hybrid fusion has not just accepted.
\<close>

section \<open>Changes on the hot path\<close>

fun sleeps :: "command \<Rightarrow> bool" where
  "sleeps T_Sleep = True"
| "sleeps (T_SleepFrame x) = True"
| "sleeps c = False"

fun marker_of :: "command \<Rightarrow> (u64 \<times> normalized_marker) list" where
  "marker_of (T_Marker m q) = [(q, normalize_marker m)]"
| "marker_of (T_AsyncMarker m q) = [(q, normalize_marker m)]"
| "marker_of c = []"

definition markers_of :: "command list \<Rightarrow> (u64 \<times> normalized_marker) list" where
  "markers_of cs = concat (map marker_of cs)"

lemma markers_of_simps [simp]:
  "markers_of [] = []" "markers_of (cs @ ds) = markers_of cs @ markers_of ds" "markers_of [c] = marker_of c"
  by (simp_all add: markers_of_def)

text \<open>
  The change from s to t in at most k calls of hybrid fusion, on behalf of the frontend that wants to sleep,
  if there is one.  Hot path or not, it keeps the frame slots in order while k more tokens have room.
\<close>

definition fits :: "nat \<Rightarrow> fusion \<Rightarrow> bool" where
  "fits n h \<longleftrightarrow> slots_ok h \<and> unat (hf_next_token h) + n < 18446744073709551614"

definition moves :: "input_frontend option \<Rightarrow> nat \<Rightarrow> latency \<Rightarrow> latency \<Rightarrow> bool" where
  "moves who k s t \<longleftrightarrow> (\<forall>n. fits (n + k) (ll_fusion s) \<longrightarrow> fits n (ll_fusion t)) \<and> (\<exists>cs. ll_log t = ll_log s @ cs \<and>
     (ll_hotpath s \<longrightarrow> T_Deinit \<notin> set cs \<longrightarrow>
        ll_hotpath t \<and> ll_selected t = ll_selected s \<and>
        (\<forall>c\<in>set cs. sleeps c \<longrightarrow> who = Some (ll_selected s)) \<and>
        (\<exists>ops. length ops \<le> k \<and> ll_fusion t = foldl fusion_step (ll_fusion s) ops \<and>
           mset (markers_of cs) \<subseteq># mset (accepted_markers (ll_fusion s) ops))))"

lemma accepted_markers_append:
  "accepted_markers h (ps @ qs) = accepted_markers h ps @ accepted_markers (foldl fusion_step h ps) qs"
  by (induction ps arbitrary: h) simp_all

lemma fits_less: "fits n h \<Longrightarrow> m \<le> n \<Longrightarrow> fits m h"
  by (simp add: fits_def)

lemma fits_step: "fits (Suc n) h \<Longrightarrow> fits n (fusion_step h op)"
  using slots_step [of h op] step_room [of h n op] by (auto simp: fits_def room_def)

lemma fits_reset: "fits n h \<Longrightarrow> fits n (fusion_reset h)"
  using slots_reset by (simp add: fits_def) (simp add: fusion_reset_def)

lemma moves_refl: "moves who k s s"
  unfolding moves_def
  by (intro conjI exI [of _ "[]"]) (auto intro: exI [of _ "[]"] fits_less)

lemma moves_fits: "moves who k s t \<Longrightarrow> fits (n + k) (ll_fusion s) \<Longrightarrow> fits n (ll_fusion t)"
  by (simp only: moves_def)

lemma moves_trans:
  assumes "moves who j s t" "moves who k t u"
  shows "moves who (j + k) s u"
proof -
  from assms(1) obtain cs where cs: "ll_log t = ll_log s @ cs"
    "ll_hotpath s \<Longrightarrow> T_Deinit \<notin> set cs \<Longrightarrow> ll_hotpath t \<and> ll_selected t = ll_selected s \<and>
        (\<forall>c\<in>set cs. sleeps c \<longrightarrow> who = Some (ll_selected s)) \<and>
        (\<exists>ops. length ops \<le> j \<and> ll_fusion t = foldl fusion_step (ll_fusion s) ops \<and>
           mset (markers_of cs) \<subseteq># mset (accepted_markers (ll_fusion s) ops))"
    unfolding moves_def by blast
  from assms(2) obtain ds where ds: "ll_log u = ll_log t @ ds"
    "ll_hotpath t \<Longrightarrow> T_Deinit \<notin> set ds \<Longrightarrow> ll_hotpath u \<and> ll_selected u = ll_selected t \<and>
        (\<forall>c\<in>set ds. sleeps c \<longrightarrow> who = Some (ll_selected t)) \<and>
        (\<exists>ops. length ops \<le> k \<and> ll_fusion u = foldl fusion_step (ll_fusion t) ops \<and>
           mset (markers_of ds) \<subseteq># mset (accepted_markers (ll_fusion t) ops))"
    unfolding moves_def by blast
  have f: "fits n (ll_fusion u)" if "fits (n + (j + k)) (ll_fusion s)" for n
    using moves_fits [OF assms(2), of n] moves_fits [OF assms(1), of "n + k"] that by (simp add: ac_simps)
  show ?thesis
    unfolding moves_def
  proof (intro exI [of _ "cs @ ds"] conjI allI impI f)
    show "ll_log u = ll_log s @ cs @ ds" using cs(1) ds(1) by simp
    assume h: "ll_hotpath s" and n: "T_Deinit \<notin> set (cs @ ds)"
    from n have n1: "T_Deinit \<notin> set cs" and n2: "T_Deinit \<notin> set ds" by auto
    from cs(2) [OF h n1] obtain ps where ps: "length ps \<le> j" "ll_fusion t = foldl fusion_step (ll_fusion s) ps"
        "mset (markers_of cs) \<subseteq># mset (accepted_markers (ll_fusion s) ps)"
      and ht: "ll_hotpath t" "ll_selected t = ll_selected s" "\<forall>c\<in>set cs. sleeps c \<longrightarrow> who = Some (ll_selected s)"
      by blast
    from ds(2) [OF ht(1) n2] obtain qs where qs: "length qs \<le> k" "ll_fusion u = foldl fusion_step (ll_fusion t) qs"
        "mset (markers_of ds) \<subseteq># mset (accepted_markers (ll_fusion t) qs)"
      and hu: "ll_hotpath u" "ll_selected u = ll_selected t" "\<forall>c\<in>set ds. sleeps c \<longrightarrow> who = Some (ll_selected t)"
      by blast
    show "ll_hotpath u" "ll_selected u = ll_selected s" using ht hu by simp_all
    show "\<forall>c\<in>set (cs @ ds). sleeps c \<longrightarrow> who = Some (ll_selected s)" using ht hu by auto
    show "\<exists>ops. length ops \<le> j + k \<and> ll_fusion u = foldl fusion_step (ll_fusion s) ops \<and>
        mset (markers_of (cs @ ds)) \<subseteq># mset (accepted_markers (ll_fusion s) ops)"
      by (rule exI [of _ "ps @ qs"])
         (use ps qs in \<open>auto simp: accepted_markers_append intro: subset_mset.add_mono\<close>)
  qed
qed

lemma moves_weaken: "moves who j s t \<Longrightarrow> j \<le> k \<Longrightarrow> moves who k s t"
  using moves_trans [of who j s t "k - j" t] moves_refl by simp

lemma moves_anyone: "moves None k s t \<Longrightarrow> moves who k s t"
  unfolding moves_def by (metis option.distinct(1))

text \<open>The elementary changes.\<close>

lemma moves_quiet:
  assumes "ll_log t = ll_log s" "ll_fusion t = ll_fusion s" "ll_selected t = ll_selected s"
    and "ll_hotpath s \<Longrightarrow> ll_hotpath t"
  shows "moves who k s t"
  unfolding moves_def using assms
  by (intro conjI exI [of _ "[]"]) (auto intro: exI [of _ "[]"] fits_less)

lemma moves_fusion:
  assumes "ll_log t = ll_log s" "ll_fusion t = fusion_step (ll_fusion s) op" "ll_selected t = ll_selected s"
    and "ll_hotpath s \<Longrightarrow> ll_hotpath t"
  shows "moves who (Suc 0) s t"
  unfolding moves_def using assms
  by (intro conjI exI [of _ "[]"]) (auto intro!: exI [of _ "[op]"] intro: fits_step)

lemma moves_emit:
  assumes "\<not> sleeps c" "marker_of c = []"
  shows "moves who k s (emit c s)"
  unfolding moves_def using assms
  by (intro conjI exI [of _ "[c]"]) (auto simp: emit_def intro!: exI [of _ "[]"] intro: fits_less)

lemma moves_cold:
  assumes "\<not> ll_hotpath s" "\<exists>cs. ll_log t = ll_log s @ cs" "length ops \<le> k"
    "ll_fusion t = foldl fusion_step (ll_fusion s) ops"
  shows "moves who k s t"
proof -
  have "fits n (foldl fusion_step h ops)" if "fits (n + length ops) h" for n h
    using that by (induction ops arbitrary: h) (auto dest: fits_step)
  then have "fits n (ll_fusion t)" if "fits (n + k) (ll_fusion s)" for n
    using that assms(3,4) fits_less [of "n + k" "ll_fusion s" "n + length ops"] by simp
  with assms(1,2) show ?thesis unfolding moves_def by blast
qed

lemma moves_deinit:
  assumes "ll_log t = ll_log s @ cs" "T_Deinit \<in> set cs" "ll_fusion t = fusion_reset (ll_fusion s)"
  shows "moves who k s t"
proof -
  have "fits n (ll_fusion t)" if "fits (n + k) (ll_fusion s)" for n
    using assms(3) fits_reset [OF fits_less [OF that, of n]] by simp
  with assms(1,2) show ?thesis unfolding moves_def by blast
qed

lemma emit_simps [simp]:
  "ll_log (emit c s) = ll_log s @ [c]" "ll_fusion (emit c s) = ll_fusion s" "ll_selected (emit c s) = ll_selected s"
  "ll_hotpath (emit c s) = ll_hotpath s" "ll_backend (emit c s) = ll_backend s"
  by (simp_all add: emit_def)

lemma moves_emit_quiet:
  assumes "ll_log t = ll_log s @ [c]" "\<not> sleeps c" "marker_of c = []"
    and "ll_fusion t = ll_fusion s" "ll_selected t = ll_selected s" "ll_hotpath s \<Longrightarrow> ll_hotpath t"
  shows "moves who k s t"
  unfolding moves_def using assms
  by (intro conjI exI [of _ "[c]"]) (auto intro!: exI [of _ "[]"] intro: fits_less)

text \<open>Chains of changes: the first change by a fact about it, the second one from where it ended.\<close>

lemma moves_then: "moves who j s (fst p) \<Longrightarrow> (\<And>t b. p = (t, b) \<Longrightarrow> moves who k t (g t b)) \<Longrightarrow>
   moves who (j + k) s (case p of (t, b) \<Rightarrow> g t b)"
  using moves_trans by (cases p) auto

section \<open>The parts of a call\<close>

named_theorems part_moves

lemma update_effective_fg_moves [part_moves]: "moves who 0 s (update_effective_fg_state s)"
  by (auto simp: update_effective_fg_state_def Let_def intro: moves_refl moves_emit_quiet)

lemma update_enabled_override_moves [part_moves]: "moves who 0 s (update_enabled_override sn s)"
  by (auto simp: update_enabled_override_def Let_def intro: moves_refl moves_emit_quiet)

lemma set_sleep_mode_moves: "moves who 0 s (set_sleep_mode m p f g e s)"
  by (auto simp: set_sleep_mode_def intro: moves_emit_quiet)

lemma apply_hybrid_control_moves: "moves who (Suc 0) s (apply_hybrid_control sn s)"
proof -
  obtain h r where e: "resolve_control (ll_fusion s) sn (ll_arbiter s) (frontend_selection_mask sn s) = (h, r)"
    by force
  have 1: "moves who (Suc 0) s (s\<lparr>ll_fusion := h\<rparr>)" "moves who (Suc 0) s (s\<lparr>ll_fusion := h, ll_applied_control_epoch := ep\<rparr>)" for ep
    using moves_fusion [of _ s "Op_resolve_control sn (ll_arbiter s) (frontend_selection_mask sn s)"] e by simp_all
  have 2: "moves who (Suc 0) s (set_sleep_mode m p f g ep (s\<lparr>ll_fusion := h\<rparr>))" for m p f g ep
    using moves_trans [OF 1(1) set_sleep_mode_moves] by simp
  show ?thesis
    by (auto simp: apply_hybrid_control_def e Let_def 1 2 split: option.split)
qed

lemma apply_frontend_sleep_mode_moves [part_moves]: "moves who (Suc 0) s (apply_frontend_sleep_mode sn s f)"
  using moves_weaken [OF set_sleep_mode_moves, of "Suc 0"]
  by (auto simp: apply_frontend_sleep_mode_def Let_def moves_refl apply_hybrid_control_moves split: option.split)

lemma apply_selected_moves [part_moves]: "moves who (Suc 0) s (apply_selected sn s)"
  by (simp add: apply_selected_def moves_refl apply_frontend_sleep_mode_moves)

lemma note_moves [part_moves]: "moves who 0 s (note_input s f e)" "moves who 0 s (note_unlocked s f e)"
  by (auto simp: note_input_def note_unlocked_def intro: moves_quiet)

lemma store_frontend_sleep_mode_moves [part_moves]: "moves who (Suc 0) s (store_frontend_sleep_mode s f m)"
proof (cases "frontend_index f")
  case None
  then show ?thesis using moves_weaken [OF note_moves(2)] by (simp add: store_frontend_sleep_mode_def Let_def)
next
  case (Some i)
  let ?s = "note_unlocked s f Control"
  have "moves who (Suc 0) ?s (store_frontend_sleep_mode s f m)"
    unfolding store_frontend_sleep_mode_def Let_def Some option.case
    by (rule moves_fusion [where op = "Op_control f _"]) simp_all
  with moves_trans [OF note_moves(2) this] show ?thesis by simp
qed

lemma observe_input_cold: "\<not> ll_hotpath s \<Longrightarrow> ll_log (fst (observe_input sn s f m x)) = ll_log s"
  by (auto simp: observe_input_def Let_def split: prod.split)

lemma observe_input_hot: "ll_hotpath s \<Longrightarrow> observe_input sn s f m x = (s, ll_selected s = f)"
  by (simp add: observe_input_def)

lemma observe_input_fusion:
  "\<exists>ops. length ops \<le> 1 \<and> ll_fusion (fst (observe_input sn s f m x)) = foldl fusion_step (ll_fusion s) ops"
proof (cases "ll_hotpath s \<or> \<not> hybrid_execution_active sn s")
  case True
  then show ?thesis by (intro exI [of _ "[]"]) (auto simp: observe_input_def Let_def)
next
  case False
  then show ?thesis
    by (intro exI [of _ "[Op_resolve_pacing sn (observe (ll_arbiter s) f (normalize_marker m) x)
          (frontend_selection_mask sn s)]"])
       (auto simp: observe_input_def Let_def split: prod.split)
qed

lemma observe_input_moves [part_moves]: "moves who 1 s (fst (observe_input sn s f m x))"
proof (cases "ll_hotpath s")
  case True
  then show ?thesis by (simp add: observe_input_hot moves_refl)
next
  case False
  obtain ops where "length ops \<le> 1" "ll_fusion (fst (observe_input sn s f m x)) = foldl fusion_step (ll_fusion s) ops"
    using observe_input_fusion by blast
  with False show ?thesis by (intro moves_cold) (auto simp: observe_input_cold)
qed

lemma observe_input_drives: "snd (observe_input sn s f m x) \<longleftrightarrow> ll_selected (fst (observe_input sn s f m x)) = f"
  by (auto simp: observe_input_def Let_def split: prod.split)

lemma canonical_start_moves [part_moves]: "moves who (Suc 0) s (fst (canonical_start s f x))"
proof -
  obtain h r where e: "canonicalize_pacing_observation (ll_fusion s) f x = (h, r)" by force
  have 1: "moves who (Suc 0) s (s\<lparr>ll_fusion := h\<rparr>)"
    using moves_fusion [of _ s "Op_pacing f x"] e by simp
  have "moves who 0 t (observe_start q t)" for t q
    by (auto simp: observe_start_def moves_refl intro: moves_emit)
  from moves_trans [OF 1 this] show ?thesis
    by (auto simp: canonical_start_def e 1 Let_def split: option.split)
qed

lemma canonical_start_selected [simp]: "ll_selected (fst (canonical_start s f x)) = ll_selected s"
  by (auto simp: canonical_start_def observe_start_def Let_def split: prod.split option.split)


lemma canonical_start_log: "\<exists>cs. ll_log (fst (canonical_start s f x)) = ll_log s @ cs"
  by (auto simp: canonical_start_def observe_start_def Let_def split: prod.split option.split)

text \<open>A sleep on the hot path, and before it.\<close>

definition count_sleep :: "latency \<Rightarrow> nat \<Rightarrow> u64 \<Rightarrow> latency" where
  "count_sleep s i x = s\<lparr>ll_sleep_sequence := (ll_sleep_sequence s)(i := x)\<rparr>"

definition note_sleep :: "snapshot \<Rightarrow> latency \<Rightarrow> input_frontend \<Rightarrow> u64 \<Rightarrow> latency" where
  "note_sleep sn s f x =
     (let s2 = note_input s f Sleep
      in if hybrid_execution_active sn s2
         then s2\<lparr>ll_fusion := publish_pacing_observation (ll_fusion s2) f x\<rparr> else s2)"

lemma count_sleep_simps [simp]:
  "ll_log (count_sleep s i x) = ll_log s" "ll_fusion (count_sleep s i x) = ll_fusion s"
  "ll_selected (count_sleep s i x) = ll_selected s" "ll_hotpath (count_sleep s i x) = ll_hotpath s"
  by (simp_all add: count_sleep_def)

lemma note_sleep_simps [simp]:
  "ll_log (note_sleep sn s f x) = ll_log s" "ll_selected (note_sleep sn s f x) = ll_selected s"
  "ll_hotpath (note_sleep sn s f x) = ll_hotpath s"
  by (simp_all add: note_sleep_def note_input_def Let_def)

lemma observe_sleep_input_cases [case_names auto hot cold]:
  obtains "frontend_index f = None" "observe_sleep_input sn s f x = (s, False, x)"
  | i y where "frontend_index f = Some i" "ll_hotpath s"
      "observe_sleep_input sn s f x =
         (fst (canonical_start (count_sleep s i y) f y), ll_selected s = f, snd (canonical_start (count_sleep s i y) f y))"
  | i y t e where "frontend_index f = Some i" "\<not> ll_hotpath s"
      "t = fst (observe_input sn (note_sleep sn (count_sleep s i y) f y) f SIMULATION_START y)"
      "observe_sleep_input sn s f x =
         (if ll_selected t = f \<and> locked (ll_fusion t) then fst (canonical_start t f y) else t, ll_selected t = f, e)"
proof (cases "frontend_index f")
  case None
  then show ?thesis using that(1) by (simp add: observe_sleep_input_def)
next
  case (Some i)
  define y where "y = (if x = INVALID_ID then ll_sleep_sequence s i + 1 else x)"
  show ?thesis
  proof (cases "ll_hotpath s")
    case True
    obtain t e where c: "canonical_start (count_sleep s i y) f y = (t, e)" by force
    then have "ll_selected t = ll_selected s"
      using canonical_start_selected [of "count_sleep s i y" f y] by simp
    with True Some c show ?thesis
      by (intro that(2) [of i y]) (simp_all add: observe_sleep_input_def count_sleep_def y_def Let_def)
  next
    case False
    let ?s = "note_sleep sn (count_sleep s i y) f y"
    obtain t d where o: "observe_input sn ?s f SIMULATION_START y = (t, d)" by force
    then have d: "d \<longleftrightarrow> ll_selected t = f" using observe_input_drives [of sn ?s f SIMULATION_START y] by simp
    have "\<exists>e. observe_sleep_input sn s f x =
       (if ll_selected t = f \<and> locked (ll_fusion t) then fst (canonical_start t f y) else t, ll_selected t = f, e)"
      using Some False o d
      by (auto simp: observe_sleep_input_def note_sleep_def note_input_def count_sleep_def y_def Let_def
          split: prod.split if_splits)
    with that(3) [OF Some False, of t y] o show ?thesis by auto
  qed
qed

lemma note_sleep_fusion:
  "\<exists>ops. length ops \<le> 1 \<and> ll_fusion (note_sleep sn s f x) = foldl fusion_step (ll_fusion s) ops"
proof (cases "hybrid_execution_active sn (note_input s f Sleep)")
  case True
  then show ?thesis by (intro exI [of _ "[Op_observe_pacing f x]"]) (simp add: note_sleep_def note_input_def Let_def)
next
  case False
  then show ?thesis by (intro exI [of _ "[]"]) (simp add: note_sleep_def note_input_def Let_def)
qed

lemma canonical_start_fusion: "ll_fusion (fst (canonical_start s f x)) = fusion_step (ll_fusion s) (Op_pacing f x)"
  by (auto simp: canonical_start_def observe_start_def Let_def split: prod.split option.split)

lemma observe_sleep_input_moves [part_moves]: "moves who 3 s (fst (observe_sleep_input sn s f x))"
proof (cases rule: observe_sleep_input_cases [of f sn s x])
  case auto
  then show ?thesis by (simp add: moves_refl)
next
  case (hot i y)
  have "moves who 0 s (count_sleep s i y)" by (rule moves_quiet) simp_all
  from moves_weaken [OF moves_trans [OF this canonical_start_moves, of f y], of 3] hot show ?thesis by simp
next
  case (cold i y t e)
  let ?s = "note_sleep sn (count_sleep s i y) f y"
  have l: "ll_log t = ll_log s" using cold by (simp add: observe_input_cold)
  obtain ps qs where ps: "length ps \<le> 1" "ll_fusion ?s = foldl fusion_step (ll_fusion s) ps"
    and qs: "length qs \<le> 1" "ll_fusion t = foldl fusion_step (ll_fusion ?s) qs"
    using note_sleep_fusion [of sn "count_sleep s i y" f y] observe_input_fusion [of sn ?s f SIMULATION_START y] cold(3)
    by auto
  show ?thesis
  proof (cases "ll_selected t = f \<and> locked (ll_fusion t)")
    case True
    have "moves who 3 s (fst (canonical_start t f y))"
      using cold(2) ps qs l canonical_start_log [of t f y]
      by (intro moves_cold [where ops = "ps @ qs @ [Op_pacing f y]"]) (simp_all add: canonical_start_fusion)
    with True cold(4) show ?thesis by simp
  next
    case False
    have "moves who 3 s t" using cold(2) ps qs l by (intro moves_cold [where ops = "ps @ qs"]) simp_all
    then show ?thesis by (simp only: cold(4) fst_conv if_not_P [OF False])
  qed
qed

lemma observe_sleep_input_drives:
  "fst (snd (observe_sleep_input sn s f x)) \<Longrightarrow> ll_selected (fst (observe_sleep_input sn s f x)) = f"
  by (cases rule: observe_sleep_input_cases [of f sn s x]) (auto split: if_splits)

section \<open>Initialization and teardown\<close>

lemma deinit_observer_moves [part_moves]: "moves who 0 s (deinit_translation_observer s)"
  by (auto simp: deinit_translation_observer_def moves_refl intro: moves_emit_quiet)

lemma deinit_observer_simps [simp]:
  "ll_backend (deinit_translation_observer s) = ll_backend s"
  "ll_hotpath (deinit_translation_observer s) = ll_hotpath s"
  "ll_selected (deinit_translation_observer s) = ll_selected s"
  "ll_fusion (deinit_translation_observer s) = ll_fusion s"
  by (simp_all add: deinit_translation_observer_def)

lemma deinit_current_tech_moves [part_moves]: "moves who 0 s (fst (deinit_current_tech s))"
proof (cases "ll_backend s = BE_Auto")
  case True
  then show ?thesis using deinit_observer_moves by (simp add: deinit_current_tech_def Let_def)
next
  case False
  obtain cs where "ll_log (deinit_translation_observer s) = ll_log s @ cs"
    using deinit_observer_moves [of None s] by (auto simp: moves_def)
  with False show ?thesis
    by (intro moves_deinit [where cs = "cs @ [T_Deinit]"]) (simp_all add: deinit_current_tech_def Let_def)
qed

lemma init_observer_moves [part_moves]: "moves who 0 s (fst (init_translation_observer ho s d b))"
proof -
  let ?s = "deinit_translation_observer s"
  have "moves who 0 ?s (emit (O_Init d) ?s)" "moves who 0 ?s ((emit (O_Init d) ?s)\<lparr>ll_observer := True\<rparr>)"
    by (auto intro: moves_emit_quiet)
  with moves_trans [OF deinit_observer_moves this(1)] moves_trans [OF deinit_observer_moves this(2)]
  show ?thesis by (simp add: init_translation_observer_def Let_def deinit_observer_moves)
qed

lemma change_transport_moves [part_moves]: "moves who (Suc 0) s (change_transport tr s)"
  unfolding change_transport_def by (rule moves_fusion [where op = "Op_transport tr"]) simp_all

lemma attach_translation_moves [part_moves]: "moves who (Suc 0) s (attach_translation ho b api d s)"
proof -
  have "moves who (Suc 0) s (case init_translation_observer ho s d b of (t, ob) \<Rightarrow> change_transport (h ob) t)" for h
    using moves_trans [OF init_observer_moves [of who s ho d b] change_transport_moves] by (simp add: case_prod_beta)
  then show ?thesis by (cases api) (simp_all add: attach_translation_def moves_refl)
qed

text \<open>A candidate loop only adds attempts to initialize, then one back end is made active.\<close>

lemma try_d3d_backends_moves [part_moves]: "moves who (Suc 0) s (fst (try_d3d_backends ho api d bs s))"
proof (induction bs arbitrary: s)
  case Nil
  show ?case by (simp add: moves_refl)
next
  case (Cons b bs)
  let ?s = "emit (T_Init b d) s"
  let ?t = "(activate_d3d (ho_snapshot ho) b api d ?s)\<lparr>ll_delay_deinit := 0\<rparr>"
  have e: "moves who 0 s ?s" by (simp add: moves_emit)
  have "moves who 0 s ?t" by (rule moves_emit_quiet [where c = "T_Init b d"]) (simp_all add: activate_d3d_def)
  from moves_trans [OF this attach_translation_moves] moves_trans [OF e Cons.IH] show ?case
    by (simp add: Let_def Cons.IH)
qed

lemma init_d3d_moves [part_moves]: "moves who (Suc 0) s (fst (init_d3d ho s d api))"
proof (cases "ll_forced_context s = 0")
  case True
  obtain g r where e: "detect_d3d_outputs ho api d (ll_truth s) = (g, r)" by force
  have "moves who 0 s (s\<lparr>ll_truth := g\<rparr>)" by (rule moves_quiet) simp_all
  from moves_trans [OF this try_d3d_backends_moves] True e show ?thesis by (simp add: init_d3d_def)
next
  case False
  let ?b = "backend_from_mode (ll_forced_mode s)"
  let ?s = "emit (T_InitContext ?b (ll_forced_context s)) s"
  have 1: "moves who 0 s ?s" by (simp add: moves_emit)
  have "moves who 0 s (activate_d3d (ho_snapshot ho) ?b api d ?s)"
    by (rule moves_emit_quiet [where c = "T_InitContext ?b (ll_forced_context s)"]) (simp_all add: activate_d3d_def)
  from moves_trans [OF this change_transport_moves] 1 False show ?thesis
    by (simp add: init_d3d_def Let_def moves_weaken)
qed

lemma reinit_d3d_moves [part_moves]: "moves who (Suc 0) s (fst (reinit_d3d ho s d api))"
  using moves_trans [OF deinit_current_tech_moves init_d3d_moves] by (simp add: reinit_d3d_def init_d3d_moves)

lemma reinit_d3d_delayed: "moves who (Suc 0) s (fst (reinit_d3d ho (s\<lparr>ll_delay_deinit := n\<rparr>) d api))"
proof -
  have "moves who 0 s (s\<lparr>ll_delay_deinit := n\<rparr>)" by (rule moves_quiet) simp_all
  from moves_trans [OF this reinit_d3d_moves] show ?thesis by simp
qed

lemma update_low_latency_tech_d3d_moves [part_moves]:
  "moves who (Suc 0) s (fst (update_low_latency_tech_d3d ho s d hint))"
  by (simp add: update_low_latency_tech_d3d_def Let_def moves_refl moves_quiet reinit_d3d_moves reinit_d3d_delayed)

lemma set_low_latency_context_moves [part_moves]:
  "moves who (Suc 0) s (fst (set_low_latency_context ho s c m))"
proof -
  let ?s = "s\<lparr>ll_forced_context := c, ll_forced_mode := m\<rparr>"
  have "moves who 0 s ?s" by (rule moves_quiet) simp_all
  from moves_trans [OF this deinit_current_tech_moves]
  have d: "moves who 0 s (fst (deinit_current_tech ?s))" by simp
  from moves_trans [OF this update_low_latency_tech_d3d_moves] moves_weaken [OF d, of "Suc 0"] show ?thesis
    by (cases "c = 0") (simp_all add: set_low_latency_context_def Let_def)
qed

lemma try_vulkan_backends_moves [part_moves]: "moves who (Suc 0) s (fst (try_vulkan_backends ho d bs s))"
proof (induction bs arbitrary: s)
  case Nil
  show ?case by (simp add: moves_refl)
next
  case (Cons b bs)
  have e: "moves who 0 s (emit (T_Init b a) s)" for a by (simp add: moves_emit)
  have "moves who (Suc 0) s (change_transport tr (g (emit (T_Init b a) s)))"
    if "\<And>t. ll_log (g t) = ll_log t \<and> ll_fusion (g t) = ll_fusion t \<and> ll_selected (g t) = ll_selected t \<and>
      ll_hotpath (g t) = ll_hotpath t" for tr g a
    using moves_trans [OF moves_emit_quiet change_transport_moves, of "g (emit (T_Init b a) s)" s "T_Init b a"]
      that by simp
  from this [of "\<lambda>t. t\<lparr>ll_backend := _, ll_api := _, ll_d3d_device := _, ll_vk_device := _, ll_vk_published := _,
      ll_signature := _, ll_pending_signature := _, ll_delay_deinit := _\<rparr>"]
  show ?case using moves_trans [OF e Cons.IH] Cons.IH by (simp add: Let_def)
qed

lemma init_vulkan_moves [part_moves]: "moves who (Suc 0) s (fst (init_vulkan ho s d))"
  by (simp add: init_vulkan_def try_vulkan_backends_moves)

lemma update_low_latency_tech_vulkan_moves [part_moves]:
  "moves who (Suc 0) s (fst (update_low_latency_tech_vulkan ho s d))"
  using moves_trans [OF deinit_current_tech_moves init_vulkan_moves]
  by (simp add: update_low_latency_tech_vulkan_def Let_def moves_refl moves_quiet init_vulkan_moves)

lemma prepare_moves [part_moves]:
  "moves who (Suc 0) s (fst (prepare_d3d ho s api d))" "moves who (Suc 0) s (fst (prepare_vulkan ho s d))"
  by (simp_all add: prepare_d3d_def prepare_vulkan_def moves_refl
      update_low_latency_tech_d3d_moves update_low_latency_tech_vulkan_moves)


section \<open>The calls\<close>

lemma moves_add: "moves who j s t \<Longrightarrow> moves who k t u \<Longrightarrow> j + k \<le> n \<Longrightarrow> moves who n s u"
  using moves_trans moves_weaken by blast

text \<open>A marker that was accepted is passed on once.\<close>

lemma hybrid_accept_hot:
  assumes "hybrid_accept_marker sn s f m x = (t, Some q)" "ll_hotpath s"
  obtains tok where "canonicalize_marker_locked (ll_fusion s) f (normalize_marker m) x = (ll_fusion t, Some tok)"
    "q = ft_sequence tok" "t = s\<lparr>ll_fusion := ll_fusion t\<rparr>"
  using assms by (auto simp: hybrid_accept_marker_def split: prod.splits)

lemma hybrid_accept_log: "ll_log (fst (hybrid_accept_marker sn s f m x)) = ll_log s"
  by (auto simp: hybrid_accept_marker_def Let_def split: prod.split)

lemma hybrid_accept_moves: "moves who (Suc 0) s (fst (hybrid_accept_marker sn s f m x))"
proof (cases "ll_hotpath s")
  case True
  obtain h r where e: "canonicalize_marker_locked (ll_fusion s) f (normalize_marker m) x = (h, r)" by force
  then have "moves who (Suc 0) s (s\<lparr>ll_fusion := h\<rparr>)"
    by (intro moves_fusion [where op = "Op_marker_locked f (normalize_marker m) x"]) simp_all
  with True e show ?thesis by (simp add: hybrid_accept_marker_def)
next
  case False
  have "\<exists>ops. length ops \<le> 1 \<and>
      ll_fusion (fst (hybrid_accept_marker sn s f m x)) = foldl fusion_step (ll_fusion s) ops"
  proof (cases "hybrid_execution_active sn s")
    case True
    with False show ?thesis
      by (intro exI [of _ "[Op_marker f (normalize_marker m) x sn (ll_arbiter s) (frontend_selection_mask sn s)]"])
         (auto simp: hybrid_accept_marker_def Let_def split: prod.split)
  qed (use False in \<open>auto simp: hybrid_accept_marker_def intro: exI [of _ "[]"]\<close>)
  then obtain ops where "length ops \<le> 1"
    "ll_fusion (fst (hybrid_accept_marker sn s f m x)) = foldl fusion_step (ll_fusion s) ops" by blast
  with False show ?thesis using hybrid_accept_log by (intro moves_cold) simp_all
qed

lemma moves_accepted:
  assumes a: "hybrid_accept_marker sn s f m x = (t, Some q)" and m: "moves who k t u"
    and v: "ll_log v = ll_log u @ [c]" "ll_fusion v = ll_fusion u" "ll_selected v = ll_selected u"
      "ll_hotpath v = ll_hotpath u"
    and c: "c = T_Marker m q \<or> c = T_AsyncMarker m q"
  shows "moves who (Suc k) s v"
proof -
  have l: "ll_log t = ll_log s" using hybrid_accept_log [of sn s f m x] a by simp
  have fit: "fits n (ll_fusion v)" if "fits (n + Suc k) (ll_fusion s)" for n
  proof -
    have "moves who (Suc 0) s t" using hybrid_accept_moves [of who s sn f m x] a by simp
    from moves_fits [OF moves_trans [OF this m]] that v(2) show ?thesis by simp
  qed
  from m obtain cs where cs: "ll_log u = ll_log t @ cs"
    "ll_hotpath t \<Longrightarrow> T_Deinit \<notin> set cs \<Longrightarrow> ll_hotpath u \<and> ll_selected u = ll_selected t \<and>
        (\<forall>c\<in>set cs. sleeps c \<longrightarrow> who = Some (ll_selected t)) \<and>
        (\<exists>ops. length ops \<le> k \<and> ll_fusion u = foldl fusion_step (ll_fusion t) ops \<and>
           mset (markers_of cs) \<subseteq># mset (accepted_markers (ll_fusion t) ops))"
    unfolding moves_def by blast
  show ?thesis
    unfolding moves_def
  proof (intro exI [of _ "cs @ [c]"] conjI allI impI fit)
    show "ll_log v = ll_log s @ cs @ [c]" using v cs l by simp
    assume h: "ll_hotpath s" and n: "T_Deinit \<notin> set (cs @ [c])"
    from hybrid_accept_hot [OF a h] obtain tok where
      tok: "canonicalize_marker_locked (ll_fusion s) f (normalize_marker m) x = (ll_fusion t, Some tok)"
        "q = ft_sequence tok" and t: "t = s\<lparr>ll_fusion := ll_fusion t\<rparr>" .
    have t': "ll_hotpath t" "ll_selected t = ll_selected s" by (subst t, simp add: h)+
    with cs(2) n obtain ops where ops: "length ops \<le> k" "ll_fusion u = foldl fusion_step (ll_fusion t) ops"
        "mset (markers_of cs) \<subseteq># mset (accepted_markers (ll_fusion t) ops)"
      and u: "ll_hotpath u" "ll_selected u = ll_selected t" "\<forall>c\<in>set cs. sleeps c \<longrightarrow> who = Some (ll_selected t)"
      by auto
    show "ll_hotpath v" "ll_selected v = ll_selected s" using u v t' by simp_all
    show "\<forall>c\<in>set (cs @ [c]). sleeps c \<longrightarrow> who = Some (ll_selected s)" using u t' c by auto
    show "\<exists>ops. length ops \<le> Suc k \<and> ll_fusion v = foldl fusion_step (ll_fusion s) ops \<and>
        mset (markers_of (cs @ [c])) \<subseteq># mset (accepted_markers (ll_fusion s) ops)"
      using ops v tok c
      by (intro exI [of _ "Op_marker_locked f (normalize_marker m) x # ops"]) auto
  qed
qed

section \<open>A sample game\<close>

text \<open>A D3D12 host with XeLL, and the calls of a game that uses Reflex.\<close>

definition sample_host :: host where
  "sample_host = \<lparr>ho_snapshot = default_snapshot\<lparr>sn_hybrid := default_hybrid\<lparr>hp_startup_observations := 8\<rparr>\<rparr>,
     ho_is_d3d12 = (\<lambda>d. True), ho_module_loaded = (\<lambda>n. n = ''libxell.dll''), ho_library_present = (\<lambda>n. False),
     ho_dxvk = (\<lambda>d. None), ho_antilag2_interface = (\<lambda>d. False), ho_vkd3d = (\<lambda>d. None),
     ho_vk_anti_lag = (\<lambda>d. None), ho_native_low_latency2 = (\<lambda>d. False), ho_init = (\<lambda>b d. True),
     ho_init_context = (\<lambda>b d. False), ho_init_observer = (\<lambda>d. False),
     ho_status = \<lparr>sl_enabled = True, sl_fullscreen_vrr = True, sl_vsync_override = False\<rparr>\<rparr>"

definition game_mode :: "bool \<Rightarrow> latency_call" where
  "game_mode on = LC_SetSleepMode Reflex D3D12 7
     \<lparr>sm_enabled = on, sm_boost = False, sm_minimum_interval_us = 0, sm_use_markers = True\<rparr>"

definition game_sleep :: latency_call where "game_sleep = LC_Sleep Reflex D3D12 7 INVALID_ID"

definition game_marker :: "marker_type \<Rightarrow> u64 \<Rightarrow> latency_call" where
  "game_marker m x = LC_Marker Reflex D3D12 7 m x"

definition on_host :: "latency_call list \<Rightarrow> (host \<times> latency_call) list" where
  "on_host = map (Pair sample_host)"

end
