(* ===== verification/LatencyRuns.thy ===== *)
theory LatencyRuns
  imports LatencyLedger
begin

text \<open>
  Runs of the public calls of the latency context: every call is a chain of at most six changes, so a
  session on the hot path keeps its pacing owner, sleeps for it alone and passes each marker on once.
\<close>

section \<open>Every call is a chain of changes\<close>

lemma drive_sleep_moves:
  assumes "ll_hotpath s \<Longrightarrow> who = Some (ll_selected s)"
  shows "moves who (Suc 0) s (fst (drive_sleep sn s f x))"
proof -
  let ?t = "update_enabled_override sn (update_effective_fg_state s)"
  let ?u = "apply_frontend_sleep_mode sn ?t f"
  have u: "moves who (Suc 0) s ?u"
    by (intro moves_add [OF moves_trans [OF update_effective_fg_moves update_enabled_override_moves]
        apply_frontend_sleep_mode_moves]) simp
  from u obtain cs where l: "ll_log ?u = ll_log s @ cs"
    and h: "ll_hotpath s \<Longrightarrow> T_Deinit \<notin> set cs \<Longrightarrow> ll_hotpath ?u \<and> ll_selected ?u = ll_selected s \<and>
        (\<forall>c\<in>set cs. sleeps c \<longrightarrow> who = Some (ll_selected s)) \<and>
        (\<exists>ops. length ops \<le> Suc 0 \<and> ll_fusion ?u = foldl fusion_step (ll_fusion s) ops \<and>
           mset (markers_of cs) \<subseteq># mset (accepted_markers (ll_fusion s) ops))"
    unfolding moves_def by blast
  have "moves who (Suc 0) s (emit c ?u)" if "marker_of c = []" for c
    unfolding moves_def using l h assms that moves_fits [OF u] by (intro conjI exI [of _ "cs @ [c]"]) auto
  then show ?thesis using u by (simp add: drive_sleep_def Let_def)
qed

text \<open>The next change of a chain, with the pair a part answers.\<close>

lemma moves_pair: "moves who j s t \<Longrightarrow> moves who k t (fst p) \<Longrightarrow> p = (u, b) \<Longrightarrow> j + k \<le> n \<Longrightarrow> moves who n s u"
  using moves_add by fastforce

lemma moves_ext: "moves who k s t \<Longrightarrow> \<exists>cs. ll_log t = ll_log s @ cs"
  by (auto simp: moves_def)

lemma moves_selected: "moves who k s t \<Longrightarrow> ll_hotpath s \<Longrightarrow> ll_log t = ll_log s @ cs \<Longrightarrow> T_Deinit \<notin> set cs \<Longrightarrow>
   ll_hotpath t \<and> ll_selected t = ll_selected s"
  by (auto simp: moves_def)

lemma moves_hot:
  assumes "\<exists>cs. ll_log t = ll_log s @ cs"
    and "\<And>n. fits (n + k) (ll_fusion s) \<Longrightarrow> fits n (ll_fusion t)"
    and "\<And>cs. ll_hotpath s \<Longrightarrow> ll_log t = ll_log s @ cs \<Longrightarrow> T_Deinit \<notin> set cs \<Longrightarrow> moves who k s t"
  shows "moves who k s t"
  using assms unfolding moves_def by blast

text \<open>A sleep at the end of a chain in which its frontend was found to be the selected one.\<close>

lemma sleep_chain:
  assumes 1: "moves (Some f) j s u" and f: "ll_selected u = f" and 2: "moves (Some f) k u v"
  shows "moves (Some f) (Suc (j + k)) s (fst (drive_sleep sn v g x))"
proof (rule moves_hot)
  let ?w = "fst (drive_sleep sn v g x)"
  obtain cs ds es where cs: "ll_log u = ll_log s @ cs" and ds: "ll_log v = ll_log u @ ds"
    and es: "ll_log ?w = ll_log v @ es"
    using moves_ext [OF 1] moves_ext [OF 2] moves_ext [OF drive_sleep_moves [of v "Some (ll_selected v)"]] by blast
  show "\<exists>cs. ll_log ?w = ll_log s @ cs" using cs ds es by simp
  show "fits n (ll_fusion ?w)" if "fits (n + Suc (j + k)) (ll_fusion s)" for n
    using moves_fits [OF drive_sleep_moves [of v "Some (ll_selected v)" sn g x]]
      moves_fits [OF moves_trans [OF 1 2], of "Suc n"] that by (simp add: ac_simps)
  fix all
  assume h: "ll_hotpath s" and l: "ll_log ?w = ll_log s @ all" and n: "T_Deinit \<notin> set all"
  from l cs ds es have "all = cs @ ds @ es" by simp
  with n have n1: "T_Deinit \<notin> set cs" and n2: "T_Deinit \<notin> set ds" by auto
  have u: "ll_hotpath u" using moves_selected [OF 1 h cs n1] by simp
  have "ll_selected v = f" using moves_selected [OF 2 u ds n2] f by simp
  then have "moves (Some f) (Suc 0) v ?w" by (intro drive_sleep_moves) simp
  then show "moves (Some f) (Suc (j + k)) s ?w"
    using moves_add [OF moves_trans [OF 1 2]] by simp
qed

lemma FrontendSetSleepMode_moves: "moves who 6 s (fst (FrontendSetSleepMode ho s f api d m))"
proof -
  let ?sn = "ho_snapshot ho"
  obtain t ok where t: "prepare_d3d ho (store_frontend_sleep_mode s f m) api d = (t, ok)" by force
  obtain u ok' where u: "update_low_latency_tech_d3d ho t d (Some api) = (u, ok')" by force
  have st: "moves who 2 s t"
    by (rule moves_pair [OF store_frontend_sleep_mode_moves prepare_moves(1) t]) simp
  have su: "moves who 3 s u" by (rule moves_pair [OF st update_low_latency_tech_d3d_moves u]) simp
  have "moves who 6 s (apply_frontend_sleep_mode ?sn (update_enabled_override ?sn u) f)"
    by (rule moves_add [OF moves_trans [OF su update_enabled_override_moves] apply_frontend_sleep_mode_moves]) simp
  moreover have "moves who 6 s (apply_selected ?sn t)" by (rule moves_add [OF st apply_selected_moves]) simp
  moreover have "moves who 6 s t" "moves who 6 s u" using moves_weaken [OF st] moves_weaken [OF su] by simp_all
  ultimately show ?thesis using t u by (simp add: FrontendSetSleepMode_def Let_def)
qed

lemma FrontendGetSleepStatus_moves: "moves who 6 s (fst (FrontendGetSleepStatus ho s f api d))"
proof -
  let ?sn = "ho_snapshot ho"
  obtain t ok where t: "prepare_d3d ho (note_input s f Capability) api d = (t, ok)" by force
  obtain u ok' where u: "update_low_latency_tech_d3d ho t d (Some api) = (u, ok')" by force
  have st: "moves who 1 s t" by (rule moves_pair [OF note_moves(1) prepare_moves(1) t]) simp
  have su: "moves who 2 s u" by (rule moves_pair [OF st update_low_latency_tech_d3d_moves u]) simp
  have "moves who 6 s (apply_frontend_sleep_mode ?sn (update_enabled_override ?sn u) f)"
    by (rule moves_add [OF moves_trans [OF su update_enabled_override_moves] apply_frontend_sleep_mode_moves]) simp
  moreover have "moves who 6 s t" "moves who 6 s u" using moves_weaken [OF st] moves_weaken [OF su] by simp_all
  ultimately show ?thesis using t u by (simp add: FrontendGetSleepStatus_def Let_def)
qed

lemma GetSleepStatus_vulkan_moves: "moves who 6 s (fst (GetSleepStatus_vulkan ho s d))"
proof -
  obtain u ok where u: "update_low_latency_tech_vulkan ho s d = (u, ok)" by force
  have su: "moves who 1 s u" by (rule moves_pair [OF moves_refl update_low_latency_tech_vulkan_moves u]) simp
  have "moves who 6 s (apply_frontend_sleep_mode (ho_snapshot ho) u Reflex)"
    by (rule moves_add [OF su apply_frontend_sleep_mode_moves]) simp
  moreover have "moves who 6 s u" using moves_weaken [OF su] by simp
  ultimately show ?thesis using u by (simp add: GetSleepStatus_vulkan_def Let_def moves_refl)
qed

lemma VulkanFrontendSetSleepMode_moves: "moves who 6 s (fst (VulkanFrontendSetSleepMode ho s f d m))"
proof -
  let ?sn = "ho_snapshot ho"
  obtain t ok where t: "prepare_vulkan ho (store_frontend_sleep_mode s f m) d = (t, ok)" by force
  obtain u ok' where u: "update_low_latency_tech_vulkan ho t d = (u, ok')" by force
  have st: "moves who 2 s t"
    by (rule moves_pair [OF store_frontend_sleep_mode_moves prepare_moves(2) t]) simp
  have su: "moves who 3 s u" by (rule moves_pair [OF st update_low_latency_tech_vulkan_moves u]) simp
  have "moves who 6 s (apply_frontend_sleep_mode ?sn (update_enabled_override ?sn u) f)"
    by (rule moves_add [OF moves_trans [OF su update_enabled_override_moves] apply_frontend_sleep_mode_moves]) simp
  moreover have "moves who 6 s t" "moves who 6 s u" using moves_weaken [OF st] moves_weaken [OF su] by simp_all
  ultimately show ?thesis using t u by (simp add: VulkanFrontendSetSleepMode_def Let_def moves_refl)
qed

lemma FrontendSleep_moves: "moves (Some f) 6 s (fst (FrontendSleep ho s f api d x))"
proof -
  let ?sn = "ho_snapshot ho"
  obtain t ok where t: "prepare_d3d ho s api d = (t, ok)" by force
  obtain u drives e where u: "observe_sleep_input ?sn t f x = (u, drives, e)" by (metis prod_cases3)
  obtain v ok' where v: "update_low_latency_tech_d3d ho u d (Some api) = (v, ok')" by force
  have st: "moves (Some f) 1 s t" by (rule moves_pair [OF moves_refl prepare_moves(1) t]) simp
  have su: "moves (Some f) 4 s u" by (rule moves_pair [OF st observe_sleep_input_moves u]) simp
  have uv: "moves (Some f) 1 u v" by (rule moves_pair [OF moves_refl update_low_latency_tech_d3d_moves v]) simp
  have "moves (Some f) 6 s (fst (drive_sleep ?sn v f e))" if drives
    using sleep_chain [OF su _ uv] observe_sleep_input_drives [of ?sn t f x] u that by simp
  moreover have "moves (Some f) 6 s t" "moves (Some f) 6 s u" "moves (Some f) 6 s v"
    using moves_weaken [OF st] moves_weaken [OF su] moves_add [OF su uv] by simp_all
  ultimately show ?thesis using t u v by (simp add: FrontendSleep_def Let_def)
qed

lemma VulkanFrontendDriveSleep_moves: "moves (Some f) 2 s (fst (VulkanFrontendDriveSleep ho s f d x))"
proof -
  obtain v ok where v: "update_low_latency_tech_vulkan ho s d = (v, ok)" by force
  have sv: "moves (Some f) 1 s v" by (rule moves_pair [OF moves_refl update_low_latency_tech_vulkan_moves v]) simp
  have "moves (Some f) 2 s (fst (drive_sleep (ho_snapshot ho) v f x))" if "ll_selected s = f"
    using sleep_chain [OF moves_refl [of _ 0] that sv] by (simp add: numeral_2_eq_2)
  then show ?thesis
    using v moves_weaken [OF sv, of 2] by (simp add: VulkanFrontendDriveSleep_def Let_def moves_refl input_can_drive_def)
qed

lemma VulkanFrontendSleep_moves: "moves (Some f) 6 s (fst (VulkanFrontendSleep ho s f d x))"
proof -
  let ?sn = "ho_snapshot ho"
  obtain t ok where t: "prepare_vulkan ho s d = (t, ok)" by force
  obtain u drives e where u: "observe_sleep_input ?sn t f x = (u, drives, e)" by (metis prod_cases3)
  have st: "moves (Some f) 1 s t" by (rule moves_pair [OF moves_refl prepare_moves(2) t]) simp
  have su: "moves (Some f) 4 s u" by (rule moves_pair [OF st observe_sleep_input_moves u]) simp
  have "moves (Some f) 6 s (fst (VulkanFrontendDriveSleep ho u f d e))"
    by (rule moves_add [OF su VulkanFrontendDriveSleep_moves]) simp
  moreover have "moves (Some f) 6 s t" "moves (Some f) 6 s u"
    using moves_weaken [OF st] moves_weaken [OF su] by simp_all
  ultimately show ?thesis using t u by (simp add: VulkanFrontendSleep_def Let_def moves_refl)
qed

text \<open>An accepted marker, dispatched: the chain from before its acceptance.\<close>

lemma accepted_dispatch:
  assumes a: "hybrid_accept_marker sn s f m x = (t, Some q)"
  shows "moves who 2 s (fst (dispatch_marker sn t m q))"
proof -
  let ?u = "apply_selected sn (update_enabled_override sn (update_effective_fg_state t))"
  have tu: "moves who 1 t ?u"
    by (rule moves_add [OF moves_trans [OF update_effective_fg_moves update_enabled_override_moves]
        apply_selected_moves]) simp
  have st: "moves who 1 s t" by (rule moves_pair [OF moves_refl hybrid_accept_moves a]) simp
  have "moves who 2 s (emit (T_Marker m q) ?u)"
    using moves_accepted [OF a tu, of "emit (T_Marker m q) ?u"] by (simp add: numeral_2_eq_2)
  moreover have "moves who 2 s ?u" by (rule moves_add [OF st tu]) simp
  ultimately show ?thesis by (simp add: dispatch_marker_def Let_def)
qed

lemma observer_marker_moves: "moves who 0 s (observer_marker m q s)"
  by (auto simp: observer_marker_def moves_refl intro: moves_emit)

lemma accepted_chain:
  assumes "moves who 3 s u"
  shows "moves who 6 s (case hybrid_accept_marker sn u f m x of (t, r) \<Rightarrow>
     (case r of None \<Rightarrow> t | Some q \<Rightarrow> fst (dispatch_marker sn t m q)))"
    "moves who 6 s (case hybrid_accept_marker sn u f m x of (t, r) \<Rightarrow>
     (case r of None \<Rightarrow> t
      | Some q \<Rightarrow> case dispatch_marker sn t m q of (v, ok) \<Rightarrow> if ok then observer_marker m q v else v))"
proof -
  obtain t r where a: "hybrid_accept_marker sn u f m x = (t, r)" by force
  have t: "moves who 6 s t" by (rule moves_pair [OF assms hybrid_accept_moves a]) simp
  have v: "moves who 6 s (fst (dispatch_marker sn t m q))" if "r = Some q" for q
    by (rule moves_add [OF assms accepted_dispatch [OF a [unfolded that]]]) simp
  have w: "moves who 6 s (observer_marker m q (fst (dispatch_marker sn t m q)))" if "r = Some q" for q
    by (rule moves_add [OF v [OF that] observer_marker_moves]) simp
  show "moves who 6 s (case hybrid_accept_marker sn u f m x of (t, r) \<Rightarrow>
     (case r of None \<Rightarrow> t | Some q \<Rightarrow> fst (dispatch_marker sn t m q)))"
    using a t v by (simp split: option.split)
  show "moves who 6 s (case hybrid_accept_marker sn u f m x of (t, r) \<Rightarrow>
     (case r of None \<Rightarrow> t
      | Some q \<Rightarrow> case dispatch_marker sn t m q of (v, ok) \<Rightarrow> if ok then observer_marker m q v else v))"
    using a t v w by (auto split: option.split prod.split simp: case_prod_beta)
qed

lemma FrontendSetMarker_moves: "moves who 6 s (fst (FrontendSetMarker ho s f api d m x))"
proof -
  let ?sn = "ho_snapshot ho"
  obtain t ok where t: "prepare_d3d ho s api d = (t, ok)" by force
  obtain u pacing where u: "observe_input ?sn t f m x = (u, pacing)" by force
  obtain v ok' where v: "(if pacing then update_low_latency_tech_d3d ho u d (Some api) else (u, True)) = (v, ok')" by force
  have st: "moves who 1 s t" by (rule moves_pair [OF moves_refl prepare_moves(1) t]) simp
  have su: "moves who 2 s u" by (rule moves_pair [OF st observe_input_moves u]) simp
  have "moves who 1 u (fst (if pacing then update_low_latency_tech_d3d ho u d (Some api) else (u, True)))"
    using update_low_latency_tech_d3d_moves by (simp add: moves_refl)
  from moves_pair [OF su this v] have sv: "moves who 3 s v" by simp
  have "moves who 6 s t" "moves who 6 s v" using moves_weaken [OF st] moves_weaken [OF sv] by simp_all
  with accepted_chain(2) [OF sv, where sn = ?sn and f = f and m = m and x = x] t u v show ?thesis
    by (auto simp: FrontendSetMarker_def Let_def split: prod.splits option.splits if_splits)
qed

lemma VulkanFrontendSetMarker_moves: "moves who 6 s (fst (VulkanFrontendSetMarker ho s f d m x))"
proof -
  let ?sn = "ho_snapshot ho"
  obtain t ok where t: "prepare_vulkan ho s d = (t, ok)" by force
  obtain u pacing where u: "observe_input ?sn t f m x = (u, pacing)" by force
  obtain v ok' where v: "(if pacing then update_low_latency_tech_vulkan ho u d else (u, True)) = (v, ok')" by force
  have st: "moves who 1 s t" by (rule moves_pair [OF moves_refl prepare_moves(2) t]) simp
  have su: "moves who 2 s u" by (rule moves_pair [OF st observe_input_moves u]) simp
  have "moves who 1 u (fst (if pacing then update_low_latency_tech_vulkan ho u d else (u, True)))"
    using update_low_latency_tech_vulkan_moves by (simp add: moves_refl)
  from moves_pair [OF su this v] have sv: "moves who 3 s v" by simp
  have "moves who 6 s t" "moves who 6 s v" using moves_weaken [OF st] moves_weaken [OF sv] by simp_all
  with accepted_chain(1) [OF sv, where sn = ?sn and f = f and m = m and x = x] t u v show ?thesis
    by (simp add: VulkanFrontendSetMarker_def Let_def moves_refl split: prod.splits option.splits)
qed

lemma observe_queue_moves: "moves who 0 s (observe_queue q s)"
proof -
  have "moves who 0 t (emit (T_Queue q) t)" "moves who 0 t (emit (O_Queue q) t)" for t by (simp_all add: moves_emit)
  from this moves_trans [OF this] show ?thesis by (simp add: observe_queue_def Let_def moves_refl)
qed

lemma FrontendSetAsyncMarker_moves: "moves who 6 s (FrontendSetAsyncMarker ho s f m x q)"
proof -
  let ?sn = "ho_snapshot ho"
  obtain u pacing where u: "observe_input ?sn (note_unlocked s f AsyncMarker) f m x = (u, pacing)" by force
  let ?v = "if q \<noteq> 0 then observe_queue q u else u"
  obtain t r where a: "hybrid_accept_marker ?sn ?v f m x = (t, r)" by force
  have su: "moves who 1 s u" by (rule moves_pair [OF note_moves(2) observe_input_moves u]) simp
  have sv: "moves who 1 s ?v" using moves_trans [OF su observe_queue_moves] su by simp
  have st: "moves who 2 s t" by (rule moves_pair [OF sv hybrid_accept_moves a]) simp
  have o: "moves who 6 s (observer_marker m y (emit (T_AsyncMarker m y) t))" if "r = Some y" for y
  proof -
    have "moves who 1 ?v (emit (T_AsyncMarker m y) t)"
      using moves_accepted [OF a [unfolded that] moves_refl [of _ 0], of "emit (T_AsyncMarker m y) t"] by simp
    from moves_add [OF moves_trans [OF sv this] observer_marker_moves, of 6] show ?thesis by simp
  qed
  have "moves who 6 s ?v" "moves who 6 s t" using moves_weaken [OF sv] moves_weaken [OF st] by simp_all
  with o show ?thesis
    using u a by (simp add: FrontendSetAsyncMarker_def Let_def split: option.split)
qed

lemma tell_presentation_moves: "moves who 0 s (tell_presentation r s)"
proof (cases r)
  case (Some p)
  have 1: "moves who 0 s (if ll_backend s \<noteq> BE_Auto then emit (T_Presentation (presentation_of p)) s else s)"
    by (simp add: moves_refl moves_emit)
  have 2: "moves who 0 t (if ll_observer t then emit (O_Presentation (presentation_of p)) t else t)" for t
    by (simp add: moves_refl moves_emit)
  from moves_trans [OF 1 2] Some show ?thesis by (simp only: tell_presentation_def Let_def option.case add_0)
qed (simp add: tell_presentation_def moves_refl)

lemma FrontendSetFgType_moves: "moves who 6 s (FrontendSetFgType ho s f b x)"
proof -
  let ?sn = "ho_snapshot ho"
  let ?s = "note_unlocked s f FrameGen"
  obtain h r where hot: "canonicalize_fg_presentation_locked (ll_fusion ?s) f x b = (h, r)" by force
  obtain h' r' where cold: "canonicalize_fg_presentation (ll_fusion ?s) f x b ?sn (ll_arbiter ?s)
      (frontend_selection_mask ?sn ?s) = (h', r')" by force
  have 1: "moves who 1 ?s (?s\<lparr>ll_fusion := h\<rparr>)"
    using hot moves_fusion [of "?s\<lparr>ll_fusion := h\<rparr>" ?s "Op_fg_locked f x b"] by simp
  have 2: "moves who 1 ?s (if locked h' then ?s\<lparr>ll_fusion := h', ll_hotpath := True\<rparr> else ?s\<lparr>ll_fusion := h'\<rparr>)"
    using cold moves_fusion [of _ ?s "Op_fg f x b ?sn (ll_arbiter ?s) (frontend_selection_mask ?sn ?s)"] by simp
  have t: "moves who 6 s (tell_presentation p t)" if "moves who 1 ?s t" for t p
    by (rule moves_add [OF moves_trans [OF note_moves(2) that] tell_presentation_moves]) simp
  have n: "moves who 6 s ?s" "moves who 6 s (emit (T_FgType b x) ?s)"
    using moves_weaken [OF note_moves(2)] moves_add [OF note_moves(2) moves_emit [of "T_FgType b x" _ 0]] by simp_all
  show ?thesis
    using t [OF 1, of r] t [OF 2, of r'] n hot cold by (simp add: FrontendSetFgType_def Let_def)
qed

lemma observe_cadence_moves: "moves who 0 s (observe_cadence s th x)"
proof -
  have "moves who 0 s (s\<lparr>ll_router := r, ll_locals := l\<rparr>)"
    "moves who 0 s (s\<lparr>ll_router := r, ll_locals := l, ll_fg := b\<rparr>)" for r l b
    by (rule moves_quiet; simp)+
  from this moves_trans [OF this(2) update_effective_fg_moves] show ?thesis
    by (simp add: observe_cadence_def Let_def split: prod.split)
qed

lemma SetAsyncFrameMarker_moves: "moves who 6 s (SetAsyncFrameMarker ho s th q m x)"
  unfolding SetAsyncFrameMarker_def
  using moves_add [OF observe_cadence_moves FrontendSetAsyncMarker_moves] by (simp add: FrontendSetAsyncMarker_moves)

lemma observed_moves:
  "moves who 6 s (fst (VulkanFrontendObserveSleep ho s f x))"
  "moves who 6 s (fst (VulkanFrontendObserveMarker ho s f m x))"
  using moves_weaken [OF observe_sleep_input_moves, of 6] moves_weaken [OF observe_input_moves, of 6]
  by (simp_all add: VulkanFrontendObserveSleep_def VulkanFrontendObserveMarker_def moves_refl case_prod_beta)

lemma vulkanflex_moves:
  "moves who 6 s (fst (VulkanFlexOnAcquire ho s d w i))" "moves who 6 s (VulkanFlexBeginPresent s d w i)"
  "moves who 6 s (VulkanFlexCompletePresent s k d p a c)" "moves who 6 s (VulkanFlexOnDestroySwapchain s d w)"
  "moves who 6 s (VulkanFlexOnStructuralStall s d n e)"
proof -
  obtain t ok where t: "update_low_latency_tech_vulkan ho s d = (t, ok)" by force
  have st: "moves who 1 s t" by (rule moves_pair [OF moves_refl update_low_latency_tech_vulkan_moves t]) simp
  have "moves who 6 s (emit (T_Acquire w i) t)" by (rule moves_add [OF st moves_emit [of _ _ 0]]) simp_all
  then show "moves who 6 s (fst (VulkanFlexOnAcquire ho s d w i))"
    using t moves_weaken [OF st, of 6] by (simp add: VulkanFlexOnAcquire_def Let_def moves_refl)
qed (simp_all add: VulkanFlexBeginPresent_def VulkanFlexCompletePresent_def VulkanFlexOnDestroySwapchain_def
    VulkanFlexOnStructuralStall_def moves_refl moves_emit)

lemma openxr_moves:
  "moves who 6 s (OpenXROnWaitFrame s w t p b r v)" "moves who 6 s (OpenXROnBeginFrame s w b r)"
  "moves who 6 s (OpenXROnEndFrame s w t r v)" "moves who 6 s (OpenXROnDestroySession s w)"
  by (rule moves_quiet; simp add: OpenXROnWaitFrame_def OpenXROnBeginFrame_def OpenXROnEndFrame_def
      OpenXROnDestroySession_def)+

section \<open>Runs\<close>

text \<open>The frontend for which a call may make the back end sleep.\<close>

fun sleeper :: "latency_call \<Rightarrow> input_frontend option" where
  "sleeper (LC_Sleep f api d x) = Some f"
| "sleeper (LC_VkSleep f d x) = Some f"
| "sleeper (LC_VkDriveSleep f d x) = Some f"
| "sleeper call = None"

lemma latency_step_moves: "moves (sleeper call) 6 s (latency_step s (ho, call))"
proof (cases call)
  case LC_Deinit
  then show ?thesis using moves_weaken [OF deinit_current_tech_moves, of 6] by simp
next
  case (LC_Update d)
  then show ?thesis using moves_weaken [OF update_low_latency_tech_d3d_moves, of 6] by simp
next
  case (LC_SetContext c m)
  then show ?thesis using moves_weaken [OF set_low_latency_context_moves, of 6] by simp
next
  case (LC_Evidence f e)
  then show ?thesis using moves_weaken [OF note_moves(1), of 6] by simp
next
  case (LC_Queue q)
  then show ?thesis
    using moves_weaken [OF observe_queue_moves, of 6] by (simp add: NotifyOutOfBandCommandQueue_def moves_refl)
next
  case (LC_VkDriveSleep f d x)
  then show ?thesis using moves_weaken [OF VulkanFrontendDriveSleep_moves, of 6] by simp
qed (simp_all add: FrontendSetSleepMode_moves FrontendGetSleepStatus_moves FrontendSleep_moves
    FrontendSetMarker_moves FrontendSetAsyncMarker_moves SetAsyncFrameMarker_moves FrontendSetFgType_moves
    VulkanFrontendSetSleepMode_moves GetSleepStatus_vulkan_moves VulkanFrontendSleep_moves
    VulkanFrontendSetMarker_moves observed_moves vulkanflex_moves openxr_moves
    set_forced_fg_def set_fg_type_def moves_refl moves_emit moves_quiet)

text \<open>The commands of a call, and the frontends for which a run slept, one entry a call that slept.\<close>

definition emitted :: "latency \<Rightarrow> latency \<Rightarrow> command list" where
  "emitted s t = drop (length (ll_log s)) (ll_log t)"

fun sleep_owners :: "latency \<Rightarrow> (host \<times> latency_call) list \<Rightarrow> input_frontend option list" where
  "sleep_owners s [] = []"
| "sleep_owners s (c # cs) =
     (if list_ex sleeps (emitted s (latency_step s c)) then [sleeper (snd c)] else []) @
     sleep_owners (latency_step s c) cs"

lemma emitted_refl [simp]: "emitted s s = []"
  by (simp add: emitted_def)

lemma emitted_eq: "ll_log t = ll_log s @ cs \<Longrightarrow> emitted s t = cs"
  by (simp add: emitted_def)

lemma step_log: "\<exists>cs. ll_log (latency_step s c) = ll_log s @ cs"
  using moves_ext [OF latency_step_moves [of "snd c" s "fst c"]] by simp

lemma run_log: "\<exists>cs. ll_log (foldl latency_step s calls) = ll_log s @ cs"
proof (induction calls arbitrary: s)
  case (Cons c calls)
  obtain cs where "ll_log (latency_step s c) = ll_log s @ cs" using step_log by blast
  with Cons.IH [of "latency_step s c"] show ?case by auto
qed simp

lemma emitted_Cons:
  "emitted s (foldl latency_step s (c # calls)) =
     emitted s (latency_step s c) @ emitted (latency_step s c) (foldl latency_step (latency_step s c) calls)"
  using step_log [of s c] run_log [of "latency_step s c" calls] by (auto simp: emitted_def)

lemma hot_step:
  assumes "ll_hotpath s" "T_Deinit \<notin> set (emitted s (latency_step s c))"
  shows "ll_hotpath (latency_step s c)" "ll_selected (latency_step s c) = ll_selected s"
    "list_ex sleeps (emitted s (latency_step s c)) \<Longrightarrow> sleeper (snd c) = Some (ll_selected s)"
    "\<exists>ops. length ops \<le> 6 \<and> ll_fusion (latency_step s c) = foldl fusion_step (ll_fusion s) ops \<and>
       mset (markers_of (emitted s (latency_step s c))) \<subseteq># mset (accepted_markers (ll_fusion s) ops)"
  using latency_step_moves [of "snd c" s "fst c"] assms
  by (auto simp: moves_def emitted_def list_ex_iff)

text \<open>The whole run, in as many calls of fusion as six times its length.\<close>

lemma hot_run:
  assumes "ll_hotpath s" "T_Deinit \<notin> set (emitted s (foldl latency_step s calls))"
  shows "ll_hotpath (foldl latency_step s calls) \<and> ll_selected (foldl latency_step s calls) = ll_selected s \<and>
    set (sleep_owners s calls) \<subseteq> {Some (ll_selected s)} \<and>
    (\<exists>ops. length ops \<le> 6 * length calls \<and>
       ll_fusion (foldl latency_step s calls) = foldl fusion_step (ll_fusion s) ops \<and>
       mset (markers_of (emitted s (foldl latency_step s calls))) \<subseteq># mset (accepted_markers (ll_fusion s) ops))"
  using assms
proof (induction calls arbitrary: s)
  case Nil
  then show ?case by (auto intro: exI [of _ "[]"])
next
  case (Cons c calls)
  let ?s = "latency_step s c"
  have n: "T_Deinit \<notin> set (emitted s ?s)" "T_Deinit \<notin> set (emitted ?s (foldl latency_step ?s calls))"
    using Cons.prems(2) by (auto simp only: emitted_Cons set_append Un_iff)
  note 1 = hot_step [OF Cons.prems(1) n(1)]
  note 2 = Cons.IH [OF 1(1) n(2)]
  obtain ps where ps: "length ps \<le> 6" "ll_fusion ?s = foldl fusion_step (ll_fusion s) ps"
    "mset (markers_of (emitted s ?s)) \<subseteq># mset (accepted_markers (ll_fusion s) ps)" using 1(4) by blast
  obtain qs where qs: "length qs \<le> 6 * length calls" "ll_fusion (foldl latency_step ?s calls) = foldl fusion_step (ll_fusion ?s) qs"
    "mset (markers_of (emitted ?s (foldl latency_step ?s calls))) \<subseteq># mset (accepted_markers (ll_fusion ?s) qs)"
    using 2 by blast
  have "\<exists>ops. length ops \<le> 6 * length (c # calls) \<and>
       ll_fusion (foldl latency_step s (c # calls)) = foldl fusion_step (ll_fusion s) ops \<and>
       mset (markers_of (emitted s (foldl latency_step s (c # calls)))) \<subseteq># mset (accepted_markers (ll_fusion s) ops)"
    using ps qs
    by (intro exI [of _ "ps @ qs"])
       (simp only: emitted_Cons, auto simp: accepted_markers_append intro: subset_mset.add_mono)
  with 1 2 show ?case by auto
qed

lemma run_fits: "fits (n + 6 * length calls) (ll_fusion s) \<Longrightarrow> fits n (ll_fusion (foldl latency_step s calls))"
proof (induction calls arbitrary: s)
  case (Cons c calls)
  from Cons.prems have "fits ((n + 6 * length calls) + 6) (ll_fusion s)" by (simp add: ac_simps)
  from Cons.IH [OF moves_fits [OF latency_step_moves [of "snd c" s "fst c"] this, unfolded prod.collapse]]
  show ?case by simp
qed simp

lemma initial_fits: "n < 18446744073709551614 \<Longrightarrow> fits n (ll_fusion latency_initial)"
  by (simp add: fits_def slots_ok_def latency_initial_def fusion_initial_def frame_zero_def)

lemma no_sleeps:
  "(\<And>c. c \<in> set calls \<Longrightarrow> sleeper (snd c) \<noteq> who) \<Longrightarrow> set (sleep_owners s calls) \<subseteq> {who} \<Longrightarrow>
   \<not> list_ex sleeps (emitted s (foldl latency_step s calls))"
proof (induction calls arbitrary: s)
  case (Cons c calls)
  from Cons.prems(1) [of c] Cons.prems(2) have "\<not> list_ex sleeps (emitted s (latency_step s c))"
    by auto
  moreover from Cons.prems(2) have "set (sleep_owners (latency_step s c) calls) \<subseteq> {who}" by simp
  ultimately show ?case
    using Cons.IH Cons.prems(1) by (simp only: emitted_Cons list_ex_append) simp
qed simp

lemma distinct_submset:
  assumes "mset xs \<subseteq># mset ys" "distinct ys"
  shows "distinct xs"
proof -
  obtain zs where "mset ys = mset (xs @ zs)"
    using assms(1) by (metis ex_mset mset_append mset_subset_eq_exists_conv)
  then have "distinct ys \<longleftrightarrow> distinct (xs @ zs)" by (rule mset_eq_imp_distinct_iff)
  with assms(2) show ?thesis by simp
qed

section \<open>A session on the hot path\<close>

definition startup_calls :: "latency_call list" where
  "startup_calls = [game_mode True, game_sleep, game_marker SIMULATION_START 1, game_marker SIMULATION_END 1] @
     map (game_marker SIMULATION_START) [2, 3, 4, 5, 6, 7, 8, 9, 10]"

definition session_calls :: "latency_call list" where
  "session_calls = [game_sleep, game_marker SIMULATION_START 11, game_marker SIMULATION_START 11,
     LC_AsyncMarker XeLL SIMULATION_START 11 0]"

definition session_start :: latency where
  "session_start = foldl latency_step latency_initial (on_host startup_calls)"

text \<open>What a run shows of the state it starts in, evaluated at one go.\<close>

definition seen :: "latency_call list \<Rightarrow> latency \<Rightarrow> bool \<times> input_frontend \<times> command list" where
  "seen calls s = (ll_hotpath s, ll_selected s, emitted s (foldl latency_step s (on_host calls)))"

lemma session_seen: "seen session_calls session_start = (True, Reflex, [T_SleepFrame 2, T_Marker SIMULATION_START 3])"
  by code_simp

lemma session_facts:
  "ll_hotpath session_start" "ll_selected session_start = Reflex"
  "emitted session_start (foldl latency_step session_start (on_host session_calls)) =
     [T_SleepFrame 2, T_Marker SIMULATION_START 3]"
  using session_seen by (simp_all only: seen_def prod.inject)

text \<open>C1
  One pacing owner a session: while the back end is not torn down, whatever calls come from the game, the
  selected frontend on the hot path does not change, the hot path stays on, and every call that makes the
  back end sleep is a sleep call of that frontend.
\<close>

theorem single_pacing_owner:
  assumes "ll_hotpath s" and "T_Deinit \<notin> set (emitted s (foldl latency_step s calls))"
  shows "ll_hotpath (foldl latency_step s calls) \<and> ll_selected (foldl latency_step s calls) = ll_selected s \<and>
    set (sleep_owners s calls) \<subseteq> {Some (ll_selected s)}"
  using hot_run [OF assms] by blast

theorem single_pacing_owner_witness:
  "set (sleep_owners session_start (on_host session_calls)) \<subseteq> {Some Reflex}"
  using single_pacing_owner [OF session_facts(1), of "on_host session_calls"] session_facts(2)
  by (simp add: session_facts(3))

text \<open>C2
  Each marker of each frame reaches the back end once: from the first call of the process on, once the hot
  path is on and while the back end is not torn down, no marker is passed on twice under one frame token,
  in whatever order the frontends report it.  The bound keeps the token counter below the busy mark.
\<close>

theorem markers_sent_once:
  assumes "s = foldl latency_step latency_initial before" and "ll_hotpath s"
    and "T_Deinit \<notin> set (emitted s (foldl latency_step s calls))"
    and "6 * (length before + length calls) < 18446744073709551614"
  shows "distinct (markers_of (emitted s (foldl latency_step s calls)))"
proof -
  obtain ops where ops: "length ops \<le> 6 * length calls"
    "mset (markers_of (emitted s (foldl latency_step s calls))) \<subseteq># mset (accepted_markers (ll_fusion s) ops)"
    using hot_run [OF assms(2,3)] by blast
  have "fits (6 * length calls) (ll_fusion s)"
    unfolding assms(1) using assms(4) by (intro run_fits initial_fits) simp
  then have "distinct (accepted_markers (ll_fusion s) ops)"
    using accepted_distinct [of "ll_fusion s" ops "{}"] ops(1) by (simp add: fits_def recorded_def)
  with ops(2) show ?thesis by (rule distinct_submset)
qed

theorem markers_sent_once_witness:
  "markers_of (emitted session_start (foldl latency_step session_start (on_host session_calls))) =
     [(3, SimulationStart)] \<and>
   distinct (markers_of (emitted session_start (foldl latency_step session_start (on_host session_calls))))"
proof -
  have "6 * (length (on_host startup_calls) + length (on_host session_calls)) < 18446744073709551614"
    by (simp add: on_host_def startup_calls_def session_calls_def)
  from markers_sent_once [OF session_start_def session_facts(1) _ this] show ?thesis
    by (simp add: session_facts(3) markers_of_def)
qed

section \<open>A session that has lost its pacing owner\<close>

text \<open>
  Reflex is switched off for nine frames and on again, and a frame generation call comes before the next
  marker.
\<close>

definition lost_calls :: "latency_call list" where
  "lost_calls = [game_mode True, game_sleep, game_marker SIMULATION_START 1, game_marker PRESENT_START 1, game_mode False] @
     map (game_marker SIMULATION_START) [2, 3, 4, 5, 6, 7, 8, 9] @ [game_mode True, LC_FgType AntiLag2 True 5]"

definition lost_start :: latency where
  "lost_start = foldl latency_step latency_initial (on_host lost_calls)"

definition late_calls :: "latency_call list" where
  "late_calls = [game_sleep, game_marker SIMULATION_START 10, game_sleep]"

lemma lost_seen: "seen late_calls lost_start = (True, FE_Auto, [])"
  by code_simp

lemma lost_facts:
  "ll_hotpath lost_start" "ll_selected lost_start = FE_Auto"
  "emitted lost_start (foldl latency_step lost_start (on_host late_calls)) = []"
  using lost_seen by (simp_all only: seen_def prod.inject)

text \<open>C6
  The frame generation call can take the startup lock and turn the hot path on while no frontend is
  selected; from then on, until the back end is torn down, no call of any frontend makes the back end
  sleep.
\<close>

theorem pacing_lost:
  assumes "T_Deinit \<notin> set (emitted lost_start (foldl latency_step lost_start calls))"
    and "\<forall>c\<in>set calls. sleeper (snd c) \<noteq> Some FE_Auto"
  shows "\<not> list_ex sleeps (emitted lost_start (foldl latency_step lost_start calls))"
  using no_sleeps [of calls "Some FE_Auto" lost_start] hot_run [OF lost_facts(1) assms(1)] assms(2)
  by (simp add: lost_facts(2))

theorem pacing_lost_witness:
  "\<not> list_ex sleeps (emitted lost_start
     (foldl latency_step lost_start (on_host late_calls)))"
proof (rule pacing_lost)
  show "T_Deinit \<notin> set (emitted lost_start
     (foldl latency_step lost_start (on_host late_calls)))"
    by (simp only: lost_facts(3)) simp
  show "\<forall>c\<in>set (on_host late_calls). sleeper (snd c) \<noteq> Some FE_Auto"
    by (simp add: on_host_def late_calls_def game_sleep_def game_marker_def)
qed

end
