(* ===== verification/LatencyApplied.thy ===== *)
theory LatencyApplied
  imports LatencyLedger
begin

text \<open>
  What the latency context believes to be in force.  It keeps copies of the sleep mode, the frame generation
  state and the override it last gave to the back end, and skips a call that would repeat them; here these
  copies are compared with what the log of calls says the back end was told since it was initialized.
\<close>

section \<open>What the back end was told\<close>

record told =
  td_backend :: "backend option"
  td_mode :: "sleep_mode option"
  td_fg :: "bool option"
  td_override :: "force_reflex option"

definition untold :: told where
  "untold = \<lparr>td_backend = None, td_mode = None, td_fg = None, td_override = None\<rparr>"

fun tell :: "command \<Rightarrow> told \<Rightarrow> told" where
  "tell (T_Init b x) t = untold\<lparr>td_backend := Some b\<rparr>"
| "tell (T_InitContext b x) t = untold\<lparr>td_backend := Some b\<rparr>"
| "tell T_Deinit t = untold"
| "tell (T_SetSleepMode m) t = t\<lparr>td_mode := Some m\<rparr>"
| "tell (T_SetFgState b) t = t\<lparr>td_fg := Some b\<rparr>"
| "tell (T_SetOverride f) t = t\<lparr>td_override := Some f\<rparr>"
| "tell c t = t"

definition told :: "command list \<Rightarrow> told" where
  "told cs = fold tell cs untold"

lemma told_snoc [simp]: "told (cs @ [c]) = tell c (told cs)"
  by (simp add: told_def)

text \<open>
  The copies agree with it: without a back end they are empty, a sleep mode that is kept is the last one
  told, and so are the frame generation state and the override.
\<close>

definition agrees :: "backend \<Rightarrow> u64 \<Rightarrow> bool option \<Rightarrow> force_reflex option \<Rightarrow> told \<Rightarrow> bool" where
  "agrees b mode fg over t \<longleftrightarrow>
     (if b = BE_Auto then mode = 0 \<and> fg = None \<and> over = None else td_backend t = Some b) \<and>
     (mode \<noteq> 0 \<longrightarrow> td_mode t = Some (unpack_sleep_mode mode)) \<and>
     (fg \<noteq> None \<longrightarrow> td_fg t = fg) \<and> (over \<noteq> None \<longrightarrow> td_override t = over)"

definition applied_ok :: "latency \<Rightarrow> bool" where
  "applied_ok s \<longleftrightarrow> agrees (ll_backend s) (ll_applied_sleep_mode s) (ll_applied_fg s) (ll_applied_override s) (told (ll_log s))"

text \<open>A packed sleep mode unpacks to itself and is never zero.\<close>

lemma bit_pack_sleep_mode:
  "bit (pack_sleep_mode m) n \<longleftrightarrow> n = 0 \<or> n = 1 \<and> sm_enabled m \<or> n = 2 \<and> sm_boost m \<or> n = 3 \<and> sm_use_markers m \<or>
     32 \<le> n \<and> n < 64 \<and> bit (sm_minimum_interval_us m) (n - 32)"
  by (auto simp: pack_sleep_mode_def kSleepModeValid_def kSleepModeEnabled_def kSleepModeBoost_def
      kSleepModeMarkers_def bit_or_iff bit_shl1 bit_push_bit_iff bit_ucast_iff dest: bit_imp_le_length)

lemma pack_sleep_mode_nonzero: "pack_sleep_mode m \<noteq> 0"
  using bit_pack_sleep_mode [of m 0] by auto

lemma unpack_pack_sleep_mode: "unpack_sleep_mode (pack_sleep_mode m) = m"
proof -
  have "ucast (drop_bit 32 (pack_sleep_mode m)) = sm_minimum_interval_us m"
    by (rule bit_eqI) (auto simp: bit_ucast_iff bit_drop_bit_eq bit_pack_sleep_mode add.commute)
  moreover have "(pack_sleep_mode m AND shl1 n \<noteq> 0) \<longleftrightarrow> bit (pack_sleep_mode m) n" if "n < 64" for n
    using that by (simp add: and_shl1_eq_0_iff)
  ultimately show ?thesis
    by (simp add: unpack_sleep_mode_def kSleepModeEnabled_def kSleepModeBoost_def kSleepModeMarkers_def
        bit_pack_sleep_mode)
qed

section \<open>Every call keeps the agreement\<close>

named_theorems keeps

text \<open>Changes of other fields, and calls to the back end that none of the copies is about.\<close>

lemma applied_frame [simp]:
  "applied_ok (s\<lparr>ll_api := x_api\<rparr>) \<longleftrightarrow> applied_ok s" "applied_ok (s\<lparr>ll_d3d_device := x_d3d_device\<rparr>) \<longleftrightarrow> applied_ok s"
  "applied_ok (s\<lparr>ll_vk_device := x_vk_device\<rparr>) \<longleftrightarrow> applied_ok s" "applied_ok (s\<lparr>ll_vk_published := x_vk_published\<rparr>) \<longleftrightarrow> applied_ok s"
  "applied_ok (s\<lparr>ll_signature := x_signature\<rparr>) \<longleftrightarrow> applied_ok s" "applied_ok (s\<lparr>ll_pending_signature := x_pending_signature\<rparr>) \<longleftrightarrow> applied_ok s"
  "applied_ok (s\<lparr>ll_delay_deinit := x_delay_deinit\<rparr>) \<longleftrightarrow> applied_ok s" "applied_ok (s\<lparr>ll_observer := x_observer\<rparr>) \<longleftrightarrow> applied_ok s"
  "applied_ok (s\<lparr>ll_forced_context := x_forced_context\<rparr>) \<longleftrightarrow> applied_ok s" "applied_ok (s\<lparr>ll_forced_mode := x_forced_mode\<rparr>) \<longleftrightarrow> applied_ok s"
  "applied_ok (s\<lparr>ll_fg := x_fg\<rparr>) \<longleftrightarrow> applied_ok s" "applied_ok (s\<lparr>ll_arbiter := x_arbiter\<rparr>) \<longleftrightarrow> applied_ok s"
  "applied_ok (s\<lparr>ll_fusion := x_fusion\<rparr>) \<longleftrightarrow> applied_ok s" "applied_ok (s\<lparr>ll_xr := x_xr\<rparr>) \<longleftrightarrow> applied_ok s"
  "applied_ok (s\<lparr>ll_selected := x_selected\<rparr>) \<longleftrightarrow> applied_ok s" "applied_ok (s\<lparr>ll_sleep_modes := x_sleep_modes\<rparr>) \<longleftrightarrow> applied_ok s"
  "applied_ok (s\<lparr>ll_sleep_sequence := x_sleep_sequence\<rparr>) \<longleftrightarrow> applied_ok s" "applied_ok (s\<lparr>ll_applied_sleep_frontend := x_applied_sleep_frontend\<rparr>) \<longleftrightarrow> applied_ok s"
  "applied_ok (s\<lparr>ll_applied_signature := x_applied_signature\<rparr>) \<longleftrightarrow> applied_ok s" "applied_ok (s\<lparr>ll_hotpath := x_hotpath\<rparr>) \<longleftrightarrow> applied_ok s"
  "applied_ok (s\<lparr>ll_control_epoch := x_control_epoch\<rparr>) \<longleftrightarrow> applied_ok s" "applied_ok (s\<lparr>ll_applied_control_epoch := x_applied_control_epoch\<rparr>) \<longleftrightarrow> applied_ok s"
  "applied_ok (s\<lparr>ll_truth := x_truth\<rparr>) \<longleftrightarrow> applied_ok s" "applied_ok (s\<lparr>ll_router := x_router\<rparr>) \<longleftrightarrow> applied_ok s"
  "applied_ok (s\<lparr>ll_locals := x_locals\<rparr>) \<longleftrightarrow> applied_ok s"
  by (simp_all add: applied_ok_def)

lemma applied_quiet: "tell c = (\<lambda>t. t) \<Longrightarrow> applied_ok (emit c s) \<longleftrightarrow> applied_ok s"
  by (simp add: applied_ok_def emit_def)

lemma quiet_commands:
  "tell T_Sleep = (\<lambda>t. t)" "tell (T_SleepFrame x) = (\<lambda>t. t)" "tell (T_Marker m x) = (\<lambda>t. t)"
  "tell (T_AsyncMarker m x) = (\<lambda>t. t)" "tell (T_FgType b x) = (\<lambda>t. t)" "tell (T_Presentation p) = (\<lambda>t. t)"
  "tell (T_Queue x) = (\<lambda>t. t)" "tell (T_Acquire x i) = (\<lambda>t. t)" "tell (T_BeginPresent x i) = (\<lambda>t. t)"
  "tell (T_CompletePresent x a b) = (\<lambda>t. t)" "tell (T_DestroySwapchain x) = (\<lambda>t. t)" "tell (T_Stall x y) = (\<lambda>t. t)"
  "tell (O_Init x) = (\<lambda>t. t)" "tell O_Deinit = (\<lambda>t. t)" "tell (O_FrameStart x) = (\<lambda>t. t)"
  "tell (O_Marker m x) = (\<lambda>t. t)" "tell (O_Presentation p) = (\<lambda>t. t)" "tell (O_Queue x) = (\<lambda>t. t)"
  by (rule ext; simp)+

lemmas applied_simps = applied_quiet quiet_commands

lemma keeps_fg [keeps]: "applied_ok s \<Longrightarrow> applied_ok (update_effective_fg_state s)"
  by (auto simp: update_effective_fg_state_def Let_def applied_ok_def agrees_def emit_def)

lemma keeps_override [keeps]: "applied_ok s \<Longrightarrow> applied_ok (update_enabled_override sn s)"
  by (auto simp: update_enabled_override_def Let_def applied_ok_def agrees_def emit_def)

lemma keeps_set_sleep_mode:
  "applied_ok s \<Longrightarrow> ll_backend s \<noteq> BE_Auto \<Longrightarrow> unpack_sleep_mode p = m \<Longrightarrow> applied_ok (set_sleep_mode m p f g e s)"
  by (auto simp: set_sleep_mode_def applied_ok_def agrees_def emit_def)

lemma keeps_hybrid_control: "applied_ok s \<Longrightarrow> applied_ok (apply_hybrid_control sn s)"
  by (auto simp: apply_hybrid_control_def Let_def unpack_pack_sleep_mode
      intro: keeps_set_sleep_mode split: prod.split option.split)

lemma keeps_apply [keeps]: "applied_ok s \<Longrightarrow> applied_ok (apply_frontend_sleep_mode sn s f)"
  by (auto simp: apply_frontend_sleep_mode_def Let_def intro: keeps_set_sleep_mode keeps_hybrid_control split: option.split)

lemma keeps_selected [keeps]: "applied_ok s \<Longrightarrow> applied_ok (apply_selected sn s)"
  by (simp add: apply_selected_def keeps_apply)

lemma keeps_note [keeps]: "applied_ok (note_input s f e) \<longleftrightarrow> applied_ok s" "applied_ok (note_unlocked s f e) \<longleftrightarrow> applied_ok s"
  by (simp_all add: note_input_def note_unlocked_def)

lemma keeps_store [keeps]: "applied_ok s \<Longrightarrow> applied_ok (store_frontend_sleep_mode s f m)"
  by (simp add: store_frontend_sleep_mode_def Let_def keeps_note split: option.split)

lemma keeps_observe_input [keeps]: "applied_ok s \<Longrightarrow> applied_ok (fst (observe_input sn s f m x))"
  by (auto simp: observe_input_def Let_def applied_ok_def agrees_def split: prod.split)

lemma keeps_canonical_start [keeps]: "applied_ok s \<Longrightarrow> applied_ok (fst (canonical_start s f x))"
  by (auto simp: canonical_start_def observe_start_def Let_def applied_simps split: prod.split option.split)

lemma keeps_sleep_note:
  "applied_ok (count_sleep s i y) \<longleftrightarrow> applied_ok s" "applied_ok (note_sleep sn s f x) \<longleftrightarrow> applied_ok s"
  by (simp_all add: count_sleep_def note_sleep_def keeps_note Let_def)

lemma keeps_observe_sleep [keeps]: "applied_ok s \<Longrightarrow> applied_ok (fst (observe_sleep_input sn s f x))"
  by (cases rule: observe_sleep_input_cases [of f sn s x])
     (auto intro!: keeps_canonical_start keeps_observe_input simp: keeps_sleep_note)

lemma keeps_accept [keeps]: "applied_ok (fst (hybrid_accept_marker sn s f m x)) \<longleftrightarrow> applied_ok s"
  by (simp add: hybrid_accept_marker_def Let_def split: prod.split)

lemma keeps_deinit_observer [keeps]: "applied_ok (deinit_translation_observer s) \<longleftrightarrow> applied_ok s"
  by (simp add: deinit_translation_observer_def applied_simps)

lemma keeps_deinit [keeps]: "applied_ok s \<Longrightarrow> applied_ok (fst (deinit_current_tech s))"
  by (simp add: deinit_current_tech_def Let_def keeps_deinit_observer)
     (simp add: applied_ok_def agrees_def)

text \<open>Initialization is only reached without a back end, when the copies are empty.\<close>

lemma keeps_init_attempt:
  "applied_ok s \<Longrightarrow> ll_backend s = BE_Auto \<Longrightarrow> applied_ok (emit (T_Init b x) s)"
  "applied_ok s \<Longrightarrow> ll_backend s = BE_Auto \<Longrightarrow> applied_ok (emit (T_InitContext b x) s)"
  by (simp_all add: applied_ok_def agrees_def emit_def)

lemma keeps_activate:
  "applied_ok s \<Longrightarrow> ll_backend s = BE_Auto \<Longrightarrow> b \<noteq> BE_Auto \<Longrightarrow> td_backend (told (ll_log s)) = Some b \<Longrightarrow>
   applied_ok (s\<lparr>ll_backend := b\<rparr>)"
  by (auto simp: applied_ok_def agrees_def)

lemma keeps_transport [keeps]: "applied_ok (change_transport tr s) \<longleftrightarrow> applied_ok s"
  by (simp add: change_transport_def)

lemma keeps_attach [keeps]: "applied_ok (attach_translation ho b api d s) \<longleftrightarrow> applied_ok s"
  by (simp add: attach_translation_def init_translation_observer_def Let_def keeps_transport keeps_deinit_observer
      applied_simps split: graphics_api.split prod.split)


lemma makes_not_auto: "makes_d3d_backend b \<Longrightarrow> b \<noteq> BE_Auto" "makes_vulkan_backend b \<Longrightarrow> b \<noteq> BE_Auto"
  by (auto simp: makes_d3d_backend_def makes_vulkan_backend_def)

lemma keeps_activate_d3d:
  "applied_ok s \<Longrightarrow> ll_backend s = BE_Auto \<Longrightarrow> makes_d3d_backend b \<Longrightarrow> td_backend (told (ll_log s)) = Some b \<Longrightarrow>
   applied_ok (activate_d3d sn b api d s)"
  using makes_not_auto(1) by (auto simp: activate_d3d_def intro: keeps_activate)

lemma keeps_try_d3d: "applied_ok s \<Longrightarrow> ll_backend s = BE_Auto \<Longrightarrow> applied_ok (fst (try_d3d_backends ho api d bs s))"
proof (induction bs arbitrary: s)
  case (Cons b bs)
  have "applied_ok (activate_d3d sn b api d (emit (T_Init b d) s))" if "makes_d3d_backend b" for sn
    using Cons.prems that by (intro keeps_activate_d3d keeps_init_attempt) simp_all
  then show ?case
    using Cons by (simp add: Let_def keeps_attach keeps_init_attempt)
qed simp

lemma keeps_init_d3d: "applied_ok s \<Longrightarrow> ll_backend s = BE_Auto \<Longrightarrow> applied_ok (fst (init_d3d ho s d api))"
  by (auto simp: init_d3d_def Let_def keeps_transport split: prod.split
      intro!: keeps_try_d3d keeps_activate_d3d keeps_init_attempt)

lemma deinit_auto: "ll_backend (fst (deinit_current_tech s)) = BE_Auto"
  by (simp add: deinit_current_tech_def Let_def)

lemma keeps_reinit_d3d: "applied_ok s \<Longrightarrow> applied_ok (fst (reinit_d3d ho s d api))"
  by (simp add: reinit_d3d_def keeps_init_d3d keeps_deinit deinit_auto)

lemma keeps_update_d3d [keeps]: "applied_ok s \<Longrightarrow> applied_ok (fst (update_low_latency_tech_d3d ho s d hint))"
  by (simp add: update_low_latency_tech_d3d_def Let_def keeps_reinit_d3d)

lemma keeps_set_context [keeps]: "applied_ok s \<Longrightarrow> applied_ok (fst (set_low_latency_context ho s c m))"
  by (simp add: set_low_latency_context_def Let_def keeps_update_d3d keeps_deinit)

lemma keeps_try_vulkan: "applied_ok s \<Longrightarrow> ll_backend s = BE_Auto \<Longrightarrow> applied_ok (fst (try_vulkan_backends ho d bs s))"
proof (induction bs arbitrary: s)
  case (Cons b bs)
  have "applied_ok ((emit (T_Init b a) s)\<lparr>ll_backend := b\<rparr>)" if "makes_vulkan_backend b" for a
    using Cons.prems that makes_not_auto(2) by (intro keeps_activate keeps_init_attempt) auto
  then show ?case
    using Cons by (simp add: Let_def keeps_transport keeps_init_attempt)
qed simp

lemma keeps_update_vulkan [keeps]: "applied_ok s \<Longrightarrow> applied_ok (fst (update_low_latency_tech_vulkan ho s d))"
  by (simp add: update_low_latency_tech_vulkan_def init_vulkan_def Let_def keeps_try_vulkan keeps_deinit deinit_auto)

lemma keeps_prepare [keeps]:
  "applied_ok s \<Longrightarrow> applied_ok (fst (prepare_d3d ho s api d))" "applied_ok s \<Longrightarrow> applied_ok (fst (prepare_vulkan ho s d))"
  by (simp_all add: prepare_d3d_def prepare_vulkan_def keeps)

text \<open>The calls: the state after a part, named by the pair the part answers.\<close>

lemma keeps_pair:
  "prepare_d3d ho s api d = (t, b) \<Longrightarrow> applied_ok s \<Longrightarrow> applied_ok t"
  "prepare_vulkan ho s d = (t, b) \<Longrightarrow> applied_ok s \<Longrightarrow> applied_ok t"
  "update_low_latency_tech_d3d ho s d hint = (t, b) \<Longrightarrow> applied_ok s \<Longrightarrow> applied_ok t"
  "update_low_latency_tech_vulkan ho s d = (t, b) \<Longrightarrow> applied_ok s \<Longrightarrow> applied_ok t"
  "observe_input sn s f m x = (t, b) \<Longrightarrow> applied_ok s \<Longrightarrow> applied_ok t"
  "observe_sleep_input sn s f x = (t, b, e) \<Longrightarrow> applied_ok s \<Longrightarrow> applied_ok t"
  "hybrid_accept_marker sn s f m x = (t, r) \<Longrightarrow> applied_ok s \<Longrightarrow> applied_ok t"
  using keeps_prepare keeps_update_d3d keeps_update_vulkan keeps_observe_input keeps_observe_sleep keeps_accept
  by (metis fst_conv)+

lemma keeps_drive_sleep: "applied_ok s \<Longrightarrow> applied_ok (fst (drive_sleep sn s f x))"
  by (simp add: drive_sleep_def Let_def keeps applied_simps)

lemma keeps_dispatch: "applied_ok s \<Longrightarrow> applied_ok (fst (dispatch_marker sn s m q))"
  by (simp add: dispatch_marker_def Let_def keeps applied_simps)

lemma keeps_observer_marker: "applied_ok (observer_marker m q s) \<longleftrightarrow> applied_ok s"
  by (simp add: observer_marker_def applied_simps)

lemma keeps_queue: "applied_ok (observe_queue q s) \<longleftrightarrow> applied_ok s"
  by (simp add: observe_queue_def Let_def applied_simps)

lemma keeps_tell: "applied_ok (tell_presentation r s) \<longleftrightarrow> applied_ok s"
  by (simp add: tell_presentation_def Let_def applied_simps split: option.split)

section \<open>Runs\<close>

text \<open>Calls whose parts answer pairs: one step per part.\<close>

lemma keeps_case: "(\<And>t b. p = (t, b) \<Longrightarrow> applied_ok (fst (g t b))) \<Longrightarrow> applied_ok (fst (case p of (t, b) \<Rightarrow> g t b))"
  by (cases p) simp

lemma keeps_SetSleepMode:
  "applied_ok s \<Longrightarrow> applied_ok (fst (FrontendSetSleepMode ho s f api d m))"
  "applied_ok s \<Longrightarrow> applied_ok (fst (VulkanFrontendSetSleepMode ho s f d m))"
  unfolding FrontendSetSleepMode_def VulkanFrontendSetSleepMode_def Let_def
  by (auto intro!: keeps_case keeps dest!: keeps_pair)

lemma keeps_GetSleepStatus:
  "applied_ok s \<Longrightarrow> applied_ok (fst (FrontendGetSleepStatus ho s f api d))"
  "applied_ok s \<Longrightarrow> applied_ok (fst (GetSleepStatus_vulkan ho s d))"
  unfolding FrontendGetSleepStatus_def GetSleepStatus_vulkan_def Let_def
  by (auto intro!: keeps_case keeps dest!: keeps_pair simp: keeps_note)

lemma keeps_drive: "applied_ok s \<Longrightarrow> applied_ok (fst (VulkanFrontendDriveSleep ho s f d x))"
  unfolding VulkanFrontendDriveSleep_def Let_def by (auto intro!: keeps_case keeps_drive_sleep dest!: keeps_pair)

lemma keeps_Sleep:
  "applied_ok s \<Longrightarrow> applied_ok (fst (FrontendSleep ho s f api d x))"
  "applied_ok s \<Longrightarrow> applied_ok (fst (VulkanFrontendSleep ho s f d x))"
  unfolding FrontendSleep_def VulkanFrontendSleep_def Let_def
  by (auto intro!: keeps_case keeps_drive_sleep keeps_drive dest!: keeps_pair split: prod.splits)

lemma keeps_accepted:
  assumes "applied_ok s"
  shows "applied_ok (fst (case hybrid_accept_marker sn s f m x of (t, r) \<Rightarrow>
      (case r of None \<Rightarrow> (t, True)
       | Some q \<Rightarrow> (case dispatch_marker sn t m q of (v, ok) \<Rightarrow> (if ok then observer_marker m q v else v, ok)))))"
    "applied_ok (fst (case hybrid_accept_marker sn s f m x of (t, r) \<Rightarrow>
      (case r of None \<Rightarrow> (t, True) | Some q \<Rightarrow> dispatch_marker sn t m q)))"
proof -
  obtain t r where a: "hybrid_accept_marker sn s f m x = (t, r)" by force
  then have t: "applied_ok t" using assms by (rule keeps_pair)
  show "applied_ok (fst (case hybrid_accept_marker sn s f m x of (t, r) \<Rightarrow>
      (case r of None \<Rightarrow> (t, True)
       | Some q \<Rightarrow> (case dispatch_marker sn t m q of (v, ok) \<Rightarrow> (if ok then observer_marker m q v else v, ok)))))"
    "applied_ok (fst (case hybrid_accept_marker sn s f m x of (t, r) \<Rightarrow>
      (case r of None \<Rightarrow> (t, True) | Some q \<Rightarrow> dispatch_marker sn t m q)))"
    using a t keeps_dispatch [OF t, of sn m]
    by (simp_all add: case_prod_beta keeps_observer_marker split: option.split)
qed

lemma keeps_Marker:
  "applied_ok s \<Longrightarrow> applied_ok (fst (FrontendSetMarker ho s f api d m x))"
  "applied_ok s \<Longrightarrow> applied_ok (fst (VulkanFrontendSetMarker ho s f d m x))"
  unfolding FrontendSetMarker_def VulkanFrontendSetMarker_def Let_def
  by (auto intro!: keeps_case keeps_accepted dest!: keeps_pair split: if_splits)

lemma keeps_AsyncMarker:
  assumes "applied_ok s" shows "applied_ok (FrontendSetAsyncMarker ho s f m x q)"
proof -
  let ?sn = "ho_snapshot ho"
  obtain u pacing where u: "observe_input ?sn (note_unlocked s f AsyncMarker) f m x = (u, pacing)" by force
  let ?v = "if q \<noteq> 0 then observe_queue q u else u"
  obtain t r where a: "hybrid_accept_marker ?sn ?v f m x = (t, r)" by force
  have v: "applied_ok ?v" using keeps_pair(5) [OF u] assms by (simp add: keeps_queue keeps_note)
  have "applied_ok t" using keeps_pair(7) [OF a v] .
  with v u a show ?thesis
    by (simp add: FrontendSetAsyncMarker_def Let_def keeps_observer_marker applied_simps split: option.split)
qed

lemma keeps_FgType: "applied_ok s \<Longrightarrow> applied_ok (FrontendSetFgType ho s f b x)"
  by (simp add: FrontendSetFgType_def Let_def keeps_tell keeps_note applied_simps split: prod.split)

lemma keeps_cadence: "applied_ok s \<Longrightarrow> applied_ok (observe_cadence s th x)"
  by (simp add: observe_cadence_def Let_def keeps_fg split: prod.split)

lemma keeps_observed:
  "applied_ok s \<Longrightarrow> applied_ok (fst (VulkanFrontendObserveSleep ho s f x))"
  "applied_ok s \<Longrightarrow> applied_ok (fst (VulkanFrontendObserveMarker ho s f m x))"
  by (auto simp: VulkanFrontendObserveSleep_def VulkanFrontendObserveMarker_def case_prod_beta keeps)

lemma keeps_vulkanflex:
  "applied_ok s \<Longrightarrow> applied_ok (fst (VulkanFlexOnAcquire ho s d w i))"
  "applied_ok (VulkanFlexBeginPresent s d w i) \<longleftrightarrow> applied_ok s"
  "applied_ok (VulkanFlexCompletePresent s k d p a c) \<longleftrightarrow> applied_ok s"
  "applied_ok (VulkanFlexOnDestroySwapchain s d w) \<longleftrightarrow> applied_ok s"
  "applied_ok (VulkanFlexOnStructuralStall s d n e) \<longleftrightarrow> applied_ok s"
  by (auto simp: VulkanFlexOnAcquire_def VulkanFlexBeginPresent_def VulkanFlexCompletePresent_def
      VulkanFlexOnDestroySwapchain_def VulkanFlexOnStructuralStall_def Let_def case_prod_beta keeps applied_simps)

lemma keeps_openxr:
  "applied_ok (OpenXROnWaitFrame s w t p b r v) \<longleftrightarrow> applied_ok s" "applied_ok (OpenXROnBeginFrame s w b r) \<longleftrightarrow> applied_ok s"
  "applied_ok (OpenXROnEndFrame s w t r v) \<longleftrightarrow> applied_ok s" "applied_ok (OpenXROnDestroySession s w) \<longleftrightarrow> applied_ok s"
  by (simp_all add: OpenXROnWaitFrame_def OpenXROnBeginFrame_def OpenXROnEndFrame_def OpenXROnDestroySession_def)

lemma keeps_forced_fg: "applied_ok s \<Longrightarrow> applied_ok (set_forced_fg s b)"
  by (auto simp: set_forced_fg_def applied_ok_def agrees_def)

interpretation applied: machine latency_step applied_ok
proof
  fix s and c :: "host \<times> latency_call"
  assume ok: "applied_ok s"
  obtain ho call where c: "c = (ho, call)" by force
  show "applied_ok (latency_step s c)"
    unfolding c using ok
    by (cases call)
       (simp_all add: keeps_SetSleepMode keeps_GetSleepStatus keeps_Sleep keeps_Marker keeps_AsyncMarker keeps_FgType
         keeps_cadence keeps_observed keeps_vulkanflex keeps_openxr keeps_forced_fg keeps_drive keeps keeps_queue
         SetAsyncFrameMarker_def NotifyOutOfBandCommandQueue_def set_fg_type_def applied_simps)
qed

lemma initial_applied: "applied_ok latency_initial"
  by (simp add: applied_ok_def agrees_def latency_initial_def)

text \<open>C7
  The copies the context keeps are true: after any calls, the back end it holds is the one the last
  initialization was for, and the sleep mode, frame generation state and override it believes applied are
  the last ones that back end was told.  So a call that is skipped because nothing changed would have
  changed nothing.
\<close>

theorem applied_state_truthful: "applied_ok (foldl latency_step latency_initial calls)"
  using initial_applied by (rule applied.inv_run)

section \<open>A sleep mode arrives\<close>

lemma deinit_modes: "ll_sleep_modes (fst (deinit_current_tech s)) = ll_sleep_modes s"
  by (simp add: deinit_current_tech_def deinit_translation_observer_def emit_def Let_def)

lemma attach_frame:
  "ll_sleep_modes (attach_translation ho b api d s) = ll_sleep_modes s"
  "ll_selected (attach_translation ho b api d s) = ll_selected s"
  "ll_backend (attach_translation ho b api d s) = ll_backend s"
  by (auto simp: attach_translation_def init_translation_observer_def change_transport_def emit_def
      deinit_translation_observer_def Let_def split: graphics_api.split prod.split)

lemma try_d3d_frame:
  "ll_sleep_modes (fst (try_d3d_backends ho api d bs s)) = ll_sleep_modes s \<and>
   ll_selected (fst (try_d3d_backends ho api d bs s)) = ll_selected s \<and>
   (snd (try_d3d_backends ho api d bs s) \<longrightarrow> ll_backend (fst (try_d3d_backends ho api d bs s)) \<noteq> BE_Auto)"
  by (induction bs arbitrary: s) (auto simp: Let_def attach_frame activate_d3d_def emit_def dest: makes_not_auto)

lemma init_d3d_frame:
  "ll_sleep_modes (fst (init_d3d ho s d api)) = ll_sleep_modes s \<and> ll_selected (fst (init_d3d ho s d api)) = ll_selected s \<and>
   (snd (init_d3d ho s d api) \<longrightarrow> ll_backend (fst (init_d3d ho s d api)) \<noteq> BE_Auto)"
  by (auto simp: init_d3d_def Let_def try_d3d_frame change_transport_def activate_d3d_def emit_def
      dest: makes_not_auto split: prod.split)

lemma reinit_d3d_frame:
  "reinit_d3d ho s d api = (t, True) \<Longrightarrow> ll_sleep_modes t = ll_sleep_modes s \<and> ll_backend t \<noteq> BE_Auto"
  using init_d3d_frame [of ho s d api] init_d3d_frame [of ho "fst (deinit_current_tech s)" d api]
  by (simp add: reinit_d3d_def deinit_modes split: if_splits)

lemma update_d3d_frame:
  "update_low_latency_tech_d3d ho s d hint = (t, True) \<Longrightarrow> ll_sleep_modes t = ll_sleep_modes s \<and> ll_backend t \<noteq> BE_Auto"
  by (auto simp: update_low_latency_tech_d3d_def Let_def split: if_splits dest!: reinit_d3d_frame)

lemma prepare_d3d_frame:
  "prepare_d3d ho s api d = (t, True) \<Longrightarrow> ll_sleep_modes t = ll_sleep_modes s \<and> ll_selected t = ll_selected s"
  using init_d3d_frame [of ho s d api]
  by (auto simp: prepare_d3d_def update_low_latency_tech_d3d_def reinit_d3d_def split: if_splits)

lemma override_frame:
  "ll_sleep_modes (update_enabled_override sn s) = ll_sleep_modes s" "ll_backend (update_enabled_override sn s) = ll_backend s"
  "ll_api (update_enabled_override sn s) = ll_api s" "ll_hotpath (update_enabled_override sn s) = ll_hotpath s"
  by (simp_all add: update_enabled_override_def Let_def emit_def)

lemma store_frame:
  "frontend_index f = Some i \<Longrightarrow> ll_sleep_modes (store_frontend_sleep_mode s f m) i = pack_sleep_mode m"
  "ll_selected (store_frontend_sleep_mode s f m) = ll_selected s"
  by (simp_all add: store_frontend_sleep_mode_def Let_def note_unlocked_def note_input_def split: option.split)

lemma apply_frame:
  "ll_backend (apply_frontend_sleep_mode sn s f) = ll_backend s" "ll_api (apply_frontend_sleep_mode sn s f) = ll_api s"
  "ll_hotpath (apply_frontend_sleep_mode sn s f) = ll_hotpath s"
  by (auto simp: apply_frontend_sleep_mode_def apply_hybrid_control_def set_sleep_mode_def emit_def Let_def
      split: option.split prod.split)

lemma hybrid_execution_cong:
  "ll_api t = ll_api s \<Longrightarrow> ll_backend t = ll_backend s \<Longrightarrow> hybrid_execution_active sn t = hybrid_execution_active sn s"
  by (simp only: hybrid_execution_active_def)

text \<open>Outside hybrid execution the mode the frontend asked for is the one told, now or before.\<close>

lemma apply_tells:
  assumes "applied_ok s" "frontend_index f = Some i" "ll_sleep_modes s i = pack_sleep_mode m" "ll_backend s \<noteq> BE_Auto"
    and "\<not> ll_hotpath s" "\<not> hybrid_execution_active sn s"
  shows "td_mode (told (ll_log (apply_frontend_sleep_mode sn s f))) = Some m"
proof -
  have v: "pack_sleep_mode m AND kSleepModeValid \<noteq> 0"
    by (simp add: kSleepModeValid_def and_shl1_eq_0_iff bit_pack_sleep_mode)
  show ?thesis
  proof (cases "ll_applied_sleep_frontend s = f \<and> ll_applied_sleep_mode s = pack_sleep_mode m")
    case True
    then have "td_mode (told (ll_log s)) = Some m"
      using assms(1) by (simp add: applied_ok_def agrees_def pack_sleep_mode_nonzero unpack_pack_sleep_mode)
    with True assms v show ?thesis by (simp add: apply_frontend_sleep_mode_def Let_def)
  next
    case False
    with assms v show ?thesis
      by (auto simp: apply_frontend_sleep_mode_def Let_def set_sleep_mode_def emit_def unpack_pack_sleep_mode)
  qed
qed

text \<open>C8
  A sleep mode arrives: outside hybrid execution, when the selected frontend sets its sleep mode and the call
  answers success, there is a back end, it is the one initialized last, and the last mode it was told is
  exactly the requested one, whatever calls came before and whether or not this call told it.
\<close>

theorem mode_delivered:
  assumes s: "s = foldl latency_step latency_initial calls" and f: "ll_selected s = f" "f \<noteq> FE_Auto"
    and t: "FrontendSetSleepMode ho s f api d m = (t, True)"
    and cold: "\<not> ll_hotpath t" "\<not> hybrid_execution_active (ho_snapshot ho) t"
  shows "ll_backend t \<noteq> BE_Auto \<and> td_backend (told (ll_log t)) = Some (ll_backend t) \<and>
    td_mode (told (ll_log t)) = Some m"
proof -
  let ?sn = "ho_snapshot ho"
  obtain i where i: "frontend_index f = Some i" using f(2) by (cases f) auto
  have ok: "applied_ok s" unfolding s using initial_applied by (rule applied.inv_run)
  have ok_t: "applied_ok t" using keeps_SetSleepMode(1) [OF ok, of ho f api d m] t by simp
  obtain u b where u: "prepare_d3d ho (store_frontend_sleep_mode s f m) api d = (u, b)" by force
  have b: b using t u by (simp add: FrontendSetSleepMode_def Let_def split: if_splits)
  note pu = prepare_d3d_frame [OF u [unfolded eqTrueI [OF b]]]
  have drive: "input_can_drive u f" using pu f(1) by (simp add: input_can_drive_def store_frame)
  obtain v c where v: "update_low_latency_tech_d3d ho u d (Some api) = (v, c)" by force
  have c: c and tv: "t = apply_frontend_sleep_mode ?sn (update_enabled_override ?sn v) f"
    using t u v b drive by (simp_all add: FrontendSetSleepMode_def Let_def split: if_splits)
  note uv = update_d3d_frame [OF v [unfolded eqTrueI [OF c]]]
  let ?w = "update_enabled_override ?sn v"
  have "applied_ok ?w" using keeps_pair(1) [OF u] keeps_pair(3) [OF v] keeps_store [OF ok] by (simp add: keeps_override)
  moreover have "ll_sleep_modes ?w i = pack_sleep_mode m"
    using uv pu store_frame(1) [OF i] by (simp add: override_frame)
  moreover have "ll_backend ?w \<noteq> BE_Auto" using uv by (simp add: override_frame)
  moreover have "hybrid_execution_active ?sn t = hybrid_execution_active ?sn ?w"
    by (rule hybrid_execution_cong) (simp_all add: tv apply_frame)
  then have "\<not> ll_hotpath ?w" "\<not> hybrid_execution_active ?sn ?w"
    using cold by (simp_all add: tv apply_frame)
  ultimately have m: "td_mode (told (ll_log t)) = Some m" unfolding tv by (intro apply_tells [OF _ i])
  have "ll_backend t \<noteq> BE_Auto" using uv unfolding tv by (simp add: apply_frame override_frame)
  with ok_t m show ?thesis by (simp add: applied_ok_def agrees_def)
qed


text \<open>A host without hybrid fusion, on which Reflex has been selected.\<close>

definition plain_host :: host where
  "plain_host = sample_host\<lparr>ho_snapshot := default_snapshot\<lparr>sn_hybrid := default_hybrid\<lparr>hp_startup_locked := False\<rparr>\<rparr>\<rparr>"

definition plain_calls :: "(host \<times> latency_call) list" where
  "plain_calls = map (Pair plain_host)
     [game_mode True, game_sleep, game_marker SIMULATION_START 1, game_marker PRESENT_START 1, game_sleep]"

definition plain_mode :: sleep_mode where
  "plain_mode = \<lparr>sm_enabled = True, sm_boost = True, sm_minimum_interval_us = 8000, sm_use_markers = False\<rparr>"

definition plain_start :: latency where "plain_start = foldl latency_step latency_initial plain_calls"

definition plain_answer :: "latency \<times> bool" where
  "plain_answer = FrontendSetSleepMode plain_host plain_start Reflex D3D12 7 plain_mode"

lemma plain_facts:
  "ll_selected plain_start = Reflex" "snd plain_answer"
  "\<not> ll_hotpath (fst plain_answer)" "\<not> hybrid_execution_active (ho_snapshot plain_host) (fst plain_answer)"
  by code_simp+

theorem mode_delivered_witness:
  "td_mode (told (ll_log (fst plain_answer))) = Some plain_mode"
proof -
  have "FrontendSetSleepMode plain_host plain_start Reflex D3D12 7 plain_mode = (fst plain_answer, True)"
    using plain_facts(2) by (simp add: plain_answer_def prod_eq_iff)
  from mode_delivered [OF plain_start_def plain_facts(1) _ this plain_facts(3,4)] show ?thesis by simp
qed

end
