(* ===== verification/FrameReports.thy ===== *)
theory FrameReports
  imports LatencyContext
begin

text \<open>
  The frame reports of the latency context (\<open>src/low_latency.h\<close>, \<open>src/low_latency_d3d.cpp\<close>,
  \<open>src/low_latency_vk.cpp\<close>): a ring of 70 reports indexed by frame id modulo 70, which markers fill in and
  the latency queries of D3D, Vulkan and \<open>VK_NV_low_latency2\<close> read.  The clock is an argument of each marker; the
  two static variables each thread has per marker function are a map from threads.
\<close>

section \<open>Reports\<close>

definition FRAME_REPORTS_BUFFER_SIZE :: nat where "FRAME_REPORTS_BUFFER_SIZE = 70"
definition NVAPI_BUFFER_SIZE :: nat where "NVAPI_BUFFER_SIZE = 64"

record frame_report =
  fr_frameID :: u64
  fr_inputSampleTime :: u64
  fr_simStartTime :: u64
  fr_simEndTime :: u64
  fr_renderSubmitStartTime :: u64
  fr_renderSubmitEndTime :: u64
  fr_presentStartTime :: u64
  fr_presentEndTime :: u64
  fr_driverStartTime :: u64
  fr_driverEndTime :: u64
  fr_osRenderQueueStartTime :: u64
  fr_osRenderQueueEndTime :: u64
  fr_gpuRenderStartTime :: u64
  fr_gpuRenderEndTime :: u64
  fr_gpuActiveRenderTimeUs :: u32
  fr_gpuFrameTimeUs :: u32

definition report_zero :: frame_report where
  "report_zero = \<lparr>fr_frameID = 0, fr_inputSampleTime = 0, fr_simStartTime = 0, fr_simEndTime = 0,
     fr_renderSubmitStartTime = 0, fr_renderSubmitEndTime = 0, fr_presentStartTime = 0, fr_presentEndTime = 0,
     fr_driverStartTime = 0, fr_driverEndTime = 0, fr_osRenderQueueStartTime = 0, fr_osRenderQueueEndTime = 0,
     fr_gpuRenderStartTime = 0, fr_gpuRenderEndTime = 0, fr_gpuActiveRenderTimeUs = 0, fr_gpuFrameTimeUs = 0\<rparr>"

text \<open>The last two simulation starts of a thread, None before its first marker.\<close>

record report_state =
  rs_reports :: "nat \<Rightarrow> frame_report"
  rs_d3d :: "u64 \<Rightarrow> (u64 \<times> u64) option"
  rs_vulkan :: "u64 \<Rightarrow> (u64 \<times> u64) option"

definition report_initial :: report_state where
  "report_initial = \<lparr>rs_reports = (\<lambda>_. report_zero), rs_d3d = (\<lambda>_. None), rs_vulkan = (\<lambda>_. None)\<rparr>"

text \<open>The clear at the teardown of the back end.\<close>

definition reports_clear :: "report_state \<Rightarrow> report_state" where
  "reports_clear s = s\<lparr>rs_reports := (\<lambda>_. report_zero)\<rparr>"

definition report_slot :: "u64 \<Rightarrow> nat" where
  "report_slot frame_id = unat frame_id mod FRAME_REPORTS_BUFFER_SIZE"

text \<open>The report a marker writes to: the one in the slot if it is for this frame, else an empty one.\<close>

definition open_report :: "frame_report \<Rightarrow> u64 \<Rightarrow> frame_report" where
  "open_report r frame_id = (if fr_frameID r \<noteq> frame_id then report_zero else r)"

text \<open>The fields every marker writes, from the clock and the time between the last two simulation starts.\<close>

definition stamp_common :: "u64 \<Rightarrow> u64 \<Rightarrow> u64 \<Rightarrow> frame_report \<Rightarrow> frame_report" where
  "stamp_common frame_id now gap r = r\<lparr>fr_frameID := frame_id, fr_gpuFrameTimeUs := ucast gap,
     fr_gpuActiveRenderTimeUs := 100, fr_driverStartTime := now, fr_driverEndTime := now + 100,
     fr_gpuRenderStartTime := now, fr_gpuRenderEndTime := now + 100,
     fr_osRenderQueueStartTime := now, fr_osRenderQueueEndTime := now + 100\<rparr>"

fun stamp_d3d :: "marker_type \<Rightarrow> u64 \<Rightarrow> frame_report \<Rightarrow> frame_report" where
  "stamp_d3d SIMULATION_START now r = r\<lparr>fr_simStartTime := now\<rparr>"
| "stamp_d3d SIMULATION_END now r = r\<lparr>fr_simEndTime := now\<rparr>"
| "stamp_d3d RENDERSUBMIT_START now r = r\<lparr>fr_renderSubmitStartTime := now\<rparr>"
| "stamp_d3d RENDERSUBMIT_END now r = r\<lparr>fr_renderSubmitEndTime := now\<rparr>"
| "stamp_d3d PRESENT_START now r = r\<lparr>fr_presentStartTime := now\<rparr>"
| "stamp_d3d PRESENT_END now r = r\<lparr>fr_presentEndTime := now\<rparr>"
| "stamp_d3d INPUT_SAMPLE now r = r\<lparr>fr_inputSampleTime := now\<rparr>"
| "stamp_d3d _ now r = r"

fun stamp_vulkan :: "marker_type \<Rightarrow> u64 \<Rightarrow> frame_report \<Rightarrow> frame_report" where
  "stamp_vulkan OUT_OF_BAND_PRESENT_START now r = r\<lparr>fr_presentStartTime := now\<rparr>"
| "stamp_vulkan OUT_OF_BAND_PRESENT_END now r = r\<lparr>fr_presentEndTime := now\<rparr>"
| "stamp_vulkan m now r = stamp_d3d m now r"

text \<open>The two starts of a thread before and after a marker.\<close>

definition starts_before :: "(u64 \<times> u64) option \<Rightarrow> u64 \<Rightarrow> u64 \<times> u64" where
  "starts_before c now = (case c of None \<Rightarrow> (now, now) | Some p \<Rightarrow> p)"

definition starts_after :: "marker_type \<Rightarrow> u64 \<Rightarrow> u64 \<times> u64 \<Rightarrow> u64 \<times> u64" where
  "starts_after m now p = (if m = SIMULATION_START then (now, fst p) else p)"

definition add_marker_to_report :: "report_state \<Rightarrow> u64 \<Rightarrow> u64 \<Rightarrow> marker_type \<Rightarrow> u64 \<Rightarrow> report_state" where
  "add_marker_to_report s thread timestamp m frame_id =
     (let now = timestamp div 1000;
          p = starts_before (rs_d3d s thread) now;
          j = report_slot frame_id;
          r = stamp_common frame_id now (fst p - snd p) (open_report (rs_reports s j) frame_id)
      in s\<lparr>rs_reports := (rs_reports s)(j := stamp_d3d m now r),
           rs_d3d := (rs_d3d s)(thread := Some (starts_after m now p))\<rparr>)"

definition add_vulkan_marker_to_report :: "report_state \<Rightarrow> u64 \<Rightarrow> u64 \<Rightarrow> marker_type \<Rightarrow> u64 \<Rightarrow> report_state" where
  "add_vulkan_marker_to_report s thread timestamp m frame_id =
     (let now = timestamp div 1000;
          p = starts_before (rs_vulkan s thread) now;
          j = report_slot frame_id;
          r = stamp_common frame_id now (fst p - snd p) (open_report (rs_reports s j) frame_id)
      in s\<lparr>rs_reports := (rs_reports s)(j := stamp_vulkan m now r),
           rs_vulkan := (rs_vulkan s)(thread := Some (starts_after m now p))\<rparr>)"

section \<open>Queries\<close>

text \<open>The slot with the least frame id, the first one of equals.\<close>

fun min_slot :: "(nat \<Rightarrow> frame_report) \<Rightarrow> nat list \<Rightarrow> nat \<Rightarrow> nat" where
  "min_slot reports [] best = best"
| "min_slot reports (i # is) best =
     min_slot reports is (if fr_frameID (reports i) < fr_frameID (reports best) then i else best)"

definition oldest_slot :: "(nat \<Rightarrow> frame_report) \<Rightarrow> nat" where
  "oldest_slot reports = min_slot reports [1..<FRAME_REPORTS_BUFFER_SIZE] 0"

text \<open>The copy in two chunks around the end of the ring.\<close>

definition copy_reports :: "(nat \<Rightarrow> frame_report) \<Rightarrow> frame_report list" where
  "copy_reports reports =
     (let m = oldest_slot reports; first_chunk = min NVAPI_BUFFER_SIZE (FRAME_REPORTS_BUFFER_SIZE - m)
      in map reports [m..<m + first_chunk] @ map reports [0..<NVAPI_BUFFER_SIZE - first_chunk])"

text \<open>What the query writes, None when the version is not supported and nothing is written.\<close>

definition get_latency_result :: "report_state \<Rightarrow> bool \<Rightarrow> frame_report list option" where
  "get_latency_result s version_ok =
     (if \<not> version_ok then None
      else if fr_frameID (rs_reports s (FRAME_REPORTS_BUFFER_SIZE - 1)) = 0
      then Some (replicate NVAPI_BUFFER_SIZE report_zero)
      else Some (copy_reports (rs_reports s)))"

definition get_vulkan_latency_result :: "report_state \<Rightarrow> bool \<Rightarrow> frame_report list option" where
  "get_vulkan_latency_result s version_ok =
     (if \<not> version_ok then None
      else if fr_frameID (rs_reports s (FRAME_REPORTS_BUFFER_SIZE - 1)) = 0
      then Some (replicate NVAPI_BUFFER_SIZE report_zero)
      else Some (map (\<lambda>r. r\<lparr>fr_gpuActiveRenderTimeUs := 0, fr_gpuFrameTimeUs := 0\<rparr>) (copy_reports (rs_reports s))))"

text \<open>
  The timings of the extension: the count alone without a buffer, else as many reports as fit, in the order
  of their frame ids.
\<close>

definition get_vulkan_latency_timings :: "report_state \<Rightarrow> nat option \<Rightarrow> nat \<times> frame_report list" where
  "get_vulkan_latency_timings s capacity =
     (let ordered = sort_key fr_frameID
            (filter (\<lambda>r. fr_frameID r \<noteq> 0) (map (rs_reports s) [0..<FRAME_REPORTS_BUFFER_SIZE]))
      in case capacity of
        None \<Rightarrow> (length ordered, [])
      | Some c \<Rightarrow> (min c (length ordered), take c ordered))"

section \<open>Markers as calls\<close>

datatype report_call = RC_D3D u64 u64 marker_type u64 | RC_Vulkan u64 u64 marker_type u64

fun call_frame :: "report_call \<Rightarrow> u64" where
  "call_frame (RC_D3D thread now m x) = x"
| "call_frame (RC_Vulkan thread now m x) = x"

fun report_step :: "report_state \<Rightarrow> report_call \<Rightarrow> report_state" where
  "report_step s (RC_D3D thread timestamp m x) = add_marker_to_report s thread timestamp m x"
| "report_step s (RC_Vulkan thread timestamp m x) = add_vulkan_marker_to_report s thread timestamp m x"

text \<open>
  The abstract reports: the same markers written to an unbounded table with a place for every frame, which
  is never reused.
\<close>

definition stamp_of :: "report_state \<Rightarrow> report_call \<Rightarrow> frame_report \<Rightarrow> frame_report" where
  "stamp_of s c r =
     (case c of
        RC_D3D thread timestamp m x \<Rightarrow>
          (let now = timestamp div 1000; p = starts_before (rs_d3d s thread) now
           in stamp_d3d m now (stamp_common x now (fst p - snd p) r))
      | RC_Vulkan thread timestamp m x \<Rightarrow>
          (let now = timestamp div 1000; p = starts_before (rs_vulkan s thread) now
           in stamp_vulkan m now (stamp_common x now (fst p - snd p) r)))"

definition note_starts :: "report_call \<Rightarrow> report_state \<Rightarrow> report_state" where
  "note_starts c s =
     (case c of
        RC_D3D thread timestamp m x \<Rightarrow>
          (let now = timestamp div 1000 in
           s\<lparr>rs_d3d := (rs_d3d s)(thread := Some (starts_after m now (starts_before (rs_d3d s thread) now)))\<rparr>)
      | RC_Vulkan thread timestamp m x \<Rightarrow>
          (let now = timestamp div 1000 in
           s\<lparr>rs_vulkan := (rs_vulkan s)(thread := Some (starts_after m now (starts_before (rs_vulkan s thread) now)))\<rparr>))"

definition history_step :: "report_state \<Rightarrow> report_call \<Rightarrow> report_state" where
  "history_step s c =
     (note_starts c s)\<lparr>rs_reports := (rs_reports s)
        (unat (call_frame c) := stamp_of s c (rs_reports s (unat (call_frame c))))\<rparr>"

definition history :: "report_call list \<Rightarrow> report_state" where
  "history calls = foldl history_step report_initial calls"

definition reports_after :: "report_call list \<Rightarrow> report_state" where
  "reports_after calls = foldl report_step report_initial calls"

section \<open>The ring holds the latest frame of every slot\<close>

lemma report_step_eq:
  "report_step s c = (note_starts c s)\<lparr>rs_reports := (rs_reports s)
     (report_slot (call_frame c) :=
        stamp_of s c (open_report (rs_reports s (report_slot (call_frame c))) (call_frame c)))\<rparr>"
  by (cases c) (simp_all add: add_marker_to_report_def add_vulkan_marker_to_report_def note_starts_def stamp_of_def Let_def)

lemma stamp_d3d_frame [simp]: "fr_frameID (stamp_d3d m now r) = fr_frameID r"
  by (cases m) simp_all

lemma stamp_vulkan_frame [simp]: "fr_frameID (stamp_vulkan m now r) = fr_frameID r"
  by (cases m) simp_all

lemma stamp_of_frame [simp]: "fr_frameID (stamp_of s c r) = call_frame c"
  by (cases c) (simp_all add: stamp_of_def stamp_common_def Let_def)

lemma starts_cong:
  assumes "rs_d3d s = rs_d3d t" "rs_vulkan s = rs_vulkan t"
  shows "rs_d3d (note_starts c s) = rs_d3d (note_starts c t)" "rs_vulkan (note_starts c s) = rs_vulkan (note_starts c t)"
    "stamp_of s c = stamp_of t c"
  using assms by (cases c; simp add: note_starts_def stamp_of_def Let_def fun_eq_iff)+

lemma note_starts_reports [simp]: "rs_reports (note_starts c s) = rs_reports s"
  by (cases c) (simp_all add: note_starts_def Let_def)

lemma report_snoc:
  "reports_after (calls @ [c]) = report_step (reports_after calls) c" "history (calls @ [c]) = history_step (history calls) c"
  by (simp_all add: reports_after_def history_def)

lemma history_frames:
  "rs_reports (history calls) (unat x) = (if x \<in> call_frame ` set calls then rs_reports (history calls) (unat x) else report_zero) \<and>
   (x \<in> call_frame ` set calls \<longrightarrow> fr_frameID (rs_reports (history calls) (unat x)) = x)"
proof (induction calls rule: rev_induct)
  case Nil
  then show ?case by (simp add: history_def report_initial_def)
next
  case (snoc c calls)
  then show ?case by (auto simp: report_snoc history_step_def word_unat_eq_iff [symmetric])
qed

lemma history_unseen: "x \<notin> call_frame ` set calls \<Longrightarrow> rs_reports (history calls) (unat x) = report_zero"
  using history_frames [of calls x] by simp

lemma history_seen: "x \<in> call_frame ` set calls \<Longrightarrow> fr_frameID (rs_reports (history calls) (unat x)) = x"
  using history_frames [of calls x] by simp

lemma zero_frame [simp]: "fr_frameID report_zero = 0"
  by (simp add: report_zero_def)

lemma sorted_le_last: "sorted xs \<Longrightarrow> x \<in> set xs \<Longrightarrow> x \<le> last xs"
  by (induction xs rule: rev_induct) (auto simp: sorted_append)

text \<open>
  The markers of several frames may be interleaved as long as no marker comes for a frame that is a whole
  ring behind one reported before.  Then the slot of a frame shows the latest frame that fell into it.
\<close>

definition pipelined :: "report_call list \<Rightarrow> bool" where
  "pipelined calls \<longleftrightarrow> sorted_wrt (\<lambda>c d. unat (call_frame c) < unat (call_frame d) + 70) calls"

lemma same_slot_le:
  "report_slot x = report_slot y \<Longrightarrow> unat x < unat y + 70 \<Longrightarrow> x \<le> y"
proof (rule ccontr)
  assume s: "report_slot x = report_slot y" and l: "unat x < unat y + 70" and "\<not> x \<le> y"
  then have g: "unat y < unat x" by (simp add: word_le_nat_alt not_le)
  moreover have m: "unat x mod 70 = unat y mod 70" using s by (simp add: report_slot_def FRAME_REPORTS_BUFFER_SIZE_def)
  moreover have "unat x div 70 = unat y div 70 \<or> unat x div 70 = unat y div 70 + 1" using l g by linarith
  ultimately show False
    using l div_mult_mod_eq [of "unat x" 70] div_mult_mod_eq [of "unat y" 70] by linarith
qed

definition slot_frames :: "report_call list \<Rightarrow> nat \<Rightarrow> u64 list" where
  "slot_frames calls j = filter (\<lambda>x. report_slot x = j) (map call_frame calls)"

lemma slot_frames_sorted: "pipelined calls \<Longrightarrow> sorted (slot_frames calls j)"
proof (induction calls)
  case (Cons c calls)
  then have p: "pipelined calls" and l: "\<And>d. d \<in> set calls \<Longrightarrow> unat (call_frame c) < unat (call_frame d) + 70"
    by (auto simp: pipelined_def)
  show ?case
    using Cons.IH [OF p] l by (auto simp: slot_frames_def intro!: same_slot_le)
qed (simp add: slot_frames_def)

lemma near_pipelined:
  "\<forall>c\<in>set calls. b \<le> unat (call_frame c) \<and> unat (call_frame c) < b + 70 \<Longrightarrow> pipelined calls"
  unfolding pipelined_def by (induction calls) fastforce+

lemma ring_invariant:
  assumes "pipelined calls"
  shows "rs_d3d (reports_after calls) = rs_d3d (history calls) \<and> rs_vulkan (reports_after calls) = rs_vulkan (history calls) \<and>
    (\<forall>j. rs_reports (reports_after calls) j =
       (if slot_frames calls j = [] then report_zero else rs_reports (history calls) (unat (last (slot_frames calls j)))))"
  using assms
proof (induction calls rule: rev_induct)
  case Nil
  then show ?case by (simp add: reports_after_def history_def report_initial_def slot_frames_def)
next
  case (snoc c calls)
  let ?x = "call_frame c" and ?r = "reports_after calls" and ?h = "history calls"
  let ?j = "report_slot ?x"
  have s: "pipelined calls" and near: "\<And>d. d \<in> set calls \<Longrightarrow> unat (call_frame d) < unat ?x + 70"
    using snoc.prems by (auto simp: pipelined_def sorted_wrt_append)
  have le: "\<And>y. y \<in> set (slot_frames calls ?j) \<Longrightarrow> y \<le> ?x"
    using near by (auto simp: slot_frames_def intro!: same_slot_le)
  note IH = snoc.IH [OF s]
  have st: "stamp_of ?r c = stamp_of ?h c" using starts_cong(3) IH by blast
  have o: "open_report (rs_reports ?r ?j) ?x = rs_reports ?h (unat ?x)"
  proof (cases "?x \<in> call_frame ` set calls")
    case True
    have "?x \<in> set (slot_frames calls ?j)" using True by (auto simp: slot_frames_def)
    then have ne: "slot_frames calls ?j \<noteq> []" by auto
    have "last (slot_frames calls ?j) = ?x"
    proof (rule antisym)
      show "last (slot_frames calls ?j) \<le> ?x"
        by (rule le [OF last_in_set [OF ne]])
      have "sorted (slot_frames calls ?j)" using s by (rule slot_frames_sorted)
      then show "?x \<le> last (slot_frames calls ?j)"
        using \<open>?x \<in> set (slot_frames calls ?j)\<close> by (rule sorted_le_last)
    qed
    with IH ne True show ?thesis by (simp add: open_report_def history_seen)
  next
    case False
    then have z: "rs_reports ?h (unat ?x) = report_zero" by (rule history_unseen)
    show ?thesis
    proof (cases "slot_frames calls ?j = []")
      case True
      with IH z show ?thesis by (simp add: open_report_def)
    next
      case ne: False
      then have l: "last (slot_frames calls ?j) \<in> call_frame ` set calls"
        using last_in_set [OF ne] by (auto simp: slot_frames_def)
      then have "fr_frameID (rs_reports ?r ?j) = last (slot_frames calls ?j)"
        using IH ne by (simp add: history_seen)
      with l False z show ?thesis by (auto simp: open_report_def)
    qed
  qed
  have "rs_reports (reports_after (calls @ [c])) j =
     (if slot_frames (calls @ [c]) j = [] then report_zero
      else rs_reports (history (calls @ [c])) (unat (last (slot_frames (calls @ [c]) j))))" for j
  proof (cases "j = ?j")
    case True
    then show ?thesis by (simp add: report_snoc report_step_eq history_step_def slot_frames_def o st)
  next
    case False
    then have e: "slot_frames (calls @ [c]) j = slot_frames calls j" by (simp add: slot_frames_def)
    have "last (slot_frames calls j) \<noteq> ?x" if "slot_frames calls j \<noteq> []"
      using last_in_set [OF that] False by (auto simp: slot_frames_def)
    then have "unat (last (slot_frames calls j)) \<noteq> unat ?x" if "slot_frames calls j \<noteq> []"
      using that by (simp add: word_unat_eq_iff [symmetric])
    with False e IH show ?thesis by (simp add: report_snoc report_step_eq history_step_def)
  qed
  then show ?case
    using IH starts_cong [of ?r ?h] by (simp add: report_snoc report_step_eq history_step_def)
qed


section \<open>What the queries answer\<close>

lemma min_slot_strict:
  assumes "m \<in> insert best (set is)"
    and "\<And>i. i \<in> insert best (set is) \<Longrightarrow> i \<noteq> m \<Longrightarrow> fr_frameID (reports m) < fr_frameID (reports i)"
  shows "min_slot reports is best = m"
  using assms
proof (induction "is" arbitrary: best)
  case Nil
  then show ?case by simp
next
  case (Cons i "is")
  let ?b = "if fr_frameID (reports i) < fr_frameID (reports best) then i else best"
  have "m \<in> insert ?b (set is)"
    using Cons.prems(1) Cons.prems(2) [of i] Cons.prems(2) [of best] by (auto dest: less_asym)
  moreover have "\<And>k. k \<in> insert ?b (set is) \<Longrightarrow> k \<noteq> m \<Longrightarrow> fr_frameID (reports m) < fr_frameID (reports k)"
    using Cons.prems(2) by (auto split: if_splits)
  ultimately show ?case using Cons.IH [of ?b] by simp
qed

text \<open>Seventy consecutive frames fill the ring, each in its own slot.\<close>

lemma window_slot:
  assumes "b \<le> a" "a < b + 70" "a mod 70 = b mod (70::nat)" shows "a = b"
proof -
  have "a div 70 = b div 70 \<or> a div 70 = b div 70 + 1" using assms(1,2) by linarith
  with assms show ?thesis using div_mult_mod_eq [of a 70] div_mult_mod_eq [of b 70] by linarith
qed

lemma window_reports:
  assumes s: "pipelined calls"
    and n: "\<And>c. c \<in> set calls \<Longrightarrow> unat (call_frame c) < b + 70"
    and w: "\<And>x. b \<le> x \<Longrightarrow> x < b + 70 \<Longrightarrow> word_of_nat x \<in> call_frame ` set calls" "b + 70 \<le> 2 ^ 64"
    and x: "b \<le> x" "x < b + 70"
  shows "rs_reports (reports_after calls) (x mod 70) = rs_reports (history calls) x \<and>
    unat (fr_frameID (rs_reports (history calls) x)) = x"
proof -
  have u: "unat (word_of_nat x :: u64) = x" using x(2) w(2) by (simp add: unat_of_nat take_bit_nat_eq_self)
  let ?fs = "slot_frames calls (x mod 70)"
  have m: "word_of_nat x \<in> set ?fs"
    using w(1) [OF x] u by (auto simp: slot_frames_def report_slot_def FRAME_REPORTS_BUFFER_SIZE_def)
  then have ne: "?fs \<noteq> []" by auto
  have l: "last ?fs \<in> call_frame ` set calls" "unat (last ?fs) mod 70 = x mod 70"
    using last_in_set [OF ne] by (auto simp: slot_frames_def report_slot_def FRAME_REPORTS_BUFFER_SIZE_def)
  have "word_of_nat x \<le> last ?fs"
    using slot_frames_sorted [OF s] m by (rule sorted_le_last)
  then have "x \<le> unat (last ?fs)" using u by (simp add: word_le_nat_alt)
  moreover have "unat (last ?fs) < x + 70" using l(1) n x(1) by fastforce
  ultimately have "unat (last ?fs) = x" using l(2) by (rule window_slot)
  with ring_invariant [OF s] ne have "rs_reports (reports_after calls) (x mod 70) = rs_reports (history calls) x"
    by simp
  moreover have "fr_frameID (rs_reports (history calls) x) = word_of_nat x"
    using history_seen [OF w(1) [OF x]] u by simp
  ultimately show ?thesis using u by simp
qed

lemma wrapped_mod: "m < 70 \<Longrightarrow> k < 70 \<Longrightarrow> (m + k) mod 70 = (if m + k < 70 then m + k else m + k - (70::nat))"
  by (auto simp: le_mod_geq)

lemma copy_window:
  assumes r: "\<And>x. b \<le> x \<Longrightarrow> x < b + 70 \<Longrightarrow> reports (x mod 70) = h x \<and> unat (fr_frameID (h x)) = x"
  shows "copy_reports reports = map h [b..<b + 64]"
proof -
  define m where "m = b mod 70"
  have m: "m < 70" by (simp add: m_def)
  have k: "reports (if m + k < 70 then m + k else m + k - 70) = h (b + k)" if "k < 70" for k
  proof -
    have "(b + k) mod 70 = (m + k) mod 70" by (simp add: m_def mod_add_left_eq)
    with r [of "b + k"] that show ?thesis by (simp only: wrapped_mod [OF m that])
  qed
  have less: "fr_frameID (reports m) < fr_frameID (reports i)" if i: "i < 70" "i \<noteq> m" for i
  proof -
    define d where "d = (if m < i then i - m else i + 70 - m)"
    have d: "d < 70" "0 < d" "(if m + d < 70 then m + d else m + d - 70) = i" using i m by (auto simp: d_def)
    have "reports i = h (b + d)" using k [OF d(1)] d(3) by simp
    moreover have "reports m = h b" using k [of 0] m by simp
    ultimately show ?thesis
      using r [of b] r [of "b + d"] d(1,2) by (simp add: word_less_nat_alt)
  qed
  have o: "oldest_slot reports = m"
    unfolding oldest_slot_def
  proof (rule min_slot_strict)
    show "m \<in> insert 0 (set [1..<FRAME_REPORTS_BUFFER_SIZE])" using m by (auto simp: FRAME_REPORTS_BUFFER_SIZE_def)
    show "fr_frameID (reports m) < fr_frameID (reports i)"
      if "i \<in> insert 0 (set [1..<FRAME_REPORTS_BUFFER_SIZE])" "i \<noteq> m" for i
      using that by (intro less) (auto simp: FRAME_REPORTS_BUFFER_SIZE_def)
  qed
  show ?thesis
  proof (rule nth_equalityI)
    show "length (copy_reports reports) = length (map h [b..<b + 64])"
      by (simp add: copy_reports_def Let_def o NVAPI_BUFFER_SIZE_def)
    fix i
    assume "i < length (copy_reports reports)"
    then have i: "i < 64" by (simp add: copy_reports_def Let_def o NVAPI_BUFFER_SIZE_def)
    have "copy_reports reports ! i = reports (if m + i < 70 then m + i else m + i - 70)"
      using i m
      by (auto simp: copy_reports_def Let_def o NVAPI_BUFFER_SIZE_def FRAME_REPORTS_BUFFER_SIZE_def nth_append add.commute)
    also have "\<dots> = h (b + i)" using k i by simp
    finally show "copy_reports reports ! i = map h [b..<b + 64] ! i" using i by simp
  qed
qed


text \<open>C40
  The latency query answers with what the frames really reported, provided that the 70 ids up to the newest
  all occurred and no marker came for a frame 70 or more behind one reported before (the markers of up to 70
  frames may be interleaved): the 64 reports are then those of the 64 oldest of the 70 frames, in order, each
  exactly as a table that never reuses a slot would hold it.  Ids with gaps leave slots unfilled or old and
  are not covered.
\<close>

theorem latency_result_window:
  assumes "pipelined calls" and "\<forall>c\<in>set calls. unat (call_frame c) < b + 70"
    and "\<forall>x\<in>{b..<b + 70}. word_of_nat x \<in> call_frame ` set calls" and "b + 70 \<le> 2 ^ 64"
  shows "get_latency_result (reports_after calls) True = Some (map (rs_reports (history calls)) [b..<b + 64])"
proof -
  have r: "rs_reports (reports_after calls) (x mod 70) = rs_reports (history calls) x \<and>
      unat (fr_frameID (rs_reports (history calls) x)) = x" if "b \<le> x" "x < b + 70" for x
    using assms that by (intro window_reports) auto
  define x where "x = b + (69 - b mod 70)"
  have d: "b = b div 70 * 70 + b mod 70" "b mod 70 < 70" by simp_all
  then have x: "b \<le> x" "x < b + 70" "69 \<le> x" "x = b div 70 * 70 + 69" unfolding x_def by linarith+
  have "x mod 70 = 69" unfolding x(4) by simp
  with r [OF x(1,2)] x(3) have "fr_frameID (rs_reports (reports_after calls) 69) \<noteq> 0" by auto
  then show ?thesis
    using copy_window [of b "rs_reports (reports_after calls)" "rs_reports (history calls)"] r
    by (simp add: get_latency_result_def FRAME_REPORTS_BUFFER_SIZE_def)
qed

text \<open>Seventy frames; the present of frame 64 ends when the simulation of frame 66 has begun.\<close>

definition sample_start :: "nat \<Rightarrow> report_call" where
  "sample_start n = RC_D3D 1 (16000000 * word_of_nat n) SIMULATION_START (word_of_nat n)"

definition sample_markers :: "report_call list" where
  "sample_markers = map sample_start [1..<67] @ [RC_D3D 1 1059000000 PRESENT_END 64] @ map sample_start [67..<71]"

lemma sample_frames: "call_frame ` set sample_markers = word_of_nat ` {1..<71}"
proof -
  have "call_frame ` set sample_markers = word_of_nat ` ({1..<67} \<union> {64} \<union> {67..<71})"
    unfolding sample_markers_def set_append set_map image_Un image_image set_upt by (simp add: sample_start_def)
  also have "{1..<67} \<union> {64} \<union> {67..<71} = {1..<71 :: nat}" by auto
  finally show ?thesis .
qed

lemma sample_range: "\<forall>c\<in>set sample_markers. 1 \<le> unat (call_frame c) \<and> unat (call_frame c) < 1 + 70"
proof
  fix c
  assume "c \<in> set sample_markers"
  then have "call_frame c \<in> word_of_nat ` {1..<71}" unfolding sample_frames [symmetric] by (rule imageI)
  then show "1 \<le> unat (call_frame c) \<and> unat (call_frame c) < 1 + 70"
    by (auto simp: unat_of_nat take_bit_nat_eq_self)
qed

theorem latency_result_window_witness:
  "get_latency_result (reports_after sample_markers) True =
     Some (map (rs_reports (history sample_markers)) [1..<65]) \<and>
   fr_simStartTime (rs_reports (history sample_markers) 64) = 1024000 \<and>
   fr_presentEndTime (rs_reports (history sample_markers) 64) = 1059000"
proof -
  have "get_latency_result (reports_after sample_markers) True = Some (map (rs_reports (history sample_markers)) [1..<1 + 64])"
  proof (rule latency_result_window)
    show "pipelined sample_markers" by (rule near_pipelined [OF sample_range])
    show "\<forall>c\<in>set sample_markers. unat (call_frame c) < 1 + 70" using sample_range by blast
    show "\<forall>x\<in>{1..<1 + 70}. word_of_nat x \<in> call_frame ` set sample_markers" unfolding sample_frames by auto
  qed simp
  moreover have "fr_simStartTime (rs_reports (history sample_markers) 64) = 1024000" by code_simp
  moreover have "fr_presentEndTime (rs_reports (history sample_markers) 64) = 1059000" by code_simp
  ultimately show ?thesis by simp
qed

section \<open>The timings of the extension\<close>

lemma reports_in_slot:
  "fr_frameID (rs_reports (reports_after calls) j) \<noteq> 0 \<Longrightarrow>
   report_slot (fr_frameID (rs_reports (reports_after calls) j)) = j \<and>
   fr_frameID (rs_reports (reports_after calls) j) \<in> call_frame ` set calls"
proof (induction calls rule: rev_induct)
  case Nil
  then show ?case by (simp add: reports_after_def report_initial_def)
next
  case (snoc c calls)
  then show ?case by (cases "j = report_slot (call_frame c)") (auto simp: report_snoc report_step_eq)
qed

lemma timings_ascending:
  assumes "get_vulkan_latency_timings (reports_after calls) (Some c) = (k, rs)"
  shows "length rs = k" "k \<le> c" "sorted_wrt (<) (map fr_frameID rs)"
    "fr_frameID ` set rs \<subseteq> call_frame ` set calls - {0}"
proof -
  let ?held = "filter (\<lambda>r. fr_frameID r \<noteq> 0) (map (rs_reports (reports_after calls)) [0..<70])"
  have rs: "rs = take c (sort_key fr_frameID ?held)" and k: "k = min c (length ?held)"
    using assms by (simp_all add: get_vulkan_latency_timings_def Let_def FRAME_REPORTS_BUFFER_SIZE_def)
  show "length rs = k" "k \<le> c" using rs k by simp_all
  have "inj_on (\<lambda>j. fr_frameID (rs_reports (reports_after calls) j))
      {j. fr_frameID (rs_reports (reports_after calls) j) \<noteq> 0}"
    by (rule inj_onI) (metis (mono_tags, lifting) mem_Collect_eq reports_in_slot)
  then have "distinct (map (\<lambda>j. fr_frameID (rs_reports (reports_after calls) j))
      (filter (\<lambda>j. fr_frameID (rs_reports (reports_after calls) j) \<noteq> 0) [0..<70]))"
    by (simp only: distinct_map) (auto elim: inj_on_subset)
  then have "distinct (map fr_frameID ?held)" by (simp add: filter_map comp_def)
  then have "distinct (map fr_frameID (sort_key fr_frameID ?held))" by (simp add: distinct_map)
  then have "sorted_wrt (<) (map fr_frameID (sort_key fr_frameID ?held))"
    by (simp add: strict_sorted_iff)
  then show "sorted_wrt (<) (map fr_frameID rs)" unfolding rs by (simp add: take_map [symmetric] sorted_wrt_take)
  show "fr_frameID ` set rs \<subseteq> call_frame ` set calls - {0}"
    using reports_in_slot set_take_subset [of c "sort_key fr_frameID ?held"] unfolding rs by fastforce
qed

text \<open>
  The readiness test looks at the last slot only: a process whose first frame id is 69 modulo 70 is taken
  for one with a full ring, and is answered with empty reports that do not include that frame.
\<close>

lemma not_ready_reports:
  "get_latency_result (reports_after [RC_D3D 1 5000 SIMULATION_START 69]) True = Some (replicate 64 report_zero)"
  by code_simp

end
