(* ===== verification/VulkanCapabilities.thy ===== *)
theory VulkanCapabilities
  imports Prelude
begin

text \<open>
  The capability model of \<open>src/vulkan_capabilities.h\<close> and \<open>.cpp\<close>: one bit a capability in the words
  \<open>supported\<close>, \<open>enabled\<close> and \<open>enabled_known\<close>, filled by a probe of the physical device and by a reading
  of what the application enabled.  The driver is a parameter: its extension list and what it writes into
  each feature structure.  A structure chain is the list of its nodes, a node its \<open>sType\<close> and its members
  by name; the members of type \<open>VkBool32\<close> are words compared with \<open>VK_TRUE\<close>, which is 1.
  \<open>Count\<close>, the number of enumerators, is no value of the types.  The Vulkan headers define every
  extension name the code asks for with \<open>#ifdef\<close>.
\<close>

section \<open>Capabilities and their bits\<close>

datatype vulkan_capability =
    Vulkan13 | Vulkan14 | TimelineSemaphore | Synchronization2 | DynamicRendering
  | DynamicRenderingLocalRead | ExtendedDynamicState1 | ExtendedDynamicState2 | ExtendedDynamicState2LogicOp
  | ExtendedDynamicState2PatchControlPoints | ExtendedDynamicState3 | DescriptorBuffer
  | GraphicsPipelineLibrary | ShaderModuleIdentifier | UnifiedImageLayouts | CalibratedTimestamps
  | Maintenance5 | Maintenance6 | PipelineRobustness | PresentId | PresentId2 | PresentWait | PresentWait2
  | PresentTiming

primrec capability_index :: "vulkan_capability \<Rightarrow> nat" where
  "capability_index Vulkan13 = 0"
| "capability_index Vulkan14 = 1"
| "capability_index TimelineSemaphore = 2"
| "capability_index Synchronization2 = 3"
| "capability_index DynamicRendering = 4"
| "capability_index DynamicRenderingLocalRead = 5"
| "capability_index ExtendedDynamicState1 = 6"
| "capability_index ExtendedDynamicState2 = 7"
| "capability_index ExtendedDynamicState2LogicOp = 8"
| "capability_index ExtendedDynamicState2PatchControlPoints = 9"
| "capability_index ExtendedDynamicState3 = 10"
| "capability_index DescriptorBuffer = 11"
| "capability_index GraphicsPipelineLibrary = 12"
| "capability_index ShaderModuleIdentifier = 13"
| "capability_index UnifiedImageLayouts = 14"
| "capability_index CalibratedTimestamps = 15"
| "capability_index Maintenance5 = 16"
| "capability_index Maintenance6 = 17"
| "capability_index PipelineRobustness = 18"
| "capability_index PresentId = 19"
| "capability_index PresentId2 = 20"
| "capability_index PresentWait = 21"
| "capability_index PresentWait2 = 22"
| "capability_index PresentTiming = 23"

datatype eds3_feature =
    TessellationDomainOrigin | DepthClampEnable | PolygonMode | RasterizationSamples | SampleMask
  | AlphaToCoverageEnable | AlphaToOneEnable | LogicOpEnable | ColorBlendEnable | ColorBlendEquation
  | ColorWriteMask | RasterizationStream | ConservativeRasterizationMode | ExtraPrimitiveOverestimationSize
  | DepthClipEnable | SampleLocationsEnable | ColorBlendAdvanced | ProvokingVertexMode
  | LineRasterizationMode | LineStippleEnable | DepthClipNegativeOneToOne | ViewportWScalingEnable
  | ViewportSwizzle | CoverageToColorEnable | CoverageToColorLocation | CoverageModulationMode
  | CoverageModulationTableEnable | CoverageModulationTable | CoverageReductionMode
  | RepresentativeFragmentTestEnable | ShadingRateImageEnable

primrec eds3_index :: "eds3_feature \<Rightarrow> nat" where
  "eds3_index TessellationDomainOrigin = 0"
| "eds3_index DepthClampEnable = 1"
| "eds3_index PolygonMode = 2"
| "eds3_index RasterizationSamples = 3"
| "eds3_index SampleMask = 4"
| "eds3_index AlphaToCoverageEnable = 5"
| "eds3_index AlphaToOneEnable = 6"
| "eds3_index LogicOpEnable = 7"
| "eds3_index ColorBlendEnable = 8"
| "eds3_index ColorBlendEquation = 9"
| "eds3_index ColorWriteMask = 10"
| "eds3_index RasterizationStream = 11"
| "eds3_index ConservativeRasterizationMode = 12"
| "eds3_index ExtraPrimitiveOverestimationSize = 13"
| "eds3_index DepthClipEnable = 14"
| "eds3_index SampleLocationsEnable = 15"
| "eds3_index ColorBlendAdvanced = 16"
| "eds3_index ProvokingVertexMode = 17"
| "eds3_index LineRasterizationMode = 18"
| "eds3_index LineStippleEnable = 19"
| "eds3_index DepthClipNegativeOneToOne = 20"
| "eds3_index ViewportWScalingEnable = 21"
| "eds3_index ViewportSwizzle = 22"
| "eds3_index CoverageToColorEnable = 23"
| "eds3_index CoverageToColorLocation = 24"
| "eds3_index CoverageModulationMode = 25"
| "eds3_index CoverageModulationTableEnable = 26"
| "eds3_index CoverageModulationTable = 27"
| "eds3_index CoverageReductionMode = 28"
| "eds3_index RepresentativeFragmentTestEnable = 29"
| "eds3_index ShadingRateImageEnable = 30"

definition vulkan_capability_bit :: "vulkan_capability \<Rightarrow> u64" where
  "vulkan_capability_bit c = shl1 (capability_index c)"

definition vulkan_eds3_bit :: "eds3_feature \<Rightarrow> u64" where
  "vulkan_eds3_bit f = shl1 (eds3_index f)"

primrec vulkan_capability_name :: "vulkan_capability \<Rightarrow> string" where
  "vulkan_capability_name Vulkan13 = ''vulkan13''"
| "vulkan_capability_name Vulkan14 = ''vulkan14''"
| "vulkan_capability_name TimelineSemaphore = ''timeline_semaphore''"
| "vulkan_capability_name Synchronization2 = ''synchronization2''"
| "vulkan_capability_name DynamicRendering = ''dynamic_rendering''"
| "vulkan_capability_name DynamicRenderingLocalRead = ''dynamic_rendering_local_read''"
| "vulkan_capability_name ExtendedDynamicState1 = ''eds1''"
| "vulkan_capability_name ExtendedDynamicState2 = ''eds2''"
| "vulkan_capability_name ExtendedDynamicState2LogicOp = ''eds2_logic_op''"
| "vulkan_capability_name ExtendedDynamicState2PatchControlPoints = ''eds2_patch_control_points''"
| "vulkan_capability_name ExtendedDynamicState3 = ''eds3''"
| "vulkan_capability_name DescriptorBuffer = ''descriptor_buffer''"
| "vulkan_capability_name GraphicsPipelineLibrary = ''graphics_pipeline_library''"
| "vulkan_capability_name ShaderModuleIdentifier = ''shader_module_identifier''"
| "vulkan_capability_name UnifiedImageLayouts = ''unified_image_layouts''"
| "vulkan_capability_name CalibratedTimestamps = ''calibrated_timestamps''"
| "vulkan_capability_name Maintenance5 = ''maintenance5''"
| "vulkan_capability_name Maintenance6 = ''maintenance6''"
| "vulkan_capability_name PipelineRobustness = ''pipeline_robustness''"
| "vulkan_capability_name PresentId = ''present_id''"
| "vulkan_capability_name PresentId2 = ''present_id2''"
| "vulkan_capability_name PresentWait = ''present_wait''"
| "vulkan_capability_name PresentWait2 = ''present_wait2''"
| "vulkan_capability_name PresentTiming = ''present_timing''"

primrec vulkan_eds3_feature_name :: "eds3_feature \<Rightarrow> string" where
  "vulkan_eds3_feature_name TessellationDomainOrigin = ''tessellationDomainOrigin''"
| "vulkan_eds3_feature_name DepthClampEnable = ''depthClampEnable''"
| "vulkan_eds3_feature_name PolygonMode = ''polygonMode''"
| "vulkan_eds3_feature_name RasterizationSamples = ''rasterizationSamples''"
| "vulkan_eds3_feature_name SampleMask = ''sampleMask''"
| "vulkan_eds3_feature_name AlphaToCoverageEnable = ''alphaToCoverageEnable''"
| "vulkan_eds3_feature_name AlphaToOneEnable = ''alphaToOneEnable''"
| "vulkan_eds3_feature_name LogicOpEnable = ''logicOpEnable''"
| "vulkan_eds3_feature_name ColorBlendEnable = ''colorBlendEnable''"
| "vulkan_eds3_feature_name ColorBlendEquation = ''colorBlendEquation''"
| "vulkan_eds3_feature_name ColorWriteMask = ''colorWriteMask''"
| "vulkan_eds3_feature_name RasterizationStream = ''rasterizationStream''"
| "vulkan_eds3_feature_name ConservativeRasterizationMode = ''conservativeRasterizationMode''"
| "vulkan_eds3_feature_name ExtraPrimitiveOverestimationSize = ''extraPrimitiveOverestimationSize''"
| "vulkan_eds3_feature_name DepthClipEnable = ''depthClipEnable''"
| "vulkan_eds3_feature_name SampleLocationsEnable = ''sampleLocationsEnable''"
| "vulkan_eds3_feature_name ColorBlendAdvanced = ''colorBlendAdvanced''"
| "vulkan_eds3_feature_name ProvokingVertexMode = ''provokingVertexMode''"
| "vulkan_eds3_feature_name LineRasterizationMode = ''lineRasterizationMode''"
| "vulkan_eds3_feature_name LineStippleEnable = ''lineStippleEnable''"
| "vulkan_eds3_feature_name DepthClipNegativeOneToOne = ''depthClipNegativeOneToOne''"
| "vulkan_eds3_feature_name ViewportWScalingEnable = ''viewportWScalingEnable''"
| "vulkan_eds3_feature_name ViewportSwizzle = ''viewportSwizzle''"
| "vulkan_eds3_feature_name CoverageToColorEnable = ''coverageToColorEnable''"
| "vulkan_eds3_feature_name CoverageToColorLocation = ''coverageToColorLocation''"
| "vulkan_eds3_feature_name CoverageModulationMode = ''coverageModulationMode''"
| "vulkan_eds3_feature_name CoverageModulationTableEnable = ''coverageModulationTableEnable''"
| "vulkan_eds3_feature_name CoverageModulationTable = ''coverageModulationTable''"
| "vulkan_eds3_feature_name CoverageReductionMode = ''coverageReductionMode''"
| "vulkan_eds3_feature_name RepresentativeFragmentTestEnable = ''representativeFragmentTestEnable''"
| "vulkan_eds3_feature_name ShadingRateImageEnable = ''shadingRateImageEnable''"

record capability_snapshot =
  cs_api_version :: u32
  cs_driver_version :: u32
  cs_vendor_id :: u32
  cs_device_id :: u32
  cs_supported :: u64
  cs_enabled :: u64
  cs_enabled_known :: u64
  cs_eds3_supported :: u64
  cs_eds3_enabled :: u64
  cs_eds3_enabled_known :: u64
  cs_support_probe_complete :: bool

definition capability_zero :: capability_snapshot where
  "capability_zero = \<lparr>cs_api_version = 0, cs_driver_version = 0, cs_vendor_id = 0, cs_device_id = 0,
     cs_supported = 0, cs_enabled = 0, cs_enabled_known = 0, cs_eds3_supported = 0, cs_eds3_enabled = 0,
     cs_eds3_enabled_known = 0, cs_support_probe_complete = False\<rparr>"

definition supports :: "capability_snapshot \<Rightarrow> vulkan_capability \<Rightarrow> bool" where
  "supports s c \<longleftrightarrow> cs_supported s AND vulkan_capability_bit c \<noteq> 0"

definition knows_enabled :: "capability_snapshot \<Rightarrow> vulkan_capability \<Rightarrow> bool" where
  "knows_enabled s c \<longleftrightarrow> cs_enabled_known s AND vulkan_capability_bit c \<noteq> 0"

definition is_enabled :: "capability_snapshot \<Rightarrow> vulkan_capability \<Rightarrow> bool" where
  "is_enabled s c \<longleftrightarrow> knows_enabled s c \<and> cs_enabled s AND vulkan_capability_bit c \<noteq> 0"

definition supports_eds3 :: "capability_snapshot \<Rightarrow> eds3_feature \<Rightarrow> bool" where
  "supports_eds3 s f \<longleftrightarrow> cs_eds3_supported s AND vulkan_eds3_bit f \<noteq> 0"

definition knows_enabled_eds3 :: "capability_snapshot \<Rightarrow> eds3_feature \<Rightarrow> bool" where
  "knows_enabled_eds3 s f \<longleftrightarrow> cs_eds3_enabled_known s AND vulkan_eds3_bit f \<noteq> 0"

definition is_enabled_eds3 :: "capability_snapshot \<Rightarrow> eds3_feature \<Rightarrow> bool" where
  "is_enabled_eds3 s f \<longleftrightarrow> knows_enabled_eds3 s f \<and> cs_eds3_enabled s AND vulkan_eds3_bit f \<noteq> 0"

text \<open>The loop that counts the bits of a mask, of the compilers without a builtin.\<close>

function eds3_count_loop :: "nat \<Rightarrow> u64 \<Rightarrow> nat" where
  "eds3_count_loop n bits =
     (if bits = 0 then n else eds3_count_loop (n + unat (bits AND 1)) (drop_bit 1 bits))"
  by auto

termination
proof (relation "measure (\<lambda>(n, bits). unat bits)")
  fix n :: nat and bits :: u64
  assume "bits \<noteq> 0"
  then have "unat bits div 2 < unat bits" by (simp add: unat_gt_0)
  then show "((n + unat (bits AND 1), drop_bit 1 bits), (n, bits)) \<in> measure (\<lambda>(n, bits). unat bits)"
    by (simp add: drop_bit_eq_div unat_div)
qed simp

declare eds3_count_loop.simps [simp del]

definition vulkan_eds3_feature_count :: "u64 \<Rightarrow> nat" where
  "vulkan_eds3_feature_count bits = eds3_count_loop 0 bits"

section \<open>Setting and clearing bits\<close>

definition set_supported :: "vulkan_capability \<Rightarrow> bool \<Rightarrow> capability_snapshot \<Rightarrow> capability_snapshot" where
  "set_supported c v s =
     (if v then s\<lparr>cs_supported := cs_supported s OR vulkan_capability_bit c\<rparr>
      else s\<lparr>cs_supported := cs_supported s AND NOT (vulkan_capability_bit c)\<rparr>)"

definition set_enabled_known :: "vulkan_capability \<Rightarrow> bool \<Rightarrow> capability_snapshot \<Rightarrow> capability_snapshot" where
  "set_enabled_known c v s =
     (let s = s\<lparr>cs_enabled_known := cs_enabled_known s OR vulkan_capability_bit c\<rparr> in
      if v then s\<lparr>cs_enabled := cs_enabled s OR vulkan_capability_bit c\<rparr>
      else s\<lparr>cs_enabled := cs_enabled s AND NOT (vulkan_capability_bit c)\<rparr>)"

text \<open>A sequence of such statements.\<close>

definition set_supported_all :: "(vulkan_capability \<times> bool) list \<Rightarrow> capability_snapshot \<Rightarrow> capability_snapshot" where
  "set_supported_all cs s = fold (\<lambda>(c, v). set_supported c v) cs s"

definition set_enabled_all :: "(vulkan_capability \<times> bool) list \<Rightarrow> capability_snapshot \<Rightarrow> capability_snapshot" where
  "set_enabled_all cs s = fold (\<lambda>(c, v). set_enabled_known c v) cs s"

section \<open>Extension lists and structure chains\<close>

text \<open>\<open>has_extension\<close> reads the first entries of an array, \<open>has_enabled_extension\<close> skips null entries.\<close>

definition has_extension :: "string list \<Rightarrow> nat \<Rightarrow> string \<Rightarrow> bool" where
  "has_extension extensions count name = list_ex (\<lambda>e. e = name) (take count extensions)"

definition has_enabled_extension :: "string option list \<Rightarrow> string \<Rightarrow> bool" where
  "has_enabled_extension extensions name = list_ex (\<lambda>e. e = Some name) extensions"

datatype structure_type =
    Vulkan12Features | Vulkan13Features | Vulkan14Features | TimelineSemaphoreFeatures
  | Synchronization2Features | DynamicRenderingFeatures | ExtendedDynamicStateFeatures
  | ExtendedDynamicState2Features | ExtendedDynamicState3Features | DescriptorBufferFeatures
  | GraphicsPipelineLibraryFeatures | ShaderModuleIdentifierFeatures | UnifiedImageLayoutsFeatures
  | DynamicRenderingLocalReadFeatures | Maintenance5Features | Maintenance6Features
  | PipelineRobustnessFeatures | PresentIdFeatures | PresentWaitFeatures | PresentId2Features
  | PresentWait2Features | PresentTimingFeatures | AntiLagFeatures | OtherStructure nat

datatype member =
    M_timelineSemaphore | M_synchronization2 | M_dynamicRendering | M_dynamicRenderingLocalRead
  | M_maintenance5 | M_maintenance6 | M_pipelineRobustness | M_extendedDynamicState
  | M_extendedDynamicState2 | M_extendedDynamicState2LogicOp | M_extendedDynamicState2PatchControlPoints
  | M_descriptorBuffer | M_graphicsPipelineLibrary | M_shaderModuleIdentifier | M_unifiedImageLayouts
  | M_presentId | M_presentId2 | M_presentWait | M_presentWait2 | M_presentTiming | M_antiLag
  | M_extendedDynamicState3 eds3_feature

type_synonym members = "member \<Rightarrow> u32"

type_synonym chain = "(structure_type \<times> members) list"

fun find_structure :: "chain \<Rightarrow> structure_type \<Rightarrow> members option" where
  "find_structure [] t = None"
| "find_structure ((u, m) # chain) t = (if u = t then Some m else find_structure chain t)"

text \<open>\<open>node && node->member == VK_TRUE\<close>\<close>

definition node_true :: "members option \<Rightarrow> member \<Rightarrow> bool" where
  "node_true node x = (case node of None \<Rightarrow> False | Some m \<Rightarrow> m x = 1)"

definition eds3_features :: "eds3_feature list" where
  "eds3_features = [
     TessellationDomainOrigin, DepthClampEnable, PolygonMode, RasterizationSamples, SampleMask
  , AlphaToCoverageEnable, AlphaToOneEnable, LogicOpEnable, ColorBlendEnable, ColorBlendEquation
  , ColorWriteMask, RasterizationStream, ConservativeRasterizationMode, ExtraPrimitiveOverestimationSize
  , DepthClipEnable, SampleLocationsEnable, ColorBlendAdvanced, ProvokingVertexMode, LineRasterizationMode
  , LineStippleEnable, DepthClipNegativeOneToOne, ViewportWScalingEnable, ViewportSwizzle
  , CoverageToColorEnable, CoverageToColorLocation, CoverageModulationMode, CoverageModulationTableEnable
  , CoverageModulationTable, CoverageReductionMode, RepresentativeFragmentTestEnable, ShadingRateImageEnable]"


definition eds3_mask_from :: "members \<Rightarrow> u64" where
  "eds3_mask_from m =
     fold (\<lambda>f bits. if m (M_extendedDynamicState3 f) = 1 then bits OR vulkan_eds3_bit f else bits) eds3_features 0"

abbreviation api_1_2 :: u32 where "api_1_2 \<equiv> 4202496"
abbreviation api_1_3 :: u32 where "api_1_3 \<equiv> 4206592"
abbreviation api_1_4 :: u32 where "api_1_4 \<equiv> 4210688"

section \<open>What the application enabled\<close>

text \<open>\<open>core ? core->member == VK_TRUE : (node ? node->member == VK_TRUE : false)\<close>\<close>

definition promoted_true :: "members option \<Rightarrow> members option \<Rightarrow> member \<Rightarrow> bool" where
  "promoted_true core node x = (case core of Some m \<Rightarrow> m x = 1 | None \<Rightarrow> node_true node x)"

definition observe_vulkan_enabled_state ::
  "string option list \<Rightarrow> chain \<Rightarrow> capability_snapshot \<Rightarrow> capability_snapshot" where
  "observe_vulkan_enabled_state extensions chain s =
     (let vk13 = api_1_3 \<le> cs_api_version s;
          vk14 = api_1_4 \<le> cs_api_version s;
          enabled = has_enabled_extension extensions;
          node = find_structure chain;
          eds1 = node ExtendedDynamicStateFeatures;
          eds2 = node ExtendedDynamicState2Features;
          s = set_enabled_all [
            (Vulkan13, vk13),
            (Vulkan14, vk14),
            (ExtendedDynamicState1, vk13 \<or> (enabled ''VK_EXT_extended_dynamic_state'' \<and>
               node_true eds1 M_extendedDynamicState)),
            (ExtendedDynamicState2, vk13 \<or> (enabled ''VK_EXT_extended_dynamic_state2'' \<and>
               node_true eds2 M_extendedDynamicState2))] s;
          f12 = node Vulkan12Features;
          f13 = node Vulkan13Features;
          f14 = node Vulkan14Features;
          s = set_enabled_all [
            (TimelineSemaphore, promoted_true f12 (node TimelineSemaphoreFeatures) M_timelineSemaphore),
            (Synchronization2, promoted_true f13 (node Synchronization2Features) M_synchronization2),
            (DynamicRendering, promoted_true f13 (node DynamicRenderingFeatures) M_dynamicRendering),
            (DynamicRenderingLocalRead, promoted_true f14 (node DynamicRenderingLocalReadFeatures) M_dynamicRenderingLocalRead),
            (Maintenance5, promoted_true f14 (node Maintenance5Features) M_maintenance5),
            (Maintenance6, promoted_true f14 (node Maintenance6Features) M_maintenance6),
            (PipelineRobustness, promoted_true f14 (node PipelineRobustnessFeatures) M_pipelineRobustness)] s;
          eds2_enabled = enabled ''VK_EXT_extended_dynamic_state2'';
          eds3_enabled = enabled ''VK_EXT_extended_dynamic_state3'';
          eds3 = node ExtendedDynamicState3Features;
          s = set_enabled_all [
            (ExtendedDynamicState2LogicOp, eds2_enabled \<and> node_true eds2 M_extendedDynamicState2LogicOp),
            (ExtendedDynamicState2PatchControlPoints,
               eds2_enabled \<and> node_true eds2 M_extendedDynamicState2PatchControlPoints),
            (ExtendedDynamicState3, eds3_enabled)] s;
          s = s\<lparr>cs_eds3_enabled_known := drop_bit (64 - 31) (- 1),
                cs_eds3_enabled := (case eds3 of None \<Rightarrow> 0 | Some m \<Rightarrow> if eds3_enabled then eds3_mask_from m else 0)\<rparr>
      in set_enabled_all [
            (DescriptorBuffer, enabled ''VK_EXT_descriptor_buffer'' \<and>
               node_true (node DescriptorBufferFeatures) M_descriptorBuffer),
            (GraphicsPipelineLibrary, enabled ''VK_EXT_graphics_pipeline_library'' \<and>
               node_true (node GraphicsPipelineLibraryFeatures) M_graphicsPipelineLibrary),
            (ShaderModuleIdentifier, enabled ''VK_EXT_shader_module_identifier'' \<and>
               node_true (node ShaderModuleIdentifierFeatures) M_shaderModuleIdentifier),
            (UnifiedImageLayouts, enabled ''VK_KHR_unified_image_layouts'' \<and>
               node_true (node UnifiedImageLayoutsFeatures) M_unifiedImageLayouts),
            (CalibratedTimestamps, enabled ''VK_KHR_calibrated_timestamps'' \<or> enabled ''VK_EXT_calibrated_timestamps''),
            (PresentId, enabled ''VK_KHR_present_id'' \<and> node_true (node PresentIdFeatures) M_presentId),
            (PresentWait, enabled ''VK_KHR_present_wait'' \<and> node_true (node PresentWaitFeatures) M_presentWait),
            (PresentId2, enabled ''VK_KHR_present_id2'' \<and> node_true (node PresentId2Features) M_presentId2),
            (PresentWait2, enabled ''VK_KHR_present_wait2'' \<and> node_true (node PresentWait2Features) M_presentWait2),
            (PresentTiming, enabled ''VK_EXT_present_timing'' \<and>
               node_true (node PresentTimingFeatures) M_presentTiming)] s)"

text \<open>A null array of names counts as an empty one.\<close>

definition observe_vulkan_device_create_info ::
  "string option list option \<Rightarrow> chain \<Rightarrow> capability_snapshot \<Rightarrow> capability_snapshot" where
  "observe_vulkan_device_create_info names chain s =
     observe_vulkan_enabled_state (case names of None \<Rightarrow> [] | Some es \<Rightarrow> es) chain s"

section \<open>What the physical device offers\<close>

record device_properties =
  dp_api_version :: u32
  dp_driver_version :: u32
  dp_vendor_id :: u32
  dp_device_id :: u32

text \<open>
  \<open>vkEnumerateDeviceExtensionProperties\<close>: the answer to the query for the number, and to the query for
  the names with a capacity (success, the number written, the names).
\<close>

record extension_query =
  eq_count :: "bool \<times> u32"
  eq_names :: "u32 \<Rightarrow> bool \<times> u32 \<times> string list"

text \<open>The entry points, null when absent; the features are what the driver writes into a chain.\<close>

record probe_dispatch =
  pd_properties :: "(nat \<Rightarrow> device_properties) option"
  pd_features2 :: "(nat \<Rightarrow> structure_type list \<Rightarrow> structure_type \<Rightarrow> members) option"
  pd_extensions :: "(nat \<Rightarrow> extension_query) option"

text \<open>The array of 512 properties after the two queries, the number of entries read, and completeness.\<close>

definition enumerate_extensions :: "probe_dispatch \<Rightarrow> nat \<Rightarrow> string list \<times> nat \<times> bool" where
  "enumerate_extensions d device =
     (case pd_extensions d of
        None \<Rightarrow> (replicate 512 [], 0, False)
      | Some q \<Rightarrow>
          (case eq_count (q device) of
             (ok, reported) \<Rightarrow>
               if \<not> ok then (replicate 512 [], 0, False)
               else let capacity = min reported 512 in
                 if capacity = 0 then (replicate 512 [], 0, True)
                 else case eq_names (q device) capacity of
                   (ok, written, names) \<Rightarrow>
                     (take 512 (names @ replicate 512 []), unat (min written 512), ok \<and> reported \<le> 512)))"

text \<open>The structures the probe chains to \<open>VkPhysicalDeviceFeatures2\<close>.\<close>

definition probe_chain :: "u32 \<Rightarrow> (string \<Rightarrow> bool) \<Rightarrow> structure_type list" where
  "probe_chain api ext =
     (if api_1_2 \<le> api then [Vulkan12Features]
      else if ext ''VK_KHR_timeline_semaphore'' then [TimelineSemaphoreFeatures] else []) @
     (if api_1_3 \<le> api then [Vulkan13Features]
      else (if ext ''VK_KHR_synchronization2'' then [Synchronization2Features] else []) @
        (if ext ''VK_KHR_dynamic_rendering'' then [DynamicRenderingFeatures] else [])) @
     (if api_1_4 \<le> api then [Vulkan14Features]
      else (if ext ''VK_KHR_dynamic_rendering_local_read'' then [DynamicRenderingLocalReadFeatures] else []) @
        (if ext ''VK_KHR_maintenance5'' then [Maintenance5Features] else []) @
        (if ext ''VK_KHR_maintenance6'' then [Maintenance6Features] else []) @
        (if ext ''VK_EXT_pipeline_robustness'' then [PipelineRobustnessFeatures] else [])) @
     (if ext ''VK_EXT_extended_dynamic_state'' then [ExtendedDynamicStateFeatures] else []) @
     (if ext ''VK_EXT_extended_dynamic_state2'' then [ExtendedDynamicState2Features] else []) @
     (if ext ''VK_EXT_extended_dynamic_state3'' then [ExtendedDynamicState3Features] else []) @
     (if ext ''VK_EXT_descriptor_buffer'' then [DescriptorBufferFeatures] else []) @
     (if ext ''VK_EXT_graphics_pipeline_library'' then [GraphicsPipelineLibraryFeatures] else []) @
     (if ext ''VK_EXT_shader_module_identifier'' then [ShaderModuleIdentifierFeatures] else []) @
     (if ext ''VK_KHR_unified_image_layouts'' then [UnifiedImageLayoutsFeatures] else []) @
     (if ext ''VK_KHR_present_id'' then [PresentIdFeatures] else []) @
     (if ext ''VK_KHR_present_wait'' then [PresentWaitFeatures] else []) @
     (if ext ''VK_KHR_present_id2'' then [PresentId2Features] else []) @
     (if ext ''VK_KHR_present_wait2'' then [PresentWait2Features] else []) @
     (if ext ''VK_EXT_present_timing'' then [PresentTimingFeatures] else [])"

text \<open>The local structures after the call: those not chained keep their zero initialisation.\<close>

definition structures_after :: "structure_type list \<Rightarrow> (structure_type \<Rightarrow> members) \<Rightarrow> structure_type \<Rightarrow> members" where
  "structures_after types driver t = (if t \<in> set types then driver t else (\<lambda>x. 0))"

text \<open>\<open>version ? core.member == VK_TRUE : extension.member == VK_TRUE\<close>\<close>

definition promoted_member :: "(structure_type \<Rightarrow> members) \<Rightarrow> bool \<Rightarrow> structure_type \<Rightarrow> structure_type \<Rightarrow> member \<Rightarrow> bool" where
  "promoted_member st v f t x = (if v then st f x = 1 else st t x = 1)"

definition probe_vulkan_capability_support ::
  "nat \<Rightarrow> probe_dispatch \<Rightarrow> capability_snapshot \<Rightarrow> capability_snapshot \<times> bool" where
  "probe_vulkan_capability_support device d snapshot =
     (case (if device = 0 then None else pd_properties d) of
        None \<Rightarrow> (snapshot, False)
      | Some properties \<Rightarrow>
         (let p = properties device;
              api = dp_api_version p;
              s = capability_zero\<lparr>cs_api_version := api, cs_driver_version := dp_driver_version p,
                    cs_vendor_id := dp_vendor_id p, cs_device_id := dp_device_id p\<rparr>;
              vk12 = api_1_2 \<le> api;
              vk13 = api_1_3 \<le> api;
              vk14 = api_1_4 \<le> api;
              s = set_supported_all [(Vulkan13, vk13), (Vulkan14, vk14)] s;
              s = set_enabled_all [(Vulkan13, vk13), (Vulkan14, vk14)] s
          in case enumerate_extensions d device of
            (extensions, count, complete) \<Rightarrow>
             (let s = s\<lparr>cs_support_probe_complete := complete\<rparr>;
                  ext = has_extension extensions count;
                  s = set_supported CalibratedTimestamps
                        (ext ''VK_KHR_calibrated_timestamps'' \<or> ext ''VK_EXT_calibrated_timestamps'') s
              in case pd_features2 d of
                None \<Rightarrow>
                  (set_enabled_all [(ExtendedDynamicState1, vk13), (ExtendedDynamicState2, vk13)]
                     (set_supported_all [(ExtendedDynamicState1, vk13), (ExtendedDynamicState2, vk13)] s), True)
              | Some features2 \<Rightarrow>
                 (let types = probe_chain api ext;
                      st = structures_after types (features2 device types);
                      core = promoted_member st;
                      s = set_supported_all [
                        (TimelineSemaphore, core vk12 Vulkan12Features TimelineSemaphoreFeatures M_timelineSemaphore),
                        (Synchronization2, core vk13 Vulkan13Features Synchronization2Features M_synchronization2),
                        (DynamicRendering, core vk13 Vulkan13Features DynamicRenderingFeatures M_dynamicRendering),
                        (DynamicRenderingLocalRead,
                           core vk14 Vulkan14Features DynamicRenderingLocalReadFeatures M_dynamicRenderingLocalRead),
                        (Maintenance5, core vk14 Vulkan14Features Maintenance5Features M_maintenance5),
                        (Maintenance6, core vk14 Vulkan14Features Maintenance6Features M_maintenance6),
                        (PipelineRobustness, core vk14 Vulkan14Features PipelineRobustnessFeatures M_pipelineRobustness),
                        (ExtendedDynamicState1, vk13 \<or> (ext ''VK_EXT_extended_dynamic_state'' \<and>
                           st ExtendedDynamicStateFeatures M_extendedDynamicState = 1)),
                        (ExtendedDynamicState2, vk13 \<or> (ext ''VK_EXT_extended_dynamic_state2'' \<and>
                           st ExtendedDynamicState2Features M_extendedDynamicState2 = 1)),
                        (ExtendedDynamicState2LogicOp, ext ''VK_EXT_extended_dynamic_state2'' \<and>
                           st ExtendedDynamicState2Features M_extendedDynamicState2LogicOp = 1),
                        (ExtendedDynamicState2PatchControlPoints, ext ''VK_EXT_extended_dynamic_state2'' \<and>
                           st ExtendedDynamicState2Features M_extendedDynamicState2PatchControlPoints = 1)] s;
                      s = (if ext ''VK_EXT_extended_dynamic_state3''
                           then (set_supported ExtendedDynamicState3 True s)
                             \<lparr>cs_eds3_supported := eds3_mask_from (st ExtendedDynamicState3Features)\<rparr>
                           else s);
                      s = set_supported_all [
                        (DescriptorBuffer, ext ''VK_EXT_descriptor_buffer'' \<and>
                           st DescriptorBufferFeatures M_descriptorBuffer = 1),
                        (GraphicsPipelineLibrary, ext ''VK_EXT_graphics_pipeline_library'' \<and>
                           st GraphicsPipelineLibraryFeatures M_graphicsPipelineLibrary = 1),
                        (ShaderModuleIdentifier, ext ''VK_EXT_shader_module_identifier'' \<and>
                           st ShaderModuleIdentifierFeatures M_shaderModuleIdentifier = 1),
                        (UnifiedImageLayouts, ext ''VK_KHR_unified_image_layouts'' \<and>
                           st UnifiedImageLayoutsFeatures M_unifiedImageLayouts = 1),
                        (PresentId, ext ''VK_KHR_present_id'' \<and> st PresentIdFeatures M_presentId = 1),
                        (PresentWait, ext ''VK_KHR_present_wait'' \<and> st PresentWaitFeatures M_presentWait = 1),
                        (PresentId2, ext ''VK_KHR_present_id2'' \<and> st PresentId2Features M_presentId2 = 1),
                        (PresentWait2, ext ''VK_KHR_present_wait2'' \<and> st PresentWait2Features M_presentWait2 = 1),
                        (PresentTiming, ext ''VK_EXT_present_timing'' \<and>
                           st PresentTimingFeatures M_presentTiming = 1)] s
                  in (if vk13 then set_enabled_all [(ExtendedDynamicState1, True), (ExtendedDynamicState2, True)] s
                      else s, True)))))"

section \<open>Bits\<close>

lemma capability_index_less [simp]: "capability_index c < 64"
  by (cases c) simp_all

lemma eds3_index_less [simp]: "eds3_index f < 31"
  by (cases f) simp_all

text \<open>The enumerators in order, which an index finds again.\<close>

definition capabilities :: "vulkan_capability list" where
  "capabilities = [
     Vulkan13, Vulkan14, TimelineSemaphore, Synchronization2, DynamicRendering, DynamicRenderingLocalRead,
     ExtendedDynamicState1, ExtendedDynamicState2, ExtendedDynamicState2LogicOp,
     ExtendedDynamicState2PatchControlPoints, ExtendedDynamicState3, DescriptorBuffer,
     GraphicsPipelineLibrary, ShaderModuleIdentifier, UnifiedImageLayouts, CalibratedTimestamps,
     Maintenance5, Maintenance6, PipelineRobustness, PresentId, PresentId2, PresentWait, PresentWait2,
     PresentTiming]"

lemma capability_of_index: "capabilities ! capability_index c = c"
  by (cases c) (simp_all add: capabilities_def)

lemma eds3_of_index: "eds3_features ! eds3_index f = f"
  by (cases f) (simp_all add: eds3_features_def)

lemma capability_index_inj [simp]: "capability_index c = capability_index d \<longleftrightarrow> c = d"
  by (metis capability_of_index)

lemma eds3_index_inj [simp]: "eds3_index f = eds3_index g \<longleftrightarrow> f = g"
  by (metis eds3_of_index)

lemma eds3_features_all [simp]: "f \<in> set eds3_features"
proof -
  have "length eds3_features = 31" by (simp add: eds3_features_def)
  then have "eds3_features ! eds3_index f \<in> set eds3_features" by (intro nth_mem) simp
  then show ?thesis by (simp add: eds3_of_index)
qed

lemma and_capability_bit: "x AND vulkan_capability_bit c \<noteq> 0 \<longleftrightarrow> bit x (capability_index c)"
  by (simp add: vulkan_capability_bit_def and_shl1_eq_0_iff)

lemma and_eds3_bit: "x AND vulkan_eds3_bit f \<noteq> 0 \<longleftrightarrow> bit x (eds3_index f)"
  by (simp add: vulkan_eds3_bit_def and_shl1_eq_0_iff)

lemmas capability_bits = supports_def knows_enabled_def is_enabled_def and_capability_bit

lemma bit_or_capability: "bit (x OR vulkan_capability_bit c) (capability_index d) \<longleftrightarrow> bit x (capability_index d) \<or> d = c"
  by (simp add: vulkan_capability_bit_def bit_or_shl1)

lemma bit_not_capability: "bit (x AND NOT (vulkan_capability_bit c)) (capability_index d) \<longleftrightarrow> bit x (capability_index d) \<and> d \<noteq> c"
  by (auto simp: vulkan_capability_bit_def bit_and_iff bit_not_iff bit_shl1)

lemma capability_set [simp]:
  "supports (set_supported c v s) d \<longleftrightarrow> (if d = c then v else supports s d)"
  "knows_enabled (set_supported c v s) d = knows_enabled s d"
  "is_enabled (set_supported c v s) d = is_enabled s d"
  "supports (set_enabled_known c v s) d = supports s d"
  "knows_enabled (set_enabled_known c v s) d \<longleftrightarrow> d = c \<or> knows_enabled s d"
  "is_enabled (set_enabled_known c v s) d \<longleftrightarrow> (if d = c then v else is_enabled s d)"
  by (auto simp: capability_bits set_supported_def set_enabled_known_def Let_def bit_or_capability bit_not_capability)

lemma capability_set_eds3 [simp]:
  "cs_eds3_supported (set_supported c v s) = cs_eds3_supported s"
  "cs_eds3_supported (set_enabled_known c v s) = cs_eds3_supported s"
  "cs_eds3_enabled (set_enabled_known c v s) = cs_eds3_enabled s"
  "cs_eds3_enabled_known (set_enabled_known c v s) = cs_eds3_enabled_known s"
  by (simp_all add: set_supported_def set_enabled_known_def Let_def)

lemma capability_set_all [simp]:
  "set_supported_all [] s = s" "set_supported_all ((c, v) # cs) s = set_supported_all cs (set_supported c v s)"
  "set_enabled_all [] s = s" "set_enabled_all ((c, v) # cs) s = set_enabled_all cs (set_enabled_known c v s)"
  by (simp_all add: set_supported_all_def set_enabled_all_def)

lemma capability_other [simp]:
  "supports (cs_eds3_supported_update w s) c = supports s c" "supports (cs_eds3_enabled_update w s) c = supports s c"
  "supports (cs_eds3_enabled_known_update w s) c = supports s c" "supports (cs_support_probe_complete_update b s) c = supports s c"
  "knows_enabled (cs_eds3_supported_update w s) c = knows_enabled s c"
  "knows_enabled (cs_eds3_enabled_update w s) c = knows_enabled s c"
  "knows_enabled (cs_eds3_enabled_known_update w s) c = knows_enabled s c"
  "knows_enabled (cs_support_probe_complete_update b s) c = knows_enabled s c"
  "is_enabled (cs_eds3_supported_update w s) c = is_enabled s c" "is_enabled (cs_eds3_enabled_update w s) c = is_enabled s c"
  "is_enabled (cs_eds3_enabled_known_update w s) c = is_enabled s c"
  "is_enabled (cs_support_probe_complete_update b s) c = is_enabled s c"
  by (simp_all add: capability_bits)

lemma list_ex_steps: "list_ex P [] \<longleftrightarrow> False" "list_ex P (x # xs) \<longleftrightarrow> P x \<or> list_ex P xs"
  by simp_all

lemmas capability_steps = capability_set capability_set_all capability_other vulkan_capability.distinct
  simp_thms if_True if_False

lemma eds3_mask_bit: "bit (eds3_mask_from m) (eds3_index f) \<longleftrightarrow> m (M_extendedDynamicState3 f) = 1"
proof -
  have "bit (fold (\<lambda>f bits. if m (M_extendedDynamicState3 f) = 1 then bits OR vulkan_eds3_bit f else bits) fs x)
      (eds3_index f) \<longleftrightarrow> bit x (eds3_index f) \<or> (f \<in> set fs \<and> m (M_extendedDynamicState3 f) = 1)" for fs x
    by (induction fs arbitrary: x)
      (auto simp: vulkan_eds3_bit_def bit_or_shl1 order_less_trans [OF eds3_index_less])
  from this [of eds3_features 0] show ?thesis by (simp add: eds3_mask_from_def)
qed

lemma eds3_known_bit: "bit (mask 31 :: u64) (eds3_index f)"
  using eds3_index_less [of f] by (simp add: bit_mask_iff order_less_trans [OF eds3_index_less])

text \<open>The loop counts the bits.\<close>

lemma popcount_split: "card {i. bit m i} = unat (m AND 1) + card {i. bit (drop_bit 1 m) i}" for m :: u64
proof -
  have f: "finite {i. bit (drop_bit 1 m) i}"
    by (rule finite_subset [of _ "{..<64}"]) (auto simp: bit_drop_bit_eq dest: bit_imp_le_length)
  have u: "unat (m AND 1) = (if bit m 0 then 1 else 0)"
    by (cases "even m") (simp_all add: and_one_eq even_iff_mod_2_eq_zero odd_iff_mod_2_eq_one bit_0)
  have "{i. bit m i} = (if bit m 0 then {0} else {}) \<union> Suc ` {i. bit (drop_bit 1 m) i}"
  proof (intro set_eqI)
    fix i
    show "i \<in> {i. bit m i} \<longleftrightarrow> i \<in> (if bit m 0 then {0} else {}) \<union> Suc ` {i. bit (drop_bit 1 m) i}"
      by (cases i) (auto simp: bit_drop_bit_eq)
  qed
  then have "card {i. bit m i} = card ((if bit m 0 then {0} else {}) \<union> Suc ` {i. bit (drop_bit 1 m) i})" by simp
  also have "\<dots> = card (if bit m 0 then {0 :: nat} else {}) + card (Suc ` {i. bit (drop_bit 1 m) i})"
    using f by (intro card_Un_disjoint) auto
  finally show ?thesis using u by (simp add: card_image)
qed

lemma eds3_count_loop_eq: "eds3_count_loop n m = n + card {i. bit m i}"
proof (induction n m rule: eds3_count_loop.induct)
  case (1 n m)
  show ?case
  proof (cases "m = 0")
    case True
    moreover have "{i. bit (0 :: u64) i} = {}" by auto
    ultimately show ?thesis by (subst eds3_count_loop.simps) (simp only: card.empty simp_thms if_True add_0_right)
  next
    case False
    with 1 show ?thesis using popcount_split [of m] by (subst eds3_count_loop.simps) simp
  qed
qed

text \<open>The count of a mask is the number of its bits, for every mask: the loop ends.\<close>

lemma eds3_feature_count: "vulkan_eds3_feature_count m = card {i. bit m i}"
  by (simp add: vulkan_eds3_feature_count_def eds3_count_loop_eq)

section \<open>One table for both readings\<close>

text \<open>
  What a capability rests on: the device's version; a core structure from a version on, and before it an
  extension with its own structure; an extension with its structure; the version or an extension with its
  structure; being listed alone.
\<close>

datatype source =
    Version u32
  | Promoted u32 structure_type string structure_type member
  | Optional string structure_type member
  | Core_or u32 string structure_type member
  | Listed "string list"

primrec source_of :: "vulkan_capability \<Rightarrow> source" where
  "source_of Vulkan13 = Version api_1_3"
| "source_of Vulkan14 = Version api_1_4"
| "source_of TimelineSemaphore =
     Promoted api_1_2 Vulkan12Features ''VK_KHR_timeline_semaphore'' TimelineSemaphoreFeatures M_timelineSemaphore"
| "source_of Synchronization2 =
     Promoted api_1_3 Vulkan13Features ''VK_KHR_synchronization2'' Synchronization2Features M_synchronization2"
| "source_of DynamicRendering =
     Promoted api_1_3 Vulkan13Features ''VK_KHR_dynamic_rendering'' DynamicRenderingFeatures M_dynamicRendering"
| "source_of DynamicRenderingLocalRead =
     Promoted api_1_4 Vulkan14Features ''VK_KHR_dynamic_rendering_local_read'' DynamicRenderingLocalReadFeatures
       M_dynamicRenderingLocalRead"
| "source_of ExtendedDynamicState1 =
     Core_or api_1_3 ''VK_EXT_extended_dynamic_state'' ExtendedDynamicStateFeatures M_extendedDynamicState"
| "source_of ExtendedDynamicState2 =
     Core_or api_1_3 ''VK_EXT_extended_dynamic_state2'' ExtendedDynamicState2Features M_extendedDynamicState2"
| "source_of ExtendedDynamicState2LogicOp =
     Optional ''VK_EXT_extended_dynamic_state2'' ExtendedDynamicState2Features M_extendedDynamicState2LogicOp"
| "source_of ExtendedDynamicState2PatchControlPoints =
     Optional ''VK_EXT_extended_dynamic_state2'' ExtendedDynamicState2Features
       M_extendedDynamicState2PatchControlPoints"
| "source_of ExtendedDynamicState3 = Listed [''VK_EXT_extended_dynamic_state3'']"
| "source_of DescriptorBuffer = Optional ''VK_EXT_descriptor_buffer'' DescriptorBufferFeatures M_descriptorBuffer"
| "source_of GraphicsPipelineLibrary =
     Optional ''VK_EXT_graphics_pipeline_library'' GraphicsPipelineLibraryFeatures M_graphicsPipelineLibrary"
| "source_of ShaderModuleIdentifier =
     Optional ''VK_EXT_shader_module_identifier'' ShaderModuleIdentifierFeatures M_shaderModuleIdentifier"
| "source_of UnifiedImageLayouts =
     Optional ''VK_KHR_unified_image_layouts'' UnifiedImageLayoutsFeatures M_unifiedImageLayouts"
| "source_of CalibratedTimestamps = Listed [''VK_KHR_calibrated_timestamps'', ''VK_EXT_calibrated_timestamps'']"
| "source_of Maintenance5 =
     Promoted api_1_4 Vulkan14Features ''VK_KHR_maintenance5'' Maintenance5Features M_maintenance5"
| "source_of Maintenance6 =
     Promoted api_1_4 Vulkan14Features ''VK_KHR_maintenance6'' Maintenance6Features M_maintenance6"
| "source_of PipelineRobustness =
     Promoted api_1_4 Vulkan14Features ''VK_EXT_pipeline_robustness'' PipelineRobustnessFeatures M_pipelineRobustness"
| "source_of PresentId = Optional ''VK_KHR_present_id'' PresentIdFeatures M_presentId"
| "source_of PresentId2 = Optional ''VK_KHR_present_id2'' PresentId2Features M_presentId2"
| "source_of PresentWait = Optional ''VK_KHR_present_wait'' PresentWaitFeatures M_presentWait"
| "source_of PresentWait2 = Optional ''VK_KHR_present_wait2'' PresentWait2Features M_presentWait2"
| "source_of PresentTiming = Optional ''VK_EXT_present_timing'' PresentTimingFeatures M_presentTiming"

text \<open>What the driver offers, and what the application asked for.\<close>

primrec offered :: "u32 \<Rightarrow> (string \<Rightarrow> bool) \<Rightarrow> (structure_type \<Rightarrow> members) \<Rightarrow> source \<Rightarrow> bool" where
  "offered api ext driver (Version v) \<longleftrightarrow> v \<le> api"
| "offered api ext driver (Promoted v f e t x) \<longleftrightarrow> (if v \<le> api then driver f x = 1 else ext e \<and> driver t x = 1)"
| "offered api ext driver (Optional e t x) \<longleftrightarrow> ext e \<and> driver t x = 1"
| "offered api ext driver (Core_or v e t x) \<longleftrightarrow> v \<le> api \<or> (ext e \<and> driver t x = 1)"
| "offered api ext driver (Listed es) \<longleftrightarrow> list_ex ext es"

primrec requested :: "u32 \<Rightarrow> (string \<Rightarrow> bool) \<Rightarrow> chain \<Rightarrow> source \<Rightarrow> bool" where
  "requested api enabled chain (Version v) \<longleftrightarrow> v \<le> api"
| "requested api enabled chain (Promoted v f e t x) \<longleftrightarrow>
     (case find_structure chain f of Some m \<Rightarrow> m x = 1 | None \<Rightarrow> node_true (find_structure chain t) x)"
| "requested api enabled chain (Optional e t x) \<longleftrightarrow> enabled e \<and> node_true (find_structure chain t) x"
| "requested api enabled chain (Core_or v e t x) \<longleftrightarrow>
     v \<le> api \<or> (enabled e \<and> node_true (find_structure chain t) x)"
| "requested api enabled chain (Listed es) \<longleftrightarrow> list_ex enabled es"

text \<open>C12
  After the device's creation every capability is known to be enabled or not, whatever the snapshot held
  before, and what the physical device supports stays.  It is enabled exactly when its row of the table says
  so: a version when the recorded version reaches it; a promoted capability (seven of them) when the chain's
  structure of the version sets it or, without that structure, the extension's own structure does, neither
  version nor extension name being asked for; an optional one when its extension is listed and its chained
  structure sets it; the first two dynamic state groups also by version 1.3 alone; the third group and the
  calibrated timestamps when a name of theirs is listed.  A single dynamic state of the third extension is
  enabled exactly when the extension is listed and its structure's member is set.
\<close>

theorem enabled_state_exact:
  "let t = observe_vulkan_enabled_state extensions chain s in
     knows_enabled t c \<and> supports t c = supports s c \<and>
     (is_enabled t c \<longleftrightarrow> requested (cs_api_version s) (has_enabled_extension extensions) chain (source_of c)) \<and>
     knows_enabled_eds3 t f \<and> cs_eds3_supported t = cs_eds3_supported s \<and>
     (is_enabled_eds3 t f \<longleftrightarrow> has_enabled_extension extensions ''VK_EXT_extended_dynamic_state3'' \<and>
        node_true (find_structure chain ExtendedDynamicState3Features) (M_extendedDynamicState3 f))"
proof -
  let ?t = "observe_vulkan_enabled_state extensions chain s"
  note d = observe_vulkan_enabled_state_def Let_def
  have 1: "knows_enabled ?t c" unfolding d by (cases c) (simp_all only: capability_steps)
  have 2: "supports ?t c = supports s c" unfolding d by (simp only: capability_steps)
  have 3: "is_enabled ?t c \<longleftrightarrow> requested (cs_api_version s) (has_enabled_extension extensions) chain (source_of c)"
    unfolding d
    by (cases c) (simp_all only: capability_steps source_of.simps requested.simps promoted_true_def list_ex_steps)
  have 4: "knows_enabled_eds3 ?t f"
    by (simp add: knows_enabled_eds3_def and_eds3_bit d eds3_known_bit)
  have 5: "cs_eds3_supported ?t = cs_eds3_supported s" by (simp add: d)
  have 6: "bit (cs_eds3_enabled ?t) (eds3_index f) \<longleftrightarrow> has_enabled_extension extensions ''VK_EXT_extended_dynamic_state3'' \<and>
      node_true (find_structure chain ExtendedDynamicState3Features) (M_extendedDynamicState3 f)"
    by (simp add: d node_true_def eds3_mask_bit split: option.split)
  show ?thesis
    using 1 2 3 4 5 6 by (simp add: Let_def is_enabled_eds3_def and_eds3_bit)
qed

section \<open>What the probe says\<close>

lemma probe_chain_iff:
  "Vulkan12Features \<in> set (probe_chain api ext) \<longleftrightarrow> api_1_2 \<le> api"
  "Vulkan13Features \<in> set (probe_chain api ext) \<longleftrightarrow> api_1_3 \<le> api"
  "Vulkan14Features \<in> set (probe_chain api ext) \<longleftrightarrow> api_1_4 \<le> api"
  "TimelineSemaphoreFeatures \<in> set (probe_chain api ext) \<longleftrightarrow> \<not> api_1_2 \<le> api \<and> ext ''VK_KHR_timeline_semaphore''"
  "Synchronization2Features \<in> set (probe_chain api ext) \<longleftrightarrow> \<not> api_1_3 \<le> api \<and> ext ''VK_KHR_synchronization2''"
  "DynamicRenderingFeatures \<in> set (probe_chain api ext) \<longleftrightarrow> \<not> api_1_3 \<le> api \<and> ext ''VK_KHR_dynamic_rendering''"
  "DynamicRenderingLocalReadFeatures \<in> set (probe_chain api ext) \<longleftrightarrow>
     \<not> api_1_4 \<le> api \<and> ext ''VK_KHR_dynamic_rendering_local_read''"
  "Maintenance5Features \<in> set (probe_chain api ext) \<longleftrightarrow> \<not> api_1_4 \<le> api \<and> ext ''VK_KHR_maintenance5''"
  "Maintenance6Features \<in> set (probe_chain api ext) \<longleftrightarrow> \<not> api_1_4 \<le> api \<and> ext ''VK_KHR_maintenance6''"
  "PipelineRobustnessFeatures \<in> set (probe_chain api ext) \<longleftrightarrow> \<not> api_1_4 \<le> api \<and> ext ''VK_EXT_pipeline_robustness''"
  "ExtendedDynamicStateFeatures \<in> set (probe_chain api ext) \<longleftrightarrow> ext ''VK_EXT_extended_dynamic_state''"
  "ExtendedDynamicState2Features \<in> set (probe_chain api ext) \<longleftrightarrow> ext ''VK_EXT_extended_dynamic_state2''"
  "ExtendedDynamicState3Features \<in> set (probe_chain api ext) \<longleftrightarrow> ext ''VK_EXT_extended_dynamic_state3''"
  "DescriptorBufferFeatures \<in> set (probe_chain api ext) \<longleftrightarrow> ext ''VK_EXT_descriptor_buffer''"
  "GraphicsPipelineLibraryFeatures \<in> set (probe_chain api ext) \<longleftrightarrow> ext ''VK_EXT_graphics_pipeline_library''"
  "ShaderModuleIdentifierFeatures \<in> set (probe_chain api ext) \<longleftrightarrow> ext ''VK_EXT_shader_module_identifier''"
  "UnifiedImageLayoutsFeatures \<in> set (probe_chain api ext) \<longleftrightarrow> ext ''VK_KHR_unified_image_layouts''"
  "PresentIdFeatures \<in> set (probe_chain api ext) \<longleftrightarrow> ext ''VK_KHR_present_id''"
  "PresentWaitFeatures \<in> set (probe_chain api ext) \<longleftrightarrow> ext ''VK_KHR_present_wait''"
  "PresentId2Features \<in> set (probe_chain api ext) \<longleftrightarrow> ext ''VK_KHR_present_id2''"
  "PresentWait2Features \<in> set (probe_chain api ext) \<longleftrightarrow> ext ''VK_KHR_present_wait2''"
  "PresentTimingFeatures \<in> set (probe_chain api ext) \<longleftrightarrow> ext ''VK_EXT_present_timing''"
  by (simp_all add: probe_chain_def)

lemma capability_fresh [simp]:
  "supports (s\<lparr>cs_api_version := a, cs_driver_version := b, cs_vendor_id := v, cs_device_id := e\<rparr>) c = supports s c"
  "is_enabled (s\<lparr>cs_api_version := a, cs_driver_version := b, cs_vendor_id := v, cs_device_id := e\<rparr>) c = is_enabled s c"
  "\<not> supports capability_zero c" "\<not> is_enabled capability_zero c"
  by (simp_all add: capability_bits capability_zero_def)

text \<open>C13
  The probe of a device that has feature queries says a capability is supported exactly when the table's
  rule holds of the device's version, its extension list and what its driver writes into the structures
  the probe chains; nothing optional is claimed to be enabled.
\<close>

theorem probe_exact:
  assumes "device \<noteq> 0" and "pd_properties d = Some properties" and "pd_features2 d = Some features2"
  shows "let (extensions, count, complete) = enumerate_extensions d device;
      api = dp_api_version (properties device);
      ext = has_extension extensions count;
      (s, ok) = probe_vulkan_capability_support device d snapshot
    in ok \<and>
      (supports s c \<longleftrightarrow> offered api ext (features2 device (probe_chain api ext)) (source_of c)) \<and>
      (is_enabled s c \<longrightarrow> supports s c \<and> c \<in> {Vulkan13, Vulkan14, ExtendedDynamicState1, ExtendedDynamicState2})"
proof -
  obtain extensions count complete where e: "enumerate_extensions d device = (extensions, count, complete)"
    by (metis prod_cases3)
  let ?api = "dp_api_version (properties device)"
  let ?ext = "has_extension extensions count"
  let ?p = "probe_vulkan_capability_support device d snapshot"
  have "(device = 0) = False" using assms(1) by simp
  note p = probe_vulkan_capability_support_def this if_False assms(2,3) e Let_def prod.case option.case fst_conv snd_conv
  have "supports (fst ?p) c \<longleftrightarrow> offered ?api ?ext (features2 device (probe_chain ?api ?ext)) (source_of c)"
    unfolding p
    by (cases c) (auto simp: promoted_member_def structures_after_def probe_chain_iff)
  moreover have "is_enabled (fst ?p) c \<longrightarrow> c \<in> {Vulkan13, Vulkan14, ExtendedDynamicState1, ExtendedDynamicState2} \<and>
      offered ?api ?ext (features2 device (probe_chain ?api ?ext)) (source_of c)"
    unfolding p by (cases c) auto
  moreover have "snd ?p" unfolding p by simp
  ultimately show ?thesis using e by (simp add: case_prod_beta Let_def)
qed

text \<open>A device of version 1.3 that lists one extension and whose driver sets every member.\<close>

definition sample_dispatch :: probe_dispatch where
  "sample_dispatch = \<lparr>
     pd_properties = Some (\<lambda>device. \<lparr>dp_api_version = api_1_3, dp_driver_version = 123, dp_vendor_id = 4098, dp_device_id = 1\<rparr>),
     pd_features2 = Some (\<lambda>device types t x. 1),
     pd_extensions = Some (\<lambda>device. \<lparr>eq_count = (True, 1), eq_names = (\<lambda>n. (True, 1, [''VK_KHR_present_id'']))\<rparr>)\<rparr>"

lemma sample_extensions:
  "enumerate_extensions sample_dispatch 2 = (take 512 (''VK_KHR_present_id'' # replicate 512 []), 1, True)"
  by (simp add: enumerate_extensions_def sample_dispatch_def min_def Let_def)

theorem probe_exact_witness:
  "supports (fst (probe_vulkan_capability_support 2 sample_dispatch capability_zero)) PresentId \<and>
   \<not> supports (fst (probe_vulkan_capability_support 2 sample_dispatch capability_zero)) PresentWait"
proof -
  have p: "pd_properties sample_dispatch = Some (the (pd_properties sample_dispatch))"
    "pd_features2 sample_dispatch = Some (\<lambda>device types t x. 1)"
    by (simp_all add: sample_dispatch_def)
  from probe_exact [OF _ p, of 2 capability_zero PresentId] probe_exact [OF _ p, of 2 capability_zero PresentWait]
  show ?thesis by (simp add: sample_extensions has_extension_def case_prod_beta Let_def)
qed

end
