(* ===== verification/HandleTable.thy ===== *)
theory HandleTable
  imports Prelude
begin

text \<open>
  Tables of slots keyed by handles, as the Vulkan registry keeps them: the searches of the code, and the
  table read as a map.  A handle is a number, null is 0; a free slot holds the null handle.
\<close>

type_synonym handle = nat

text \<open>The first slot of a table that holds a handle.\<close>

definition find_slot :: "(nat \<Rightarrow> handle) \<Rightarrow> nat \<Rightarrow> handle \<Rightarrow> nat option" where
  "find_slot key n h = find (\<lambda>i. key i = h) [0..<n]"

text \<open>The slot found, or else a free one.\<close>

definition or_else :: "'a option \<Rightarrow> 'a option \<Rightarrow> 'a option" where
  "or_else a b = (case a of None \<Rightarrow> b | Some x \<Rightarrow> Some x)"

text \<open>A table read as a map: the value of the first slot with a handle; no slot is looked up for null.\<close>

definition table :: "(nat \<Rightarrow> handle) \<Rightarrow> (nat \<Rightarrow> 'v) \<Rightarrow> nat \<Rightarrow> handle \<Rightarrow> 'v option" where
  "table key val n h = (if h = 0 then None else map_option val (find_slot key n h))"

definition keys_ok :: "(nat \<Rightarrow> handle) \<Rightarrow> nat \<Rightarrow> bool" where
  "keys_ok key n \<longleftrightarrow> (\<forall>i<n. \<forall>j<n. key i = key j \<longrightarrow> key i \<noteq> 0 \<longrightarrow> i = j)"

lemma keys_okI:
  "(\<And>i j. i < n \<Longrightarrow> j < n \<Longrightarrow> key i = key j \<Longrightarrow> key i \<noteq> 0 \<Longrightarrow> i = j) \<Longrightarrow> keys_ok key n"
  unfolding keys_ok_def by blast

lemma keys_okD: "keys_ok key n \<Longrightarrow> i < n \<Longrightarrow> j < n \<Longrightarrow> key i = key j \<Longrightarrow> key i \<noteq> 0 \<Longrightarrow> i = j"
  unfolding keys_ok_def by blast

lemma find_slot_Some: "find_slot key n h = Some i \<Longrightarrow> i < n \<and> key i = h"
  by (auto simp: find_slot_def find_Some_iff)

lemma find_slot_None: "find_slot key n h = None \<longleftrightarrow> (\<forall>i<n. key i \<noteq> h)"
  by (auto simp: find_slot_def find_None_iff)

lemma find_slot_eq: "keys_ok key n \<Longrightarrow> h \<noteq> 0 \<Longrightarrow> i < n \<Longrightarrow> key i = h \<Longrightarrow> find_slot key n h = Some i"
proof -
  assume a: "keys_ok key n" "h \<noteq> 0" "i < n" "key i = h"
  show "find_slot key n h = Some i"
  proof (cases "find_slot key n h")
    case None
    with a(3,4) show ?thesis unfolding find_slot_None by blast
  next
    case (Some j)
    with find_slot_Some [OF Some] a have "j = i" by - (rule keys_okD [of key n]; simp)
    with Some show ?thesis by simp
  qed
qed

lemma table_eq_Some:
  "keys_ok key n \<Longrightarrow> table key val n h = Some x \<longleftrightarrow> h \<noteq> 0 \<and> (\<exists>i<n. key i = h \<and> val i = x)"
proof (intro iffI)
  assume "table key val n h = Some x"
  then obtain i where "h \<noteq> 0" "find_slot key n h = Some i" "val i = x" by (auto simp: table_def split: if_splits)
  then show "h \<noteq> 0 \<and> (\<exists>i<n. key i = h \<and> val i = x)" using find_slot_Some by blast
next
  assume ok: "keys_ok key n" and "h \<noteq> 0 \<and> (\<exists>i<n. key i = h \<and> val i = x)"
  then obtain i where "h \<noteq> 0" "find_slot key n h = Some i" "val i = x" using find_slot_eq [OF ok] by blast
  then show "table key val n h = Some x" by (simp add: table_def)
qed

lemma table_eq_None: "table key val n h = None \<longleftrightarrow> h = 0 \<or> (\<forall>i<n. key i \<noteq> h)"
  by (simp add: table_def find_slot_None)

lemma option_eq_iff_Some: "a = b \<longleftrightarrow> (\<forall>x. a = Some x \<longleftrightarrow> b = Some x)"
  by (cases a) auto

lemma table_eqI:
  assumes "keys_ok key n" "\<And>h x. m h = Some x \<longleftrightarrow> h \<noteq> 0 \<and> (\<exists>i<n. key i = h \<and> val i = x)"
  shows "table key val n = m"
proof
  fix h
  show "table key val n h = m h"
    by (rule option_eq_iff_Some [THEN iffD2]) (simp add: table_eq_Some [OF assms(1)] assms(2))
qed

text \<open>Writing a slot that holds the handle, or a free one when none does.\<close>

lemma table_put:
  assumes ok: "keys_ok key n" and h: "h \<noteq> 0" "or_else (find_slot key n h) (find_slot key n 0) = Some i"
  shows "i < n" "keys_ok (key(i := h)) n"
    "table (key(i := h)) (val(i := x)) n = (table key val n)(h \<mapsto> x)"
proof -
  show i: "i < n" using h(2) by (auto simp: or_else_def split: option.splits dest: find_slot_Some)
  have free: "j = i" if "j < n" "key j = h" for j
  proof (cases "find_slot key n h")
    case None
    with that show ?thesis by (simp add: find_slot_None)
  next
    case (Some k)
    with h(2) have "k = i" by (simp add: or_else_def)
    with Some find_slot_eq [OF ok h(1) that] show ?thesis by simp
  qed
  have ki: "key i = h \<or> key i = 0" using h(2) by (auto simp: or_else_def split: option.splits dest: find_slot_Some)
  have free': "key j \<noteq> h" if "j < n" "j \<noteq> i" for j using free [of j] that by blast
  show ok': "keys_ok (key(i := h)) n"
  proof (rule keys_okI)
    fix a b assume ab: "a < n" "b < n" "(key(i := h)) a = (key(i := h)) b" "(key(i := h)) a \<noteq> 0"
    have "a = i \<longleftrightarrow> b = i"
      using ab(3) free' [OF ab(1)] free' [OF ab(2)] by (metis fun_upd_other fun_upd_same)
    then consider "a = i" "b = i" | "a \<noteq> i" "b \<noteq> i" by blast
    then show "a = b"
    proof cases
      case 2
      with ab show ?thesis by (intro keys_okD [OF ok, of a b]) simp_all
    qed simp
  qed
  show "table (key(i := h)) (val(i := x)) n = (table key val n)(h \<mapsto> x)"
  proof (rule table_eqI [OF ok'])
    fix g y
    show "((table key val n)(h \<mapsto> x)) g = Some y \<longleftrightarrow>
        g \<noteq> 0 \<and> (\<exists>j<n. (key(i := h)) j = g \<and> (val(i := x)) j = y)"
    proof (cases "g = h")
      case True
      then show ?thesis using i h(1) free' by (auto simp: table_eq_Some [OF ok])
    next
      case False
      have eq: "((table key val n)(h \<mapsto> x)) g = table key val n g" using False by simp
      have "(key(i := h)) j = g \<and> (val(i := x)) j = y \<longleftrightarrow> key j = g \<and> val j = y" if "g \<noteq> 0" for j
        using that False ki by auto
      then show ?thesis unfolding eq table_eq_Some [OF ok] by blast
    qed
  qed
qed

text \<open>Clearing the slots whose value satisfies a predicate.\<close>

lemma table_clear:
  assumes ok: "keys_ok key n" and key: "\<And>i. i < n \<Longrightarrow> key' i = (if P (val i) then 0 else key i)"
    and val: "\<And>i. i < n \<Longrightarrow> \<not> P (val i) \<Longrightarrow> val' i = val i"
  shows "keys_ok key' n" "table key' val' n h = (case table key val n h of None \<Rightarrow> None | Some x \<Rightarrow> if P x then None else Some x)"
proof -
  show ok': "keys_ok key' n"
  proof (rule keys_okI)
    fix i j assume "i < n" "j < n" "key' i = key' j" "key' i \<noteq> 0"
    with key [of i] key [of j] show "i = j" by (intro keys_okD [OF ok, of i j]) (simp_all split: if_splits)
  qed
  have "table key' val' n h = Some x \<longleftrightarrow> table key val n h = Some x \<and> \<not> P x" for x
    using key val by (auto simp: table_eq_Some [OF ok] table_eq_Some [OF ok'] split: if_splits)
  then show "table key' val' n h = (case table key val n h of None \<Rightarrow> None | Some x \<Rightarrow> if P x then None else Some x)"
    by (intro option_eq_iff_Some [THEN iffD2]) (auto split: option.split)
qed

text \<open>Clearing the slot of one handle.\<close>

lemma table_remove:
  assumes ok: "keys_ok key n" and w: "w \<noteq> 0" and key: "\<And>j. j < n \<Longrightarrow> key' j = (if key j = w then 0 else key j)"
    and val: "\<And>j. j < n \<Longrightarrow> key j \<noteq> w \<Longrightarrow> val' j = val j"
  shows "keys_ok key' n" "table key' val' n = (table key val n)(w := None)"
proof -
  show ok': "keys_ok key' n"
  proof (rule keys_okI)
    fix i j assume "i < n" "j < n" "key' i = key' j" "key' i \<noteq> 0"
    with key [of i] key [of j] show "i = j" by (intro keys_okD [OF ok, of i j]) (simp_all split: if_splits)
  qed
  show "table key' val' n = (table key val n)(w := None)"
  proof (rule table_eqI [OF ok'])
    fix h x
    show "((table key val n)(w := None)) h = Some x \<longleftrightarrow> h \<noteq> 0 \<and> (\<exists>i<n. key' i = h \<and> val' i = x)"
    proof -
      have eq: "key' j = h \<and> val' j = x \<longleftrightarrow> key j = h \<and> val j = x \<and> h \<noteq> w" if "j < n" "h \<noteq> 0" for j
        using that key [of j] val [of j] by (cases "key j = w") auto
      have "((table key val n)(w := None)) h = Some x \<longleftrightarrow> h \<noteq> w \<and> table key val n h = Some x" by simp
      then show ?thesis unfolding table_eq_Some [OF ok] using eq by blast
    qed
  qed
qed

text \<open>The only slot with a key.\<close>

lemma other_key:
  assumes "keys_ok key n" "i < n" "key i = h" "h \<noteq> 0" "j < n" "j \<noteq> i"
  shows "key j \<noteq> h"
proof
  assume "key j = h"
  then have "j = i" using assms by (intro keys_okD [OF assms(1), of j i]) simp_all
  with assms(6) show False by contradiction
qed

lemma table_map: "table key (\<lambda>i. g (val i)) n h = map_option g (table key val n h)"
  by (simp add: table_def option.map_comp comp_def)

text \<open>A free slot is left exactly while the map has fewer entries than the table has slots.\<close>

lemma card_keys:
  assumes "keys_ok key n"
  shows "card (dom (table key val n)) = card {i. i < n \<and> key i \<noteq> 0}"
proof -
  have "dom (table key val n) = key ` {i. i < n \<and> key i \<noteq> 0}"
    by (auto simp: dom_def table_eq_Some [OF assms])
  moreover have "inj_on key {i. i < n \<and> key i \<noteq> 0}" by (rule inj_onI, rule keys_okD [OF assms]) simp_all
  ultimately show ?thesis by (simp add: card_image)
qed

lemma table_bounded: "keys_ok key n \<Longrightarrow> card (dom (table key val n)) \<le> n"
  using card_mono [of "{..<n}" "{i. i < n \<and> key i \<noteq> 0}"] by (auto simp: card_keys)

lemma table_empty: "table (\<lambda>i. 0) val n = Map.empty"
  by (rule ext) (simp add: table_def find_slot_def find_None_iff)

lemma table_full:
  assumes ok: "keys_ok key n"
  shows "find_slot key n 0 = None \<longleftrightarrow> n \<le> card (dom (table key val n))"
proof -
  have "card {i. i < n \<and> key i \<noteq> 0} < n" if "i < n" "key i = 0" for i
  proof -
    have "{i. i < n \<and> key i \<noteq> 0} \<subseteq> {..<n}" "i \<in> {..<n}" "i \<notin> {i. i < n \<and> key i \<noteq> 0}" using that by auto
    then have "{i. i < n \<and> key i \<noteq> 0} \<subset> {..<n}" by blast
    then have "card {i. i < n \<and> key i \<noteq> 0} < card {..<n}" by (intro psubset_card_mono) auto
    then show ?thesis by simp
  qed
  moreover have "card {i. i < n \<and> key i \<noteq> 0} = n" if "\<forall>i<n. key i \<noteq> 0"
  proof -
    have "{i. i < n \<and> key i \<noteq> 0} = {..<n}" using that by blast
    then show ?thesis by simp
  qed
  ultimately show ?thesis
    unfolding card_keys [OF ok] find_slot_None by (cases "\<forall>i<n. key i \<noteq> 0") (simp, use leD in blast)
qed

end
