(* ===== verification/DeviceRegistry.thy ===== *)
theory DeviceRegistry
  imports VulkanCapabilities Interfaces HandleTable
begin

text \<open>
  The registry of Vulkan devices, queues and swapchains of \<open>src/vulkan_device_registry.h\<close> and \<open>.cpp\<close>:
  three tables of slots whose fields are atomic words, written under one mutex between two increments of a
  generation counter.  A function pointer is a number, null is 0.  The entry points, which the
  structures of the code keep as members of their own, are one record here, shared by a device's state and
  its slot.  A writer's critical section is the list of its stores, so that readers can be placed between
  any two of them; what it reads it reads under the mutex.  Arrays are total functions from slot numbers.
\<close>

section \<open>States and slots\<close>

type_synonym entry = nat

record entry_points =
  ep_create_semaphore :: entry
  ep_destroy_semaphore :: entry
  ep_signal_semaphore :: entry
  ep_anti_lag_update :: entry
  ep_get_device_queue :: entry
  ep_get_device_queue2 :: entry
  ep_acquire_next_image :: entry
  ep_acquire_next_image2 :: entry
  ep_create_swapchain :: entry
  ep_queue_present :: entry
  ep_destroy_swapchain :: entry
  ep_create_graphics_pipelines :: entry
  ep_create_compute_pipelines :: entry
  ep_wait_for_present :: entry
  ep_wait_for_present2 :: entry
  ep_get_past_presentation_timing :: entry
  ep_nv_set_latency_sleep_mode :: entry
  ep_nv_latency_sleep :: entry
  ep_nv_set_latency_marker :: entry
  ep_nv_get_latency_timings :: entry
  ep_nv_queue_notify_out_of_band :: entry

definition entries_null :: entry_points where
  "entries_null = \<lparr>ep_create_semaphore = 0,
     ep_destroy_semaphore = 0,
     ep_signal_semaphore = 0,
     ep_anti_lag_update = 0,
     ep_get_device_queue = 0,
     ep_get_device_queue2 = 0,
     ep_acquire_next_image = 0,
     ep_acquire_next_image2 = 0,
     ep_create_swapchain = 0,
     ep_queue_present = 0,
     ep_destroy_swapchain = 0,
     ep_create_graphics_pipelines = 0,
     ep_create_compute_pipelines = 0,
     ep_wait_for_present = 0,
     ep_wait_for_present2 = 0,
     ep_get_past_presentation_timing = 0,
     ep_nv_set_latency_sleep_mode = 0,
     ep_nv_latency_sleep = 0,
     ep_nv_set_latency_marker = 0,
     ep_nv_get_latency_timings = 0,
     ep_nv_queue_notify_out_of_band = 0\<rparr>"

record device_state =
  ds_device :: handle
  ds_entries :: entry_points
  ds_semaphore :: handle
  ds_amd_anti_lag_enabled :: bool
  ds_nv_low_latency2_enabled :: bool
  ds_nv_low_latency2_native :: bool
  ds_present_id_enabled :: bool
  ds_present_id2_enabled :: bool
  ds_present_wait_enabled :: bool
  ds_present_wait2_enabled :: bool
  ds_present_timing_enabled :: bool
  ds_capabilities :: capability_snapshot

definition device_state_zero :: device_state where
  "device_state_zero = \<lparr>ds_device = 0, ds_entries = entries_null, ds_semaphore = 0,
     ds_amd_anti_lag_enabled = False, ds_nv_low_latency2_enabled = False, ds_nv_low_latency2_native = False, ds_present_id_enabled = False,
     ds_present_id2_enabled = False, ds_present_wait_enabled = False, ds_present_wait2_enabled = False, ds_present_timing_enabled = False,
     ds_capabilities = capability_zero\<rparr>"

record device_slot =
  sl_device :: handle
  sl_entries :: entry_points
  sl_semaphore :: handle
  sl_flags :: u32
  sl_api_version :: u32
  sl_driver_version :: u32
  sl_vendor_id :: u32
  sl_device_id :: u32
  sl_supported :: u64
  sl_enabled :: u64
  sl_enabled_known :: u64
  sl_eds3_supported :: u64
  sl_eds3_enabled :: u64
  sl_eds3_enabled_known :: u64

definition device_slot_zero :: device_slot where
  "device_slot_zero = \<lparr>sl_device = 0, sl_entries = entries_null, sl_semaphore = 0, sl_flags = 0,
     sl_api_version = 0, sl_driver_version = 0, sl_vendor_id = 0, sl_device_id = 0, sl_supported = 0,
     sl_enabled = 0, sl_enabled_known = 0, sl_eds3_supported = 0, sl_eds3_enabled = 0, sl_eds3_enabled_known = 0\<rparr>"

record queue_slot =
  qs_queue :: handle
  qs_device :: handle
  qs_present :: entry
  qs_notify :: entry

record swapchain_slot =
  ss_swapchain :: handle
  ss_device :: handle
  ss_flags :: u32

record registry =
  vr_devices :: "nat \<Rightarrow> device_slot"
  vr_queues :: "nat \<Rightarrow> queue_slot"
  vr_swapchains :: "nat \<Rightarrow> swapchain_slot"
  vr_generation :: u64

definition kMaxTrackedVulkanDevices :: nat where "kMaxTrackedVulkanDevices = 16"

definition kMaxTrackedVulkanQueues :: nat where "kMaxTrackedVulkanQueues = 64"

definition kMaxTrackedVulkanSwapchains :: nat where "kMaxTrackedVulkanSwapchains = 64"

definition queue_slot_zero :: queue_slot where
  "queue_slot_zero = \<lparr>qs_queue = 0, qs_device = 0, qs_present = 0, qs_notify = 0\<rparr>"

definition swapchain_slot_zero :: swapchain_slot where
  "swapchain_slot_zero = \<lparr>ss_swapchain = 0, ss_device = 0, ss_flags = 0\<rparr>"

definition registry_initial :: registry where
  "registry_initial = \<lparr>vr_devices = (\<lambda>i. device_slot_zero), vr_queues = (\<lambda>i. queue_slot_zero),
     vr_swapchains = (\<lambda>i. swapchain_slot_zero), vr_generation = 2\<rparr>"

section \<open>The flag word\<close>

definition kFlagAmdAntiLag :: u32 where "kFlagAmdAntiLag = shl1 0"

definition kFlagNvLowLatency2 :: u32 where "kFlagNvLowLatency2 = shl1 1"

definition kFlagNvLowLatency2Native :: u32 where "kFlagNvLowLatency2Native = shl1 2"

definition kFlagPresentId :: u32 where "kFlagPresentId = shl1 3"

definition kFlagPresentId2 :: u32 where "kFlagPresentId2 = shl1 4"

definition kFlagPresentWait :: u32 where "kFlagPresentWait = shl1 5"

definition kFlagPresentWait2 :: u32 where "kFlagPresentWait2 = shl1 6"

definition kFlagPresentTiming :: u32 where "kFlagPresentTiming = shl1 7"

definition kFlagCapabilityProbeComplete :: u32 where "kFlagCapabilityProbeComplete = shl1 8"

lemmas flag_defs = kFlagAmdAntiLag_def kFlagNvLowLatency2_def kFlagNvLowLatency2Native_def kFlagPresentId_def kFlagPresentId2_def
  kFlagPresentWait_def kFlagPresentWait2_def kFlagPresentTiming_def kFlagCapabilityProbeComplete_def

definition pack_flags :: "device_state \<Rightarrow> u32" where
  "pack_flags st =
     (let flags = 0;
          flags = (if ds_amd_anti_lag_enabled st then flags OR kFlagAmdAntiLag else flags);
          flags = (if ds_nv_low_latency2_enabled st then flags OR kFlagNvLowLatency2 else flags);
          flags = (if ds_nv_low_latency2_native st then flags OR kFlagNvLowLatency2Native else flags);
          flags = (if ds_present_id_enabled st then flags OR kFlagPresentId else flags);
          flags = (if ds_present_id2_enabled st then flags OR kFlagPresentId2 else flags);
          flags = (if ds_present_wait_enabled st then flags OR kFlagPresentWait else flags);
          flags = (if ds_present_wait2_enabled st then flags OR kFlagPresentWait2 else flags);
          flags = (if ds_present_timing_enabled st then flags OR kFlagPresentTiming else flags);
          flags = (if cs_support_probe_complete (ds_capabilities st) then flags OR kFlagCapabilityProbeComplete else flags)
      in flags)"

section \<open>Stores and loads of a device slot\<close>

text \<open>The stores of \<open>publish_device_slot\<close> and of \<open>clear_device_slot\<close>, in their order.\<close>

definition publish_device_slot :: "device_state \<Rightarrow> (device_slot \<Rightarrow> device_slot) list" where
  "publish_device_slot st = [
     (\<lambda>s. s\<lparr>sl_device := 0\<rparr>),
     (\<lambda>s. s\<lparr>sl_entries := (sl_entries s)\<lparr>ep_create_semaphore := ep_create_semaphore (ds_entries st)\<rparr>\<rparr>),
     (\<lambda>s. s\<lparr>sl_entries := (sl_entries s)\<lparr>ep_destroy_semaphore := ep_destroy_semaphore (ds_entries st)\<rparr>\<rparr>),
     (\<lambda>s. s\<lparr>sl_entries := (sl_entries s)\<lparr>ep_signal_semaphore := ep_signal_semaphore (ds_entries st)\<rparr>\<rparr>),
     (\<lambda>s. s\<lparr>sl_entries := (sl_entries s)\<lparr>ep_anti_lag_update := ep_anti_lag_update (ds_entries st)\<rparr>\<rparr>),
     (\<lambda>s. s\<lparr>sl_entries := (sl_entries s)\<lparr>ep_get_device_queue := ep_get_device_queue (ds_entries st)\<rparr>\<rparr>),
     (\<lambda>s. s\<lparr>sl_entries := (sl_entries s)\<lparr>ep_get_device_queue2 := ep_get_device_queue2 (ds_entries st)\<rparr>\<rparr>),
     (\<lambda>s. s\<lparr>sl_entries := (sl_entries s)\<lparr>ep_acquire_next_image := ep_acquire_next_image (ds_entries st)\<rparr>\<rparr>),
     (\<lambda>s. s\<lparr>sl_entries := (sl_entries s)\<lparr>ep_acquire_next_image2 := ep_acquire_next_image2 (ds_entries st)\<rparr>\<rparr>),
     (\<lambda>s. s\<lparr>sl_entries := (sl_entries s)\<lparr>ep_create_swapchain := ep_create_swapchain (ds_entries st)\<rparr>\<rparr>),
     (\<lambda>s. s\<lparr>sl_entries := (sl_entries s)\<lparr>ep_queue_present := ep_queue_present (ds_entries st)\<rparr>\<rparr>),
     (\<lambda>s. s\<lparr>sl_entries := (sl_entries s)\<lparr>ep_destroy_swapchain := ep_destroy_swapchain (ds_entries st)\<rparr>\<rparr>),
     (\<lambda>s. s\<lparr>sl_entries := (sl_entries s)\<lparr>ep_create_graphics_pipelines := ep_create_graphics_pipelines (ds_entries st)\<rparr>\<rparr>),
     (\<lambda>s. s\<lparr>sl_entries := (sl_entries s)\<lparr>ep_create_compute_pipelines := ep_create_compute_pipelines (ds_entries st)\<rparr>\<rparr>),
     (\<lambda>s. s\<lparr>sl_entries := (sl_entries s)\<lparr>ep_wait_for_present := ep_wait_for_present (ds_entries st)\<rparr>\<rparr>),
     (\<lambda>s. s\<lparr>sl_entries := (sl_entries s)\<lparr>ep_wait_for_present2 := ep_wait_for_present2 (ds_entries st)\<rparr>\<rparr>),
     (\<lambda>s. s\<lparr>sl_entries := (sl_entries s)\<lparr>ep_get_past_presentation_timing := ep_get_past_presentation_timing (ds_entries st)\<rparr>\<rparr>),
     (\<lambda>s. s\<lparr>sl_entries := (sl_entries s)\<lparr>ep_nv_set_latency_sleep_mode := ep_nv_set_latency_sleep_mode (ds_entries st)\<rparr>\<rparr>),
     (\<lambda>s. s\<lparr>sl_entries := (sl_entries s)\<lparr>ep_nv_latency_sleep := ep_nv_latency_sleep (ds_entries st)\<rparr>\<rparr>),
     (\<lambda>s. s\<lparr>sl_entries := (sl_entries s)\<lparr>ep_nv_set_latency_marker := ep_nv_set_latency_marker (ds_entries st)\<rparr>\<rparr>),
     (\<lambda>s. s\<lparr>sl_entries := (sl_entries s)\<lparr>ep_nv_get_latency_timings := ep_nv_get_latency_timings (ds_entries st)\<rparr>\<rparr>),
     (\<lambda>s. s\<lparr>sl_entries := (sl_entries s)\<lparr>ep_nv_queue_notify_out_of_band := ep_nv_queue_notify_out_of_band (ds_entries st)\<rparr>\<rparr>),
     (\<lambda>s. s\<lparr>sl_semaphore := ds_semaphore st\<rparr>),
     (\<lambda>s. s\<lparr>sl_api_version := cs_api_version (ds_capabilities st)\<rparr>),
     (\<lambda>s. s\<lparr>sl_driver_version := cs_driver_version (ds_capabilities st)\<rparr>),
     (\<lambda>s. s\<lparr>sl_vendor_id := cs_vendor_id (ds_capabilities st)\<rparr>),
     (\<lambda>s. s\<lparr>sl_device_id := cs_device_id (ds_capabilities st)\<rparr>),
     (\<lambda>s. s\<lparr>sl_supported := cs_supported (ds_capabilities st)\<rparr>),
     (\<lambda>s. s\<lparr>sl_enabled := cs_enabled (ds_capabilities st)\<rparr>),
     (\<lambda>s. s\<lparr>sl_enabled_known := cs_enabled_known (ds_capabilities st)\<rparr>),
     (\<lambda>s. s\<lparr>sl_eds3_supported := cs_eds3_supported (ds_capabilities st)\<rparr>),
     (\<lambda>s. s\<lparr>sl_eds3_enabled := cs_eds3_enabled (ds_capabilities st)\<rparr>),
     (\<lambda>s. s\<lparr>sl_eds3_enabled_known := cs_eds3_enabled_known (ds_capabilities st)\<rparr>),
     (\<lambda>s. s\<lparr>sl_flags := pack_flags st\<rparr>),
     (\<lambda>s. s\<lparr>sl_device := ds_device st\<rparr>)]"

definition clear_device_slot :: "(device_slot \<Rightarrow> device_slot) list" where
  "clear_device_slot = [
     (\<lambda>s. s\<lparr>sl_device := 0\<rparr>),
     (\<lambda>s. s\<lparr>sl_entries := (sl_entries s)\<lparr>ep_create_semaphore := 0\<rparr>\<rparr>),
     (\<lambda>s. s\<lparr>sl_entries := (sl_entries s)\<lparr>ep_destroy_semaphore := 0\<rparr>\<rparr>),
     (\<lambda>s. s\<lparr>sl_entries := (sl_entries s)\<lparr>ep_signal_semaphore := 0\<rparr>\<rparr>),
     (\<lambda>s. s\<lparr>sl_entries := (sl_entries s)\<lparr>ep_anti_lag_update := 0\<rparr>\<rparr>),
     (\<lambda>s. s\<lparr>sl_entries := (sl_entries s)\<lparr>ep_get_device_queue := 0\<rparr>\<rparr>),
     (\<lambda>s. s\<lparr>sl_entries := (sl_entries s)\<lparr>ep_get_device_queue2 := 0\<rparr>\<rparr>),
     (\<lambda>s. s\<lparr>sl_entries := (sl_entries s)\<lparr>ep_acquire_next_image := 0\<rparr>\<rparr>),
     (\<lambda>s. s\<lparr>sl_entries := (sl_entries s)\<lparr>ep_acquire_next_image2 := 0\<rparr>\<rparr>),
     (\<lambda>s. s\<lparr>sl_entries := (sl_entries s)\<lparr>ep_create_swapchain := 0\<rparr>\<rparr>),
     (\<lambda>s. s\<lparr>sl_entries := (sl_entries s)\<lparr>ep_queue_present := 0\<rparr>\<rparr>),
     (\<lambda>s. s\<lparr>sl_entries := (sl_entries s)\<lparr>ep_destroy_swapchain := 0\<rparr>\<rparr>),
     (\<lambda>s. s\<lparr>sl_entries := (sl_entries s)\<lparr>ep_create_graphics_pipelines := 0\<rparr>\<rparr>),
     (\<lambda>s. s\<lparr>sl_entries := (sl_entries s)\<lparr>ep_create_compute_pipelines := 0\<rparr>\<rparr>),
     (\<lambda>s. s\<lparr>sl_entries := (sl_entries s)\<lparr>ep_wait_for_present := 0\<rparr>\<rparr>),
     (\<lambda>s. s\<lparr>sl_entries := (sl_entries s)\<lparr>ep_wait_for_present2 := 0\<rparr>\<rparr>),
     (\<lambda>s. s\<lparr>sl_entries := (sl_entries s)\<lparr>ep_get_past_presentation_timing := 0\<rparr>\<rparr>),
     (\<lambda>s. s\<lparr>sl_entries := (sl_entries s)\<lparr>ep_nv_set_latency_sleep_mode := 0\<rparr>\<rparr>),
     (\<lambda>s. s\<lparr>sl_entries := (sl_entries s)\<lparr>ep_nv_latency_sleep := 0\<rparr>\<rparr>),
     (\<lambda>s. s\<lparr>sl_entries := (sl_entries s)\<lparr>ep_nv_set_latency_marker := 0\<rparr>\<rparr>),
     (\<lambda>s. s\<lparr>sl_entries := (sl_entries s)\<lparr>ep_nv_get_latency_timings := 0\<rparr>\<rparr>),
     (\<lambda>s. s\<lparr>sl_entries := (sl_entries s)\<lparr>ep_nv_queue_notify_out_of_band := 0\<rparr>\<rparr>),
     (\<lambda>s. s\<lparr>sl_semaphore := 0\<rparr>),
     (\<lambda>s. s\<lparr>sl_api_version := 0\<rparr>),
     (\<lambda>s. s\<lparr>sl_driver_version := 0\<rparr>),
     (\<lambda>s. s\<lparr>sl_vendor_id := 0\<rparr>),
     (\<lambda>s. s\<lparr>sl_device_id := 0\<rparr>),
     (\<lambda>s. s\<lparr>sl_supported := 0\<rparr>),
     (\<lambda>s. s\<lparr>sl_enabled := 0\<rparr>),
     (\<lambda>s. s\<lparr>sl_enabled_known := 0\<rparr>),
     (\<lambda>s. s\<lparr>sl_eds3_supported := 0\<rparr>),
     (\<lambda>s. s\<lparr>sl_eds3_enabled := 0\<rparr>),
     (\<lambda>s. s\<lparr>sl_eds3_enabled_known := 0\<rparr>),
     (\<lambda>s. s\<lparr>sl_flags := 0\<rparr>)]"

text \<open>
  The loads of \<open>snapshot_device\<close>, each with what it writes into the local state; the flag word is loaded
  once and gives every flag.
\<close>

definition device_loads :: "(device_slot \<Rightarrow> device_state \<Rightarrow> device_state) list" where
  "device_loads = [
     (\<lambda>s st. st\<lparr>ds_entries := (ds_entries st)\<lparr>ep_create_semaphore := ep_create_semaphore (sl_entries s)\<rparr>\<rparr>),
     (\<lambda>s st. st\<lparr>ds_entries := (ds_entries st)\<lparr>ep_destroy_semaphore := ep_destroy_semaphore (sl_entries s)\<rparr>\<rparr>),
     (\<lambda>s st. st\<lparr>ds_entries := (ds_entries st)\<lparr>ep_signal_semaphore := ep_signal_semaphore (sl_entries s)\<rparr>\<rparr>),
     (\<lambda>s st. st\<lparr>ds_entries := (ds_entries st)\<lparr>ep_anti_lag_update := ep_anti_lag_update (sl_entries s)\<rparr>\<rparr>),
     (\<lambda>s st. st\<lparr>ds_entries := (ds_entries st)\<lparr>ep_get_device_queue := ep_get_device_queue (sl_entries s)\<rparr>\<rparr>),
     (\<lambda>s st. st\<lparr>ds_entries := (ds_entries st)\<lparr>ep_get_device_queue2 := ep_get_device_queue2 (sl_entries s)\<rparr>\<rparr>),
     (\<lambda>s st. st\<lparr>ds_entries := (ds_entries st)\<lparr>ep_acquire_next_image := ep_acquire_next_image (sl_entries s)\<rparr>\<rparr>),
     (\<lambda>s st. st\<lparr>ds_entries := (ds_entries st)\<lparr>ep_acquire_next_image2 := ep_acquire_next_image2 (sl_entries s)\<rparr>\<rparr>),
     (\<lambda>s st. st\<lparr>ds_entries := (ds_entries st)\<lparr>ep_create_swapchain := ep_create_swapchain (sl_entries s)\<rparr>\<rparr>),
     (\<lambda>s st. st\<lparr>ds_entries := (ds_entries st)\<lparr>ep_queue_present := ep_queue_present (sl_entries s)\<rparr>\<rparr>),
     (\<lambda>s st. st\<lparr>ds_entries := (ds_entries st)\<lparr>ep_destroy_swapchain := ep_destroy_swapchain (sl_entries s)\<rparr>\<rparr>),
     (\<lambda>s st. st\<lparr>ds_entries := (ds_entries st)\<lparr>ep_create_graphics_pipelines := ep_create_graphics_pipelines (sl_entries s)\<rparr>\<rparr>),
     (\<lambda>s st. st\<lparr>ds_entries := (ds_entries st)\<lparr>ep_create_compute_pipelines := ep_create_compute_pipelines (sl_entries s)\<rparr>\<rparr>),
     (\<lambda>s st. st\<lparr>ds_entries := (ds_entries st)\<lparr>ep_wait_for_present := ep_wait_for_present (sl_entries s)\<rparr>\<rparr>),
     (\<lambda>s st. st\<lparr>ds_entries := (ds_entries st)\<lparr>ep_wait_for_present2 := ep_wait_for_present2 (sl_entries s)\<rparr>\<rparr>),
     (\<lambda>s st. st\<lparr>ds_entries := (ds_entries st)\<lparr>ep_get_past_presentation_timing := ep_get_past_presentation_timing (sl_entries s)\<rparr>\<rparr>),
     (\<lambda>s st. st\<lparr>ds_entries := (ds_entries st)\<lparr>ep_nv_set_latency_sleep_mode := ep_nv_set_latency_sleep_mode (sl_entries s)\<rparr>\<rparr>),
     (\<lambda>s st. st\<lparr>ds_entries := (ds_entries st)\<lparr>ep_nv_latency_sleep := ep_nv_latency_sleep (sl_entries s)\<rparr>\<rparr>),
     (\<lambda>s st. st\<lparr>ds_entries := (ds_entries st)\<lparr>ep_nv_set_latency_marker := ep_nv_set_latency_marker (sl_entries s)\<rparr>\<rparr>),
     (\<lambda>s st. st\<lparr>ds_entries := (ds_entries st)\<lparr>ep_nv_get_latency_timings := ep_nv_get_latency_timings (sl_entries s)\<rparr>\<rparr>),
     (\<lambda>s st. st\<lparr>ds_entries := (ds_entries st)\<lparr>ep_nv_queue_notify_out_of_band := ep_nv_queue_notify_out_of_band (sl_entries s)\<rparr>\<rparr>),
     (\<lambda>s st. st\<lparr>ds_semaphore := sl_semaphore s\<rparr>),
     (\<lambda>s st. st\<lparr>ds_amd_anti_lag_enabled := sl_flags s AND kFlagAmdAntiLag \<noteq> 0,
        ds_nv_low_latency2_enabled := sl_flags s AND kFlagNvLowLatency2 \<noteq> 0,
        ds_nv_low_latency2_native := sl_flags s AND kFlagNvLowLatency2Native \<noteq> 0,
        ds_present_id_enabled := sl_flags s AND kFlagPresentId \<noteq> 0,
        ds_present_id2_enabled := sl_flags s AND kFlagPresentId2 \<noteq> 0,
        ds_present_wait_enabled := sl_flags s AND kFlagPresentWait \<noteq> 0,
        ds_present_wait2_enabled := sl_flags s AND kFlagPresentWait2 \<noteq> 0,
        ds_present_timing_enabled := sl_flags s AND kFlagPresentTiming \<noteq> 0,
        ds_capabilities := (ds_capabilities st)\<lparr>cs_support_probe_complete := sl_flags s AND kFlagCapabilityProbeComplete \<noteq> 0\<rparr>\<rparr>),
     (\<lambda>s st. st\<lparr>ds_capabilities := (ds_capabilities st)\<lparr>cs_api_version := sl_api_version s\<rparr>\<rparr>),
     (\<lambda>s st. st\<lparr>ds_capabilities := (ds_capabilities st)\<lparr>cs_driver_version := sl_driver_version s\<rparr>\<rparr>),
     (\<lambda>s st. st\<lparr>ds_capabilities := (ds_capabilities st)\<lparr>cs_vendor_id := sl_vendor_id s\<rparr>\<rparr>),
     (\<lambda>s st. st\<lparr>ds_capabilities := (ds_capabilities st)\<lparr>cs_device_id := sl_device_id s\<rparr>\<rparr>),
     (\<lambda>s st. st\<lparr>ds_capabilities := (ds_capabilities st)\<lparr>cs_supported := sl_supported s\<rparr>\<rparr>),
     (\<lambda>s st. st\<lparr>ds_capabilities := (ds_capabilities st)\<lparr>cs_enabled := sl_enabled s\<rparr>\<rparr>),
     (\<lambda>s st. st\<lparr>ds_capabilities := (ds_capabilities st)\<lparr>cs_enabled_known := sl_enabled_known s\<rparr>\<rparr>),
     (\<lambda>s st. st\<lparr>ds_capabilities := (ds_capabilities st)\<lparr>cs_eds3_supported := sl_eds3_supported s\<rparr>\<rparr>),
     (\<lambda>s st. st\<lparr>ds_capabilities := (ds_capabilities st)\<lparr>cs_eds3_enabled := sl_eds3_enabled s\<rparr>\<rparr>),
     (\<lambda>s st. st\<lparr>ds_capabilities := (ds_capabilities st)\<lparr>cs_eds3_enabled_known := sl_eds3_enabled_known s\<rparr>\<rparr>)]"

text \<open>What the loads see of a slot that does not change while they run.\<close>

definition slot_state :: "device_slot \<Rightarrow> device_state" where
  "slot_state s = fold (\<lambda>f. f s) device_loads (device_state_zero\<lparr>ds_device := sl_device s\<rparr>)"

section \<open>Writers\<close>

type_synonym stores = "(registry \<Rightarrow> registry) list"

definition on_device :: "nat \<Rightarrow> (device_slot \<Rightarrow> device_slot) \<Rightarrow> registry \<Rightarrow> registry" where
  "on_device i f r = r\<lparr>vr_devices := (vr_devices r)(i := f (vr_devices r i))\<rparr>"

definition on_queue :: "nat \<Rightarrow> (queue_slot \<Rightarrow> queue_slot) \<Rightarrow> registry \<Rightarrow> registry" where
  "on_queue i f r = r\<lparr>vr_queues := (vr_queues r)(i := f (vr_queues r i))\<rparr>"

definition on_swapchain :: "nat \<Rightarrow> (swapchain_slot \<Rightarrow> swapchain_slot) \<Rightarrow> registry \<Rightarrow> registry" where
  "on_swapchain i f r = r\<lparr>vr_swapchains := (vr_swapchains r)(i := f (vr_swapchains r i))\<rparr>"

definition find_device_slot_writer :: "registry \<Rightarrow> handle \<Rightarrow> nat option" where
  "find_device_slot_writer r device = find_slot (\<lambda>i. sl_device (vr_devices r i)) kMaxTrackedVulkanDevices device"

definition find_free_device_slot_writer :: "registry \<Rightarrow> nat option" where
  "find_free_device_slot_writer r = find_slot (\<lambda>i. sl_device (vr_devices r i)) kMaxTrackedVulkanDevices 0"

definition find_queue_slot_writer :: "registry \<Rightarrow> handle \<Rightarrow> nat option" where
  "find_queue_slot_writer r queue = find_slot (\<lambda>i. qs_queue (vr_queues r i)) kMaxTrackedVulkanQueues queue"

definition find_free_queue_slot_writer :: "registry \<Rightarrow> nat option" where
  "find_free_queue_slot_writer r = find_slot (\<lambda>i. qs_queue (vr_queues r i)) kMaxTrackedVulkanQueues 0"

definition find_swapchain_slot_writer :: "registry \<Rightarrow> handle \<Rightarrow> nat option" where
  "find_swapchain_slot_writer r swapchain =
     find_slot (\<lambda>i. ss_swapchain (vr_swapchains r i)) kMaxTrackedVulkanSwapchains swapchain"

definition find_free_swapchain_slot_writer :: "registry \<Rightarrow> nat option" where
  "find_free_swapchain_slot_writer r =
     find_slot (\<lambda>i. ss_swapchain (vr_swapchains r i)) kMaxTrackedVulkanSwapchains 0"

text \<open>
  The loops over a table: the stores on every slot whose device is the given one.  The stores of one slot do
  not change the device of another.
\<close>

definition on_each :: "(nat \<Rightarrow> 's \<Rightarrow> registry \<Rightarrow> registry) \<Rightarrow> (nat \<Rightarrow> bool) \<Rightarrow> 's list \<Rightarrow> nat \<Rightarrow> stores" where
  "on_each store sel fs n = concat (map (\<lambda>i. if sel i then map (store i) fs else []) [0..<n])"

definition erase_swapchains_for_device_writer :: "registry \<Rightarrow> handle \<Rightarrow> stores" where
  "erase_swapchains_for_device_writer r device =
     on_each on_swapchain (\<lambda>i. ss_device (vr_swapchains r i) = device)
       [(\<lambda>s. s\<lparr>ss_swapchain := 0\<rparr>), (\<lambda>s. s\<lparr>ss_device := 0\<rparr>), (\<lambda>s. s\<lparr>ss_flags := 0\<rparr>)]
       kMaxTrackedVulkanSwapchains"

definition erase_queues_for_device_writer :: "registry \<Rightarrow> handle \<Rightarrow> stores" where
  "erase_queues_for_device_writer r device =
     on_each on_queue (\<lambda>i. qs_device (vr_queues r i) = device)
       [(\<lambda>s. s\<lparr>qs_queue := 0\<rparr>), (\<lambda>s. s\<lparr>qs_device := 0\<rparr>), (\<lambda>s. s\<lparr>qs_present := 0\<rparr>), (\<lambda>s. s\<lparr>qs_notify := 0\<rparr>)]
       kMaxTrackedVulkanQueues"

definition refresh_queues_for_device_writer :: "registry \<Rightarrow> handle \<Rightarrow> entry \<Rightarrow> entry \<Rightarrow> stores" where
  "refresh_queues_for_device_writer r device queue_present native_notify =
     on_each on_queue (\<lambda>i. qs_device (vr_queues r i) = device)
       [(\<lambda>s. s\<lparr>qs_present := queue_present\<rparr>), (\<lambda>s. s\<lparr>qs_notify := native_notify\<rparr>)]
       kMaxTrackedVulkanQueues"

text \<open>\<open>MutationScope\<close>: one increment of the generation before the stores and one after.\<close>

definition next_generation :: "registry \<Rightarrow> registry" where
  "next_generation r = r\<lparr>vr_generation := vr_generation r + 1\<rparr>"

definition mutation_scope :: "stores \<Rightarrow> stores" where
  "mutation_scope fs = next_generation # fs @ [next_generation]"

text \<open>
  The critical sections, each its stores and its answer.  The entry points retained for a queue: the
  notification only of a device that passes the native extension through.
\<close>

definition native_notify :: "device_state \<Rightarrow> entry" where
  "native_notify st = (if ds_nv_low_latency2_native st then ep_nv_queue_notify_out_of_band (ds_entries st) else 0)"

definition register_device :: "registry \<Rightarrow> device_state \<Rightarrow> stores \<times> bool" where
  "register_device r st =
     (if ds_device st = 0 then ([], False)
      else case or_else (find_device_slot_writer r (ds_device st)) (find_free_device_slot_writer r) of
        None \<Rightarrow> ([], False)
      | Some i \<Rightarrow>
          (mutation_scope (map (on_device i) (publish_device_slot st) @
             refresh_queues_for_device_writer r (ds_device st) (ep_queue_present (ds_entries st)) (native_notify st)),
           True))"

text \<open>Afterwards the semaphore is destroyed: the entry point and the semaphore, when neither is null.\<close>

definition unregister_device :: "registry \<Rightarrow> handle \<Rightarrow> stores \<times> (entry \<times> handle) option" where
  "unregister_device r device =
     (if device = 0 then ([], None)
      else case find_device_slot_writer r device of
        None \<Rightarrow> ([], None)
      | Some i \<Rightarrow>
          (let destroy = ep_destroy_semaphore (sl_entries (vr_devices r i));
               semaphore = sl_semaphore (vr_devices r i)
           in (mutation_scope (map (on_device i) clear_device_slot @
                 erase_queues_for_device_writer r device @ erase_swapchains_for_device_writer r device),
               if semaphore \<noteq> 0 \<and> destroy \<noteq> 0 then Some (destroy, semaphore) else None)))"

definition register_queue :: "registry \<Rightarrow> handle \<Rightarrow> handle \<Rightarrow> stores \<times> bool" where
  "register_queue r device queue =
     (if device = 0 \<or> queue = 0 then ([], False)
      else case find_device_slot_writer r device of
        None \<Rightarrow> ([], False)
      | Some d \<Rightarrow>
        (case or_else (find_queue_slot_writer r queue) (find_free_queue_slot_writer r) of
          None \<Rightarrow> ([], False)
        | Some i \<Rightarrow>
            (let slot = vr_devices r d;
                 notify = (if sl_flags slot AND kFlagNvLowLatency2Native \<noteq> 0
                           then ep_nv_queue_notify_out_of_band (sl_entries slot) else 0);
                 present = ep_queue_present (sl_entries slot)
             in (mutation_scope (map (on_queue i)
                   [(\<lambda>s. s\<lparr>qs_queue := 0\<rparr>), (\<lambda>s. s\<lparr>qs_device := device\<rparr>), (\<lambda>s. s\<lparr>qs_present := present\<rparr>),
                    (\<lambda>s. s\<lparr>qs_notify := notify\<rparr>), (\<lambda>s. s\<lparr>qs_queue := queue\<rparr>)]), True))))"

definition register_swapchain :: "registry \<Rightarrow> handle \<Rightarrow> handle \<Rightarrow> u32 \<Rightarrow> stores \<times> bool" where
  "register_swapchain r device swapchain flags =
     (if device = 0 \<or> swapchain = 0 then ([], False)
      else case or_else (find_swapchain_slot_writer r swapchain) (find_free_swapchain_slot_writer r) of
        None \<Rightarrow> ([], False)
      | Some i \<Rightarrow>
          (mutation_scope (map (on_swapchain i)
             [(\<lambda>s. s\<lparr>ss_swapchain := 0\<rparr>), (\<lambda>s. s\<lparr>ss_device := device\<rparr>), (\<lambda>s. s\<lparr>ss_flags := flags\<rparr>),
              (\<lambda>s. s\<lparr>ss_swapchain := swapchain\<rparr>)]), True))"

definition unregister_swapchain :: "registry \<Rightarrow> handle \<Rightarrow> stores" where
  "unregister_swapchain r swapchain =
     (if swapchain = 0 then []
      else case find_swapchain_slot_writer r swapchain of
        None \<Rightarrow> []
      | Some i \<Rightarrow> mutation_scope (map (on_swapchain i)
          [(\<lambda>s. s\<lparr>ss_swapchain := 0\<rparr>), (\<lambda>s. s\<lparr>ss_device := 0\<rparr>), (\<lambda>s. s\<lparr>ss_flags := 0\<rparr>)]))"

text \<open>
  The locked part of \<open>ensure_low_latency_semaphore\<close>, which the null device never reaches: a new semaphore is installed unless the slot has one.
  The answer: whether it was installed, the semaphore handed out unless the device is gone (then the
  caller's variable is not written), and the entry point to destroy the new one with if it was not installed.
\<close>

definition install_semaphore :: "registry \<Rightarrow> handle \<Rightarrow> handle \<Rightarrow> entry \<Rightarrow> stores \<times> bool \<times> handle option \<times> entry" where
  "install_semaphore r device new_semaphore cached_destroy =
     (if device = 0 then ([], False, None, 0)
      else case find_device_slot_writer r device of
        None \<Rightarrow> ([], False, None, cached_destroy)
      | Some i \<Rightarrow>
          (let existing = sl_semaphore (vr_devices r i) in
           if existing = 0
           then (mutation_scope [on_device i (\<lambda>s. s\<lparr>sl_semaphore := new_semaphore\<rparr>)], True, Some new_semaphore, 0)
           else ([], False, Some existing, ep_destroy_semaphore (sl_entries (vr_devices r i)))))"

definition destroy_low_latency_semaphore :: "registry \<Rightarrow> handle \<Rightarrow> stores \<times> (entry \<times> handle) option" where
  "destroy_low_latency_semaphore r device =
     (if device = 0 then ([], None)
      else case find_device_slot_writer r device of
        None \<Rightarrow> ([], None)
      | Some i \<Rightarrow>
          (let semaphore = sl_semaphore (vr_devices r i);
               destroy = ep_destroy_semaphore (sl_entries (vr_devices r i))
           in if semaphore = 0 then ([], None)
              else (mutation_scope [on_device i (\<lambda>s. s\<lparr>sl_semaphore := 0\<rparr>)],
                    if destroy \<noteq> 0 then Some (destroy, semaphore) else None)))"

text \<open>The calls that write, as one type, and their stores.\<close>

datatype writer_call =
    W_RegisterDevice device_state
  | W_UnregisterDevice handle
  | W_RegisterQueue handle handle
  | W_RegisterSwapchain handle handle u32
  | W_UnregisterSwapchain handle
  | W_InstallSemaphore handle handle entry
  | W_DestroySemaphore handle

primrec stores_of :: "registry \<Rightarrow> writer_call \<Rightarrow> stores" where
  "stores_of r (W_RegisterDevice st) = fst (register_device r st)"
| "stores_of r (W_UnregisterDevice d) = fst (unregister_device r d)"
| "stores_of r (W_RegisterQueue d q) = fst (register_queue r d q)"
| "stores_of r (W_RegisterSwapchain d w fl) = fst (register_swapchain r d w fl)"
| "stores_of r (W_UnregisterSwapchain w) = unregister_swapchain r w"
| "stores_of r (W_InstallSemaphore d sem e) = fst (install_semaphore r d sem e)"
| "stores_of r (W_DestroySemaphore d) = fst (destroy_low_latency_semaphore r d)"

definition run_stores :: "stores \<Rightarrow> registry \<Rightarrow> registry" where
  "run_stores fs r = fold (\<lambda>f. f) fs r"

definition registry_write :: "registry \<Rightarrow> writer_call \<Rightarrow> registry" where
  "registry_write r call = run_stores (stores_of r call) r"


end
