(* ===== verification/RegistryMaps.thy ===== *)
theory RegistryMaps
  imports DeviceRegistry
begin

text \<open>
  What the Vulkan registry promises: its three tables are maps of bounded size.  Every call that writes
  updates the maps, and the entry points kept with a queue are those of its device.
\<close>

section \<open>What the stores of a slot leave\<close>

lemma flag_bit: "bit (if b then x OR shl1 n else x) m \<longleftrightarrow> bit x m \<or> (b \<and> m = n \<and> n < 32)" for x :: u32
  by (simp add: bit_or_shl1)

lemma pack_flags_bit [simp]:
  "pack_flags st AND kFlagAmdAntiLag \<noteq> 0 \<longleftrightarrow> ds_amd_anti_lag_enabled st"
  "pack_flags st AND kFlagNvLowLatency2 \<noteq> 0 \<longleftrightarrow> ds_nv_low_latency2_enabled st"
  "pack_flags st AND kFlagNvLowLatency2Native \<noteq> 0 \<longleftrightarrow> ds_nv_low_latency2_native st"
  "pack_flags st AND kFlagPresentId \<noteq> 0 \<longleftrightarrow> ds_present_id_enabled st"
  "pack_flags st AND kFlagPresentId2 \<noteq> 0 \<longleftrightarrow> ds_present_id2_enabled st"
  "pack_flags st AND kFlagPresentWait \<noteq> 0 \<longleftrightarrow> ds_present_wait_enabled st"
  "pack_flags st AND kFlagPresentWait2 \<noteq> 0 \<longleftrightarrow> ds_present_wait2_enabled st"
  "pack_flags st AND kFlagPresentTiming \<noteq> 0 \<longleftrightarrow> ds_present_timing_enabled st"
  "pack_flags st AND kFlagCapabilityProbeComplete \<noteq> 0 \<longleftrightarrow> cs_support_probe_complete (ds_capabilities st)"
  unfolding pack_flags_def Let_def flag_defs and_shl1_eq_0_iff not_not flag_bit by simp_all

definition published_slot :: "device_state \<Rightarrow> device_slot" where
  "published_slot st =
     \<lparr>sl_device = ds_device st, sl_entries = ds_entries st, sl_semaphore = ds_semaphore st, sl_flags = pack_flags st,
      sl_api_version = cs_api_version (ds_capabilities st), sl_driver_version = cs_driver_version (ds_capabilities st),
      sl_vendor_id = cs_vendor_id (ds_capabilities st), sl_device_id = cs_device_id (ds_capabilities st),
      sl_supported = cs_supported (ds_capabilities st), sl_enabled = cs_enabled (ds_capabilities st),
      sl_enabled_known = cs_enabled_known (ds_capabilities st),
      sl_eds3_supported = cs_eds3_supported (ds_capabilities st),
      sl_eds3_enabled = cs_eds3_enabled (ds_capabilities st),
      sl_eds3_enabled_known = cs_eds3_enabled_known (ds_capabilities st)\<rparr>"

lemma publish_result: "fold (\<lambda>f. f) (publish_device_slot st) s = published_slot st"
  by (rule device_slot.equality) (simp_all add: publish_device_slot_def published_slot_def)

lemma clear_result: "fold (\<lambda>f. f) clear_device_slot s = device_slot_zero"
  by (rule device_slot.equality) (simp_all add: clear_device_slot_def device_slot_zero_def entries_null_def)

lemma slot_state_fields:
  "slot_state s = \<lparr>ds_device = sl_device s, ds_entries = sl_entries s, ds_semaphore = sl_semaphore s,
     ds_amd_anti_lag_enabled = sl_flags s AND kFlagAmdAntiLag \<noteq> 0,
     ds_nv_low_latency2_enabled = sl_flags s AND kFlagNvLowLatency2 \<noteq> 0,
     ds_nv_low_latency2_native = sl_flags s AND kFlagNvLowLatency2Native \<noteq> 0,
     ds_present_id_enabled = sl_flags s AND kFlagPresentId \<noteq> 0,
     ds_present_id2_enabled = sl_flags s AND kFlagPresentId2 \<noteq> 0,
     ds_present_wait_enabled = sl_flags s AND kFlagPresentWait \<noteq> 0,
     ds_present_wait2_enabled = sl_flags s AND kFlagPresentWait2 \<noteq> 0,
     ds_present_timing_enabled = sl_flags s AND kFlagPresentTiming \<noteq> 0,
     ds_capabilities = \<lparr>cs_api_version = sl_api_version s, cs_driver_version = sl_driver_version s,
       cs_vendor_id = sl_vendor_id s, cs_device_id = sl_device_id s, cs_supported = sl_supported s,
       cs_enabled = sl_enabled s, cs_enabled_known = sl_enabled_known s, cs_eds3_supported = sl_eds3_supported s,
       cs_eds3_enabled = sl_eds3_enabled s, cs_eds3_enabled_known = sl_eds3_enabled_known s,
       cs_support_probe_complete = sl_flags s AND kFlagCapabilityProbeComplete \<noteq> 0\<rparr>\<rparr>"
  by (simp add: slot_state_def device_loads_def device_state_zero_def capability_zero_def entries_null_def)

lemma slot_state_published: "slot_state (published_slot st) = st"
  unfolding slot_state_fields by (simp add: published_slot_def)

lemma slot_state_simps [simp]:
  "ds_device (slot_state s) = sl_device s" "ds_entries (slot_state s) = sl_entries s"
  "ds_semaphore (slot_state s) = sl_semaphore s"
  "slot_state (s\<lparr>sl_semaphore := x\<rparr>) = (slot_state s)\<lparr>ds_semaphore := x\<rparr>"
  by (simp_all add: slot_state_fields)

section \<open>What a critical section leaves\<close>

lemma run_stores_simps [simp]:
  "run_stores [] r = r" "run_stores (f # fs) r = run_stores fs (f r)"
  "run_stores (fs @ gs) r = run_stores gs (run_stores fs r)"
  by (simp_all add: run_stores_def)

lemma run_mutation: "run_stores (mutation_scope fs) r = next_generation (run_stores fs (next_generation r))"
  by (simp add: mutation_scope_def)

lemma run_on_device: "run_stores (map (on_device i) fs) r = on_device i (fold (\<lambda>f. f) fs) r"
  by (induction fs arbitrary: r) (simp_all add: on_device_def)

lemma run_on_queue: "run_stores (map (on_queue i) fs) r = on_queue i (fold (\<lambda>f. f) fs) r"
  by (induction fs arbitrary: r) (simp_all add: on_queue_def)

lemma run_on_swapchain: "run_stores (map (on_swapchain i) fs) r = on_swapchain i (fold (\<lambda>f. f) fs) r"
  by (induction fs arbitrary: r) (simp_all add: on_swapchain_def)

lemma on_each_Suc: "on_each store sel fs (Suc n) = on_each store sel fs n @ (if sel n then map (store n) fs else [])"
  by (simp add: on_each_def)

lemma on_each_0: "on_each store sel fs 0 = []"
  by (simp add: on_each_def)

lemma run_on_each_queue:
  "run_stores (on_each on_queue sel fs n) r =
     r\<lparr>vr_queues := (\<lambda>j. if j < n \<and> sel j then fold (\<lambda>f. f) fs (vr_queues r j) else vr_queues r j)\<rparr>"
  by (induction n) (simp_all add: on_each_0 on_each_Suc run_on_queue, auto simp: on_queue_def less_Suc_eq fun_eq_iff)

lemma run_on_each_swapchain:
  "run_stores (on_each on_swapchain sel fs n) r =
     r\<lparr>vr_swapchains := (\<lambda>j. if j < n \<and> sel j then fold (\<lambda>f. f) fs (vr_swapchains r j) else vr_swapchains r j)\<rparr>"
  by (induction n) (simp_all add: on_each_0 on_each_Suc run_on_swapchain, auto simp: on_swapchain_def less_Suc_eq fun_eq_iff)

lemmas run_critical = run_mutation run_on_device run_on_queue run_on_swapchain run_on_each_queue run_on_each_swapchain
  publish_result clear_result

section \<open>The maps\<close>

record registry_view =
  rv_devices :: "handle \<Rightarrow> device_state option"
  rv_queues :: "handle \<Rightarrow> (handle \<times> entry \<times> entry) option"
  rv_swapchains :: "handle \<Rightarrow> (handle \<times> u32) option"

abbreviation device_key :: "registry \<Rightarrow> nat \<Rightarrow> handle" where "device_key r i \<equiv> sl_device (vr_devices r i)"
abbreviation queue_key :: "registry \<Rightarrow> nat \<Rightarrow> handle" where "queue_key r i \<equiv> qs_queue (vr_queues r i)"
abbreviation swapchain_key :: "registry \<Rightarrow> nat \<Rightarrow> handle" where "swapchain_key r i \<equiv> ss_swapchain (vr_swapchains r i)"

definition queue_value :: "queue_slot \<Rightarrow> handle \<times> entry \<times> entry" where
  "queue_value q = (qs_device q, qs_present q, qs_notify q)"

definition swapchain_value :: "swapchain_slot \<Rightarrow> handle \<times> u32" where
  "swapchain_value w = (ss_device w, ss_flags w)"

definition view :: "registry \<Rightarrow> registry_view" where
  "view r = \<lparr>
     rv_devices = table (device_key r) (\<lambda>i. slot_state (vr_devices r i)) kMaxTrackedVulkanDevices,
     rv_queues = table (queue_key r) (\<lambda>i. queue_value (vr_queues r i)) kMaxTrackedVulkanQueues,
     rv_swapchains = table (swapchain_key r) (\<lambda>i. swapchain_value (vr_swapchains r i)) kMaxTrackedVulkanSwapchains\<rparr>"

definition view_initial :: registry_view where
  "view_initial = \<lparr>rv_devices = Map.empty, rv_queues = Map.empty, rv_swapchains = Map.empty\<rparr>"

text \<open>No handle is in two slots.\<close>

definition keys_inv :: "registry \<Rightarrow> bool" where
  "keys_inv r \<longleftrightarrow> keys_ok (device_key r) kMaxTrackedVulkanDevices \<and>
     keys_ok (queue_key r) kMaxTrackedVulkanQueues \<and> keys_ok (swapchain_key r) kMaxTrackedVulkanSwapchains"

text \<open>There is room for a handle in a map of at most \<open>n\<close> entries.\<close>

definition room :: "nat \<Rightarrow> (handle \<Rightarrow> 'v option) \<Rightarrow> handle \<Rightarrow> bool" where
  "room n m h \<longleftrightarrow> h \<noteq> 0 \<and> (m h \<noteq> None \<or> card (dom m) < n)"

definition drop_device :: "handle \<Rightarrow> (handle \<times> 'v) option \<Rightarrow> (handle \<times> 'v) option" where
  "drop_device d x = (case x of None \<Rightarrow> None | Some v \<Rightarrow> if fst v = d then None else Some v)"

definition refresh :: "device_state \<Rightarrow> handle \<times> entry \<times> entry \<Rightarrow> handle \<times> entry \<times> entry" where
  "refresh st v = (if fst v = ds_device st then (fst v, ep_queue_present (ds_entries st), native_notify st) else v)"

fun view_write :: "registry_view \<Rightarrow> writer_call \<Rightarrow> registry_view" where
  "view_write v (W_RegisterDevice st) =
     (if room kMaxTrackedVulkanDevices (rv_devices v) (ds_device st)
      then v\<lparr>rv_devices := (rv_devices v)(ds_device st \<mapsto> st),
             rv_queues := (\<lambda>q. map_option (refresh st) (rv_queues v q))\<rparr>
      else v)"
| "view_write v (W_UnregisterDevice d) =
     (if rv_devices v d = None then v
      else v\<lparr>rv_devices := (rv_devices v)(d := None), rv_queues := (\<lambda>q. drop_device d (rv_queues v q)),
             rv_swapchains := (\<lambda>w. drop_device d (rv_swapchains v w))\<rparr>)"
| "view_write v (W_RegisterQueue d q) =
     (case rv_devices v d of
        None \<Rightarrow> v
      | Some st \<Rightarrow>
          if room kMaxTrackedVulkanQueues (rv_queues v) q
          then v\<lparr>rv_queues := (rv_queues v)(q \<mapsto> (d, ep_queue_present (ds_entries st), native_notify st))\<rparr>
          else v)"
| "view_write v (W_RegisterSwapchain d w fl) =
     (if d \<noteq> 0 \<and> room kMaxTrackedVulkanSwapchains (rv_swapchains v) w
      then v\<lparr>rv_swapchains := (rv_swapchains v)(w \<mapsto> (d, fl))\<rparr> else v)"
| "view_write v (W_UnregisterSwapchain w) = v\<lparr>rv_swapchains := (rv_swapchains v)(w := None)\<rparr>"
| "view_write v (W_InstallSemaphore d sem e) =
     (case rv_devices v d of
        None \<Rightarrow> v
      | Some st \<Rightarrow> if ds_semaphore st = 0 then v\<lparr>rv_devices := (rv_devices v)(d \<mapsto> st\<lparr>ds_semaphore := sem\<rparr>)\<rparr> else v)"
| "view_write v (W_DestroySemaphore d) =
     (case rv_devices v d of
        None \<Rightarrow> v
      | Some st \<Rightarrow> v\<lparr>rv_devices := (rv_devices v)(d \<mapsto> st\<lparr>ds_semaphore := 0\<rparr>)\<rparr>)"

lemma keys_invD:
  assumes "keys_inv r"
  shows "keys_ok (device_key r) kMaxTrackedVulkanDevices" "keys_ok (queue_key r) kMaxTrackedVulkanQueues"
    "keys_ok (swapchain_key r) kMaxTrackedVulkanSwapchains"
  using assms by (simp_all add: keys_inv_def)

lemma same_tables:
  "vr_devices s = vr_devices r \<Longrightarrow> vr_queues s = vr_queues r \<Longrightarrow> vr_swapchains s = vr_swapchains r \<Longrightarrow>
   view s = view r \<and> keys_inv s = keys_inv r"
  by (simp add: view_def keys_inv_def)

lemma next_generation_tables [simp]:
  "vr_devices (next_generation r) = vr_devices r" "vr_queues (next_generation r) = vr_queues r"
  "vr_swapchains (next_generation r) = vr_swapchains r"
  by (simp_all add: next_generation_def)

lemma view_next [simp]: "view (next_generation r) = view r" "keys_inv (next_generation r) = keys_inv r"
  using same_tables [of "next_generation r" r] by simp_all

text \<open>A slot was found or is free exactly when there is room.\<close>

lemma or_else_room:
  assumes "keys_ok key n" "h \<noteq> 0"
  shows "or_else (find_slot key n h) (find_slot key n 0) = None \<longleftrightarrow> \<not> room n (table key val n) h"
  using assms(2) table_full [OF assms(1), of val]
  by (auto simp: room_def or_else_def table_def not_less split: option.split)

section \<open>Every call updates the maps\<close>

lemma writer_found:
  "find_device_slot_writer r d = find_slot (device_key r) kMaxTrackedVulkanDevices d"
  "find_free_device_slot_writer r = find_slot (device_key r) kMaxTrackedVulkanDevices 0"
  "find_queue_slot_writer r q = find_slot (queue_key r) kMaxTrackedVulkanQueues q"
  "find_free_queue_slot_writer r = find_slot (queue_key r) kMaxTrackedVulkanQueues 0"
  "find_swapchain_slot_writer r w = find_slot (swapchain_key r) kMaxTrackedVulkanSwapchains w"
  "find_free_swapchain_slot_writer r = find_slot (swapchain_key r) kMaxTrackedVulkanSwapchains 0"
  by (simp_all add: find_device_slot_writer_def find_free_device_slot_writer_def find_queue_slot_writer_def
      find_free_queue_slot_writer_def find_swapchain_slot_writer_def find_free_swapchain_slot_writer_def)

lemma device_found:
  assumes "d \<noteq> 0" "find_device_slot_writer r d = Some i"
  shows "rv_devices (view r) d = Some (slot_state (vr_devices r i))" "i < kMaxTrackedVulkanDevices" "device_key r i = d"
  using assms find_slot_Some [of "device_key r" _ d i] by (auto simp: view_def table_def writer_found)

lemma device_missing: "d = 0 \<or> find_device_slot_writer r d = None \<Longrightarrow> rv_devices (view r) d = None"
  by (auto simp: view_def table_def writer_found)

lemma fun_upd_apply_comp: "(\<lambda>i. f ((m(j := x)) i)) = (\<lambda>i. f (m i))(j := f x)"
  by (simp add: fun_eq_iff)

text \<open>A device slot rewritten with a state for the same device, and nothing else changed but queue values.\<close>

lemma put_device:
  assumes ok: "keys_inv r" and d: "sl_device x \<noteq> 0"
    and i: "or_else (find_slot (device_key r) kMaxTrackedVulkanDevices (sl_device x))
      (find_slot (device_key r) kMaxTrackedVulkanDevices 0) = Some i"
    and s: "vr_devices s = (vr_devices r)(i := x)" "vr_swapchains s = vr_swapchains r"
    and q: "\<And>j. j < kMaxTrackedVulkanQueues \<Longrightarrow> queue_key s j = queue_key r j \<and> queue_value (vr_queues s j) = g (queue_value (vr_queues r j))"
  shows "keys_inv s" "view s = (view r)\<lparr>rv_devices := (rv_devices (view r))(sl_device x \<mapsto> slot_state x),
    rv_queues := (\<lambda>h. map_option g (rv_queues (view r) h))\<rparr>"
proof -
  note put = table_put(1,2) [OF keys_invD(1) [OF ok] d i]
    table_put(3) [OF keys_invD(1) [OF ok] d i, where val = "\<lambda>i. slot_state (vr_devices r i)" and x = "slot_state x"]
  have dk: "device_key s = (device_key r)(i := sl_device x)"
    and dv: "(\<lambda>j. slot_state (vr_devices s j)) = (\<lambda>j. slot_state (vr_devices r j))(i := slot_state x)"
    using s by (simp_all add: fun_eq_iff)
  have find: "find_slot (queue_key s) kMaxTrackedVulkanQueues h = find_slot (queue_key r) kMaxTrackedVulkanQueues h" for h
    unfolding find_slot_def using q by (intro find_cong) auto
  have qt: "table (queue_key s) (\<lambda>j. queue_value (vr_queues s j)) kMaxTrackedVulkanQueues =
      (\<lambda>h. map_option g (table (queue_key r) (\<lambda>j. queue_value (vr_queues r j)) kMaxTrackedVulkanQueues h))"
  proof
    fix h
    show "table (queue_key s) (\<lambda>j. queue_value (vr_queues s j)) kMaxTrackedVulkanQueues h =
      map_option g (table (queue_key r) (\<lambda>j. queue_value (vr_queues r j)) kMaxTrackedVulkanQueues h)"
      using q find_slot_Some [of "queue_key r" kMaxTrackedVulkanQueues h]
      by (cases "find_slot (queue_key r) kMaxTrackedVulkanQueues h") (auto simp: table_def find)
  qed
  have "keys_ok (queue_key s) kMaxTrackedVulkanQueues"
    using keys_invD(2) [OF ok] q by (intro keys_okI) (metis keys_okD)
  then show "keys_inv s" unfolding keys_inv_def dk s(2) using put(2) keys_invD(3) [OF ok] by blast
  show "view s = (view r)\<lparr>rv_devices := (rv_devices (view r))(sl_device x \<mapsto> slot_state x),
    rv_queues := (\<lambda>h. map_option g (rv_queues (view r) h))\<rparr>"
    using put(3) s(2) by (simp add: view_def dk dv qt)
qed

lemma register_device_maps:
  assumes ok: "keys_inv r"
  shows "keys_inv (registry_write r (W_RegisterDevice st)) \<and>
    view (registry_write r (W_RegisterDevice st)) = view_write (view r) (W_RegisterDevice st)"
proof (cases "room kMaxTrackedVulkanDevices (rv_devices (view r)) (ds_device st)")
  case False
  then have "stores_of r (W_RegisterDevice st) = []"
    using or_else_room [OF keys_invD(1) [OF ok], of "ds_device st" "\<lambda>i. slot_state (vr_devices r i)"]
    by (cases "ds_device st = 0") (simp_all add: register_device_def writer_found view_def)
  with ok False show ?thesis by (simp add: registry_write_def del: stores_of.simps)
next
  case True
  then have d: "ds_device st \<noteq> 0" by (simp add: room_def)
  with True or_else_room [OF keys_invD(1) [OF ok] d, where val = "\<lambda>i. slot_state (vr_devices r i)"] obtain i where
    i: "or_else (find_slot (device_key r) kMaxTrackedVulkanDevices (ds_device st))
      (find_slot (device_key r) kMaxTrackedVulkanDevices 0) = Some i" by (auto simp: view_def)
  let ?s = "registry_write r (W_RegisterDevice st)"
  have s: "vr_devices ?s = (vr_devices r)(i := published_slot st)" "vr_swapchains ?s = vr_swapchains r"
    "vr_queues ?s = (\<lambda>j. if j < kMaxTrackedVulkanQueues \<and> qs_device (vr_queues r j) = ds_device st
       then (vr_queues r j)\<lparr>qs_present := ep_queue_present (ds_entries st), qs_notify := native_notify st\<rparr>
       else vr_queues r j)"
    using d i by (simp_all add: registry_write_def register_device_def writer_found run_critical
        refresh_queues_for_device_writer_def on_device_def cong: if_cong)
  have "sl_device (published_slot st) = ds_device st" by (simp add: published_slot_def)
  note put = put_device [where x = "published_slot st" and g = "refresh st", unfolded this, OF ok d i s(1,2),
      unfolded slot_state_published]
  have "keys_inv ?s" "view ?s = (view r)\<lparr>rv_devices := (rv_devices (view r))(ds_device st \<mapsto> st),
    rv_queues := (\<lambda>h. map_option (refresh st) (rv_queues (view r) h))\<rparr>"
    by (rule put; simp add: s(3) queue_value_def refresh_def)+
  with True show ?thesis by simp
qed

text \<open>The two calls that write the semaphore of a registered device.\<close>

lemma write_semaphore:
  assumes ok: "keys_inv r" and d: "d \<noteq> 0" and i: "find_device_slot_writer r d = Some i"
    and s: "s = run_stores (mutation_scope [on_device i (\<lambda>s. s\<lparr>sl_semaphore := x\<rparr>)]) r"
  shows "keys_inv s \<and> view s =
    (view r)\<lparr>rv_devices := (rv_devices (view r))(d \<mapsto> (slot_state (vr_devices r i))\<lparr>ds_semaphore := x\<rparr>)\<rparr>"
proof -
  let ?x = "(vr_devices r i)\<lparr>sl_semaphore := x\<rparr>"
  have k: "sl_device ?x = d" using device_found(3) [OF d i] by simp
  have t: "vr_devices s = (vr_devices r)(i := ?x)" "vr_swapchains s = vr_swapchains r" "vr_queues s = vr_queues r"
    by (simp_all add: s run_mutation on_device_def)
  have o: "or_else (find_slot (device_key r) kMaxTrackedVulkanDevices d)
      (find_slot (device_key r) kMaxTrackedVulkanDevices 0) = Some i"
    using i by (simp add: writer_found or_else_def)
  note put = put_device [where x = ?x and g = "\<lambda>v. v", unfolded k, OF ok d o t(1,2)]
  have "keys_inv s" "view s = (view r)\<lparr>rv_devices := (rv_devices (view r))(d \<mapsto> slot_state ?x),
    rv_queues := (\<lambda>h. map_option (\<lambda>v. v) (rv_queues (view r) h))\<rparr>"
    by (rule put; simp add: t(3))+
  then show ?thesis by (simp add: option.map_ident)
qed

lemma semaphore_maps:
  assumes ok: "keys_inv r"
  shows "keys_inv (registry_write r (W_InstallSemaphore d x e)) \<and>
      view (registry_write r (W_InstallSemaphore d x e)) = view_write (view r) (W_InstallSemaphore d x e)"
    and "keys_inv (registry_write r (W_DestroySemaphore d)) \<and>
      view (registry_write r (W_DestroySemaphore d)) = view_write (view r) (W_DestroySemaphore d)"
proof -
  show "keys_inv (registry_write r (W_DestroySemaphore d)) \<and>
      view (registry_write r (W_DestroySemaphore d)) = view_write (view r) (W_DestroySemaphore d)"
  proof (cases "d = 0 \<or> find_device_slot_writer r d = None")
    case True
    with ok device_missing [OF True] show ?thesis
      by (auto simp: registry_write_def destroy_low_latency_semaphore_def)
  next
    case False
    then obtain i where i: "find_device_slot_writer r d = Some i" and d: "d \<noteq> 0" by auto
    have "m(d \<mapsto> st\<lparr>ds_semaphore := 0\<rparr>) = m" if "m d = Some st" "ds_semaphore st = 0" for m :: "handle \<Rightarrow> device_state option" and st
      using that by (cases st) (simp add: fun_eq_iff)
    note eq = this [of "rv_devices (view r)", OF device_found(1) [OF d i]]
    show ?thesis
      using ok device_found(1) [OF d i] write_semaphore [OF ok d i refl] eq i d
      by (simp add: registry_write_def destroy_low_latency_semaphore_def Let_def)
  qed
  show "keys_inv (registry_write r (W_InstallSemaphore d x e)) \<and>
      view (registry_write r (W_InstallSemaphore d x e)) = view_write (view r) (W_InstallSemaphore d x e)"
  proof (cases "d = 0 \<or> find_device_slot_writer r d = None")
    case True
    with ok device_missing [OF True] show ?thesis by (auto simp: registry_write_def install_semaphore_def)
  next
    case False
    then obtain i where i: "find_device_slot_writer r d = Some i" and d: "d \<noteq> 0" by auto
    show ?thesis
      using ok device_found(1) [OF d i] write_semaphore [OF ok d i refl] i d
      by (simp add: registry_write_def install_semaphore_def Let_def)
  qed
qed

lemma full_update:
  "q\<lparr>qs_device := d, qs_present := p, qs_notify := n, qs_queue := k\<rparr> =
     \<lparr>qs_queue = k, qs_device = d, qs_present = p, qs_notify = n\<rparr>"
  "w\<lparr>ss_device := d, ss_flags := fl, ss_swapchain := k\<rparr> = \<lparr>ss_swapchain = k, ss_device = d, ss_flags = fl\<rparr>"
  "w\<lparr>ss_swapchain := k, ss_device := d, ss_flags := fl\<rparr> = \<lparr>ss_swapchain = k, ss_device = d, ss_flags = fl\<rparr>"
  by (rule queue_slot.equality swapchain_slot.equality; simp)+

lemma unregister_device_maps:
  assumes ok: "keys_inv r"
  shows "keys_inv (registry_write r (W_UnregisterDevice d)) \<and>
    view (registry_write r (W_UnregisterDevice d)) = view_write (view r) (W_UnregisterDevice d)"
proof (cases "d = 0 \<or> find_device_slot_writer r d = None")
  case True
  with ok device_missing [OF True] show ?thesis by (auto simp: registry_write_def unregister_device_def)
next
  case False
  then obtain i where d: "d \<noteq> 0" and i: "find_device_slot_writer r d = Some i" by auto
  note f = device_found [OF d i]
  let ?s = "registry_write r (W_UnregisterDevice d)"
  have s: "vr_devices ?s = (vr_devices r)(i := device_slot_zero)"
    "vr_queues ?s = (\<lambda>j. if j < kMaxTrackedVulkanQueues \<and> qs_device (vr_queues r j) = d then queue_slot_zero else vr_queues r j)"
    "vr_swapchains ?s = (\<lambda>j. if j < kMaxTrackedVulkanSwapchains \<and> ss_device (vr_swapchains r j) = d
       then swapchain_slot_zero else vr_swapchains r j)"
    using d i by (simp_all add: registry_write_def unregister_device_def run_critical Let_def fun_eq_iff
        erase_queues_for_device_writer_def erase_swapchains_for_device_writer_def on_device_def
        queue_slot_zero_def swapchain_slot_zero_def cong: if_cong)
  have dk: "device_key ?s j = (if device_key r j = d then 0 else device_key r j)" if "j < kMaxTrackedVulkanDevices" for j
    using that f other_key [OF keys_invD(1) [OF ok] f(2,3) d that] by (cases "j = i") (auto simp: s device_slot_zero_def)
  have dv: "slot_state (vr_devices ?s j) = slot_state (vr_devices r j)" if "device_key r j \<noteq> d" for j
    using that f by (auto simp: s)
  note D = table_remove [OF keys_invD(1) [OF ok] d dk dv]
  note Q = table_clear [OF keys_invD(2) [OF ok], of "queue_key ?s" "\<lambda>v. fst v = d" "\<lambda>j. queue_value (vr_queues r j)"
      "\<lambda>j. queue_value (vr_queues ?s j)"]
  note W = table_clear [OF keys_invD(3) [OF ok], of "swapchain_key ?s" "\<lambda>v. fst v = d"
      "\<lambda>j. swapchain_value (vr_swapchains r j)" "\<lambda>j. swapchain_value (vr_swapchains ?s j)"]
  have k: "keys_inv ?s"
    unfolding keys_inv_def
    by (intro conjI D(1) Q(1) W(1)) (auto simp: s queue_value_def swapchain_value_def queue_slot_zero_def swapchain_slot_zero_def)
  have dd: "rv_devices (view ?s) = (rv_devices (view r))(d := None)"
    using D(2) by (simp add: view_def)
  have qq: "rv_queues (view ?s) h = drop_device d (rv_queues (view r) h)" for h
    unfolding drop_device_def using Q(2) [of h]
    by (simp add: view_def s queue_value_def queue_slot_zero_def)
  have ww: "rv_swapchains (view ?s) h = drop_device d (rv_swapchains (view r) h)" for h
    unfolding drop_device_def using W(2) [of h]
    by (simp add: view_def s swapchain_value_def swapchain_slot_zero_def)
  show ?thesis
    using k dd qq ww f(1) by (intro conjI registry_view.equality) (auto simp: fun_eq_iff)
qed

text \<open>A queue or swapchain slot rewritten.\<close>

lemma put_queue:
  assumes ok: "keys_inv r" and q: "q \<noteq> 0"
    and i: "or_else (find_slot (queue_key r) kMaxTrackedVulkanQueues q) (find_slot (queue_key r) kMaxTrackedVulkanQueues 0) = Some i"
    and s: "vr_devices s = vr_devices r" "vr_swapchains s = vr_swapchains r" "vr_queues s = (vr_queues r)(i := x)" "qs_queue x = q"
  shows "keys_inv s \<and> view s = (view r)\<lparr>rv_queues := (rv_queues (view r))(q \<mapsto> queue_value x)\<rparr>"
proof -
  note put = table_put(1,2) [OF keys_invD(2) [OF ok] q i]
    table_put(3) [OF keys_invD(2) [OF ok] q i, where val = "\<lambda>i. queue_value (vr_queues r i)" and x = "queue_value x"]
  have k: "queue_key s = (queue_key r)(i := q)"
    and v: "(\<lambda>j. queue_value (vr_queues s j)) = (\<lambda>j. queue_value (vr_queues r j))(i := queue_value x)"
    using s by (simp_all add: fun_eq_iff)
  show ?thesis
    using put keys_invD [OF ok] unfolding keys_inv_def view_def k v s(1,2) by simp
qed

lemma put_swapchain:
  assumes ok: "keys_inv r" and w: "w \<noteq> 0"
    and i: "or_else (find_slot (swapchain_key r) kMaxTrackedVulkanSwapchains w)
      (find_slot (swapchain_key r) kMaxTrackedVulkanSwapchains 0) = Some i"
    and s: "vr_devices s = vr_devices r" "vr_queues s = vr_queues r" "vr_swapchains s = (vr_swapchains r)(i := x)"
      "ss_swapchain x = w"
  shows "keys_inv s \<and> view s = (view r)\<lparr>rv_swapchains := (rv_swapchains (view r))(w \<mapsto> swapchain_value x)\<rparr>"
proof -
  note put = table_put(1,2) [OF keys_invD(3) [OF ok] w i]
    table_put(3) [OF keys_invD(3) [OF ok] w i, where val = "\<lambda>i. swapchain_value (vr_swapchains r i)"
      and x = "swapchain_value x"]
  have k: "swapchain_key s = (swapchain_key r)(i := w)"
    and v: "(\<lambda>j. swapchain_value (vr_swapchains s j)) = (\<lambda>j. swapchain_value (vr_swapchains r j))(i := swapchain_value x)"
    using s by (simp_all add: fun_eq_iff)
  show ?thesis
    using put keys_invD [OF ok] unfolding keys_inv_def view_def k v s(1,2) by simp
qed

lemma register_queue_maps:
  assumes ok: "keys_inv r"
  shows "keys_inv (registry_write r (W_RegisterQueue d q)) \<and>
    view (registry_write r (W_RegisterQueue d q)) = view_write (view r) (W_RegisterQueue d q)"
proof (cases "d = 0 \<or> find_device_slot_writer r d = None")
  case True
  with ok device_missing [OF True] show ?thesis by (auto simp: registry_write_def register_queue_def)
next
  case False
  then obtain j where d: "d \<noteq> 0" and j: "find_device_slot_writer r d = Some j" by auto
  note f = device_found(1) [OF d j]
  let ?find = "or_else (find_slot (queue_key r) kMaxTrackedVulkanQueues q) (find_slot (queue_key r) kMaxTrackedVulkanQueues 0)"
  have room: "q \<noteq> 0 \<Longrightarrow> ?find = None \<longleftrightarrow> \<not> room kMaxTrackedVulkanQueues (rv_queues (view r)) q"
    using or_else_room [OF keys_invD(2) [OF ok]] by (simp add: view_def)
  show ?thesis
  proof (cases "q = 0 \<or> ?find = None")
    case True
    then have "\<not> room kMaxTrackedVulkanQueues (rv_queues (view r)) q" using room by (auto simp: room_def)
    with True ok f j d show ?thesis by (auto simp: registry_write_def register_queue_def writer_found)
  next
    case False
    then obtain i where q: "q \<noteq> 0" and i: "?find = Some i" by auto
    let ?x = "\<lparr>qs_queue = q, qs_device = d, qs_present = ep_queue_present (ds_entries (slot_state (vr_devices r j))),
      qs_notify = native_notify (slot_state (vr_devices r j))\<rparr>"
    let ?s = "registry_write r (W_RegisterQueue d q)"
    have s: "vr_devices ?s = vr_devices r" "vr_swapchains ?s = vr_swapchains r" "vr_queues ?s = (vr_queues r)(i := ?x)"
      using d j q i
      by (simp_all add: registry_write_def register_queue_def writer_found run_mutation on_queue_def Let_def native_notify_def
          slot_state_fields full_update)
    show ?thesis using put_queue [OF ok q i s] f room q i by (simp add: queue_value_def)
  qed
qed

lemma register_swapchain_maps:
  assumes ok: "keys_inv r"
  shows "keys_inv (registry_write r (W_RegisterSwapchain d w fl)) \<and>
    view (registry_write r (W_RegisterSwapchain d w fl)) = view_write (view r) (W_RegisterSwapchain d w fl)"
proof -
  let ?find = "or_else (find_slot (swapchain_key r) kMaxTrackedVulkanSwapchains w)
    (find_slot (swapchain_key r) kMaxTrackedVulkanSwapchains 0)"
  have room: "w \<noteq> 0 \<Longrightarrow> ?find = None \<longleftrightarrow> \<not> room kMaxTrackedVulkanSwapchains (rv_swapchains (view r)) w"
    using or_else_room [OF keys_invD(3) [OF ok]] by (simp add: view_def)
  show ?thesis
  proof (cases "d = 0 \<or> w = 0 \<or> ?find = None")
    case True
    then have "d = 0 \<or> \<not> room kMaxTrackedVulkanSwapchains (rv_swapchains (view r)) w" using room by (auto simp: room_def)
    with True ok show ?thesis by (auto simp: registry_write_def register_swapchain_def writer_found)
  next
    case False
    then obtain i where d: "d \<noteq> 0" and w: "w \<noteq> 0" and i: "?find = Some i" by auto
    let ?x = "\<lparr>ss_swapchain = w, ss_device = d, ss_flags = fl\<rparr>"
    let ?s = "registry_write r (W_RegisterSwapchain d w fl)"
    have s: "vr_devices ?s = vr_devices r" "vr_queues ?s = vr_queues r" "vr_swapchains ?s = (vr_swapchains r)(i := ?x)"
      using d w i by (simp_all add: registry_write_def register_swapchain_def writer_found run_mutation on_swapchain_def full_update)
    show ?thesis using put_swapchain [OF ok w i s] room d w i by (simp add: swapchain_value_def)
  qed
qed

lemma unregister_swapchain_maps:
  assumes ok: "keys_inv r"
  shows "keys_inv (registry_write r (W_UnregisterSwapchain w)) \<and>
    view (registry_write r (W_UnregisterSwapchain w)) = view_write (view r) (W_UnregisterSwapchain w)"
proof (cases "w = 0 \<or> find_swapchain_slot_writer r w = None")
  case True
  then have "rv_swapchains (view r) w = None" by (auto simp: view_def table_def writer_found)
  then have "(view r)\<lparr>rv_swapchains := (rv_swapchains (view r))(w := None)\<rparr> = view r"
    by (intro registry_view.equality) (auto simp: fun_eq_iff)
  with ok True show ?thesis by (auto simp: registry_write_def unregister_swapchain_def)
next
  case False
  then obtain i where w: "w \<noteq> 0" and i: "find_slot (swapchain_key r) kMaxTrackedVulkanSwapchains w = Some i"
    by (auto simp: writer_found)
  let ?s = "registry_write r (W_UnregisterSwapchain w)"
  have s: "vr_devices ?s = vr_devices r" "vr_queues ?s = vr_queues r" "vr_swapchains ?s = (vr_swapchains r)(i := swapchain_slot_zero)"
    using w i by (simp_all add: registry_write_def unregister_swapchain_def writer_found run_mutation on_swapchain_def
        swapchain_slot_zero_def full_update)
  have key: "swapchain_key ?s j = (if swapchain_key r j = w then 0 else swapchain_key r j)"
    if "j < kMaxTrackedVulkanSwapchains" for j
    using that find_slot_Some [OF i] other_key [OF keys_invD(3) [OF ok] _ _ w that, of i]
    by (cases "j = i") (auto simp: s swapchain_slot_zero_def)
  have val: "swapchain_value (vr_swapchains ?s j) = swapchain_value (vr_swapchains r j)" if "swapchain_key r j \<noteq> w" for j
    using that find_slot_Some [OF i] by (auto simp: s)
  note W = table_remove [OF keys_invD(3) [OF ok] w key val]
  have k: "keys_inv ?s" using keys_invD [OF ok] W(1) by (simp add: keys_inv_def s(1,2))
  have "rv_swapchains (view ?s) = (rv_swapchains (view r))(w := None)"
    using W(2) by (simp add: view_def)
  with k show ?thesis by (simp add: view_def s(1,2))
qed

lemma registry_write_maps:
  assumes "keys_inv r"
  shows "keys_inv (registry_write r call) \<and> view (registry_write r call) = view_write (view r) call"
proof (cases call)
  case (W_RegisterDevice st)
  then show ?thesis using register_device_maps [OF assms] by simp
next
  case (W_UnregisterDevice d)
  then show ?thesis using unregister_device_maps [OF assms] by simp
next
  case (W_RegisterQueue d q)
  then show ?thesis using register_queue_maps [OF assms] by simp
next
  case (W_RegisterSwapchain d w fl)
  then show ?thesis using register_swapchain_maps [OF assms] by simp
next
  case (W_UnregisterSwapchain w)
  then show ?thesis using unregister_swapchain_maps [OF assms] by simp
next
  case (W_InstallSemaphore d x e)
  then show ?thesis using semaphore_maps(1) [OF assms] by simp
next
  case (W_DestroySemaphore d)
  then show ?thesis using semaphore_maps(2) [OF assms] by simp
qed

interpretation registry_maps: simulation registry_write keys_inv view_write view
  by unfold_locales (simp_all add: registry_write_maps)

lemma registry_initial_maps: "keys_inv registry_initial" "view registry_initial = view_initial"
proof -
  have k: "keys_ok (\<lambda>i. 0) n" for n by (rule keys_okI) simp
  then show "keys_inv registry_initial"
    by (simp add: keys_inv_def registry_initial_def device_slot_zero_def queue_slot_zero_def swapchain_slot_zero_def)
  show "view registry_initial = view_initial"
    by (simp add: view_def view_initial_def registry_initial_def device_slot_zero_def queue_slot_zero_def
        swapchain_slot_zero_def table_empty)
qed

text \<open>The entry points kept with a queue are those of its device, which is registered.\<close>

definition coherent :: "registry_view \<Rightarrow> bool" where
  "coherent v \<longleftrightarrow> (\<forall>q d p n. rv_queues v q = Some (d, p, n) \<longrightarrow>
     (\<exists>st. rv_devices v d = Some st \<and> p = ep_queue_present (ds_entries st) \<and> n = native_notify st))"

lemma coherentD:
  "coherent v \<Longrightarrow> rv_queues v q = Some (d, p, n) \<Longrightarrow>
   \<exists>st. rv_devices v d = Some st \<and> p = ep_queue_present (ds_entries st) \<and> n = native_notify st"
  unfolding coherent_def by blast

lemma coherentI:
  "(\<And>q d p n. rv_queues v q = Some (d, p, n) \<Longrightarrow>
     \<exists>st. rv_devices v d = Some st \<and> p = ep_queue_present (ds_entries st) \<and> n = native_notify st) \<Longrightarrow> coherent v"
  unfolding coherent_def by blast

lemma native_notify_semaphore [simp]: "native_notify (st\<lparr>ds_semaphore := x\<rparr>) = native_notify st"
  by (simp add: native_notify_def)

lemma coherent_write: "coherent v \<Longrightarrow> coherent (view_write v call)"
proof (rule coherentI)
  fix q d p n
  assume v: "coherent v" and q: "rv_queues (view_write v call) q = Some (d, p, n)"
  note c = coherentD [OF v, of q]
  show "\<exists>st. rv_devices (view_write v call) d = Some st \<and> p = ep_queue_present (ds_entries st) \<and> n = native_notify st"
    using q c by (cases call) (auto simp: refresh_def drop_device_def split: if_splits option.splits)
qed

lemma coherent_run: "coherent v \<Longrightarrow> coherent (foldl view_write v calls)"
  by (induction calls arbitrary: v) (simp_all add: coherent_write)

text \<open>C10
  The registry, slots and all, is three maps: any sequence of calls that write, from the empty registry
  on, leaves what it leaves of the maps, each bounded by its table; and the entry points kept with a queue
  are always those of its device, which is registered.
\<close>

theorem registry_refines_maps:
  "let v = view (foldl registry_write registry_initial calls) in
     v = foldl view_write view_initial calls \<and> coherent v \<and>
     card (dom (rv_devices v)) \<le> 16 \<and> card (dom (rv_queues v)) \<le> 64 \<and> card (dom (rv_swapchains v)) \<le> 64"
proof -
  let ?r = "foldl registry_write registry_initial calls"
  have v: "view ?r = foldl view_write view_initial calls"
    using registry_maps.abs_run [OF registry_initial_maps(1)] by (simp add: registry_initial_maps(2))
  have "coherent (view ?r)"
    unfolding v by (intro coherent_run coherentI) (simp add: view_initial_def)
  moreover have "keys_inv ?r" by (rule registry_maps.inv_run [OF registry_initial_maps(1)])
  note keys_invD [OF this]
  from table_bounded [OF this(1)] table_bounded [OF this(2)] table_bounded [OF this(3)]
  have "card (dom (rv_devices (view ?r))) \<le> 16" "card (dom (rv_queues (view ?r))) \<le> 64"
    "card (dom (rv_swapchains (view ?r))) \<le> 64"
    by (simp_all add: view_def kMaxTrackedVulkanDevices_def kMaxTrackedVulkanQueues_def kMaxTrackedVulkanSwapchains_def)
  ultimately show ?thesis using v by (simp add: Let_def)
qed

text \<open>What the registering calls answer: whether there is room.\<close>

lemma registering_answers:
  assumes "keys_inv r"
  shows "snd (register_device r st) \<longleftrightarrow> room kMaxTrackedVulkanDevices (rv_devices (view r)) (ds_device st)"
    "snd (register_swapchain r d w fl) \<longleftrightarrow> d \<noteq> 0 \<and> room kMaxTrackedVulkanSwapchains (rv_swapchains (view r)) w"
proof -
  note k = keys_invD [OF assms]
  show "snd (register_device r st) \<longleftrightarrow> room kMaxTrackedVulkanDevices (rv_devices (view r)) (ds_device st)"
    using or_else_room [OF k(1), of "ds_device st" "\<lambda>i. slot_state (vr_devices r i)"]
    by (cases "ds_device st = 0")
      (auto simp: register_device_def writer_found view_def room_def split: option.split)
  show "snd (register_swapchain r d w fl) \<longleftrightarrow> d \<noteq> 0 \<and> room kMaxTrackedVulkanSwapchains (rv_swapchains (view r)) w"
    using or_else_room [OF k(3), of w "\<lambda>i. swapchain_value (vr_swapchains r i)"]
    by (cases "w = 0") (auto simp: register_swapchain_def writer_found view_def room_def split: option.split)
qed

end
