(* ===== verification/RegistryReaders.thy ===== *)
theory RegistryReaders
  imports DeviceRegistry
begin

text \<open>
  The readers of the Vulkan registry (\<open>src/vulkan_device_registry.cpp\<close>) under any interleaving with the
  writers and with each other.  A reader is the tree of its loads, each of one atomic word of the registry;
  it takes no lock, but takes what it has loaded only if the generation is still the even number it began
  with.  A writer holds the mutex from the computation of its stores to the last of them.  A move of the
  system is one load of one thread or one store of the writer.  Accesses are sequentially consistent.  Each
  thread keeps what it read last under the generation it read it in.  A loop that waits for a stable
  generation or repeats a torn read begins its body again.
\<close>

section \<open>Readers\<close>

datatype 'r reader = Return 'r | Load "registry \<Rightarrow> 'r reader"

primrec bind_reader :: "'a reader \<Rightarrow> ('a \<Rightarrow> 'b reader) \<Rightarrow> 'b reader" where
  "bind_reader (Return x) f = f x"
| "bind_reader (Load k) f = Load (\<lambda>r. bind_reader (k r) f)"

text \<open>The loads of a slot's fields, one after the other.\<close>

fun load_fields :: "nat \<Rightarrow> (device_slot \<Rightarrow> device_state \<Rightarrow> device_state) list \<Rightarrow> device_state \<Rightarrow>
    (device_state \<Rightarrow> 'r reader) \<Rightarrow> 'r reader" where
  "load_fields i [] st k = k st"
| "load_fields i (f # fs) st k = Load (\<lambda>r. load_fields i fs (f (vr_devices r i) st) k)"

text \<open>
  \<open>snapshot_device\<close> over the slots that are left: None when the read was torn, and the zero state, whose
  device is null, when no slot has the device.
\<close>

fun snapshot_device :: "handle \<Rightarrow> u64 \<Rightarrow> nat list \<Rightarrow> device_state option reader" where
  "snapshot_device d g [] =
     Load (\<lambda>r. Return (if vr_generation r = g then Some device_state_zero else None))"
| "snapshot_device d g (i # is) =
     Load (\<lambda>r. if sl_device (vr_devices r i) \<noteq> d then snapshot_device d g is
       else load_fields i device_loads (device_state_zero\<lparr>ds_device := d\<rparr>) (\<lambda>st.
         Load (\<lambda>r. if vr_generation r \<noteq> g then Return None
           else Load (\<lambda>r. Return (if sl_device (vr_devices r i) \<noteq> d then None else Some st)))))"

record device_cache =
  dc_device :: handle
  dc_generation :: u64
  dc_valid :: bool
  dc_state :: device_state

record queue_cache =
  qc_queue :: handle
  qc_device :: handle
  qc_present :: entry
  qc_notify :: entry
  qc_generation :: u64
  qc_valid :: bool
  qc_resolved :: bool

record thread_caches =
  tc_device :: device_cache
  tc_queue :: queue_cache

definition caches_initial :: thread_caches where
  "caches_initial = \<lparr>
     tc_device = \<lparr>dc_device = 0, dc_generation = 0, dc_valid = False, dc_state = device_state_zero\<rparr>,
     tc_queue = \<lparr>qc_queue = 0, qc_device = 0, qc_present = 0, qc_notify = 0, qc_generation = 0, qc_valid = False,
       qc_resolved = False\<rparr>\<rparr>"

text \<open>
  \<open>snapshot_queue\<close>: None when the read was torn, otherwise the new cache entry.
\<close>

fun snapshot_queue :: "handle \<Rightarrow> u64 \<Rightarrow> nat list \<Rightarrow> queue_cache option reader" where
  "snapshot_queue q g [] =
     Load (\<lambda>r. Return (if vr_generation r \<noteq> g then None
       else Some \<lparr>qc_queue = q, qc_device = 0, qc_present = 0, qc_notify = 0, qc_generation = g,
              qc_valid = True, qc_resolved = False\<rparr>))"
| "snapshot_queue q g (i # is) =
     Load (\<lambda>r. if qs_queue (vr_queues r i) \<noteq> q then snapshot_queue q g is
       else Load (\<lambda>r. let device = qs_device (vr_queues r i) in
         Load (\<lambda>r. let present = qs_present (vr_queues r i) in
         Load (\<lambda>r. let notify = qs_notify (vr_queues r i) in
         Load (\<lambda>r. if vr_generation r \<noteq> g then Return None
           else Load (\<lambda>r. Return (if qs_queue (vr_queues r i) \<noteq> q then None
             else Some \<lparr>qc_queue = q, qc_device = device, qc_present = present, qc_notify = notify,
                    qc_generation = g, qc_valid = True, qc_resolved = True\<rparr>)))))))"

text \<open>
  The scan of \<open>get_swapchain_state\<close>: a slot that changed under the reader ends the scan; at its end the
  answer is no only if the generation has not moved.
\<close>

definition swapchain_absent :: "u64 \<Rightarrow> (handle \<times> u32) option option reader" where
  "swapchain_absent g = Load (\<lambda>r. Return (if vr_generation r = g then Some None else None))"

fun snapshot_swapchain :: "handle \<Rightarrow> u64 \<Rightarrow> nat list \<Rightarrow> (handle \<times> u32) option option reader" where
  "snapshot_swapchain w g [] = swapchain_absent g"
| "snapshot_swapchain w g (i # is) =
     Load (\<lambda>r. if ss_swapchain (vr_swapchains r i) \<noteq> w then snapshot_swapchain w g is
       else Load (\<lambda>r. let device = ss_device (vr_swapchains r i) in
         Load (\<lambda>r. let flags = ss_flags (vr_swapchains r i) in
         Load (\<lambda>r. if vr_generation r \<noteq> g then swapchain_absent g
           else Load (\<lambda>r. if ss_swapchain (vr_swapchains r i) \<noteq> w then swapchain_absent g
             else Return (Some (Some (device, flags))))))))"

text \<open>
  The loop over the devices in \<open>get_native_queue_notify\<close> for a queue the registry does not know: the only
  native notification entry point, or null when there is none or they differ.
\<close>

fun resolve_notify :: "u64 \<Rightarrow> entry \<Rightarrow> nat list \<Rightarrow> entry option reader" where
  "resolve_notify g candidate [] =
     Load (\<lambda>r. Return (if vr_generation r \<noteq> g then None else Some candidate))"
| "resolve_notify g candidate (i # is) =
     Load (\<lambda>r. if sl_device (vr_devices r i) = 0 then resolve_notify g candidate is
       else Load (\<lambda>r. if sl_flags (vr_devices r i) AND kFlagNvLowLatency2Native = 0 then resolve_notify g candidate is
         else Load (\<lambda>r. let notify = ep_nv_queue_notify_out_of_band (sl_entries (vr_devices r i)) in
           if notify = 0 then resolve_notify g candidate is
           else if candidate \<noteq> 0 \<and> candidate \<noteq> notify
           then Load (\<lambda>r. Return (if vr_generation r \<noteq> g then None else Some 0))
           else resolve_notify g notify is)))"

section \<open>Calls and their loops\<close>

text \<open>
  \<open>R_Fallback\<close> is the second loop of \<open>R_Notify\<close>, \<open>get_native_queue_notify\<close>; the other lookups return what
  \<open>cached_device_state\<close>, \<open>cached_queue_state\<close> and \<open>get_swapchain_state\<close> find.  A queue whose entry has no
  device is reported as not found.
\<close>

datatype reader_call = R_Device handle | R_Queue handle | R_Swapchain handle | R_Notify handle | R_Fallback handle

datatype reader_answer =
    A_Device handle "device_state option"
  | A_Queue handle "(handle \<times> entry \<times> entry) option"
  | A_Swapchain handle "(handle \<times> u32) option"
  | A_Notify handle entry

datatype outcome = Again | Finish thread_caches reader_answer | Go_on thread_caches

text \<open>\<open>stable_generation\<close>: the body of the loop goes on when the generation is even.\<close>

definition with_stable_generation :: "(u64 \<Rightarrow> outcome reader) \<Rightarrow> outcome reader" where
  "with_stable_generation body = Load (\<lambda>r. if vr_generation r AND 1 \<noteq> 0 then Return Again else body (vr_generation r))"

definition cached_device :: "device_cache \<Rightarrow> handle \<Rightarrow> device_state option" where
  "cached_device c d = (if ds_device (dc_state c) = d then Some (dc_state c) else None)"

definition cached_device_state :: "thread_caches \<Rightarrow> handle \<Rightarrow> outcome reader" where
  "cached_device_state c d =
     (if d = 0 then Return (Finish c (A_Device d None))
      else with_stable_generation (\<lambda>g.
        if dc_valid (tc_device c) \<and> dc_device (tc_device c) = d \<and> dc_generation (tc_device c) = g
        then Return (Finish c (A_Device d (cached_device (tc_device c) d)))
        else bind_reader (snapshot_device d g [0..<kMaxTrackedVulkanDevices]) (\<lambda>s.
          case s of
            None \<Rightarrow> Return Again
          | Some st \<Rightarrow>
              (let e = \<lparr>dc_device = d, dc_generation = g, dc_valid = True, dc_state = st\<rparr> in
               Return (Finish (c\<lparr>tc_device := e\<rparr>) (A_Device d (cached_device e d)))))))"

definition queue_answer :: "queue_cache \<Rightarrow> (handle \<times> entry \<times> entry) option" where
  "queue_answer e = (if qc_device e = 0 then None else Some (qc_device e, qc_present e, qc_notify e))"

definition cached_queue_state :: "thread_caches \<Rightarrow> handle \<Rightarrow> (thread_caches \<Rightarrow> outcome) \<Rightarrow> outcome reader" where
  "cached_queue_state c q found =
     with_stable_generation (\<lambda>g.
       if qc_valid (tc_queue c) \<and> qc_queue (tc_queue c) = q \<and> qc_generation (tc_queue c) = g
       then Return (found c)
       else bind_reader (snapshot_queue q g [0..<kMaxTrackedVulkanQueues]) (\<lambda>s.
         case s of None \<Rightarrow> Return Again | Some e \<Rightarrow> Return (found (c\<lparr>tc_queue := e\<rparr>))))"

definition get_queue_dispatch :: "thread_caches \<Rightarrow> handle \<Rightarrow> outcome reader" where
  "get_queue_dispatch c q =
     (if q = 0 then Return (Finish c (A_Queue q None))
      else cached_queue_state c q (\<lambda>c. Finish c (A_Queue q (queue_answer (tc_queue c)))))"

definition get_swapchain_state :: "thread_caches \<Rightarrow> handle \<Rightarrow> outcome reader" where
  "get_swapchain_state c w =
     (if w = 0 then Return (Finish c (A_Swapchain w None))
      else with_stable_generation (\<lambda>g.
        bind_reader (snapshot_swapchain w g [0..<kMaxTrackedVulkanSwapchains]) (\<lambda>s.
          case s of None \<Rightarrow> Return Again | Some a \<Rightarrow> Return (Finish c (A_Swapchain w a)))))"

definition get_native_queue_notify :: "thread_caches \<Rightarrow> handle \<Rightarrow> outcome reader" where
  "get_native_queue_notify c q =
     (if q = 0 then Return (Finish c (A_Notify q 0))
      else cached_queue_state c q (\<lambda>c.
        if qc_resolved (tc_queue c) then Finish c (A_Notify q (qc_notify (tc_queue c))) else Go_on c))"

text \<open>The second loop writes the generation it resolved in, the entry point and the mark into the cached entry.\<close>

definition notify_fallback :: "thread_caches \<Rightarrow> handle \<Rightarrow> outcome reader" where
  "notify_fallback c q =
     with_stable_generation (\<lambda>g.
       bind_reader (resolve_notify g 0 [0..<kMaxTrackedVulkanDevices]) (\<lambda>s.
         case s of
           None \<Rightarrow> Return Again
         | Some notify \<Rightarrow>
             Return (Finish (c\<lparr>tc_queue := (tc_queue c)\<lparr>qc_generation := g, qc_notify := notify, qc_resolved := True\<rparr>\<rparr>)
               (A_Notify q notify))))"

primrec attempt :: "thread_caches \<Rightarrow> reader_call \<Rightarrow> outcome reader" where
  "attempt c (R_Device d) = cached_device_state c d"
| "attempt c (R_Queue q) = get_queue_dispatch c q"
| "attempt c (R_Swapchain w) = get_swapchain_state c w"
| "attempt c (R_Notify q) = get_native_queue_notify c q"
| "attempt c (R_Fallback q) = notify_fallback c q"

section \<open>Threads and moves\<close>

datatype reader_pc = RP_Idle | RP_Run reader_call "outcome reader"

text \<open>
  The registry, the stores the holder of the mutex has left, the caches and program counters of the threads;
  and what the code does not keep: the registries between two mutations, in order, for each call their number
  when it began, and for each answer the thread and the two numbers it lies between.
\<close>

record reg_conf =
  rc_registry :: registry
  rc_pending :: stores
  rc_caches :: "nat \<Rightarrow> thread_caches"
  rc_pc :: "nat \<Rightarrow> reader_pc"
  rc_committed :: "registry list"
  rc_since :: "nat \<Rightarrow> nat"
  rc_answers :: "(nat \<times> nat \<times> nat \<times> reader_answer) list"

definition reg_conf_initial :: reg_conf where
  "reg_conf_initial = \<lparr>rc_registry = registry_initial, rc_pending = [], rc_caches = (\<lambda>t. caches_initial),
     rc_pc = (\<lambda>t. RP_Idle), rc_committed = [registry_initial], rc_since = (\<lambda>t. 0), rc_answers = []\<rparr>"

datatype reg_move = M_Lock writer_call | M_Store | M_Call nat reader_call | M_Load nat

text \<open>What a thread does with the rest of its loop body.\<close>

definition proceed :: "nat \<Rightarrow> reader_call \<Rightarrow> outcome reader \<Rightarrow> reg_conf \<Rightarrow> reg_conf" where
  "proceed t call p c =
     (case p of
        Load k \<Rightarrow> c\<lparr>rc_pc := (rc_pc c)(t := RP_Run call p)\<rparr>
      | Return Again \<Rightarrow> c\<lparr>rc_pc := (rc_pc c)(t := RP_Run call (attempt (rc_caches c t) call))\<rparr>
      | Return (Finish tc a) \<Rightarrow>
          c\<lparr>rc_caches := (rc_caches c)(t := tc), rc_pc := (rc_pc c)(t := RP_Idle),
            rc_answers := rc_answers c @ [(t, rc_since c t, length (rc_committed c), a)]\<rparr>
      | Return (Go_on tc) \<Rightarrow>
          (case call of
             R_Notify q \<Rightarrow>
               c\<lparr>rc_caches := (rc_caches c)(t := tc),
                 rc_pc := (rc_pc c)(t := RP_Run (R_Fallback q) (attempt tc (R_Fallback q)))\<rparr>
           | _ \<Rightarrow> c))"

fun reg_perform :: "reg_conf \<Rightarrow> reg_move \<Rightarrow> reg_conf" where
  "reg_perform c (M_Lock call) =
     (if rc_pending c = [] then c\<lparr>rc_pending := stores_of (rc_registry c) call\<rparr> else c)"
| "reg_perform c M_Store =
     (case rc_pending c of
        [] \<Rightarrow> c
      | f # fs \<Rightarrow>
          c\<lparr>rc_registry := f (rc_registry c), rc_pending := fs,
            rc_committed := (if fs = [] then rc_committed c @ [f (rc_registry c)] else rc_committed c)\<rparr>)"
| "reg_perform c (M_Call t call) =
     (case rc_pc c t of
        RP_Run _ _ \<Rightarrow> c
      | RP_Idle \<Rightarrow>
          (case call of
             R_Fallback q \<Rightarrow> c
           | _ \<Rightarrow> proceed t call (attempt (rc_caches c t) call)
                    (c\<lparr>rc_since := (rc_since c)(t := length (rc_committed c) - 1)\<rparr>)))"
| "reg_perform c (M_Load t) =
     (case rc_pc c t of
        RP_Run call (Load k) \<Rightarrow> proceed t call (k (rc_registry c)) c
      | _ \<Rightarrow> c)"

section \<open>What the accessors make of a device's state\<close>

text \<open>The out parameters are never null; a null function pointer is 0.\<close>

definition get_state :: "device_state option \<Rightarrow> device_state \<Rightarrow> device_state \<times> bool" where
  "get_state cached out = (case cached of None \<Rightarrow> (out, False) | Some st \<Rightarrow> (st, True))"

definition get_acquire_next_image :: "device_state option \<Rightarrow> entry" where
  "get_acquire_next_image cached = (case cached of None \<Rightarrow> 0 | Some st \<Rightarrow> ep_acquire_next_image (ds_entries st))"

definition get_acquire_next_image2 :: "device_state option \<Rightarrow> entry" where
  "get_acquire_next_image2 cached = (case cached of None \<Rightarrow> 0 | Some st \<Rightarrow> ep_acquire_next_image2 (ds_entries st))"

record nv_dispatch =
  nd_set_sleep_mode :: entry
  nd_latency_sleep :: entry
  nd_set_marker :: entry
  nd_get_timings :: entry
  nd_enabled :: bool
  nd_native :: bool

definition get_nv_low_latency2_dispatch :: "device_state option \<Rightarrow> nv_dispatch option" where
  "get_nv_low_latency2_dispatch cached =
     (case cached of
        None \<Rightarrow> None
      | Some st \<Rightarrow>
          if \<not> ds_nv_low_latency2_enabled st then None
          else Some \<lparr>nd_set_sleep_mode = ep_nv_set_latency_sleep_mode (ds_entries st),
                 nd_latency_sleep = ep_nv_latency_sleep (ds_entries st),
                 nd_set_marker = ep_nv_set_latency_marker (ds_entries st),
                 nd_get_timings = ep_nv_get_latency_timings (ds_entries st),
                 nd_enabled = True, nd_native = ds_nv_low_latency2_native st\<rparr>)"

record present_dispatch =
  pp_wait_for_present :: entry
  pp_wait_for_present2 :: entry
  pp_get_past_presentation_timing :: entry
  pp_present_id_enabled :: bool
  pp_present_id2_enabled :: bool
  pp_present_wait_enabled :: bool
  pp_present_wait2_enabled :: bool
  pp_present_timing_enabled :: bool

definition get_present_precision_dispatch :: "device_state option \<Rightarrow> present_dispatch option" where
  "get_present_precision_dispatch cached =
     map_option (\<lambda>st. \<lparr>pp_wait_for_present = ep_wait_for_present (ds_entries st),
       pp_wait_for_present2 = ep_wait_for_present2 (ds_entries st),
       pp_get_past_presentation_timing = ep_get_past_presentation_timing (ds_entries st),
       pp_present_id_enabled = ds_present_id_enabled st, pp_present_id2_enabled = ds_present_id2_enabled st,
       pp_present_wait_enabled = ds_present_wait_enabled st, pp_present_wait2_enabled = ds_present_wait2_enabled st,
       pp_present_timing_enabled = ds_present_timing_enabled st\<rparr>) cached"

definition get_capabilities :: "device_state option \<Rightarrow> capability_snapshot option" where
  "get_capabilities cached = map_option ds_capabilities cached"

definition has_amd_anti_lag :: "device_state option \<Rightarrow> bool" where
  "has_amd_anti_lag cached =
     (case cached of None \<Rightarrow> False
      | Some st \<Rightarrow> ds_amd_anti_lag_enabled st \<and> ep_anti_lag_update (ds_entries st) \<noteq> 0)"

definition has_native_nv_low_latency2 :: "device_state option \<Rightarrow> bool" where
  "has_native_nv_low_latency2 cached = (case cached of None \<Rightarrow> False | Some st \<Rightarrow> ds_nv_low_latency2_native st)"

definition get_anti_lag_update :: "device_state option \<Rightarrow> entry" where
  "get_anti_lag_update cached =
     (case cached of None \<Rightarrow> 0
      | Some st \<Rightarrow> if \<not> ds_amd_anti_lag_enabled st then 0 else ep_anti_lag_update (ds_entries st))"

text \<open>A queue's dispatch is read off its cached entry.\<close>

definition get_queue_present_dispatch :: "(handle \<times> entry \<times> entry) option \<Rightarrow> (handle \<times> entry) option" where
  "get_queue_present_dispatch a = map_option (\<lambda>(d, p, n). (d, p)) a"

definition get_device_for_queue :: "(handle \<times> entry \<times> entry) option \<Rightarrow> handle option" where
  "get_device_for_queue a = map_option fst a"

end
