(* ===== verification/RegistryLinear.thy ===== *)
theory RegistryLinear
  imports RegistryMaps RegistryReaders
begin

text \<open>
  Every lookup of the Vulkan registry answers as the registry stood, between two mutations, at some moment
  of the call: however loads and stores interleave, a reader that accepts what it read has read one registry
  all the way, because the generation moves before the first store of a mutation and never comes back.
  One answer may be wrong: that a queue is not registered, to a thread that has asked for the notification
  entry point of a queue (theory RegistryStale has the run).
\<close>

section \<open>Readers on and off the track of one registry\<close>

text \<open>
  All results of a reader that meets only registries of other generations; and of a reader that has met
  one registry so far, and may leave it at any load for registries of other generations.
\<close>

primrec late :: "u64 \<Rightarrow> ('r \<Rightarrow> bool) \<Rightarrow> 'r reader \<Rightarrow> bool" where
  "late g Q (Return x) \<longleftrightarrow> Q x"
| "late g Q (Load f) \<longleftrightarrow> (\<forall>r. vr_generation r \<noteq> g \<longrightarrow> late g Q (f r))"

primrec track :: "registry \<Rightarrow> ('r \<Rightarrow> bool) \<Rightarrow> 'r reader \<Rightarrow> bool" where
  "track R Q (Return x) \<longleftrightarrow> Q x"
| "track R Q (Load f) \<longleftrightarrow> track R Q (f R) \<and> (\<forall>r. vr_generation r \<noteq> vr_generation R \<longrightarrow> late (vr_generation R) Q (f r))"

lemma late_mono: "late g P p \<Longrightarrow> (\<And>x. P x \<Longrightarrow> Q x) \<Longrightarrow> late g Q p"
  by (induction p) auto

lemma track_mono: "track R P p \<Longrightarrow> (\<And>x. P x \<Longrightarrow> Q x) \<Longrightarrow> track R Q p"
  by (induction p) (auto intro: late_mono)

lemma late_bind: "late g (\<lambda>x. Q (h x)) p \<Longrightarrow> late g Q (bind_reader p (\<lambda>x. Return (h x)))"
  by (induction p) auto

lemma track_bind: "track R (\<lambda>x. Q (h x)) p \<Longrightarrow> track R Q (bind_reader p (\<lambda>x. Return (h x)))"
  by (induction p) (auto intro: late_bind)

lemma track_bind_mono:
  "track R P p \<Longrightarrow> (\<And>x. P x \<Longrightarrow> Q (h x)) \<Longrightarrow> track R Q (bind_reader p (\<lambda>x. Return (h x)))"
  by (rule track_bind) (rule track_mono)

lemma late_load_fields: "(\<And>st. late g Q (k st)) \<Longrightarrow> late g Q (load_fields i fs st k)"
  by (induction i fs st k rule: load_fields.induct) auto

lemma track_load_fields:
  "track R Q (k (fold (\<lambda>f. f (vr_devices R i)) fs st)) \<Longrightarrow> (\<And>st. late (vr_generation R) Q (k st)) \<Longrightarrow>
   track R Q (load_fields i fs st k)"
  by (induction i fs st k rule: load_fields.induct) (auto intro: late_load_fields)

section \<open>The snapshots\<close>

lemma late_snapshot_device: "late g (\<lambda>s. s = None) (snapshot_device d g is)"
  by (induction "is") (auto intro!: late_load_fields)

lemma track_snapshot_device:
  "track R (\<lambda>s. s = None \<or> s = Some (case find (\<lambda>i. sl_device (vr_devices R i) = d) is of
      None \<Rightarrow> device_state_zero | Some i \<Rightarrow> slot_state (vr_devices R i))) (snapshot_device d (vr_generation R) is)"
  by (induction "is")
    (auto intro!: track_load_fields late_load_fields late_mono [OF late_snapshot_device] simp: slot_state_def)

lemma late_snapshot_queue: "late g (\<lambda>s. s = None) (snapshot_queue q g is)"
  by (induction "is") (auto simp: Let_def)

lemma track_snapshot_queue:
  "track R (\<lambda>s. s = None \<or> s = Some (case find (\<lambda>i. qs_queue (vr_queues R i) = q) is of
      None \<Rightarrow> \<lparr>qc_queue = q, qc_device = 0, qc_present = 0, qc_notify = 0, qc_generation = vr_generation R,
        qc_valid = True, qc_resolved = False\<rparr>
    | Some i \<Rightarrow> \<lparr>qc_queue = q, qc_device = qs_device (vr_queues R i), qc_present = qs_present (vr_queues R i),
        qc_notify = qs_notify (vr_queues R i), qc_generation = vr_generation R, qc_valid = True, qc_resolved = True\<rparr>))
   (snapshot_queue q (vr_generation R) is)"
  by (induction "is") (auto simp: Let_def intro!: late_mono [OF late_snapshot_queue])

lemma late_snapshot_swapchain: "late g (\<lambda>s. s = None) (snapshot_swapchain w g is)"
  by (induction "is") (auto simp: Let_def swapchain_absent_def)

lemma track_snapshot_swapchain:
  "track R (\<lambda>s. s = None \<or> s = Some (case find (\<lambda>i. ss_swapchain (vr_swapchains R i) = w) is of
      None \<Rightarrow> None | Some i \<Rightarrow> Some (ss_device (vr_swapchains R i), ss_flags (vr_swapchains R i))))
   (snapshot_swapchain w (vr_generation R) is)"
  by (induction "is") (auto simp: Let_def swapchain_absent_def intro!: late_mono [OF late_snapshot_swapchain])

lemma late_resolve_notify: "late g (\<lambda>s. s = None) (resolve_notify g e is)"
  by (induction "is" arbitrary: e) (auto simp: Let_def)

text \<open>What the scan of the devices for a notification entry point computes of the entry points it meets.\<close>

fun only_one :: "entry \<Rightarrow> entry list \<Rightarrow> entry" where
  "only_one c [] = c"
| "only_one c (n # ns) =
     (if n = 0 then only_one c ns else if c \<noteq> 0 \<and> c \<noteq> n then 0 else only_one n ns)"

definition slot_notify :: "device_slot \<Rightarrow> entry" where
  "slot_notify s = (if sl_device s = 0 then 0 else native_notify (slot_state s))"

lemma track_resolve_notify:
  "track R (\<lambda>s. s = None \<or> s = Some (only_one e (map (\<lambda>i. slot_notify (vr_devices R i)) is)))
     (resolve_notify (vr_generation R) e is)"
proof (induction "is" arbitrary: e)
  case (Cons i "is")
  have late: "late (vr_generation R) (\<lambda>s. s = None \<or> s = x) (resolve_notify (vr_generation R) c is)" for x c
    by (rule late_mono [OF late_resolve_notify]) simp
  show ?case
    using Cons [of e] Cons [of "ep_nv_queue_notify_out_of_band (sl_entries (vr_devices R i))"]
    by (auto simp: Let_def slot_notify_def native_notify_def slot_state_fields late)
qed simp

lemma only_one_set:
  "if only_one c ns = 0 then \<forall>x. insert c (set ns) - {0} \<noteq> {x}
   else insert c (set ns) - {0} = {only_one c ns}"
proof (induction c ns rule: only_one.induct)
  case (2 c n ns)
  consider (none) "n = 0" | (two) "n \<noteq> 0" "c \<noteq> 0" "c \<noteq> n" | (one) "n \<noteq> 0" "c = 0 \<or> c = n" by metis
  then show ?case
  proof cases
    case none
    then have "insert c (set (n # ns)) - {0} = insert c (set ns) - {0}" by auto
    with none 2(1) show ?thesis by simp
  next
    case two
    then have "n \<in> insert c (set (n # ns)) - {0}" "c \<in> insert c (set (n # ns)) - {0}" by auto
    then have "insert c (set (n # ns)) - {0} \<noteq> {x}" for x using two(3) by (metis singletonD)
    then show ?thesis using two by (simp only: only_one.simps if_True if_False simp_thms)
  next
    case one
    then have set: "insert c (set (n # ns)) - {0} = insert n (set ns) - {0}" by auto
    from one have "only_one c (n # ns) = only_one n ns" by auto
    with 2(2) one show ?thesis unfolding set by auto
  qed
qed auto

section \<open>Caches and answers against the registries so far\<close>

text \<open>
  The entry point \<open>e\<close> is the only one that the devices with native low latency have, or null when there is
  none or more than one.
\<close>

definition only_notify :: "(handle \<Rightarrow> device_state option) \<Rightarrow> entry \<Rightarrow> bool" where
  "only_notify devices e \<longleftrightarrow>
     (let natives = {native_notify st | d st. devices d = Some st} - {0}
      in if e = 0 then \<forall>n. natives \<noteq> {n} else natives = {e})"

text \<open>A notification entry point that may be given for a queue: that of the queue, or the only one there is.\<close>

definition notify_ok :: "registry \<Rightarrow> handle \<Rightarrow> entry \<Rightarrow> bool" where
  "notify_ok R q e \<longleftrightarrow>
     (\<exists>d p. rv_queues (view R) q = Some (d, p, e)) \<or> only_notify (rv_devices (view R)) e"

text \<open>
  A valid cache entry is right about the registry of its generation; only that a queue is unknown need not be
  so, in the entry of a thread that asks for the notification entry points of queues (not \<open>plain\<close>).
\<close>

definition device_entry_ok :: "registry list \<Rightarrow> device_cache \<Rightarrow> bool" where
  "device_entry_ok cs e \<longleftrightarrow> (dc_valid e \<longrightarrow> (\<exists>R\<in>set cs. dc_generation e = vr_generation R \<and>
     cached_device e (dc_device e) = rv_devices (view R) (dc_device e)))"

definition queue_entry_of :: "bool \<Rightarrow> registry \<Rightarrow> queue_cache \<Rightarrow> bool" where
  "queue_entry_of plain R e \<longleftrightarrow> qc_generation e = vr_generation R \<and>
     (plain \<or> qc_device e \<noteq> 0 \<longrightarrow> queue_answer e = rv_queues (view R) (qc_queue e)) \<and>
     (if qc_resolved e then notify_ok R (qc_queue e) (qc_notify e) else qc_device e = 0)"

definition queue_entry_ok :: "bool \<Rightarrow> registry list \<Rightarrow> queue_cache \<Rightarrow> bool" where
  "queue_entry_ok plain cs e \<longleftrightarrow> (qc_valid e \<longrightarrow> (\<exists>R\<in>set cs. queue_entry_of plain R e))"

definition caches_ok :: "bool \<Rightarrow> registry list \<Rightarrow> thread_caches \<Rightarrow> bool" where
  "caches_ok plain cs tc \<longleftrightarrow> device_entry_ok cs (tc_device tc) \<and> queue_entry_ok plain cs (tc_queue tc)"

primrec answer_ok :: "bool \<Rightarrow> registry \<Rightarrow> reader_answer \<Rightarrow> bool" where
  "answer_ok plain R (A_Device d x) \<longleftrightarrow> x = rv_devices (view R) d"
| "answer_ok plain R (A_Queue q x) \<longleftrightarrow> (plain \<or> x \<noteq> None \<longrightarrow> x = rv_queues (view R) q)"
| "answer_ok plain R (A_Swapchain w x) \<longleftrightarrow> x = rv_swapchains (view R) w"
| "answer_ok plain R (A_Notify q e) \<longleftrightarrow> (if q = 0 then e = 0 else notify_ok R q e)"

primrec outcome_ok :: "bool \<Rightarrow> registry list \<Rightarrow> registry \<Rightarrow> outcome \<Rightarrow> bool" where
  "outcome_ok plain cs R Again \<longleftrightarrow> True"
| "outcome_ok plain cs R (Finish tc a) \<longleftrightarrow> caches_ok plain cs tc \<and> answer_ok plain R a"
| "outcome_ok plain cs R (Go_on tc) \<longleftrightarrow> caches_ok plain cs tc \<and> \<not> plain \<and> qc_device (tc_queue tc) = 0"

primrec handle_of :: "reader_call \<Rightarrow> handle" where
  "handle_of (R_Device d) = d"
| "handle_of (R_Queue q) = q"
| "handle_of (R_Swapchain w) = w"
| "handle_of (R_Notify q) = q"
| "handle_of (R_Fallback q) = q"

primrec asks_notify :: "reader_call \<Rightarrow> bool" where
  "asks_notify (R_Device d) = False"
| "asks_notify (R_Queue q) = False"
| "asks_notify (R_Swapchain w) = False"
| "asks_notify (R_Notify q) = True"
| "asks_notify (R_Fallback q) = True"

text \<open>What the registries between two mutations satisfy.\<close>

definition settled :: "registry \<Rightarrow> bool" where
  "settled R \<longleftrightarrow> keys_inv R \<and> coherent (view R)"

definition distinct_generations :: "registry list \<Rightarrow> bool" where
  "distinct_generations cs \<longleftrightarrow> (\<forall>R\<in>set cs. \<forall>S\<in>set cs. vr_generation R = vr_generation S \<longrightarrow> R = S)"

lemma view_devices:
  "d \<noteq> 0 \<Longrightarrow> rv_devices (view R) d =
     map_option (\<lambda>i. slot_state (vr_devices R i)) (find (\<lambda>i. sl_device (vr_devices R i) = d) [0..<kMaxTrackedVulkanDevices])"
  by (simp add: view_def table_def find_slot_def)

lemma view_queues:
  "q \<noteq> 0 \<Longrightarrow> rv_queues (view R) q =
     map_option (\<lambda>i. queue_value (vr_queues R i)) (find (\<lambda>i. qs_queue (vr_queues R i) = q) [0..<kMaxTrackedVulkanQueues])"
  by (simp add: view_def table_def find_slot_def)

lemma view_swapchains:
  "w \<noteq> 0 \<Longrightarrow> rv_swapchains (view R) w =
     map_option (\<lambda>i. swapchain_value (vr_swapchains R i))
       (find (\<lambda>i. ss_swapchain (vr_swapchains R i) = w) [0..<kMaxTrackedVulkanSwapchains])"
  by (simp add: view_def table_def find_slot_def)

lemma settled_queue_device: "settled R \<Longrightarrow> rv_queues (view R) q = Some (d, p, n) \<Longrightarrow> d \<noteq> 0"
proof
  assume "settled R" "rv_queues (view R) q = Some (d, p, n)" "d = 0"
  then obtain st where "rv_devices (view R) 0 = Some st" using coherentD [of "view R" q d p n] by (auto simp: settled_def)
  then show False by (simp add: view_def table_def)
qed

text \<open>The entries the snapshots build from one registry.\<close>

lemma device_entry_new:
  assumes "d \<noteq> 0"
    and "st = (case find (\<lambda>i. sl_device (vr_devices R i) = d) [0..<kMaxTrackedVulkanDevices] of
      None \<Rightarrow> device_state_zero | Some i \<Rightarrow> slot_state (vr_devices R i))"
  shows "cached_device \<lparr>dc_device = d, dc_generation = g, dc_valid = True, dc_state = st\<rparr> d = rv_devices (view R) d"
proof (cases "find (\<lambda>i. sl_device (vr_devices R i) = d) [0..<kMaxTrackedVulkanDevices]")
  case None
  with assms show ?thesis by (simp add: cached_device_def view_devices device_state_zero_def)
next
  case (Some i)
  then have "sl_device (vr_devices R i) = d" by (auto simp: find_Some_iff)
  with Some assms show ?thesis by (simp add: cached_device_def view_devices)
qed

lemma queue_entry_new:
  assumes "settled R" "q \<noteq> 0"
    and "e = (case find (\<lambda>i. qs_queue (vr_queues R i) = q) [0..<kMaxTrackedVulkanQueues] of
      None \<Rightarrow> \<lparr>qc_queue = q, qc_device = 0, qc_present = 0, qc_notify = 0, qc_generation = vr_generation R,
        qc_valid = True, qc_resolved = False\<rparr>
    | Some i \<Rightarrow> \<lparr>qc_queue = q, qc_device = qs_device (vr_queues R i), qc_present = qs_present (vr_queues R i),
        qc_notify = qs_notify (vr_queues R i), qc_generation = vr_generation R, qc_valid = True, qc_resolved = True\<rparr>)"
  shows "queue_entry_of plain R e" "qc_queue e = q"
proof -
  have "queue_answer e = rv_queues (view R) q"
    using assms(3) settled_queue_device [OF assms(1), of q] view_queues [OF assms(2), of R]
    by (auto simp: queue_answer_def queue_value_def split: option.splits)
  moreover have "if qc_resolved e then \<exists>d p. rv_queues (view R) q = Some (d, p, qc_notify e) else qc_device e = 0"
    using assms(3) view_queues [OF assms(2), of R] by (auto simp: queue_value_def split: option.splits)
  moreover show "qc_queue e = q" using assms(3) by (simp split: option.split)
  moreover have "qc_generation e = vr_generation R" using assms(3) by (simp split: option.split)
  ultimately show "queue_entry_of plain R e" by (auto simp: queue_entry_of_def notify_ok_def split: if_splits)
qed

lemma slot_notifies:
  assumes "settled R"
  shows "insert 0 (set (map (\<lambda>i. slot_notify (vr_devices R i)) [0..<kMaxTrackedVulkanDevices])) - {0} =
    {native_notify st | d st. rv_devices (view R) d = Some st} - {0}"
proof -
  have keys: "keys_ok (device_key R) kMaxTrackedVulkanDevices"
    using assms keys_invD(1) by (simp add: settled_def)
  have "\<exists>d st. rv_devices (view R) d = Some st \<and> slot_notify (vr_devices R i) = native_notify st"
    if "i < kMaxTrackedVulkanDevices" "slot_notify (vr_devices R i) \<noteq> 0" for i
    using that by (auto simp: slot_notify_def view_def table_eq_Some [OF keys] split: if_splits)
  moreover have "\<exists>i<kMaxTrackedVulkanDevices. slot_notify (vr_devices R i) = native_notify st"
    if "rv_devices (view R) d = Some st" for d st
    using that by (auto simp: slot_notify_def view_def table_eq_Some [OF keys])
  ultimately show ?thesis
  proof (intro set_eqI iffI, goal_cases)
    case (1 x)
    then obtain i where "i < kMaxTrackedVulkanDevices" "x = slot_notify (vr_devices R i)" "x \<noteq> 0" by auto
    with 1(1) obtain d st where "rv_devices (view R) d = Some st" "x = native_notify st" by metis
    with \<open>x \<noteq> 0\<close> show ?case by blast
  next
    case (2 x)
    then obtain d st where "rv_devices (view R) d = Some st" "x = native_notify st" "x \<noteq> 0" by auto
    with 2(2) obtain i where "i < kMaxTrackedVulkanDevices" "slot_notify (vr_devices R i) = x" by metis
    with \<open>x \<noteq> 0\<close> show ?case by force
  qed
qed

lemma only_one_notify:
  assumes "settled R"
  shows "notify_ok R q (only_one 0 (map (\<lambda>i. slot_notify (vr_devices R i)) [0..<kMaxTrackedVulkanDevices]))"
  using only_one_set [of 0 "map (\<lambda>i. slot_notify (vr_devices R i)) [0..<kMaxTrackedVulkanDevices]"]
  unfolding notify_ok_def only_notify_def slot_notifies [OF assms] Let_def by (intro disjI2) (simp split: if_splits)

lemma caches_ok_device:
  "R \<in> set cs \<Longrightarrow> cached_device e d = rv_devices (view R) d \<Longrightarrow> dc_device e = d \<Longrightarrow> dc_generation e = vr_generation R \<Longrightarrow>
   caches_ok plain cs tc \<Longrightarrow> caches_ok plain cs (tc\<lparr>tc_device := e\<rparr>)"
  by (auto simp: caches_ok_def device_entry_ok_def)

lemma caches_ok_queue:
  "R \<in> set cs \<Longrightarrow> queue_entry_of plain R e \<Longrightarrow> caches_ok plain cs tc \<Longrightarrow> caches_ok plain cs (tc\<lparr>tc_queue := e\<rparr>)"
  by (auto simp: caches_ok_def queue_entry_ok_def)

lemma cached_hit:
  assumes "distinct_generations cs" "R \<in> set cs" "caches_ok plain cs tc"
  shows "dc_valid (tc_device tc) \<Longrightarrow> dc_generation (tc_device tc) = vr_generation R \<Longrightarrow>
      cached_device (tc_device tc) (dc_device (tc_device tc)) = rv_devices (view R) (dc_device (tc_device tc))"
    and "qc_valid (tc_queue tc) \<Longrightarrow> qc_generation (tc_queue tc) = vr_generation R \<Longrightarrow> queue_entry_of plain R (tc_queue tc)"
proof -
  show "dc_valid (tc_device tc) \<Longrightarrow> dc_generation (tc_device tc) = vr_generation R \<Longrightarrow>
      cached_device (tc_device tc) (dc_device (tc_device tc)) = rv_devices (view R) (dc_device (tc_device tc))"
    using assms unfolding caches_ok_def device_entry_ok_def distinct_generations_def by metis
  assume "qc_valid (tc_queue tc)" and g: "qc_generation (tc_queue tc) = vr_generation R"
  with assms(3) obtain S where S: "S \<in> set cs" "queue_entry_of plain S (tc_queue tc)"
    by (auto simp: caches_ok_def queue_entry_ok_def)
  with g have "vr_generation S = vr_generation R" by (simp add: queue_entry_of_def)
  with assms(1,2) S(1) have "S = R" unfolding distinct_generations_def by blast
  with S(2) show "queue_entry_of plain R (tc_queue tc)" by simp
qed

section \<open>A loop body that begins in a settled registry\<close>

definition body :: "thread_caches \<Rightarrow> reader_call \<Rightarrow> u64 \<Rightarrow> outcome reader" where
  "body c call g =
     (case call of
        R_Device d \<Rightarrow>
          if dc_valid (tc_device c) \<and> dc_device (tc_device c) = d \<and> dc_generation (tc_device c) = g
          then Return (Finish c (A_Device d (cached_device (tc_device c) d)))
          else bind_reader (snapshot_device d g [0..<kMaxTrackedVulkanDevices]) (\<lambda>s. Return (case s of
            None \<Rightarrow> Again
          | Some st \<Rightarrow> let e = \<lparr>dc_device = d, dc_generation = g, dc_valid = True, dc_state = st\<rparr> in
              Finish (c\<lparr>tc_device := e\<rparr>) (A_Device d (cached_device e d))))
      | R_Swapchain w \<Rightarrow>
          bind_reader (snapshot_swapchain w g [0..<kMaxTrackedVulkanSwapchains]) (\<lambda>s. Return (case s of
            None \<Rightarrow> Again | Some a \<Rightarrow> Finish c (A_Swapchain w a)))
      | R_Fallback q \<Rightarrow>
          bind_reader (resolve_notify g 0 [0..<kMaxTrackedVulkanDevices]) (\<lambda>s. Return (case s of
            None \<Rightarrow> Again
          | Some notify \<Rightarrow>
             Finish (c\<lparr>tc_queue := (tc_queue c)\<lparr>qc_generation := g, qc_notify := notify, qc_resolved := True\<rparr>\<rparr>) (A_Notify q notify)))
      | _ \<Rightarrow>
          (let found = (\<lambda>c. case call of R_Notify q \<Rightarrow>
                 if qc_resolved (tc_queue c) then Finish c (A_Notify q (qc_notify (tc_queue c))) else Go_on c
               | _ \<Rightarrow> Finish c (A_Queue (handle_of call) (queue_answer (tc_queue c))))
           in if qc_valid (tc_queue c) \<and> qc_queue (tc_queue c) = handle_of call \<and> qc_generation (tc_queue c) = g
              then Return (found c)
              else bind_reader (snapshot_queue (handle_of call) g [0..<kMaxTrackedVulkanQueues]) (\<lambda>s. Return (case s of
                None \<Rightarrow> Again | Some e \<Rightarrow> found (c\<lparr>tc_queue := e\<rparr>)))))"

lemma attempt_body:
  "handle_of call \<noteq> 0 \<Longrightarrow> attempt c call = with_stable_generation (body c call)"
  by (cases call)
    (auto simp: body_def cached_device_state_def get_queue_dispatch_def get_swapchain_state_def Let_def
      get_native_queue_notify_def notify_fallback_def cached_queue_state_def fun_eq_iff
      intro!: arg_cong [where f = with_stable_generation] arg_cong [where f = "bind_reader _"] split: option.split)

text \<open>Both calls that look a queue up go on with an entry that is right about the registry.\<close>

lemma queue_lookup_ok:
  assumes R: "settled R" "R \<in> set cs" "distinct_generations cs" and tc: "caches_ok plain cs tc" and q: "q \<noteq> 0"
    and found: "\<And>c. queue_entry_of plain R (tc_queue c) \<Longrightarrow> qc_queue (tc_queue c) = q \<Longrightarrow> caches_ok plain cs c \<Longrightarrow>
      outcome_ok plain cs R (found c)"
  shows "track R (outcome_ok plain cs R)
    (if qc_valid (tc_queue tc) \<and> qc_queue (tc_queue tc) = q \<and> qc_generation (tc_queue tc) = vr_generation R
     then Return (found tc)
     else bind_reader (snapshot_queue q (vr_generation R) [0..<kMaxTrackedVulkanQueues]) (\<lambda>s. Return (case s of
       None \<Rightarrow> Again | Some e \<Rightarrow> found (tc\<lparr>tc_queue := e\<rparr>))))"
proof -
  have new: "outcome_ok plain cs R (case s of None \<Rightarrow> Again | Some e \<Rightarrow> found (tc\<lparr>tc_queue := e\<rparr>))"
    if "s = None \<or> s = Some (case find (\<lambda>i. qs_queue (vr_queues R i) = q) [0..<kMaxTrackedVulkanQueues] of
      None \<Rightarrow> \<lparr>qc_queue = q, qc_device = 0, qc_present = 0, qc_notify = 0, qc_generation = vr_generation R,
        qc_valid = True, qc_resolved = False\<rparr>
    | Some i \<Rightarrow> \<lparr>qc_queue = q, qc_device = qs_device (vr_queues R i), qc_present = qs_present (vr_queues R i),
        qc_notify = qs_notify (vr_queues R i), qc_generation = vr_generation R, qc_valid = True, qc_resolved = True\<rparr>)" for s
  proof (cases s)
    case (Some e)
    then have e: "e = (case find (\<lambda>i. qs_queue (vr_queues R i) = q) [0..<kMaxTrackedVulkanQueues] of
      None \<Rightarrow> \<lparr>qc_queue = q, qc_device = 0, qc_present = 0, qc_notify = 0, qc_generation = vr_generation R,
        qc_valid = True, qc_resolved = False\<rparr>
    | Some i \<Rightarrow> \<lparr>qc_queue = q, qc_device = qs_device (vr_queues R i), qc_present = qs_present (vr_queues R i),
        qc_notify = qs_notify (vr_queues R i), qc_generation = vr_generation R, qc_valid = True, qc_resolved = True\<rparr>)"
      using that by (simp only: option.distinct option.inject simp_thms)
    note new = queue_entry_new [OF R(1) q e]
    have "outcome_ok plain cs R (found (tc\<lparr>tc_queue := e\<rparr>))"
      by (rule found) (use new caches_ok_queue [OF R(2) new(1) tc] in simp_all)
    then show ?thesis unfolding Some option.simps .
  qed simp
  note track_bind_mono [OF track_snapshot_queue, of q R "[0..<kMaxTrackedVulkanQueues]" "outcome_ok plain cs R", OF new]
  moreover have "outcome_ok plain cs R (found tc)"
    if "qc_valid (tc_queue tc)" "qc_queue (tc_queue tc) = q" "qc_generation (tc_queue tc) = vr_generation R"
    using that found [OF cached_hit(2) [OF R(3,2) tc]] tc by simp
  ultimately show ?thesis by auto
qed

lemma body_ok:
  assumes R: "settled R" "R \<in> set cs" "distinct_generations cs" and tc: "caches_ok plain cs tc"
    and h: "handle_of call \<noteq> 0" and plain: "plain \<Longrightarrow> \<not> asks_notify call"
    and fb: "\<And>q. call = R_Fallback q \<Longrightarrow> qc_device (tc_queue tc) = 0"
  shows "track R (outcome_ok plain cs R) (body tc call (vr_generation R))"
proof (cases call)
  case (R_Device d)
  with h have d: "d \<noteq> 0" by simp
  show ?thesis
  proof (cases "dc_valid (tc_device tc) \<and> dc_device (tc_device tc) = d \<and> dc_generation (tc_device tc) = vr_generation R")
    case True
    with cached_hit(1) [OF R(3,2) tc] tc R_Device show ?thesis by (auto simp: body_def)
  next
    case False
    let ?e = "\<lambda>st. \<lparr>dc_device = d, dc_generation = vr_generation R, dc_valid = True, dc_state = st\<rparr>"
    have new: "outcome_ok plain cs R (case s of None \<Rightarrow> Again
        | Some st \<Rightarrow> let e = ?e st in Finish (tc\<lparr>tc_device := e\<rparr>) (A_Device d (cached_device e d)))"
      if "s = None \<or> s = Some (case find (\<lambda>i. sl_device (vr_devices R i) = d) [0..<kMaxTrackedVulkanDevices] of
        None \<Rightarrow> device_state_zero | Some i \<Rightarrow> slot_state (vr_devices R i))" for s
      using that device_entry_new [OF d, of _ R "vr_generation R"] caches_ok_device [OF R(2) _ _ _ tc, of "?e _" d]
      by (auto simp: Let_def)
    note track_bind_mono [OF track_snapshot_device, of R d "[0..<kMaxTrackedVulkanDevices]" "outcome_ok plain cs R", OF new]
    with False R_Device show ?thesis by (auto simp: body_def)
  qed
next
  case (R_Swapchain w)
  with h have w: "w \<noteq> 0" by simp
  have new: "outcome_ok plain cs R (case s of None \<Rightarrow> Again | Some a \<Rightarrow> Finish tc (A_Swapchain w a))"
    if "s = None \<or> s = Some (case find (\<lambda>i. ss_swapchain (vr_swapchains R i) = w) [0..<kMaxTrackedVulkanSwapchains] of
      None \<Rightarrow> None | Some i \<Rightarrow> Some (ss_device (vr_swapchains R i), ss_flags (vr_swapchains R i)))" for s
    using that tc view_swapchains [OF w, of R] by (auto simp: swapchain_value_def split: option.split)
  note track_bind_mono [OF track_snapshot_swapchain, of R w "[0..<kMaxTrackedVulkanSwapchains]" "outcome_ok plain cs R", OF new]
  with R_Swapchain show ?thesis by (simp add: body_def)
next
  case (R_Fallback q)
  then have np: "\<not> plain" and d: "qc_device (tc_queue tc) = 0" and q: "q \<noteq> 0" using plain fb h by auto
  let ?e = "\<lambda>n. (tc_queue tc)\<lparr>qc_generation := vr_generation R, qc_notify := n, qc_resolved := True\<rparr>"
  let ?n = "only_one 0 (map (\<lambda>i. slot_notify (vr_devices R i)) [0..<kMaxTrackedVulkanDevices])"
  have "queue_entry_of plain R (?e ?n)" using np d only_one_notify [OF R(1)] by (simp add: queue_entry_of_def)
  from caches_ok_queue [OF R(2) this tc] only_one_notify [OF R(1), of q] q
  have new: "outcome_ok plain cs R (case s of None \<Rightarrow> Again
      | Some n \<Rightarrow> Finish (tc\<lparr>tc_queue := ?e n\<rparr>) (A_Notify q n))" if "s = None \<or> s = Some ?n" for s
    using that by auto
  note track_bind_mono [OF track_resolve_notify [of R 0 "[0..<kMaxTrackedVulkanDevices]"], where Q = "outcome_ok plain cs R", OF new]
  with R_Fallback show ?thesis by (simp add: body_def)
next
  case (R_Queue q)
  with h have q: "q \<noteq> 0" by simp
  have found: "outcome_ok plain cs R (Finish c (A_Queue q (queue_answer (tc_queue c))))"
    if "queue_entry_of plain R (tc_queue c)" "qc_queue (tc_queue c) = q" "caches_ok plain cs c" for c
    using that by (auto simp: queue_entry_of_def queue_answer_def)
  show ?thesis
    unfolding R_Queue body_def Let_def reader_call.case handle_of.simps
    by (rule queue_lookup_ok [OF R tc q, where found = "\<lambda>c. Finish c (A_Queue q (queue_answer (tc_queue c)))", OF found])
next
  case (R_Notify q)
  then have np: "\<not> plain" and q: "q \<noteq> 0" using plain h by auto
  let ?found = "\<lambda>c. if qc_resolved (tc_queue c) then Finish c (A_Notify q (qc_notify (tc_queue c))) else Go_on c"
  have found: "outcome_ok plain cs R (?found c)"
    if "queue_entry_of plain R (tc_queue c)" "qc_queue (tc_queue c) = q" "caches_ok plain cs c" for c
    using that np q by (auto simp: queue_entry_of_def)
  show ?thesis
    unfolding R_Notify body_def Let_def reader_call.case handle_of.simps
    by (rule queue_lookup_ok [OF R tc q, where found = ?found, OF found])
qed

section \<open>The writer\<close>

definition keeps_generation :: "(registry \<Rightarrow> registry) \<Rightarrow> bool" where
  "keeps_generation f \<longleftrightarrow> (\<forall>r. vr_generation (f r) = vr_generation r)"

lemma keeps_stores:
  "keeps_generation (on_device i f)" "keeps_generation (on_queue i g)" "keeps_generation (on_swapchain i h)"
  by (simp_all add: keeps_generation_def on_device_def on_queue_def on_swapchain_def)

lemma keeps_each:
  "list_all keeps_generation (map (on_device i) fs)" "list_all keeps_generation (map (on_queue i) gs)"
  "list_all keeps_generation (map (on_swapchain i) hs)"
  "list_all keeps_generation (on_each on_queue sel gs n)" "list_all keeps_generation (on_each on_swapchain sel hs n)"
  by (simp_all add: list_all_iff keeps_stores on_each_def)

definition one_mutation :: "stores \<Rightarrow> bool" where
  "one_mutation fs \<longleftrightarrow> fs = [] \<or> (\<exists>gs. fs = mutation_scope gs \<and> list_all keeps_generation gs)"

lemma one_mutationI: "list_all keeps_generation gs \<Longrightarrow> one_mutation (mutation_scope gs)" "one_mutation []"
  by (auto simp: one_mutation_def)

lemma stores_one_mutation: "one_mutation (stores_of r call)"
proof (cases call)
  case (W_InstallSemaphore d x e)
  then show ?thesis
    by (auto simp: install_semaphore_def Let_def list_all_iff keeps_stores intro!: one_mutationI split: option.split)
next
  case (W_DestroySemaphore d)
  then show ?thesis
    by (auto simp: destroy_low_latency_semaphore_def Let_def list_all_iff keeps_stores intro!: one_mutationI split: option.split)
qed (auto simp: register_device_def unregister_device_def register_queue_def register_swapchain_def unregister_swapchain_def
    Let_def refresh_queues_for_device_writer_def erase_queues_for_device_writer_def erase_swapchains_for_device_writer_def
    keeps_each keeps_stores list_all_append intro!: one_mutationI split: option.split)

lemma settled_write: "settled r \<Longrightarrow> settled (registry_write r call)"
  using registry_write_maps [of r call] coherent_write [of "view r" call] by (simp add: settled_def)

text \<open>The registries between mutations: each the result of a call on the one before, two generations later.\<close>

definition history_ok :: "registry list \<Rightarrow> bool" where
  "history_ok cs \<longleftrightarrow> cs \<noteq> [] \<and> (\<forall>k<length cs. settled (cs ! k) \<and> unat (vr_generation (cs ! k)) = 2 * (k + 1) \<and>
     (\<exists>calls. cs ! k = foldl registry_write registry_initial calls))"

text \<open>What the stores that are left make of the registry is what a call makes of the last one.\<close>

definition completes :: "reg_conf \<Rightarrow> bool" where
  "completes c \<longleftrightarrow>
     (\<exists>call. run_stores (rc_pending c) (rc_registry c) = registry_write (last (rc_committed c)) call)"

definition writer_inv :: "reg_conf \<Rightarrow> bool" where
  "writer_inv c \<longleftrightarrow> history_ok (rc_committed c) \<and>
     ((rc_pending c = [] \<and> rc_registry c = last (rc_committed c)) \<or>
      (\<exists>fs. rc_pending c = mutation_scope fs \<and> list_all keeps_generation fs \<and>
         rc_registry c = last (rc_committed c) \<and> completes c) \<or>
      (\<exists>fs. rc_pending c = fs @ [next_generation] \<and> list_all keeps_generation fs \<and>
         unat (vr_generation (rc_registry c)) = 2 * length (rc_committed c) + 1 \<and> completes c))"

lemma history_last:
  "history_ok cs \<Longrightarrow> settled (last cs) \<and> unat (vr_generation (last cs)) = 2 * length cs \<and>
     (\<exists>calls. last cs = foldl registry_write registry_initial calls)"
proof -
  assume h: "history_ok cs"
  then have "length cs - 1 < length cs" "last cs = cs ! (length cs - 1)" "Suc (length cs - 1) = length cs"
    by (auto simp: history_ok_def last_conv_nth)
  with h show ?thesis unfolding history_ok_def by (metis Suc_eq_plus1)
qed

lemma history_snoc:
  assumes h: "history_ok cs" and g: "unat (vr_generation (registry_write (last cs) call)) = 2 * (length cs + 1)"
  shows "history_ok (cs @ [registry_write (last cs) call])"
proof -
  from history_last [OF h] obtain calls where "last cs = foldl registry_write registry_initial calls" by blast
  then have "registry_write (last cs) call = foldl registry_write registry_initial (calls @ [call])" by simp
  then have "\<exists>calls. registry_write (last cs) call = foldl registry_write registry_initial calls" by blast
  with h g history_last [OF h] show ?thesis
    unfolding history_ok_def by (simp add: nth_append less_Suc_eq settled_write)
qed

lemma history_distinct:
  assumes h: "history_ok cs"
  shows "distinct_generations cs"
  unfolding distinct_generations_def
proof (intro ballI impI)
  fix R S
  assume "R \<in> set cs" "S \<in> set cs" and g: "vr_generation R = vr_generation S"
  then obtain i j where i: "i < length cs" "R = cs ! i" and j: "j < length cs" "S = cs ! j"
    by (auto simp: in_set_conv_nth)
  with h have "unat (vr_generation R) = 2 * (i + 1)" "unat (vr_generation S) = 2 * (j + 1)" by (auto simp: history_ok_def)
  with g i j show "R = S" by simp
qed

lemma history_bound: "history_ok cs \<Longrightarrow> R \<in> set cs \<Longrightarrow> unat (vr_generation R) \<le> 2 * length cs"
  by (auto simp: history_ok_def in_set_conv_nth)

lemma next_generation_unat:
  "unat (vr_generation r) < 18446744073709551615 \<Longrightarrow> unat (vr_generation (next_generation r)) = Suc (unat (vr_generation r))"
  using unat_plus_one [of "vr_generation r"] unat_u64_max by (cases "vr_generation r = - 1") (auto simp: next_generation_def)

lemma writer_inv_lock:
  assumes "writer_inv c" "rc_pending c = []"
  shows "writer_inv (c\<lparr>rc_pending := stores_of (rc_registry c) call\<rparr>)"
proof -
  have h: "history_ok (rc_committed c)" and r: "rc_registry c = last (rc_committed c)"
    using assms by (auto simp: writer_inv_def mutation_scope_def)
  have "completes (c\<lparr>rc_pending := stores_of (rc_registry c) call\<rparr>)"
    using r by (auto simp: completes_def registry_write_def)
  with stores_one_mutation [of "rc_registry c" call] h r show ?thesis
    unfolding writer_inv_def one_mutation_def by auto
qed

lemma writer_inv_store:
  assumes inv: "writer_inv c" and p: "rc_pending c = f # fs" and b: "2 * length (rc_committed c) < 18446744073709551610"
  shows "writer_inv (reg_perform c M_Store)"
proof -
  let ?r = "rc_registry c"
  have h: "history_ok (rc_committed c)" using inv by (simp add: writer_inv_def)
  from inv p obtain call where call: "run_stores (f # fs) ?r = registry_write (last (rc_committed c)) call"
    by (auto simp: writer_inv_def completes_def)
  from inv p consider gs where "f = next_generation" "fs = gs @ [next_generation]" "list_all keeps_generation gs"
      "?r = last (rc_committed c)" "run_stores fs (f ?r) = registry_write (last (rc_committed c)) call"
    | g gs where "f = g" "fs = gs @ [next_generation]" "keeps_generation g" "list_all keeps_generation gs"
      "unat (vr_generation ?r) = 2 * length (rc_committed c) + 1" "run_stores fs (f ?r) = registry_write (last (rc_committed c)) call"
    | "f = next_generation" "fs = []" "unat (vr_generation ?r) = 2 * length (rc_committed c) + 1"
      "f ?r = registry_write (last (rc_committed c)) call"
    using call by (auto simp: writer_inv_def mutation_scope_def Cons_eq_append_conv run_stores_def)
  then show ?thesis
  proof cases
    case 1
    then have "unat (vr_generation (f ?r)) = 2 * length (rc_committed c) + 1"
      using history_last [OF h] b by (simp add: next_generation_unat)
    with 1 h p show ?thesis by (auto simp: writer_inv_def completes_def)
  next
    case 2
    then have "unat (vr_generation (f ?r)) = 2 * length (rc_committed c) + 1" by (simp add: keeps_generation_def)
    with 2 h p show ?thesis by (auto simp: writer_inv_def completes_def)
  next
    case 3
    have "unat (vr_generation (next_generation ?r)) = 2 * (length (rc_committed c) + 1)"
      using 3(3) b by (simp add: next_generation_unat)
    then have "unat (vr_generation (f ?r)) = 2 * (length (rc_committed c) + 1)" using 3(1) by (simp only:)
    then have "history_ok (rc_committed c @ [f ?r])" using history_snoc [OF h, of call] by (simp only: 3(4))
    with 3 p show ?thesis by (simp add: writer_inv_def)
  qed
qed

text \<open>The generation of the registry, and the registry itself while the generation is even.\<close>

lemma odd_word: "x AND 1 \<noteq> 0 \<longleftrightarrow> odd (unat x)" for x :: u64
proof -
  have "unat (x AND 1) = unat x mod 2" by (simp add: and_one_eq unat_mod)
  then show ?thesis by (metis unat_eq_zero odd_iff_mod_2_eq_one even_iff_mod_2_eq_zero zero_neq_one)
qed

lemma writer_generation:
  assumes "writer_inv c"
  shows "odd (unat (vr_generation (rc_registry c))) \<and>
      unat (vr_generation (rc_registry c)) = 2 * length (rc_committed c) + 1 \<or>
    even (unat (vr_generation (rc_registry c))) \<and> rc_registry c = last (rc_committed c) \<and>
      unat (vr_generation (rc_registry c)) = 2 * length (rc_committed c)"
  using assms history_last unfolding writer_inv_def by auto

section \<open>The readers\<close>

text \<open>
  A running call is about to load the generation for the first time, or is on the track of a registry that
  was current at some moment of the call, or has left it for good.
\<close>

definition reading :: "bool \<Rightarrow> reg_conf \<Rightarrow> nat \<Rightarrow> outcome reader \<Rightarrow> bool" where
  "reading plain c t p \<longleftrightarrow> (\<exists>k<length (rc_committed c). rc_since c t \<le> k \<and>
     (track (rc_committed c ! k) (outcome_ok plain (rc_committed c) (rc_committed c ! k)) p \<or>
      late (vr_generation (rc_committed c ! k)) (outcome_ok plain (rc_committed c) (rc_committed c ! k)) p \<and>
      unat (vr_generation (rc_committed c ! k)) < unat (vr_generation (rc_registry c))))"

definition running_ok :: "bool \<Rightarrow> reg_conf \<Rightarrow> nat \<Rightarrow> reader_call \<Rightarrow> outcome reader \<Rightarrow> bool" where
  "running_ok plain c t call p \<longleftrightarrow> handle_of call \<noteq> 0 \<and> (plain \<longrightarrow> \<not> asks_notify call) \<and>
     (\<forall>q. call = R_Fallback q \<longrightarrow> qc_device (tc_queue (rc_caches c t)) = 0) \<and>
     (p = attempt (rc_caches c t) call \<or> reading plain c t p)"

definition thread_ok :: "bool \<Rightarrow> reg_conf \<Rightarrow> nat \<Rightarrow> bool" where
  "thread_ok plain c t \<longleftrightarrow> caches_ok plain (rc_committed c) (rc_caches c t) \<and>
     (case rc_pc c t of RP_Idle \<Rightarrow> True
      | RP_Run call p \<Rightarrow> rc_since c t < length (rc_committed c) \<and> running_ok plain c t call p)"

definition answers_ok :: "(nat \<Rightarrow> bool) \<Rightarrow> reg_conf \<Rightarrow> bool" where
  "answers_ok P c \<longleftrightarrow> (\<forall>(t, a, b, ans)\<in>set (rc_answers c). b \<le> length (rc_committed c) \<and>
     (\<exists>k. a \<le> k \<and> k < b \<and> answer_ok (P t) (rc_committed c ! k) ans))"

definition reg_inv :: "(nat \<Rightarrow> bool) \<Rightarrow> reg_conf \<Rightarrow> bool" where
  "reg_inv P c \<longleftrightarrow> writer_inv c \<and> (\<forall>t. thread_ok (P t) c t) \<and> answers_ok P c"

lemma caches_ok_snoc: "caches_ok plain cs tc \<Longrightarrow> caches_ok plain (cs @ [R]) tc"
  by (auto simp: caches_ok_def device_entry_ok_def queue_entry_ok_def)

lemma outcome_ok_snoc: "outcome_ok plain cs R x \<Longrightarrow> outcome_ok plain (cs @ [S]) R x"
  by (cases x) (auto simp: caches_ok_snoc)

lemma reading_store:
  assumes "reading plain c t p" "unat (vr_generation (rc_registry c)) \<le> unat (vr_generation r)"
  shows "reading plain (c\<lparr>rc_registry := r, rc_pending := fs,
      rc_committed := (if b then rc_committed c @ [R] else rc_committed c)\<rparr>) t p"
proof -
  from assms(1) obtain k where k: "k < length (rc_committed c)" "rc_since c t \<le> k"
    and p: "track (rc_committed c ! k) (outcome_ok plain (rc_committed c) (rc_committed c ! k)) p \<or>
      late (vr_generation (rc_committed c ! k)) (outcome_ok plain (rc_committed c) (rc_committed c ! k)) p \<and>
      unat (vr_generation (rc_committed c ! k)) < unat (vr_generation (rc_registry c))"
    unfolding reading_def by blast
  from p assms(2) have "track (rc_committed c ! k) (outcome_ok plain (rc_committed c @ [R]) (rc_committed c ! k)) p \<or>
      late (vr_generation (rc_committed c ! k)) (outcome_ok plain (rc_committed c @ [R]) (rc_committed c ! k)) p \<and>
      unat (vr_generation (rc_committed c ! k)) < unat (vr_generation r)"
    by (auto intro: track_mono late_mono outcome_ok_snoc)
  with k p assms(2) show ?thesis
    by (cases b) (auto simp: reading_def nth_append intro!: exI [of _ k])
qed

lemma thread_ok_store:
  assumes "thread_ok plain c t" "unat (vr_generation (rc_registry c)) \<le> unat (vr_generation r)"
  shows "thread_ok plain (c\<lparr>rc_registry := r, rc_pending := fs,
      rc_committed := (if b then rc_committed c @ [R] else rc_committed c)\<rparr>) t"
proof (cases "rc_pc c t")
  case RP_Idle
  with assms(1) show ?thesis by (simp add: thread_ok_def caches_ok_snoc)
next
  case (RP_Run call p)
  with assms(1) reading_store [OF _ assms(2), where plain = plain and t = t and p = p and fs = fs and b = b and R = R] show ?thesis
    by (cases b) (auto simp: thread_ok_def running_ok_def caches_ok_snoc)
qed

lemma answers_ok_store:
  "answers_ok P c \<Longrightarrow> answers_ok P (c\<lparr>rc_registry := r, rc_pending := fs,
      rc_committed := (if b then rc_committed c @ [R] else rc_committed c)\<rparr>)"
  unfolding answers_ok_def by (fastforce simp: nth_append)

lemma store_generation_mono:
  assumes "writer_inv c" "rc_pending c = f # fs" "2 * length (rc_committed c) < 18446744073709551610"
  shows "unat (vr_generation (rc_registry c)) \<le> unat (vr_generation (f (rc_registry c)))"
proof -
  have "f = next_generation \<or> keeps_generation f"
    using assms(1,2) by (auto simp: writer_inv_def mutation_scope_def Cons_eq_append_conv)
  then show ?thesis
    using writer_generation [OF assms(1)] assms(3) by (auto simp: next_generation_unat keeps_generation_def)
qed

lemma reg_inv_store:
  assumes inv: "reg_inv P c" and b: "2 * length (rc_committed c) < 18446744073709551610"
  shows "reg_inv P (reg_perform c M_Store)"
proof (cases "rc_pending c")
  case (Cons f fs)
  have "writer_inv (reg_perform c M_Store)" by (rule writer_inv_store [OF _ Cons b]) (use inv in \<open>simp add: reg_inv_def\<close>)
  moreover have "unat (vr_generation (rc_registry c)) \<le> unat (vr_generation (f (rc_registry c)))"
    by (rule store_generation_mono [OF _ Cons b]) (use inv in \<open>simp add: reg_inv_def\<close>)
  ultimately show ?thesis
    using inv Cons thread_ok_store answers_ok_store by (simp add: reg_inv_def)
qed (use inv in simp)

lemma thread_ok_other:
  "thread_ok plain c u \<Longrightarrow> rc_registry d = rc_registry c \<Longrightarrow> rc_committed d = rc_committed c \<Longrightarrow>
   rc_caches d u = rc_caches c u \<Longrightarrow> rc_pc d u = rc_pc c u \<Longrightarrow> rc_since d u = rc_since c u \<Longrightarrow> thread_ok plain d u"
  by (cases "rc_pc c u") (simp_all add: thread_ok_def running_ok_def reading_def)

lemma reg_inv_lock:
  assumes inv: "reg_inv P c"
  shows "reg_inv P (reg_perform c (M_Lock call))"
proof (cases "rc_pending c = []")
  case True
  let ?d = "c\<lparr>rc_pending := stores_of (rc_registry c) call\<rparr>"
  have "thread_ok (P u) ?d u" for u
    by (rule thread_ok_other [of _ c]) (use inv in \<open>simp_all add: reg_inv_def\<close>)
  moreover have "answers_ok P ?d" using inv by (simp add: reg_inv_def answers_ok_def)
  ultimately show ?thesis using True inv writer_inv_lock [of c call] by (simp add: reg_inv_def)
qed (use inv in simp)

text \<open>What \<open>proceed\<close> keeps: the thread that moves is fine, the others and the writer are not touched.\<close>

lemma reg_inv_thread:
  assumes "reg_inv P c" "thread_ok (P t) d t" "answers_ok P d"
    "d = c\<lparr>rc_caches := (rc_caches c)(t := tc), rc_pc := (rc_pc c)(t := pc), rc_since := (rc_since c)(t := s),
       rc_answers := as\<rparr>"
  shows "reg_inv P d"
proof -
  have "thread_ok (P u) d u" for u
  proof (cases "u = t")
    case False
    have "thread_ok (P u) c u" using assms(1) by (simp add: reg_inv_def)
    then show ?thesis by (rule thread_ok_other) (simp_all add: assms(4) False)
  qed (simp add: assms(2))
  moreover have "writer_inv d" using assms(1) by (simp add: reg_inv_def writer_inv_def completes_def assms(4))
  ultimately show ?thesis using assms(3) by (simp add: reg_inv_def)
qed

lemma proceed_inv:
  assumes inv: "reg_inv P c" and p: "reading (P t) c t p" and s: "rc_since c t < length (rc_committed c)"
    and call: "handle_of call \<noteq> 0" "P t \<longrightarrow> \<not> asks_notify call"
      "\<forall>q. call = R_Fallback q \<longrightarrow> qc_device (tc_queue (rc_caches c t)) = 0"
  shows "reg_inv P (proceed t call p c)"
proof (cases p)
  case (Load k)
  show ?thesis
    by (rule reg_inv_thread [OF inv, where t = t and tc = "rc_caches c t" and pc = "RP_Run call p" and s = "rc_since c t"
        and as = "rc_answers c"])
      (use inv p s call Load in \<open>auto simp: proceed_def reg_inv_def thread_ok_def running_ok_def reading_def answers_ok_def\<close>)
next
  case (Return x)
  with p obtain k where k: "k < length (rc_committed c)" "rc_since c t \<le> k"
    and x: "outcome_ok (P t) (rc_committed c) (rc_committed c ! k) x"
    unfolding reading_def by auto
  show ?thesis
  proof (cases x)
    case Again
    show ?thesis
      by (rule reg_inv_thread [OF inv, where t = t and tc = "rc_caches c t" and s = "rc_since c t"
          and pc = "RP_Run call (attempt (rc_caches c t) call)" and as = "rc_answers c"])
        (use inv s call Return Again in \<open>auto simp: proceed_def reg_inv_def thread_ok_def running_ok_def answers_ok_def\<close>)
  next
    case (Finish tc a)
    have "answers_ok P (proceed t call p c)"
      using inv k x Return Finish
      by (auto simp: proceed_def answers_ok_def reg_inv_def intro!: exI [of _ k])
    then show ?thesis
      by (rule reg_inv_thread [OF inv, rotated, where t = t and tc = tc and s = "rc_since c t"
          and pc = RP_Idle and as = "rc_answers c @ [(t, rc_since c t, length (rc_committed c), a)]"])
        (use x Return Finish in \<open>auto simp: proceed_def thread_ok_def\<close>)
  next
    case (Go_on tc)
    then have np: "\<not> P t" "qc_device (tc_queue tc) = 0" and tc: "caches_ok (P t) (rc_committed c) tc" using x by auto
    show ?thesis
    proof (cases "\<exists>q. call = R_Notify q")
      case True
      then obtain q where q: "call = R_Notify q" by auto
      show ?thesis
        by (rule reg_inv_thread [OF inv, where t = t and tc = tc and s = "rc_since c t"
            and pc = "RP_Run (R_Fallback q) (attempt tc (R_Fallback q))" and as = "rc_answers c"])
          (use inv np tc s call q Return Go_on in \<open>auto simp: proceed_def reg_inv_def thread_ok_def running_ok_def answers_ok_def\<close>)
    next
      case False
      then have "proceed t call p c = c" using Return Go_on by (cases call) (auto simp: proceed_def)
      with inv show ?thesis by simp
    qed
  qed
qed

text \<open>One load of a running call.\<close>

lemma reading_load:
  assumes inv: "reg_inv P c" and run: "running_ok (P t) c t call (Load f)" and s: "rc_since c t < length (rc_committed c)"
    and p: "Load f = attempt (rc_caches c t) call"
  shows "f (rc_registry c) = Return Again \<or> reading (P t) c t (f (rc_registry c))"
proof -
  let ?r = "rc_registry c" and ?cs = "rc_committed c"
  have w: "writer_inv c" and h: "history_ok ?cs" using inv by (auto simp: reg_inv_def writer_inv_def)
  have call: "handle_of call \<noteq> 0" "P t \<longrightarrow> \<not> asks_notify call"
    "\<forall>q. call = R_Fallback q \<longrightarrow> qc_device (tc_queue (rc_caches c t)) = 0" using run by (auto simp: running_ok_def)
  have f: "f ?r = (if odd (unat (vr_generation ?r)) then Return Again else body (rc_caches c t) call (vr_generation ?r))"
    using p attempt_body [OF call(1), of "rc_caches c t"] by (simp add: with_stable_generation_def odd_word)
  show ?thesis
  proof (cases "odd (unat (vr_generation ?r))")
    case False
    then have r: "?r = last ?cs" using writer_generation [OF w] by auto
    have ne: "?cs \<noteq> []" using h by (simp add: history_ok_def)
    have tc: "caches_ok (P t) ?cs (rc_caches c t)" using inv by (auto simp: reg_inv_def thread_ok_def)
    have "track ?r (outcome_ok (P t) ?cs ?r) (body (rc_caches c t) call (vr_generation ?r))"
      using body_ok [OF _ _ history_distinct [OF h] tc call(1), of ?r] history_last [OF h] call(2,3) r ne by auto
    then have "reading (P t) c t (f ?r)"
      using f False r ne s by (auto simp: reading_def last_conv_nth intro!: exI [of _ "length ?cs - 1"])
    then show ?thesis by simp
  qed (simp add: f)
qed

lemma reading_step:
  assumes inv: "reg_inv P c" and p: "reading (P t) c t (Load f)"
  shows "reading (P t) c t (f (rc_registry c))"
proof -
  let ?r = "rc_registry c" and ?cs = "rc_committed c"
  have w: "writer_inv c" and h: "history_ok ?cs" using inv by (auto simp: reg_inv_def writer_inv_def)
  from p obtain k where k: "k < length ?cs" "rc_since c t \<le> k"
    and on: "track (?cs ! k) (outcome_ok (P t) ?cs (?cs ! k)) (Load f) \<or>
      late (vr_generation (?cs ! k)) (outcome_ok (P t) ?cs (?cs ! k)) (Load f) \<and>
      unat (vr_generation (?cs ! k)) < unat (vr_generation ?r)"
    unfolding reading_def by blast
  have g: "unat (vr_generation (?cs ! k)) \<le> 2 * length ?cs" "2 * length ?cs \<le> unat (vr_generation ?r)"
    using history_bound [OF h nth_mem [OF k(1)]] writer_generation [OF w] by auto
  have "track (?cs ! k) (outcome_ok (P t) ?cs (?cs ! k)) (f ?r) \<or>
      late (vr_generation (?cs ! k)) (outcome_ok (P t) ?cs (?cs ! k)) (f ?r) \<and>
      unat (vr_generation (?cs ! k)) < unat (vr_generation ?r)"
  proof (cases "vr_generation ?r = vr_generation (?cs ! k)")
    case True
    then have "?r = last ?cs" "last ?cs \<in> set ?cs" using writer_generation [OF w] g h by (auto simp: history_ok_def)
    then have "?r = ?cs ! k" using history_distinct [OF h] True nth_mem [OF k(1)] by (metis distinct_generations_def)
    with on True show ?thesis by auto
  next
    case False
    then have "unat (vr_generation (?cs ! k)) \<noteq> unat (vr_generation ?r)" by (metis word_unat_eq_iff)
    with g on False show ?thesis by auto
  qed
  with k show ?thesis unfolding reading_def by blast
qed

lemma reg_inv_load: "reg_inv P c \<Longrightarrow> reg_inv P (reg_perform c (M_Load t))"
proof (cases "rc_pc c t")
  case (RP_Run call p)
  assume inv: "reg_inv P c"
  then have run: "running_ok (P t) c t call p" and s: "rc_since c t < length (rc_committed c)"
    using RP_Run by (auto simp: reg_inv_def thread_ok_def split: reader_pc.splits dest!: spec [of _ t])
  have call: "handle_of call \<noteq> 0" "P t \<longrightarrow> \<not> asks_notify call"
    "\<forall>q. call = R_Fallback q \<longrightarrow> qc_device (tc_queue (rc_caches c t)) = 0" using run by (auto simp: running_ok_def)
  show ?thesis
  proof (cases p)
    case (Load f)
    have "Load f = attempt (rc_caches c t) call \<or> reading (P t) c t (Load f)" using run Load by (auto simp: running_ok_def)
    then have "f (rc_registry c) = Return Again \<or> reading (P t) c t (f (rc_registry c))"
      using reading_step [OF inv] reading_load [OF inv run [unfolded Load] s] by blast
    moreover have "reading (P t) c t (Return Again)" using s by (auto simp: reading_def intro!: exI [of _ "rc_since c t"])
    ultimately have "reading (P t) c t (f (rc_registry c))" by auto
    with proceed_inv [OF inv _ s call] RP_Run Load show ?thesis by simp
  qed (use inv RP_Run in simp)
qed simp

text \<open>A call begins: it answers at once for the null handle, and otherwise waits for its first load.\<close>

lemma attempt_load: "handle_of call \<noteq> 0 \<Longrightarrow> \<exists>f. attempt tc call = Load f"
  by (simp add: attempt_body with_stable_generation_def)

lemma attempt_null:
  "handle_of call = 0 \<Longrightarrow> \<forall>q. call \<noteq> R_Fallback q \<Longrightarrow> caches_ok plain cs tc \<Longrightarrow>
   \<exists>x. attempt tc call = Return x \<and> outcome_ok plain cs R x \<and> (\<forall>tc'. x \<noteq> Go_on tc') \<and> x \<noteq> Again"
  by (cases call)
    (auto simp: cached_device_state_def get_queue_dispatch_def get_swapchain_state_def get_native_queue_notify_def
      view_def table_def)

lemma reg_inv_call:
  assumes inv: "reg_inv P c" and plain: "P t \<longrightarrow> (\<forall>q. call \<noteq> R_Notify q)"
  shows "reg_inv P (reg_perform c (M_Call t call))"
proof (cases "rc_pc c t = RP_Idle \<and> (\<forall>q. call \<noteq> R_Fallback q)")
  case True
  let ?n = "length (rc_committed c) - 1"
  let ?c = "c\<lparr>rc_since := (rc_since c)(t := ?n)\<rparr>"
  have perform: "reg_perform c (M_Call t call) = proceed t call (attempt (rc_caches c t) call) ?c"
    using True by (cases call) auto
  have ne: "rc_committed c \<noteq> []" using inv by (simp add: reg_inv_def writer_inv_def history_ok_def)
  then have n: "?n < length (rc_committed c)" by simp
  have tc: "caches_ok (P t) (rc_committed c) (rc_caches c t)" using inv by (simp add: reg_inv_def thread_ok_def)
  have c: "reg_inv P ?c"
    by (rule reg_inv_thread [OF inv, where t = t and tc = "rc_caches c t" and pc = RP_Idle and s = ?n and as = "rc_answers c"])
      (use inv True tc in \<open>auto simp: reg_inv_def thread_ok_def answers_ok_def fun_upd_idem\<close>)
  show ?thesis
  proof (cases "handle_of call = 0")
    case False
    then obtain f where f: "attempt (rc_caches c t) call = Load f" using attempt_load by blast
    have np: "P t \<longrightarrow> \<not> asks_notify call" using plain True by (cases call) auto
    show ?thesis
      unfolding perform
      by (rule reg_inv_thread [OF c, where t = t and tc = "rc_caches c t" and pc = "RP_Run call (Load f)" and s = ?n
          and as = "rc_answers c"])
        (use inv tc n f False np True in \<open>auto simp: proceed_def thread_ok_def running_ok_def reg_inv_def answers_ok_def\<close>)
  next
    case null: True
    from attempt_null [OF null _ tc, of "rc_committed c ! ?n"] True obtain x
      where x: "attempt (rc_caches c t) call = Return x" "outcome_ok (P t) (rc_committed c) (rc_committed c ! ?n) x"
        "\<forall>tc'. x \<noteq> Go_on tc'" "x \<noteq> Again" by auto
    then obtain tc' a where F: "x = Finish tc' a" by (cases x) auto
    have "answers_ok P (proceed t call (Return x) ?c)"
      using c n x(2) F by (auto simp: proceed_def reg_inv_def answers_ok_def intro!: exI [of _ ?n])
    then show ?thesis
      unfolding perform x(1)
      by (rule reg_inv_thread [OF c, rotated, where t = t and tc = tc' and pc = RP_Idle and s = ?n
          and as = "rc_answers c @ [(t, ?n, length (rc_committed c), a)]"])
        (use x(2) F in \<open>auto simp: proceed_def thread_ok_def\<close>)
  qed
next
  case False
  then have "reg_perform c (M_Call t call) = c" by (cases "rc_pc c t"; cases call) auto
  with inv show ?thesis by simp
qed

section \<open>Runs\<close>

definition reg_run :: "reg_conf \<Rightarrow> reg_move list \<Rightarrow> reg_conf" where
  "reg_run c moves = foldl reg_perform c moves"

lemma registry_initial_settled: "settled registry_initial"
  by (auto simp: settled_def registry_initial_maps view_initial_def intro: coherentI)

lemma reg_inv_initial: "reg_inv P reg_conf_initial"
proof -
  have "history_ok [registry_initial]"
    using registry_initial_settled by (auto simp: history_ok_def registry_initial_def intro: exI [of _ "[]"])
  then show ?thesis
    by (simp add: reg_inv_def writer_inv_def reg_conf_initial_def thread_ok_def answers_ok_def caches_ok_def
        caches_initial_def device_entry_ok_def queue_entry_ok_def)
qed

lemma proceed_committed [simp]: "rc_committed (proceed t call p c) = rc_committed c"
  by (auto simp: proceed_def split: reader.split outcome.split reader_call.split)

lemma committed_grows: "length (rc_committed (reg_perform c m)) \<le> Suc (length (rc_committed c))"
  by (cases m) (auto split: list.split reader_pc.split reader_call.split reader.split)

lemma reg_inv_run:
  "reg_inv P c \<Longrightarrow> \<forall>t q. P t \<longrightarrow> M_Call t (R_Notify q) \<notin> set moves \<Longrightarrow>
   length (rc_committed c) + length moves < 9223372036854775000 \<Longrightarrow> reg_inv P (reg_run c moves)"
proof (induction moves arbitrary: c)
  case (Cons m moves)
  have "reg_inv P (reg_perform c m)"
  proof (cases m)
    case (M_Lock call)
    with Cons.prems show ?thesis by (simp only: reg_inv_lock)
  next
    case M_Store
    with Cons.prems reg_inv_store [of P c] show ?thesis by simp
  next
    case (M_Call t call)
    with Cons.prems reg_inv_call [of P c t call] show ?thesis by auto
  next
    case (M_Load t)
    with Cons.prems show ?thesis by (simp only: reg_inv_load)
  qed
  with Cons show ?case using committed_grows [of c m] by (simp add: reg_run_def)
qed (simp add: reg_run_def)

text \<open>C9
  However the loads of the readers and the stores of the writer interleave, for every answer of a lookup
  there is one registry, current between the call and the return, between two mutations and the result of
  the calls so far, about which the answer is right.  Device and swapchain lookups answer exactly what that
  registry has, and so does a queue lookup that finds the queue.  That a queue is not registered is right for
  threads that never ask for the notification entry point of a queue, and is not claimed for the others.  The
  notification entry point given for a queue is the one this registry keeps with the queue, or the only one
  its devices with native low latency have (null when there is none or more than one).
\<close>

theorem lookups_linearizable:
  assumes "length moves < 4611686018427387904" and "(t, a, b, ans) \<in> set (rc_answers (reg_run reg_conf_initial moves))"
  shows "\<exists>k calls. a \<le> k \<and> k < b \<and> b \<le> length (rc_committed (reg_run reg_conf_initial moves)) \<and>
    rc_committed (reg_run reg_conf_initial moves) ! k = foldl registry_write registry_initial calls \<and>
    answer_ok (\<forall>q. M_Call t (R_Notify q) \<notin> set moves) (foldl registry_write registry_initial calls) ans"
proof -
  let ?P = "\<lambda>t. \<forall>q. M_Call t (R_Notify q) \<notin> set moves" and ?c = "reg_run reg_conf_initial moves"
  have inv: "reg_inv ?P ?c"
    by (rule reg_inv_run [OF reg_inv_initial]) (use assms(1) in \<open>auto simp: reg_conf_initial_def\<close>)
  with assms(2) obtain k where k: "a \<le> k" "k < b" "b \<le> length (rc_committed ?c)" "answer_ok (?P t) (rc_committed ?c ! k) ans"
    unfolding reg_inv_def answers_ok_def by blast
  moreover have "\<exists>calls. rc_committed ?c ! k = foldl registry_write registry_initial calls"
    using inv k(2,3) by (auto simp: reg_inv_def writer_inv_def history_ok_def)
  ultimately show ?thesis by metis
qed

text \<open>The call begins before the mutation, meets it, and begins its loop again.\<close>

definition swapchain_moves :: "reg_move list" where
  "swapchain_moves = [M_Lock (W_RegisterSwapchain 3 7 1), M_Store, M_Call 0 (R_Swapchain 7), M_Load 0] @
     replicate 5 M_Store @ replicate 6 (M_Load 0)"

lemma swapchain_moves_answer: "rc_answers (reg_run reg_conf_initial swapchain_moves) = [(0, 0, 2, A_Swapchain 7 (Some (3, 1)))]"
  by code_simp

theorem lookups_linearizable_witness:
  "\<exists>k calls. 0 \<le> k \<and> k < 2 \<and> 2 \<le> length (rc_committed (reg_run reg_conf_initial swapchain_moves)) \<and>
    rc_committed (reg_run reg_conf_initial swapchain_moves) ! k = foldl registry_write registry_initial calls \<and>
    answer_ok (\<forall>q. M_Call 0 (R_Notify q) \<notin> set swapchain_moves) (foldl registry_write registry_initial calls)
      (A_Swapchain 7 (Some (3, 1)))"
  by (rule lookups_linearizable) (simp add: swapchain_moves_def, simp add: swapchain_moves_answer)

end
