(* ===== verification/RegistryStale.thy ===== *)
theory RegistryStale
  imports RegistryLinear
begin

text \<open>
  The run in which a thread that has asked for the notification entry point of a queue misses the
  registration of that queue: what theory RegistryLinear leaves open for such a thread does happen.
\<close>

definition stale_device :: device_state where
  "stale_device = device_state_zero\<lparr>ds_device := 5,
     ds_entries := (ds_entries device_state_zero)\<lparr>ep_queue_present := 3\<rparr>\<rparr>"

text \<open>
  The thread finds queue 9 unknown.  Then device 5 and its queue 9 are registered.  Then the thread resolves
  the entry point over the devices, and afterwards asks for the queue.
\<close>

definition stale_moves :: "reg_move list" where
  "stale_moves = M_Call 0 (R_Notify 9) # replicate 66 (M_Load 0) @
     M_Lock (W_RegisterDevice stale_device) # replicate 37 M_Store @ M_Lock (W_RegisterQueue 5 9) # replicate 7 M_Store @
     replicate 19 (M_Load 0) @ [M_Call 0 (R_Queue 9), M_Load 0]"

text \<open>
  \<open>get_native_queue_notify\<close> stamps the cached queue entry with the generation its second loop ran in, but the
  rest of the entry is of the first loop: a queue registered between the two is unknown to the thread
  afterwards, in a call that begins when the registration is over and no mutation is under way, until
  the next mutation.
\<close>

lemma queue_stale:
  "let c = reg_run reg_conf_initial stale_moves in
     rc_answers c = [(0, 0, 3, A_Notify 9 0), (0, 2, 3, A_Queue 9 None)] \<and>
     rc_pending c = [] \<and> rv_queues (view (rc_registry c)) 9 = Some (5, 3, 0)"
  by code_simp

end
