(* ===== verification/RegistrySemaphores.thy ===== *)
theory RegistrySemaphores
  imports RegistryMaps "HOL-Library.Multiset"
begin

text \<open>
  The timeline semaphore a device lends to a game (\<open>src/vulkan_device_registry.cpp\<close>): when it is created,
  signalled and destroyed, and that the registry loses none and destroys none twice.
\<close>

section \<open>Creating and signalling\<close>

definition VK_SUCCESS :: int where "VK_SUCCESS = 0"

definition VK_ERROR_INITIALIZATION_FAILED :: int where "VK_ERROR_INITIALIZATION_FAILED = - 3"

text \<open>
  \<open>ensure_low_latency_semaphore\<close> asks the driver for a semaphore only if the state the caller has cached
  shows none.  The driver's answer is a result and a handle.
\<close>

definition asks_driver :: "handle \<Rightarrow> device_state option \<Rightarrow> bool" where
  "asks_driver device cached =
     (case cached of None \<Rightarrow> False
      | Some st \<Rightarrow> device \<noteq> 0 \<and> ep_create_semaphore (ds_entries st) \<noteq> 0 \<and> ds_semaphore st = 0)"

text \<open>
  The stores of its critical section, the result, the caller's variable afterwards, and the new semaphore
  with the entry point that destroys it, if it was of no use.
\<close>

definition ensure_low_latency_semaphore ::
  "registry \<Rightarrow> handle \<Rightarrow> device_state option \<Rightarrow> handle \<Rightarrow> int \<times> handle \<Rightarrow>
   stores \<times> int \<times> handle \<times> (entry \<times> handle) option" where
  "ensure_low_latency_semaphore r device cached out answer =
     (case cached of
        None \<Rightarrow> ([], VK_ERROR_INITIALIZATION_FAILED, out, None)
      | Some st \<Rightarrow>
          if device = 0 \<or> ep_create_semaphore (ds_entries st) = 0 then ([], VK_ERROR_INITIALIZATION_FAILED, out, None)
          else if ds_semaphore st \<noteq> 0 then ([], VK_SUCCESS, ds_semaphore st, None)
          else case answer of
            (result, new_semaphore) \<Rightarrow>
              if result \<noteq> VK_SUCCESS then ([], result, out, None)
              else case install_semaphore r device new_semaphore (ep_destroy_semaphore (ds_entries st)) of
                (stores, installed, handed, destroy_extra) \<Rightarrow>
                  (let out = (case handed of None \<Rightarrow> out | Some s \<Rightarrow> s) in
                   (stores, if installed \<or> out \<noteq> 0 then VK_SUCCESS else VK_ERROR_INITIALIZATION_FAILED, out,
                    if \<not> installed \<and> new_semaphore \<noteq> 0 \<and> destroy_extra \<noteq> 0 then Some (destroy_extra, new_semaphore)
                    else None)))"

text \<open>The call both signalling functions make: entry point, semaphore, value; None is an initialization error.\<close>

definition signal_semaphore :: "handle \<Rightarrow> device_state option \<Rightarrow> handle \<Rightarrow> u64 \<Rightarrow> (entry \<times> handle \<times> u64) option" where
  "signal_semaphore device cached semaphore value =
     (if device = 0 \<or> semaphore = 0 then None
      else case cached of
        None \<Rightarrow> None
      | Some st \<Rightarrow> if ep_signal_semaphore (ds_entries st) = 0 then None
                  else Some (ep_signal_semaphore (ds_entries st), semaphore, value))"

definition signal_low_latency_semaphore :: "device_state option \<Rightarrow> u64 \<Rightarrow> (entry \<times> handle \<times> u64) option" where
  "signal_low_latency_semaphore cached value =
     (case cached of
        None \<Rightarrow> None
      | Some st \<Rightarrow> if ds_semaphore st = 0 \<or> ep_signal_semaphore (ds_entries st) = 0 then None
                  else Some (ep_signal_semaphore (ds_entries st), ds_semaphore st, value))"

section \<open>The account of semaphores\<close>

text \<open>
  The registry; the semaphores the driver has created, and those that came in with a state somebody registered;
  those the driver has been told to destroy, and those nobody can reach any more.  A call of
  \<open>ensure_low_latency_semaphore\<close> carries the state its thread has cached, of whatever age, the caller's
  variable and the driver's answer.
\<close>

record account =
  ac_registry :: registry
  ac_created :: "handle list"
  ac_brought :: "handle list"
  ac_destroyed :: "handle list"
  ac_lost :: "handle list"

datatype account_call = AC_Ensure handle "device_state option" handle "int \<times> handle" | AC_Write writer_call

definition discarded :: "(entry \<times> handle) option \<Rightarrow> handle list" where
  "discarded x = (case x of None \<Rightarrow> [] | Some (e, s) \<Rightarrow> [s])"

primrec destroyed_by :: "registry \<Rightarrow> writer_call \<Rightarrow> handle list" where
  "destroyed_by r (W_RegisterDevice st) = []"
| "destroyed_by r (W_UnregisterDevice d) = discarded (snd (unregister_device r d))"
| "destroyed_by r (W_RegisterQueue d q) = []"
| "destroyed_by r (W_RegisterSwapchain d w fl) = []"
| "destroyed_by r (W_UnregisterSwapchain w) = []"
| "destroyed_by r (W_InstallSemaphore d x e) = []"
| "destroyed_by r (W_DestroySemaphore d) = discarded (snd (destroy_low_latency_semaphore r d))"

text \<open>The semaphore a device holds, null for none, and its entry point to destroy it.\<close>

definition semaphore_of :: "registry \<Rightarrow> handle \<Rightarrow> handle" where
  "semaphore_of r d = (if d = 0 then 0 else case find_device_slot_writer r d of
     None \<Rightarrow> 0 | Some i \<Rightarrow> sl_semaphore (vr_devices r i))"

definition destroyer_of :: "registry \<Rightarrow> handle \<Rightarrow> entry" where
  "destroyer_of r d = (if d = 0 then 0 else case find_device_slot_writer r d of
     None \<Rightarrow> 0 | Some i \<Rightarrow> ep_destroy_semaphore (sl_entries (vr_devices r i)))"

text \<open>
  A registered state may bring a semaphore of its own.  A semaphore is lost when another state replaces the
  one that holds it, and when its device is given up without an entry point to destroy it.
\<close>

fun brought_by :: "registry \<Rightarrow> writer_call \<Rightarrow> handle list" where
  "brought_by r (W_RegisterDevice st) =
     (if snd (register_device r st) \<and> ds_semaphore st \<notin> {0, semaphore_of r (ds_device st)} then [ds_semaphore st] else [])"
| "brought_by r (W_InstallSemaphore d x e) = (if fst (snd (install_semaphore r d x e)) \<and> x \<noteq> 0 then [x] else [])"
| "brought_by r _ = []"

fun lost_by :: "registry \<Rightarrow> writer_call \<Rightarrow> handle list" where
  "lost_by r (W_RegisterDevice st) =
     (if snd (register_device r st) \<and> semaphore_of r (ds_device st) \<notin> {0, ds_semaphore st}
      then [semaphore_of r (ds_device st)] else [])"
| "lost_by r (W_UnregisterDevice d) = (if semaphore_of r d \<noteq> 0 \<and> destroyer_of r d = 0 then [semaphore_of r d] else [])"
| "lost_by r (W_DestroySemaphore d) = (if semaphore_of r d \<noteq> 0 \<and> destroyer_of r d = 0 then [semaphore_of r d] else [])"
| "lost_by r _ = []"

primrec account_step :: "account \<Rightarrow> account_call \<Rightarrow> account" where
  "account_step a (AC_Write call) =
     a\<lparr>ac_registry := registry_write (ac_registry a) call,
       ac_brought := ac_brought a @ brought_by (ac_registry a) call,
       ac_destroyed := ac_destroyed a @ destroyed_by (ac_registry a) call,
       ac_lost := ac_lost a @ lost_by (ac_registry a) call\<rparr>"
| "account_step a (AC_Ensure device cached out answer) =
     (case ensure_low_latency_semaphore (ac_registry a) device cached out answer of
        (stores, result, out, extra) \<Rightarrow>
          let made = asks_driver device cached \<and> fst answer = VK_SUCCESS \<and> snd answer \<noteq> 0 in
          a\<lparr>ac_registry := run_stores stores (ac_registry a),
            ac_created := ac_created a @ (if made then [snd answer] else []),
            ac_destroyed := ac_destroyed a @ discarded extra,
            ac_lost := ac_lost a @ (if made \<and> stores = [] \<and> extra = None then [snd answer] else [])\<rparr>)"

definition account_initial :: account where
  "account_initial = \<lparr>ac_registry = registry_initial, ac_created = [], ac_brought = [], ac_destroyed = [], ac_lost = []\<rparr>"

text \<open>
  What the hooks and Vulkan keep to: a device that is registered, or registered again, comes with the
  semaphore it holds already, none at first, and with its entry point to destroy semaphores; and a cached
  state has that entry point.
\<close>

fun account_call_ok :: "registry \<Rightarrow> account_call \<Rightarrow> bool" where
  "account_call_ok r (AC_Write (W_RegisterDevice st)) \<longleftrightarrow>
     ds_semaphore st = semaphore_of r (ds_device st) \<and> ep_destroy_semaphore (ds_entries st) \<noteq> 0"
| "account_call_ok r (AC_Write (W_InstallSemaphore d x e)) \<longleftrightarrow> False"
| "account_call_ok r (AC_Write _) \<longleftrightarrow> True"
| "account_call_ok r (AC_Ensure device cached out answer) \<longleftrightarrow>
     (case cached of None \<Rightarrow> True | Some st \<Rightarrow> ep_destroy_semaphore (ds_entries st) \<noteq> 0)"

fun account_calls_ok :: "account \<Rightarrow> account_call list \<Rightarrow> bool" where
  "account_calls_ok a [] = True"
| "account_calls_ok a (c # cs) = (account_call_ok (ac_registry a) c \<and> account_calls_ok (account_step a c) cs)"

text \<open>The semaphores the devices hold.\<close>

definition held :: "device_state \<Rightarrow> handle multiset" where
  "held st = (if ds_semaphore st = 0 then {#} else {#ds_semaphore st#})"

definition holdings :: "(handle \<Rightarrow> device_state option) \<Rightarrow> handle multiset" where
  "holdings m = (\<Sum>d\<in>dom m. held (the (m d)))"

lemma holdings_insert: "finite (dom m) \<Longrightarrow> m d = None \<Longrightarrow> holdings (m(d \<mapsto> st)) = holdings m + held st"
  unfolding holdings_def by (subst dom_fun_upd) (auto simp: domIff add.commute intro!: sum.cong)

lemma holdings_split: "finite (dom m) \<Longrightarrow> m d = Some st \<Longrightarrow> holdings m = holdings (m(d := None)) + held st"
  using holdings_insert [of "m(d := None)" d st] by (simp add: fun_upd_idem)

text \<open>A device's state replaced, with what it holds.\<close>

lemma holdings_update:
  "finite (dom m) \<Longrightarrow> m d = Some st \<Longrightarrow> holdings (m(d \<mapsto> st')) + held st = holdings m + held st'"
  using holdings_insert [of "m(d := None)" d st'] holdings_split [of m d st] by (simp add: ac_simps)

lemma holdings_remove: "finite (dom m) \<Longrightarrow> m d = Some st \<Longrightarrow> holdings (m(d := None)) + held st = holdings m"
  using holdings_split by metis

definition balanced :: "account \<Rightarrow> bool" where
  "balanced a \<longleftrightarrow> keys_inv (ac_registry a) \<and>
     mset (ac_created a) + mset (ac_brought a) =
       mset (ac_destroyed a) + mset (ac_lost a) + holdings (rv_devices (view (ac_registry a)))"

text \<open>While everybody keeps to the rules, nothing is brought or lost.\<close>

definition lossless :: "account \<Rightarrow> bool" where
  "lossless a \<longleftrightarrow> ac_brought a = [] \<and> ac_lost a = [] \<and>
     (\<forall>st\<in>ran (rv_devices (view (ac_registry a))). ep_destroy_semaphore (ds_entries st) \<noteq> 0)"

lemma view_devices_finite: "keys_inv r \<Longrightarrow> finite (dom (rv_devices (view r)))"
  by (rule finite_subset [of _ "device_key r ` {..<kMaxTrackedVulkanDevices}"])
    (auto simp: view_def table_def find_slot_def find_Some_iff split: if_splits)

text \<open>The slots read over the maps.\<close>

lemma slot_semaphore:
  "semaphore_of r d = (case rv_devices (view r) d of None \<Rightarrow> 0 | Some st \<Rightarrow> ds_semaphore st)"
  "destroyer_of r d = (case rv_devices (view r) d of None \<Rightarrow> 0 | Some st \<Rightarrow> ep_destroy_semaphore (ds_entries st))"
  using device_missing [of d r] device_found(1) [of d r]
  by (cases "d = 0"; cases "find_device_slot_writer r d"; simp add: semaphore_of_def destroyer_of_def)+

lemma registers_iff:
  "keys_inv r \<Longrightarrow> snd (register_device r st) \<longleftrightarrow> room kMaxTrackedVulkanDevices (rv_devices (view r)) (ds_device st)"
  using or_else_room [OF keys_invD(1), of r "ds_device st" "\<lambda>i. slot_state (vr_devices r i)"]
  by (cases "ds_device st = 0") (auto simp: register_device_def writer_found view_def room_def split: option.split)

lemma destroyed_by_map:
  "discarded (snd (unregister_device r d)) =
     (case rv_devices (view r) d of None \<Rightarrow> []
      | Some st \<Rightarrow> if ds_semaphore st \<noteq> 0 \<and> ep_destroy_semaphore (ds_entries st) \<noteq> 0 then [ds_semaphore st] else [])"
  "discarded (snd (destroy_low_latency_semaphore r d)) =
     (case rv_devices (view r) d of None \<Rightarrow> []
      | Some st \<Rightarrow> if ds_semaphore st \<noteq> 0 \<and> ep_destroy_semaphore (ds_entries st) \<noteq> 0 then [ds_semaphore st] else [])"
  using device_missing [of d r] device_found(1) [of d r]
  by (cases "d = 0"; cases "find_device_slot_writer r d";
      simp add: unregister_device_def destroy_low_latency_semaphore_def discarded_def Let_def)+

lemma install_map:
  "rv_devices (view r) d = None \<Longrightarrow> fst (install_semaphore r d x e) = [] \<and> \<not> fst (snd (install_semaphore r d x e)) \<and>
     (d \<noteq> 0 \<longrightarrow> snd (snd (install_semaphore r d x e)) = (None, e))"
  "rv_devices (view r) d = Some st \<Longrightarrow> ds_semaphore st \<noteq> 0 \<Longrightarrow>
     install_semaphore r d x e = ([], False, Some (ds_semaphore st), ep_destroy_semaphore (ds_entries st))"
  "rv_devices (view r) d = Some st \<Longrightarrow> ds_semaphore st = 0 \<Longrightarrow>
     fst (install_semaphore r d x e) \<noteq> [] \<and> snd (install_semaphore r d x e) = (True, Some x, 0)"
  using device_missing [of d r] device_found(1) [of d r]
  by (cases "d = 0"; cases "find_device_slot_writer r d"; auto simp: install_semaphore_def Let_def mutation_scope_def)+

lemma write_balance:
  assumes k: "keys_inv r"
  shows "holdings (rv_devices (view r)) + mset (brought_by r call) =
    mset (destroyed_by r call) + mset (lost_by r call) + holdings (rv_devices (view_write (view r) call))"
proof -
  let ?m = "rv_devices (view r)"
  note fin = view_devices_finite [OF k]
  show ?thesis
  proof (cases call)
    case (W_RegisterDevice st)
    then show ?thesis
      using holdings_insert [OF fin, of "ds_device st" st] holdings_update [OF fin, of "ds_device st" _ st]
      by (cases "?m (ds_device st)") (auto simp: registers_iff [OF k] slot_semaphore held_def split: if_splits)
  next
    case (W_UnregisterDevice d)
    then show ?thesis
      using holdings_remove [OF fin, of d] by (cases "?m d") (auto simp: destroyed_by_map slot_semaphore held_def)
  next
    case (W_InstallSemaphore d x e)
    show ?thesis
    proof (cases "?m d")
      case (Some st)
      then show ?thesis
        using W_InstallSemaphore holdings_update [OF fin Some, of "st\<lparr>ds_semaphore := x\<rparr>"] install_map(2,3) [OF Some, of x e]
        by (auto simp: held_def)
    qed (use W_InstallSemaphore install_map(1) [of r d x e] in auto)
  next
    case (W_DestroySemaphore d)
    show ?thesis
    proof (cases "?m d")
      case (Some st)
      then show ?thesis
        using W_DestroySemaphore holdings_update [OF fin Some, of "st\<lparr>ds_semaphore := 0\<rparr>"]
        by (auto simp: destroyed_by_map slot_semaphore held_def)
    qed (use W_DestroySemaphore in \<open>auto simp: destroyed_by_map slot_semaphore\<close>)
  qed (auto split: option.split)
qed

text \<open>The new semaphore of \<open>ensure_low_latency_semaphore\<close> is installed, discarded or lost.\<close>

lemma ensure_step:
  assumes "account_step a (AC_Ensure d cached out answer) = b" "asks_driver d cached \<and> fst answer = VK_SUCCESS"
  obtains (held) e where "rv_devices (view (ac_registry a)) d \<noteq> None" "semaphore_of (ac_registry a) d = 0"
      "b = a\<lparr>ac_registry := registry_write (ac_registry a) (W_InstallSemaphore d (snd answer) e),
         ac_created := ac_created a @ (if snd answer \<noteq> 0 then [snd answer] else [])\<rparr>"
  | (discarded) "snd answer \<noteq> 0" "b = a\<lparr>ac_created := ac_created a @ [snd answer], ac_destroyed := ac_destroyed a @ [snd answer]\<rparr>"
  | (lost) "snd answer \<noteq> 0" "b = a\<lparr>ac_created := ac_created a @ [snd answer], ac_lost := ac_lost a @ [snd answer]\<rparr>"
      "(\<exists>st. rv_devices (view (ac_registry a)) d = Some st \<and> ep_destroy_semaphore (ds_entries st) = 0) \<or>
       (\<exists>st. cached = Some st \<and> ep_destroy_semaphore (ds_entries st) = 0)"
  | (null) "b = a"
proof -
  let ?r = "ac_registry a"
  from assms(2) obtain st x where st: "cached = Some st" "d \<noteq> 0" "ep_create_semaphore (ds_entries st) \<noteq> 0" "ds_semaphore st = 0"
    and x: "answer = (VK_SUCCESS, x)" by (cases answer) (auto simp: asks_driver_def split: option.splits)
  let ?e = "ep_destroy_semaphore (ds_entries st)"
  let ?i = "install_semaphore ?r d x ?e"
  obtain s i h e where i: "?i = (s, i, h, e)" by (cases ?i) auto
  have b: "b = (let extra = (if \<not> i \<and> x \<noteq> 0 \<and> e \<noteq> 0 then Some (e, x) else None) in
      a\<lparr>ac_registry := run_stores s ?r, ac_created := ac_created a @ (if x \<noteq> 0 then [x] else []),
        ac_destroyed := ac_destroyed a @ RegistrySemaphores.discarded extra,
        ac_lost := ac_lost a @ (if x \<noteq> 0 \<and> s = [] \<and> extra = None then [x] else [])\<rparr>)"
    using assms st x i by (auto simp: ensure_low_latency_semaphore_def Let_def)
  show thesis
  proof (cases "rv_devices (view ?r) d")
    case None
    with install_map(1) [of ?r d x ?e] i st(2) have "s = []" "\<not> i" "e = ?e" by auto
    with b x st(1) show thesis
      by (cases "x = 0"; cases "?e = 0") (auto simp: RegistrySemaphores.discarded_def run_stores_def intro: null discarded lost)
  next
    case (Some t)
    show thesis
    proof (cases "ds_semaphore t = 0")
      case True
      with install_map(3) [OF Some, of x ?e] i have "s \<noteq> []" "i" by auto
      moreover have "registry_write ?r (W_InstallSemaphore d x ?e) = run_stores s ?r" by (simp add: registry_write_def i)
      ultimately show thesis
        using b x Some True by (intro held [of ?e]) (auto simp: RegistrySemaphores.discarded_def slot_semaphore)
    next
      case False
      with install_map(2) [OF Some, of x ?e] i have "s = []" "\<not> i" "e = ep_destroy_semaphore (ds_entries t)" by auto
      with b x Some show thesis
        by (cases "x = 0"; cases "e = 0") (auto simp: RegistrySemaphores.discarded_def run_stores_def intro: null discarded lost)
    qed
  qed
qed

lemma account_idle:
  "\<not> (asks_driver d cached \<and> fst answer = VK_SUCCESS) \<Longrightarrow> account_step a (AC_Ensure d cached out answer) = a"
  by (cases cached) (auto simp: ensure_low_latency_semaphore_def asks_driver_def discarded_def run_stores_def split: prod.split)

lemma add_balance:
  fixes c b d l h :: "'a multiset"
  assumes "c + b = d + l + h" "h + x = d' + l' + h'"
  shows "c + b + x = (d + d') + (l + l') + h'"
proof -
  have "c + b + x = d + l + (h + x)" by (simp only: assms(1) add.assoc)
  also have "\<dots> = (d + d') + (l + l') + h'" by (simp only: assms(2) ac_simps)
  finally show ?thesis .
qed

lemma balanced_step: "balanced a \<Longrightarrow> balanced (account_step a c)"
proof -
  assume "balanced a"
  then have k: "keys_inv (ac_registry a)"
    and bal: "mset (ac_created a) + mset (ac_brought a) =
      mset (ac_destroyed a) + mset (ac_lost a) + holdings (rv_devices (view (ac_registry a)))" by (simp_all add: balanced_def)
  note W = registry_write_maps [OF k]
  note sum = add_balance [OF bal write_balance [OF k]]
  show ?thesis
  proof (cases c)
    case (AC_Write call)
    with W [of call] sum [of call] show ?thesis by (simp add: balanced_def add.assoc)
  next
    case (AC_Ensure d cached out answer)
    show ?thesis
    proof (cases "asks_driver d cached \<and> fst answer = VK_SUCCESS")
      case True
      obtain b where b: "account_step a (AC_Ensure d cached out answer) = b" by simp
      from b True show ?thesis
      proof (cases rule: ensure_step)
        case (held e)
        let ?call = "W_InstallSemaphore d (snd answer) e"
        have new: "brought_by (ac_registry a) ?call = (if snd answer \<noteq> 0 then [snd answer] else [])"
          using held(1,2) install_map(3) [of "ac_registry a" d _ "snd answer" e] by (auto simp: slot_semaphore)
        have "mset (ac_created b) + mset (ac_brought b) = mset (ac_created a) + mset (ac_brought a) + mset (brought_by (ac_registry a) ?call)"
          unfolding new held(3) by simp
        moreover have "balanced b \<longleftrightarrow> mset (ac_created b) + mset (ac_brought b) =
            mset (ac_destroyed a) + mset (ac_lost a) + holdings (rv_devices (view_write (view (ac_registry a)) ?call))"
          using W [of ?call] by (simp add: balanced_def held(3) del: view_write.simps)
        ultimately show ?thesis using sum [of ?call] b AC_Ensure by (simp del: view_write.simps brought_by.simps account_step.simps)
      qed (use b k bal in \<open>simp_all add: AC_Ensure balanced_def\<close>)
    next
      case False
      from account_idle [OF False] \<open>balanced a\<close> show ?thesis by (simp add: AC_Ensure del: account_step.simps)
    qed
  qed
qed

lemma lossless_step:
  assumes l: "lossless a" and k: "keys_inv (ac_registry a)" and c: "account_call_ok (ac_registry a) c"
  shows "lossless (account_step a c)"
proof -
  let ?r = "ac_registry a" and ?m = "rv_devices (view (ac_registry a))"
  have des: "ep_destroy_semaphore (ds_entries st) \<noteq> 0" if "?m d = Some st" for d st
    using l that by (auto simp: lossless_def ran_def)
  note W = registry_write_maps [OF k]
  show ?thesis
  proof (cases c)
    case (AC_Write call)
    have "brought_by ?r call = [] \<and> lost_by ?r call = [] \<and>
        (\<forall>st\<in>ran (rv_devices (view_write (view ?r) call)). ep_destroy_semaphore (ds_entries st) \<noteq> 0)"
      using c des AC_Write by (cases call) (auto simp: ran_def slot_semaphore split: option.splits if_splits dest: des)
    then show ?thesis using l W [of call] AC_Write by (simp add: lossless_def)
  next
    case (AC_Ensure d cached out answer)
    show ?thesis
    proof (cases "asks_driver d cached \<and> fst answer = VK_SUCCESS")
      case True
      obtain b where b: "account_step a (AC_Ensure d cached out answer) = b" by simp
      from b True show ?thesis
      proof (cases rule: ensure_step)
        case (held e)
        then obtain st where st: "?m d = Some st" "ds_semaphore st = 0" by (auto simp: slot_semaphore split: option.splits)
        have "lossless b \<longleftrightarrow> (\<forall>st\<in>ran (rv_devices (view_write (view ?r) (W_InstallSemaphore d (snd answer) e))).
            ep_destroy_semaphore (ds_entries st) \<noteq> 0)"
          using l W [of "W_InstallSemaphore d (snd answer) e"] by (simp add: lossless_def held(3) del: view_write.simps)
        also have "\<dots>" using st des by (auto simp: ran_def dest: des)
        finally show ?thesis using b AC_Ensure by simp
      next
        case lost
        then have False using c des AC_Ensure by (cases cached) (fastforce dest: des)+
        then show ?thesis ..
      qed (use b l in \<open>simp_all add: AC_Ensure lossless_def\<close>)
    next
      case False
      from account_idle [OF False] l show ?thesis by (simp add: AC_Ensure del: account_step.simps)
    qed
  qed
qed

lemma account_run:
  "balanced a \<Longrightarrow> balanced (foldl account_step a calls) \<and>
   (lossless a \<longrightarrow> account_calls_ok a calls \<longrightarrow> lossless (foldl account_step a calls))"
proof (induction calls arbitrary: a)
  case (Cons c calls)
  have "keys_inv (ac_registry a)" using Cons.prems by (simp add: balanced_def)
  with Cons.IH [OF balanced_step [OF Cons.prems, of c]] show ?case
    by (simp add: lossless_step del: account_step.simps)
qed simp

text \<open>C11
  Every semaphore is accounted for.  After any calls, with caches of any age and any answers of the driver, the
  semaphores the driver created and those that came in with a registered state are, each as often, those
  destroyed, those the registered devices hold and those lost: a semaphore is lost exactly when a state that
  does not carry it replaces its device's, or when it is given up where no entry point can destroy it.  And while
  devices are registered, or published again, with the semaphore they hold already, and every state has an
  entry point to destroy semaphores, nothing comes in and nothing is lost: each semaphore created is
  destroyed once or held by one device.
\<close>

theorem semaphores_accounted:
  "let a = foldl account_step account_initial calls in
     mset (ac_created a) + mset (ac_brought a) =
       mset (ac_destroyed a) + mset (ac_lost a) + holdings (rv_devices (view (ac_registry a))) \<and>
     (account_calls_ok account_initial calls \<longrightarrow> ac_brought a = [] \<and> ac_lost a = [])"
proof -
  have "balanced account_initial" "lossless account_initial"
    by (simp_all add: balanced_def lossless_def account_initial_def registry_initial_maps view_initial_def holdings_def)
  with account_run [of account_initial calls] show ?thesis by (simp add: balanced_def lossless_def Let_def)
qed

text \<open>
  Two threads that both saw no semaphore: the second discards its own.  The device is published again with the
  semaphore it holds and then goes.
\<close>

definition lending_device :: device_state where
  "lending_device = device_state_zero\<lparr>ds_device := 5, ds_entries :=
     (ds_entries device_state_zero)\<lparr>ep_create_semaphore := 1, ep_destroy_semaphore := 2\<rparr>\<rparr>"

definition lending_calls :: "account_call list" where
  "lending_calls = [AC_Write (W_RegisterDevice lending_device), AC_Ensure 5 (Some lending_device) 0 (VK_SUCCESS, 7),
     AC_Ensure 5 (Some lending_device) 0 (VK_SUCCESS, 8),
     AC_Write (W_RegisterDevice (lending_device\<lparr>ds_semaphore := 7\<rparr>)), AC_Write (W_UnregisterDevice 5)]"

lemma lending_run:
  "account_calls_ok account_initial lending_calls" "ac_created (foldl account_step account_initial lending_calls) = [7, 8]"
  "ac_destroyed (foldl account_step account_initial lending_calls) = [8, 7]"
  by code_simp+

theorem semaphores_accounted_witness:
  "mset [7, 8] = mset [8, 7] + holdings (rv_devices (view (ac_registry (foldl account_step account_initial lending_calls))))"
proof -
  let ?a = "foldl account_step account_initial lending_calls"
  have "ac_brought ?a = []" "ac_lost ?a = []" and "mset (ac_created ?a) + mset (ac_brought ?a) =
      mset (ac_destroyed ?a) + mset (ac_lost ?a) + holdings (rv_devices (view (ac_registry ?a)))"
    using semaphores_accounted [of lending_calls] lending_run(1) unfolding Let_def by blast+
  then show ?thesis by (simp only: lending_run mset.simps(1) add_0_right)
qed

text \<open>Published again without it, as a caller does that keeps no copy of the state, the semaphore is lost.\<close>

lemma republished_without:
  "let a = foldl account_step account_initial [AC_Write (W_RegisterDevice lending_device),
       AC_Ensure 5 (Some lending_device) 0 (VK_SUCCESS, 7), AC_Write (W_RegisterDevice lending_device)]
   in ac_created a = [7] \<and> ac_destroyed a = [] \<and> ac_lost a = [7]"
  by code_simp

end
