(* ===== verification/ConfigLoad.thy ===== *)
theory ConfigLoad
  imports RoutingSignature PolicyEngine
begin

text \<open>
  The configuration of \<open>src/config.cpp\<close>: how the text of \<open>fakenvapi.ini\<close> becomes a policy snapshot, with
  defaults, bounds and the keys of version 1, and how snapshots are published.  The two Windows functions
  that read the file are parameters, the record \<open>profile\<close>.  Texts are lists of characters; white space and
  lower case are those of the C locale.
\<close>

section \<open>Texts\<close>

definition is_space :: "char \<Rightarrow> bool" where
  "is_space c \<longleftrightarrow> c = CHR '' '' \<or> (9 \<le> (of_char c :: nat) \<and> (of_char c :: nat) \<le> 13)"

definition to_lower :: "char \<Rightarrow> char" where
  "to_lower c = (if 65 \<le> (of_char c :: nat) \<and> (of_char c :: nat) \<le> 90 then char_of ((of_char c :: nat) + 32) else c)"

definition trim_lower :: "string \<Rightarrow> string" where
  "trim_lower value = map to_lower (rev (dropWhile is_space (rev (dropWhile is_space value))))"

definition parse_logging :: "string \<Rightarrow> logging_level \<Rightarrow> logging_level" where
  "parse_logging value fallback =
     (let value = trim_lower value in
      if value = ''off'' \<or> value = ''0'' then Log_Off
      else if value = ''info'' \<or> value = ''1'' then Log_Info
      else if value = ''trace'' \<or> value = ''2'' \<or> value = ''debug'' then Log_Trace
      else fallback)"

definition parse_input :: "string \<Rightarrow> input_frontend \<Rightarrow> input_frontend" where
  "parse_input value fallback =
     (let value = trim_lower value in
      if value = ''auto'' then FE_Auto
      else if value = ''reflex'' \<or> value = ''nvapi_reflex'' then Reflex
      else if value = ''vk_nv_low_latency2'' \<or> value = ''vulkan_nv_low_latency2'' then VkNvLowLatency2
      else if value = ''xell'' then XeLL
      else if value = ''antilag2'' \<or> value = ''anti_lag2'' then AntiLag2
      else fallback)"

definition parse_backend :: "string \<Rightarrow> backend \<Rightarrow> backend" where
  "parse_backend value fallback =
     (let value = trim_lower value in
      if value = ''auto'' then BE_Auto
      else if value = ''antilag2'' \<or> value = ''anti_lag2'' then BE_AntiLag2
      else if value = ''xell'' then BE_XeLL
      else if value = ''amd_anti_lag'' \<or> value = ''antilag_vk'' \<or> value = ''vk_amd_anti_lag'' then AmdAntiLagVk
      else if value = ''latencyflex'' \<or> value = ''latency_flex'' then LatencyFlex
      else if value = ''native_reflex'' \<or> value = ''reflex'' then NativeReflex
      else if value = ''vulkanflex'' \<or> value = ''vulkan_flex'' \<or> value = ''vkflex'' then VulkanFlex
      else fallback)"

definition parse_auto_bool :: "string \<Rightarrow> auto_bool \<Rightarrow> auto_bool" where
  "parse_auto_bool value fallback =
     (let value = trim_lower value in
      if value = ''auto'' then AB_Auto
      else if value \<in> {''1'', ''true'', ''yes'', ''on'', ''enabled''} then AB_Enabled
      else if value \<in> {''0'', ''false'', ''no'', ''off'', ''disabled''} then AB_Disabled
      else fallback)"

definition parse_spoofing :: "string \<Rightarrow> vulkan_spoofing \<Rightarrow> vulkan_spoofing" where
  "parse_spoofing value fallback =
     (let value = trim_lower value in
      if value = ''off'' \<or> value = ''disabled'' then Spoof_Off
      else if value = ''selective'' \<or> value = ''auto'' then Spoof_Selective
      else if value = ''aggressive'' \<or> value = ''all'' then Spoof_Aggressive
      else fallback)"

text \<open>The items \<open>std::getline\<close> takes from a stream: the last one ends with the text, and none follows a final comma.\<close>

function getlines :: "string \<Rightarrow> string list" where
  "getlines value =
     (if value = [] then []
      else takeWhile (\<lambda>c. c \<noteq> CHR '','') value # getlines (tl (dropWhile (\<lambda>c. c \<noteq> CHR '','') value)))"
  by auto

termination
proof (relation "measure length")
  fix s :: string
  assume "s \<noteq> []"
  then show "(tl (dropWhile (\<lambda>c. c \<noteq> CHR '','') s), s) \<in> measure length"
    using length_dropWhile_le [of "\<lambda>c. c \<noteq> CHR '',''" s] by (cases s) (auto simp: less_Suc_eq_le)
qed simp

declare getlines.simps [simp del]

definition split_csv :: "string \<Rightarrow> string list" where
  "split_csv value = filter (\<lambda>item. item \<noteq> []) (map trim_lower (getlines value))"

definition push_token :: "(string \<Rightarrow> 'a) \<Rightarrow> 'a \<Rightarrow> string \<Rightarrow> 'a fixed_order \<Rightarrow> 'a fixed_order" where
  "push_token parse auto token result =
     (let x = parse token in if x \<noteq> auto \<and> \<not> fo_contains result x then fo_push_back x result else result)"

definition parse_input_priority :: "string \<Rightarrow> input_frontend fixed_order \<Rightarrow> input_frontend fixed_order" where
  "parse_input_priority value fallback =
     (let result = fold (push_token (\<lambda>token. parse_input token FE_Auto) FE_Auto) (split_csv value) (fo_empty FE_Auto 4)
      in if fo_size result = 0 then fallback else result)"

definition parse_backend_order :: "string \<Rightarrow> backend fixed_order \<Rightarrow> backend fixed_order" where
  "parse_backend_order value fallback =
     (let result = fold (push_token (\<lambda>token. parse_backend token BE_Auto) BE_Auto) (split_csv value) (fo_empty BE_Auto 6)
      in if fo_size result = 0 then fallback else result)"

section \<open>The file\<close>

text \<open>
  \<open>GetPrivateProfileStringW\<close> and \<open>GetPrivateProfileIntW\<close> for the file: section, key, what to answer when the
  key is absent.  The second answers an unsigned number, which the code reads as an \<open>int\<close>.
\<close>

record profile =
  pf_text :: "string \<Rightarrow> string \<Rightarrow> string \<Rightarrow> string"
  pf_number :: "string \<Rightarrow> string \<Rightarrow> int \<Rightarrow> u32"

definition key_missing :: string where "key_missing = ''{VULKANIZED_KEY_MISSING}''"

definition get_string :: "profile \<Rightarrow> string \<Rightarrow> string \<Rightarrow> string \<Rightarrow> string" where
  "get_string p s k fallback = pf_text p s k fallback"

definition has_key :: "profile \<Rightarrow> string \<Rightarrow> string \<Rightarrow> bool" where
  "has_key p s k \<longleftrightarrow> get_string p s k key_missing \<noteq> key_missing"

definition get_int :: "profile \<Rightarrow> string \<Rightarrow> string \<Rightarrow> int \<Rightarrow> int" where
  "get_int p s k fallback = sint (pf_number p s k fallback)"

definition get_bool :: "profile \<Rightarrow> string \<Rightarrow> string \<Rightarrow> bool \<Rightarrow> bool" where
  "get_bool p s k fallback \<longleftrightarrow> get_int p s k (if fallback then 1 else 0) \<noteq> 0"

text \<open>\<open>static_cast<T>(std::clamp(get_int(section, key, default), lo, hi))\<close>\<close>

definition get_clamped :: "profile \<Rightarrow> string \<Rightarrow> string \<Rightarrow> 'a::len word \<Rightarrow> int \<Rightarrow> int \<Rightarrow> 'a word" where
  "get_clamped p s k d lo hi = word_of_int (clamp (get_int p s k (uint d)) lo hi)"

section \<open>Loading\<close>

definition load_logging :: "profile \<Rightarrow> logging_level" where
  "load_logging p =
     (if has_key p ''general'' ''logging''
      then parse_logging (get_string p ''general'' ''logging'' []) (gp_logging default_general)
      else let enable_logs = get_bool p ''fakenvapi'' ''enable_logs'' True;
               trace_logs = get_bool p ''fakenvapi'' ''enable_trace_logs'' False
           in if \<not> enable_logs then Log_Off else if trace_logs then Log_Trace else Log_Info)"

definition load_general :: "profile \<Rightarrow> general_policy" where
  "load_general p = (let d = default_general in \<lparr>
     gp_logging = load_logging p,
     gp_allow_fallback = get_bool p ''general'' ''allow_fallback'' (gp_allow_fallback d),
     gp_runtime_switching = get_bool p ''general'' ''runtime_switching'' (gp_runtime_switching d)\<rparr>)"

definition load_input :: "profile \<Rightarrow> input_policy" where
  "load_input p = (let d = default_input in \<lparr>
     ip_mode = (if has_key p ''input'' ''mode'' then parse_input (get_string p ''input'' ''mode'' []) (ip_mode d) else ip_mode d),
     ip_priority = (if has_key p ''input'' ''priority''
       then parse_input_priority (get_string p ''input'' ''priority'' []) (ip_priority d) else ip_priority d),
     ip_minimum_quality = get_clamped p ''input'' ''minimum_quality'' (ip_minimum_quality d) 0 100\<rparr>)"

text \<open>An output that is not chosen is taken by \<open>force_latencyflex\<close>.\<close>

definition load_output_of :: "profile \<Rightarrow> string \<Rightarrow> backend \<Rightarrow> backend" where
  "load_output_of p api d =
     (if has_key p ''output'' api then parse_backend (get_string p ''output'' api []) d else d)"

definition load_output :: "profile \<Rightarrow> output_policy" where
  "load_output p = (let d = default_output in \<lparr>
     op_d3d11 = load_output_of p ''d3d11'' (op_d3d11 d),
     op_d3d12 = load_output_of p ''d3d12'' (op_d3d12 d),
     op_vulkan = load_output_of p ''vulkan'' (op_vulkan d)\<rparr>)"

definition load_order_of :: "profile \<Rightarrow> string \<Rightarrow> backend fixed_order \<Rightarrow> backend fixed_order" where
  "load_order_of p api d =
     (if has_key p ''backend_order'' api then parse_backend_order (get_string p ''backend_order'' api []) d else d)"

definition load_backend_order :: "profile \<Rightarrow> backend_order_policy" where
  "load_backend_order p = (let d = default_backend_order in \<lparr>
     bo_d3d11 = load_order_of p ''d3d11'' (bo_d3d11 d),
     bo_d3d12 = load_order_of p ''d3d12'' (bo_d3d12 d),
     bo_vulkan = load_order_of p ''vulkan'' (bo_vulkan d)\<rparr>)"

definition load_hybrid :: "profile \<Rightarrow> hybrid_policy" where
  "load_hybrid p = (let d = default_hybrid in \<lparr>
     hp_xell_fusion = get_bool p ''hybrid'' ''xell_fusion'' (hp_xell_fusion d),
     hp_vulkan_fusion = get_bool p ''hybrid'' ''vulkan_fusion'' (hp_vulkan_fusion d),
     hp_startup_locked = get_bool p ''hybrid'' ''startup_locked'' (hp_startup_locked d),
     hp_startup_observations = get_clamped p ''hybrid'' ''startup_observations'' (hp_startup_observations d) 8 4096,
     hp_aspect_minimum_quality = get_clamped p ''hybrid'' ''aspect_minimum_quality'' (hp_aspect_minimum_quality d) 0 100,
     hp_aspect_adaptive = get_bool p ''hybrid'' ''aspect_adaptive'' (hp_aspect_adaptive d),
     hp_aspect_switch_margin = get_clamped p ''hybrid'' ''aspect_switch_margin'' (hp_aspect_switch_margin d) 0 32,
     hp_fill_missing_signals = get_bool p ''hybrid'' ''fill_missing_signals'' (hp_fill_missing_signals d),
     hp_secondary_minimum_quality =
       get_clamped p ''hybrid'' ''secondary_minimum_quality'' (hp_secondary_minimum_quality d) 0 100\<rparr>)"

definition load_vulkan :: "profile \<Rightarrow> vulkan_policy" where
  "load_vulkan p = (let d = default_vulkan in \<lparr>
     vp_spoofing = parse_spoofing (get_string p ''vulkan'' ''spoofing'' ''selective'') (vp_spoofing d),
     vp_expose_nv_low_latency2 =
       parse_auto_bool (get_string p ''vulkan'' ''expose_nv_low_latency2'' ''auto'') (vp_expose_nv_low_latency2 d),
     vp_expose_amd_anti_lag =
       parse_auto_bool (get_string p ''vulkan'' ''expose_amd_anti_lag'' ''auto'') (vp_expose_amd_anti_lag d),
     vp_prefer_native_extensions = get_bool p ''vulkan'' ''prefer_native_extensions'' (vp_prefer_native_extensions d)\<rparr>)"

definition load_vulkanflex :: "profile \<Rightarrow> vulkanflex_policy" where
  "load_vulkanflex p = (let d = default_vulkanflex; s = ''vulkanflex'' in \<lparr>
     vf_enabled = get_bool p s ''enabled'' (vf_enabled d),
     vf_core_pacing = get_bool p s ''core_pacing'' (vf_core_pacing d),
     vf_only_native_vulkan = get_bool p s ''only_native_vulkan'' (vf_only_native_vulkan d),
     vf_vkd3d_bridge = get_bool p s ''vkd3d_bridge'' (vf_vkd3d_bridge d),
     vf_dxvk_bridge = get_bool p s ''dxvk_bridge'' (vf_dxvk_bridge d),
     vf_dxvk_execution = parse_auto_bool (get_string p s ''dxvk_execution'' ''auto'') (vf_dxvk_execution d),
     vf_present_precision = parse_auto_bool (get_string p s ''present_precision'' ''auto'') (vf_present_precision d),
     vf_queue_pressure = parse_auto_bool (get_string p s ''queue_pressure'' ''auto'') (vf_queue_pressure d),
     vf_queue_target_presents = get_clamped p s ''queue_target_presents'' (vf_queue_target_presents d) 1 4,
     vf_queue_max_delay_us = get_clamped p s ''queue_max_delay_us'' (vf_queue_max_delay_us d) 0 10000,
     vf_structural_stall = parse_auto_bool (get_string p s ''structural_stall'' ''auto'') (vf_structural_stall d),
     vf_pipeline_threshold_us = get_clamped p s ''pipeline_threshold_us'' (vf_pipeline_threshold_us d) 250 100000,
     vf_stall_max_compensation_us =
       get_clamped p s ''stall_max_compensation_us'' (vf_stall_max_compensation_us d) 0 250000,
     vf_minimum_interval_us = get_clamped p s ''minimum_interval_us'' (vf_minimum_interval_us d) 0 1000000,
     vf_max_sleep_us = get_clamped p s ''max_sleep_us'' (vf_max_sleep_us d) 1000 1000000\<rparr>)"

definition load_openxr :: "profile \<Rightarrow> openxr_policy" where
  "load_openxr p = (let d = default_openxr in \<lparr>
     xp_enabled = get_bool p ''openxr'' ''enabled'' (xp_enabled d),
     xp_timeline = get_bool p ''openxr'' ''timeline'' (xp_timeline d),
     xp_clock_sync = get_bool p ''openxr'' ''clock_sync'' (xp_clock_sync d)\<rparr>)"

definition load_audio :: "profile \<Rightarrow> audio_policy" where
  "load_audio p = (let d = default_audio; s = ''audio'' in \<lparr>
     ap_enabled = get_bool p s ''enabled'' (ap_enabled d),
     ap_wasapi_observer = get_bool p s ''wasapi_observer'' (ap_wasapi_observer d),
     ap_clock = get_bool p s ''clock'' (ap_clock d),
     ap_active_probe = get_bool p s ''active_probe'' (ap_active_probe d),
     ap_queue_model = get_bool p s ''queue_model'' (ap_queue_model d),
     ap_clock_probe_interval_ms = get_clamped p s ''clock_probe_interval_ms'' (ap_clock_probe_interval_ms d) 50 5000,
     ap_adaptive_period = parse_auto_bool (get_string p s ''adaptive_period'' ''auto'') (ap_adaptive_period d),
     ap_period_target_us = get_clamped p s ''period_target_us'' (ap_period_target_us d) 500 50000,
     ap_period_max_reduction_percent =
       get_clamped p s ''period_max_reduction_percent'' (ap_period_max_reduction_percent d) 10 90\<rparr>)"

definition load_overlay :: "profile \<Rightarrow> overlay_policy" where
  "load_overlay p = (let d = default_overlay in \<lparr>
     ov_startup_status = get_bool p ''overlay'' ''startup_status'' (ov_startup_status d),
     ov_duration_ms = get_clamped p ''overlay'' ''duration_ms'' (ov_duration_ms d) 250 30000\<rparr>)"

definition load_legacy :: "profile \<Rightarrow> legacy_policy" where
  "load_legacy p = (let s = ''fakenvapi'' in \<lparr>
     lg_force_latencyflex = get_bool p s ''force_latencyflex'' False,
     lg_force_reflex = get_clamped p s ''force_reflex'' 0 0 2,
     lg_latencyflex_mode = get_clamped p s ''latencyflex_mode'' 0 0 2,
     lg_save_pcl_to_file = get_bool p s ''save_pcl_to_file'' False,
     lg_legacy_keys_seen = (has_key p s ''force_latencyflex'' \<or> has_key p s ''force_reflex'' \<or>
       has_key p s ''latencyflex_mode'' \<or> has_key p s ''enable_logs'' \<or> has_key p s ''enable_trace_logs'')\<rparr>)"

text \<open>What \<open>force_latencyflex\<close> of version 1 does to the outputs and to fallbacks.\<close>

definition apply_legacy :: "profile \<Rightarrow> snapshot \<Rightarrow> snapshot" where
  "apply_legacy p r =
     (if \<not> lg_force_latencyflex (sn_legacy r) then r
      else
        let has11 = has_key p ''output'' ''d3d11'';
            has12 = has_key p ''output'' ''d3d12'';
            hasvk = has_key p ''output'' ''vulkan'';
            out = sn_output r;
            out = (if \<not> has11 then out\<lparr>op_d3d11 := LatencyFlex\<rparr> else out);
            out = (if \<not> has12 then out\<lparr>op_d3d12 := LatencyFlex\<rparr> else out);
            out = (if \<not> hasvk then out\<lparr>op_vulkan := LatencyFlex\<rparr> else out);
            r = r\<lparr>sn_output := out\<rparr>
        in if \<not> has_key p ''general'' ''allow_fallback'' \<and> \<not> has11 \<and> \<not> has12 \<and> \<not> hasvk
           then r\<lparr>sn_general := (sn_general r)\<lparr>gp_allow_fallback := False\<rparr>\<rparr> else r)"

definition load_snapshot :: "profile \<Rightarrow> u64 \<Rightarrow> snapshot" where
  "load_snapshot p generation =
     (let r = apply_legacy p \<lparr>
            sn_generation = generation,
            sn_routing_signature = 0,
            sn_general = load_general p,
            sn_input = load_input p,
            sn_output = load_output p,
            sn_backend_order = load_backend_order p,
            sn_hybrid = load_hybrid p,
            sn_vulkan = load_vulkan p,
            sn_vulkanflex = load_vulkanflex p,
            sn_openxr = load_openxr p,
            sn_audio = load_audio p,
            sn_overlay = load_overlay p,
            sn_legacy = load_legacy p\<rparr>
      in r\<lparr>sn_routing_signature := compute_routing_signature r\<rparr>)"

section \<open>Publishing\<close>

text \<open>The snapshots published so far, which stay, and the one readers see; the constructor publishes the defaults.\<close>

record config =
  cf_published :: "snapshot list"
  cf_active :: nat

definition config_initial :: config where
  "config_initial = \<lparr>cf_published = [default_snapshot], cf_active = 0\<rparr>"

definition config_snapshot :: "config \<Rightarrow> snapshot" where
  "config_snapshot c = cf_published c ! cf_active c"

definition publish_snapshot :: "config \<Rightarrow> snapshot \<Rightarrow> config" where
  "publish_snapshot c sn = \<lparr>cf_published = cf_published c @ [sn], cf_active = length (cf_published c)\<rparr>"

definition update_config :: "config \<Rightarrow> profile \<Rightarrow> config" where
  "update_config c p = publish_snapshot c (load_snapshot p (sn_generation (config_snapshot c) + 1))"

definition get_enable_logs :: "config \<Rightarrow> bool" where
  "get_enable_logs c \<longleftrightarrow> gp_logging (sn_general (config_snapshot c)) \<noteq> Log_Off"

definition get_enable_trace_logs :: "config \<Rightarrow> bool" where
  "get_enable_trace_logs c \<longleftrightarrow> gp_logging (sn_general (config_snapshot c)) = Log_Trace"

definition get_force_latencyflex :: "config \<Rightarrow> bool" where
  "get_force_latencyflex c = lg_force_latencyflex (sn_legacy (config_snapshot c))"

definition get_latencyflex_mode :: "config \<Rightarrow> u8" where
  "get_latencyflex_mode c = lg_latencyflex_mode (sn_legacy (config_snapshot c))"

definition get_save_pcl_to_file :: "config \<Rightarrow> bool" where
  "get_save_pcl_to_file c = lg_save_pcl_to_file (sn_legacy (config_snapshot c))"

end
