(* ===== verification/ConfigFile.thy ===== *)
theory ConfigFile
  imports ConfigLoad
begin

text \<open>
  What the configuration reader promises: every snapshot is within its bounds, every policy within the bounds
  can be written as a file and read back, and a file of version 1 keeps its meaning.
\<close>

section \<open>Orders\<close>

text \<open>A well-formed order: what pushing its elements one by one gives, without repetition, and never empty.\<close>

definition order_of :: "'a \<Rightarrow> nat \<Rightarrow> 'a list \<Rightarrow> 'a fixed_order" where
  "order_of z cap xs = fold fo_push_back xs (fo_empty z cap)"

definition order_ok :: "'a \<Rightarrow> nat \<Rightarrow> 'a fixed_order \<Rightarrow> bool" where
  "order_ok z cap q \<longleftrightarrow> q = order_of z cap (fo_list q) \<and> distinct (fo_list q) \<and> z \<notin> set (fo_list q) \<and>
     fo_list q \<noteq> [] \<and> length (fo_list q) \<le> cap"

lemma order_of_values:
  "length xs \<le> cap \<Longrightarrow> order_of z cap xs = \<lparr>fo_values = xs @ replicate (cap - length xs) z, fo_size = length xs\<rparr>"
proof (induction xs rule: rev_induct)
  case (snoc x xs)
  then have "cap - length xs = Suc (cap - Suc (length xs))" by simp
  with snoc show ?case by (simp add: order_of_def fo_push_back_def list_update_append)
qed (simp add: order_of_def fo_empty_def)

lemma order_of_list: "length xs \<le> cap \<Longrightarrow> fo_list (order_of z cap xs) = xs"
  by (simp add: order_of_values fo_list_def)

lemma order_of_fits: "length xs \<le> cap \<Longrightarrow> fo_ok (order_of z cap xs)"
  by (simp add: order_of_values fo_ok_def)

lemma order_of_push:
  "length xs \<le> cap \<Longrightarrow> fo_push_back x (order_of z cap xs) = order_of z cap (if length xs < cap then xs @ [x] else xs)"
  by (simp add: order_of_def, simp add: order_of_def [symmetric] order_of_values fo_push_back_def)

text \<open>What the loop over the tokens collects.\<close>

definition collect :: "'a \<Rightarrow> nat \<Rightarrow> 'a list \<Rightarrow> 'a list \<Rightarrow> 'a list" where
  "collect z cap ys xs = fold (\<lambda>y xs. if y \<noteq> z \<and> y \<notin> set xs \<and> length xs < cap then xs @ [y] else xs) ys xs"

lemma collect_simps [simp]:
  "collect z cap [] xs = xs"
  "collect z cap (y # ys) xs = collect z cap ys (if y \<noteq> z \<and> y \<notin> set xs \<and> length xs < cap then xs @ [y] else xs)"
  by (simp_all add: collect_def)

lemma push_token_order:
  "length xs \<le> cap \<Longrightarrow> push_token parse z token (order_of z cap xs) =
     order_of z cap (if parse token \<noteq> z \<and> parse token \<notin> set xs \<and> length xs < cap then xs @ [parse token] else xs)"
  by (auto simp: push_token_def Let_def fo_contains_iff order_of_fits order_of_list order_of_push)

lemma collect_order:
  "length xs \<le> cap \<Longrightarrow> fold (push_token parse z) tokens (order_of z cap xs) = order_of z cap (collect z cap (map parse tokens) xs)"
  by (induction tokens arbitrary: xs) (simp_all add: push_token_order)

lemma collect_ok:
  "distinct xs \<Longrightarrow> z \<notin> set xs \<Longrightarrow> length xs \<le> cap \<Longrightarrow>
   distinct (collect z cap ys xs) \<and> z \<notin> set (collect z cap ys xs) \<and> length (collect z cap ys xs) \<le> cap"
proof (induction ys arbitrary: xs)
  case (Cons y ys)
  show ?case
    unfolding collect_simps by (rule Cons.IH) (use Cons.prems in auto)
qed simp

lemma collect_all:
  "distinct (xs @ ys) \<Longrightarrow> z \<notin> set ys \<Longrightarrow> length (xs @ ys) \<le> cap \<Longrightarrow> collect z cap ys xs = xs @ ys"
proof (induction ys arbitrary: xs)
  case (Cons y ys)
  then show ?case using Cons.IH [of "xs @ [y]"] by auto
qed simp

lemma order_ok_collect:
  "collect z cap ys [] \<noteq> [] \<Longrightarrow> order_ok z cap (order_of z cap (collect z cap ys []))"
  using collect_ok [of "[]" z cap ys] by (simp add: order_ok_def order_of_list)

lemma parsed_order:
  assumes "order_ok z cap fallback"
  shows "order_ok z cap (let result = fold (push_token parse z) tokens (fo_empty z cap) in
    if fo_size result = 0 then fallback else result)"
proof -
  have "fold (push_token parse z) tokens (fo_empty z cap) = order_of z cap (collect z cap (map parse tokens) [])"
    using collect_order [of "[]" cap parse z tokens] by (simp add: order_of_def)
  with assms order_ok_collect [of z cap "map parse tokens"] collect_ok [of "[]" z cap "map parse tokens"]
  show ?thesis by (auto simp: Let_def order_of_values)
qed

lemma parse_orders_ok:
  "order_ok FE_Auto 4 d \<Longrightarrow> order_ok FE_Auto 4 (parse_input_priority text d)"
  "order_ok BE_Auto 6 e \<Longrightarrow> order_ok BE_Auto 6 (parse_backend_order text e)"
  unfolding parse_input_priority_def parse_backend_order_def by (rule parsed_order; assumption)+

lemma order_ok_of: "xs \<noteq> [] \<Longrightarrow> distinct xs \<Longrightarrow> z \<notin> set xs \<Longrightarrow> length xs \<le> cap \<Longrightarrow> order_ok z cap (order_of z cap xs)"
  by (simp add: order_ok_def order_of_list)

lemma default_orders:
  "default_input_priority = order_of FE_Auto 4 [Reflex, XeLL, AntiLag2, VkNvLowLatency2]"
  "bo_d3d11 default_backend_order = order_of BE_Auto 6 [BE_AntiLag2, LatencyFlex]"
  "bo_d3d12 default_backend_order = order_of BE_Auto 6 [BE_AntiLag2, BE_XeLL, LatencyFlex]"
  "bo_vulkan default_backend_order = order_of BE_Auto 6 [VulkanFlex, AmdAntiLagVk, LatencyFlex]"
  by (simp_all add: order_of_def default_input_priority_def default_backend_order_def)

lemma default_orders_ok:
  "order_ok FE_Auto 4 default_input_priority" "order_ok BE_Auto 6 (bo_d3d11 default_backend_order)"
  "order_ok BE_Auto 6 (bo_d3d12 default_backend_order)" "order_ok BE_Auto 6 (bo_vulkan default_backend_order)"
  unfolding default_orders by (rule order_ok_of; simp)+

section \<open>Bounds\<close>

text \<open>What every snapshot a file can give satisfies.\<close>

definition ranges_ok :: "snapshot \<Rightarrow> bool" where
  "ranges_ok sn \<longleftrightarrow>
     order_ok FE_Auto 4 (ip_priority (sn_input sn)) \<and>
     order_ok BE_Auto 6 (bo_d3d11 (sn_backend_order sn)) \<and>
     order_ok BE_Auto 6 (bo_d3d12 (sn_backend_order sn)) \<and>
     order_ok BE_Auto 6 (bo_vulkan (sn_backend_order sn)) \<and>
     uint (ip_minimum_quality (sn_input sn)) \<in> {0..100} \<and>
     uint (hp_startup_observations (sn_hybrid sn)) \<in> {8..4096} \<and>
     uint (hp_aspect_minimum_quality (sn_hybrid sn)) \<in> {0..100} \<and>
     uint (hp_aspect_switch_margin (sn_hybrid sn)) \<in> {0..32} \<and>
     uint (hp_secondary_minimum_quality (sn_hybrid sn)) \<in> {0..100} \<and>
     uint (vf_queue_target_presents (sn_vulkanflex sn)) \<in> {1..4} \<and>
     uint (vf_queue_max_delay_us (sn_vulkanflex sn)) \<in> {0..10000} \<and>
     uint (vf_pipeline_threshold_us (sn_vulkanflex sn)) \<in> {250..100000} \<and>
     uint (vf_stall_max_compensation_us (sn_vulkanflex sn)) \<in> {0..250000} \<and>
     uint (vf_minimum_interval_us (sn_vulkanflex sn)) \<in> {0..1000000} \<and>
     uint (vf_max_sleep_us (sn_vulkanflex sn)) \<in> {1000..1000000} \<and>
     uint (ap_clock_probe_interval_ms (sn_audio sn)) \<in> {50..5000} \<and>
     uint (ap_period_target_us (sn_audio sn)) \<in> {500..50000} \<and>
     uint (ap_period_max_reduction_percent (sn_audio sn)) \<in> {10..90} \<and>
     uint (ov_duration_ms (sn_overlay sn)) \<in> {250..30000} \<and>
     uint (lg_force_reflex (sn_legacy sn)) \<in> {0..2} \<and>
     uint (lg_latencyflex_mode (sn_legacy sn)) \<in> {0..2}"

lemma get_clamped_range:
  assumes "0 \<le> lo" "lo \<le> hi" "hi < 2 ^ LENGTH('a)"
  shows "uint (get_clamped p s k (d :: 'a::len word) lo hi) \<in> {lo..hi}"
proof -
  have "lo \<le> clamp (get_int p s k (uint d)) lo hi" "clamp (get_int p s k (uint d)) lo hi \<le> hi"
    using clamp_bounds [OF assms(2)] by auto
  with assms show ?thesis by (simp add: get_clamped_def uint_word_of_int_eq take_bit_int_eq_self)
qed

lemma apply_legacy_keeps [simp]:
  "sn_generation (apply_legacy p r) = sn_generation r" "sn_input (apply_legacy p r) = sn_input r"
  "sn_backend_order (apply_legacy p r) = sn_backend_order r" "sn_hybrid (apply_legacy p r) = sn_hybrid r"
  "sn_vulkan (apply_legacy p r) = sn_vulkan r" "sn_vulkanflex (apply_legacy p r) = sn_vulkanflex r"
  "sn_openxr (apply_legacy p r) = sn_openxr r" "sn_audio (apply_legacy p r) = sn_audio r"
  "sn_overlay (apply_legacy p r) = sn_overlay r" "sn_legacy (apply_legacy p r) = sn_legacy r"
  by (simp_all add: apply_legacy_def Let_def)

lemma signature_fields [simp]:
  "compute_routing_signature (r\<lparr>sn_routing_signature := x\<rparr>) = compute_routing_signature r"
  "compute_routing_signature (r\<lparr>sn_generation := y\<rparr>) = compute_routing_signature r"
  by (simp_all add: compute_routing_signature_def routing_bytes_def Let_def)

lemma loaded_parts:
  "sn_input (load_snapshot p g) = load_input p" "sn_backend_order (load_snapshot p g) = load_backend_order p"
  "sn_hybrid (load_snapshot p g) = load_hybrid p" "sn_vulkan (load_snapshot p g) = load_vulkan p"
  "sn_vulkanflex (load_snapshot p g) = load_vulkanflex p" "sn_openxr (load_snapshot p g) = load_openxr p"
  "sn_audio (load_snapshot p g) = load_audio p" "sn_overlay (load_snapshot p g) = load_overlay p"
  "sn_legacy (load_snapshot p g) = load_legacy p" "sn_generation (load_snapshot p g) = g"
  by (simp_all add: load_snapshot_def Let_def)

lemma load_ranges: "ranges_ok (load_snapshot p g)"
  unfolding ranges_ok_def loaded_parts load_input_def load_backend_order_def load_order_of_def load_hybrid_def
    load_vulkanflex_def load_audio_def load_overlay_def load_legacy_def Let_def input_policy.simps hybrid_policy.simps
    vulkanflex_policy.simps audio_policy.simps overlay_policy.simps legacy_policy.simps backend_order_policy.simps
  by (intro conjI get_clamped_range) (simp_all add: parse_orders_ok default_orders_ok default_input_def)

section \<open>Writing a policy as a file\<close>

text \<open>A file: what each key of each section holds, as a text and as the number Windows reads in it.\<close>

type_synonym ini = "string \<Rightarrow> string \<Rightarrow> (string \<times> u32) option"

definition file_profile :: "ini \<Rightarrow> profile" where
  "file_profile f = \<lparr>
     pf_text = (\<lambda>s k d. case f s k of None \<Rightarrow> d | Some (t, n) \<Rightarrow> t),
     pf_number = (\<lambda>s k d. case f s k of None \<Rightarrow> word_of_int d | Some (t, n) \<Rightarrow> n)\<rparr>"

fun csv :: "string list \<Rightarrow> string" where
  "csv [] = []"
| "csv [x] = x"
| "csv (x # y # ys) = x @ CHR '','' # csv (y # ys)"

fun decimal :: "nat \<Rightarrow> string" where
  "decimal n = (if n < 10 then [] else decimal (n div 10)) @ [char_of (48 + n mod 10)]"

declare decimal.simps [simp del]

definition switch :: "bool \<Rightarrow> string \<times> u32" where
  "switch b = (if b then (''1'', 1) else (''0'', 0))"

definition number :: "'a::len word \<Rightarrow> string \<times> u32" where
  "number x = (decimal (unat x), ucast x)"

definition name :: "string \<Rightarrow> string \<times> u32" where
  "name t = (t, 0)"

primrec spoofing_to_string :: "vulkan_spoofing \<Rightarrow> string" where
  "spoofing_to_string Spoof_Off = ''off''"
| "spoofing_to_string Spoof_Selective = ''selective''"
| "spoofing_to_string Spoof_Aggressive = ''aggressive''"

primrec auto_bool_to_string :: "auto_bool \<Rightarrow> string" where
  "auto_bool_to_string AB_Auto = ''auto''"
| "auto_bool_to_string AB_Disabled = ''0''"
| "auto_bool_to_string AB_Enabled = ''1''"

definition order_text :: "('a \<Rightarrow> string) \<Rightarrow> 'a fixed_order \<Rightarrow> string" where
  "order_text f q = csv (map f (fo_list q))"

definition print_policy :: "snapshot \<Rightarrow> ini" where
  "print_policy sn s =
     (if s = ''general'' then (let g = sn_general sn in map_of [
        (''logging'', name (logging_to_string (gp_logging g))),
        (''allow_fallback'', switch (gp_allow_fallback g)),
        (''runtime_switching'', switch (gp_runtime_switching g))])
      else if s = ''input'' then (let i = sn_input sn in map_of [
        (''mode'', name (frontend_to_string (ip_mode i))),
        (''priority'', name (order_text frontend_to_string (ip_priority i))),
        (''minimum_quality'', number (ip_minimum_quality i))])
      else if s = ''output'' then (let out = sn_output sn in map_of [
        (''d3d11'', name (backend_to_string (op_d3d11 out))),
        (''d3d12'', name (backend_to_string (op_d3d12 out))),
        (''vulkan'', name (backend_to_string (op_vulkan out)))])
      else if s = ''backend_order'' then (let b = sn_backend_order sn in map_of [
        (''d3d11'', name (order_text backend_to_string (bo_d3d11 b))),
        (''d3d12'', name (order_text backend_to_string (bo_d3d12 b))),
        (''vulkan'', name (order_text backend_to_string (bo_vulkan b)))])
      else if s = ''hybrid'' then (let h = sn_hybrid sn in map_of [
        (''xell_fusion'', switch (hp_xell_fusion h)),
        (''vulkan_fusion'', switch (hp_vulkan_fusion h)),
        (''startup_locked'', switch (hp_startup_locked h)),
        (''startup_observations'', number (hp_startup_observations h)),
        (''aspect_minimum_quality'', number (hp_aspect_minimum_quality h)),
        (''aspect_adaptive'', switch (hp_aspect_adaptive h)),
        (''aspect_switch_margin'', number (hp_aspect_switch_margin h)),
        (''fill_missing_signals'', switch (hp_fill_missing_signals h)),
        (''secondary_minimum_quality'', number (hp_secondary_minimum_quality h))])
      else if s = ''vulkan'' then (let v = sn_vulkan sn in map_of [
        (''spoofing'', name (spoofing_to_string (vp_spoofing v))),
        (''expose_nv_low_latency2'', name (auto_bool_to_string (vp_expose_nv_low_latency2 v))),
        (''expose_amd_anti_lag'', name (auto_bool_to_string (vp_expose_amd_anti_lag v))),
        (''prefer_native_extensions'', switch (vp_prefer_native_extensions v))])
      else if s = ''vulkanflex'' then (let v = sn_vulkanflex sn in map_of [
        (''enabled'', switch (vf_enabled v)),
        (''core_pacing'', switch (vf_core_pacing v)),
        (''only_native_vulkan'', switch (vf_only_native_vulkan v)),
        (''vkd3d_bridge'', switch (vf_vkd3d_bridge v)),
        (''dxvk_bridge'', switch (vf_dxvk_bridge v)),
        (''dxvk_execution'', name (auto_bool_to_string (vf_dxvk_execution v))),
        (''present_precision'', name (auto_bool_to_string (vf_present_precision v))),
        (''queue_pressure'', name (auto_bool_to_string (vf_queue_pressure v))),
        (''queue_target_presents'', number (vf_queue_target_presents v)),
        (''queue_max_delay_us'', number (vf_queue_max_delay_us v)),
        (''structural_stall'', name (auto_bool_to_string (vf_structural_stall v))),
        (''pipeline_threshold_us'', number (vf_pipeline_threshold_us v)),
        (''stall_max_compensation_us'', number (vf_stall_max_compensation_us v)),
        (''minimum_interval_us'', number (vf_minimum_interval_us v)),
        (''max_sleep_us'', number (vf_max_sleep_us v))])
      else if s = ''openxr'' then (let x = sn_openxr sn in map_of [
        (''enabled'', switch (xp_enabled x)),
        (''timeline'', switch (xp_timeline x)),
        (''clock_sync'', switch (xp_clock_sync x))])
      else if s = ''audio'' then (let a = sn_audio sn in map_of [
        (''enabled'', switch (ap_enabled a)),
        (''wasapi_observer'', switch (ap_wasapi_observer a)),
        (''clock'', switch (ap_clock a)),
        (''active_probe'', switch (ap_active_probe a)),
        (''queue_model'', switch (ap_queue_model a)),
        (''clock_probe_interval_ms'', number (ap_clock_probe_interval_ms a)),
        (''adaptive_period'', name (auto_bool_to_string (ap_adaptive_period a))),
        (''period_target_us'', number (ap_period_target_us a)),
        (''period_max_reduction_percent'', number (ap_period_max_reduction_percent a))])
      else if s = ''overlay'' then (let v = sn_overlay sn in map_of [
        (''startup_status'', switch (ov_startup_status v)),
        (''duration_ms'', number (ov_duration_ms v))])
      else if s = ''fakenvapi'' then (let l = sn_legacy sn in map_of (
        (''save_pcl_to_file'', switch (lg_save_pcl_to_file l)) #
        (if lg_legacy_keys_seen l then [
          (''force_latencyflex'', switch (lg_force_latencyflex l)),
          (''force_reflex'', number (lg_force_reflex l)),
          (''latencyflex_mode'', number (lg_latencyflex_mode l))] else [])))
      else Map.empty)"

section \<open>Reading it back\<close>

lemma names_read:
  "parse_logging (logging_to_string l) x = l"
  "parse_input (frontend_to_string f) y = f"
  "parse_backend (backend_to_string b) z = b"
  "parse_spoofing (spoofing_to_string sp) u = sp"
  "parse_auto_bool (auto_bool_to_string ab) v = ab"
  subgoal by (cases l) (simp_all add: parse_logging_def trim_lower_def is_space_def to_lower_def)
  subgoal by (cases f) (simp_all add: parse_input_def trim_lower_def is_space_def to_lower_def)
  subgoal by (cases b) (simp_all add: parse_backend_def trim_lower_def is_space_def to_lower_def)
  subgoal by (cases sp) (simp_all add: parse_spoofing_def trim_lower_def is_space_def to_lower_def)
  subgoal by (cases ab) (simp_all add: parse_auto_bool_def trim_lower_def is_space_def to_lower_def)
  done

text \<open>A name that survives a comma-separated list.\<close>

definition plain_name :: "string \<Rightarrow> bool" where
  "plain_name t \<longleftrightarrow> t \<noteq> [] \<and> CHR '','' \<notin> set t \<and> trim_lower t = t"

lemma plain_names: "plain_name (frontend_to_string f)" "plain_name (backend_to_string b)"
  subgoal by (cases f) (simp_all add: plain_name_def trim_lower_def is_space_def to_lower_def)
  subgoal by (cases b) (simp_all add: plain_name_def trim_lower_def is_space_def to_lower_def)
  done

lemma getlines_csv: "list_all plain_name xs \<Longrightarrow> getlines (csv xs) = xs"
proof (induction xs rule: csv.induct)
  case 1
  then show ?case by (simp add: getlines.simps)
next
  case (2 x)
  have e: "getlines [] = []" by (subst getlines.simps) simp
  from 2 have x: "x \<noteq> []" "\<forall>c\<in>set x. c \<noteq> CHR '',''" by (auto simp: plain_name_def)
  then have "takeWhile (\<lambda>c. c \<noteq> CHR '','') x = x" "dropWhile (\<lambda>c. c \<noteq> CHR '','') x = []"
    by (simp_all only: takeWhile_eq_all_conv dropWhile_eq_Nil_conv)
  with x(1) e show ?case by (subst getlines.simps) (simp only: csv.simps if_False list.sel refl)
next
  case (3 x y ys)
  then have x: "x \<noteq> []" "CHR '','' \<notin> set x" by (auto simp: plain_name_def)
  have "takeWhile (\<lambda>c. c \<noteq> CHR '','') (csv (x # y # ys)) = x"
    "dropWhile (\<lambda>c. c \<noteq> CHR '','') (csv (x # y # ys)) = CHR '','' # csv (y # ys)"
    using x(2) by (auto simp: takeWhile_append dropWhile_append takeWhile_eq_all_conv)
  with 3 x show ?case by (subst getlines.simps) simp
qed

lemma split_csv_csv: "list_all plain_name xs \<Longrightarrow> split_csv (csv xs) = xs"
proof -
  assume p: "list_all plain_name xs"
  then have "map trim_lower xs = xs" "filter (\<lambda>t. t \<noteq> []) xs = xs"
    by (auto simp: list_all_iff plain_name_def intro: map_idI)
  with getlines_csv [OF p] show ?thesis by (simp add: split_csv_def)
qed

lemma order_read:
  assumes ok: "order_ok z cap q" and f: "\<And>x. plain_name (f x)" "\<And>x. parse (f x) = x"
  shows "(let result = fold (push_token parse z) (split_csv (order_text f q)) (fo_empty z cap) in
    if fo_size result = 0 then fallback else result) = q"
proof -
  have "map parse (map f (fo_list q)) = fo_list q" using f(2) by (simp add: map_idI)
  then have "fold (push_token parse z) (split_csv (order_text f q)) (order_of z cap []) = order_of z cap (fo_list q)"
    using ok f(1) collect_all [of "[]" "fo_list q" z cap]
    by (simp add: order_text_def split_csv_csv list_all_iff collect_order order_ok_def)
  moreover have "order_of z cap (fo_list q) = q" "fo_size q \<noteq> 0"
    using ok by (auto simp: order_ok_def fo_list_def)
  ultimately show ?thesis by (simp add: order_of_def)
qed

lemma orders_read:
  "order_ok FE_Auto 4 p \<Longrightarrow> parse_input_priority (order_text frontend_to_string p) d = p"
  "order_ok BE_Auto 6 q \<Longrightarrow> parse_backend_order (order_text backend_to_string q) e = q"
  unfolding parse_input_priority_def parse_backend_order_def
  by (rule order_read; simp add: plain_names names_read)+

lemma decimal_digit: "c \<in> set (decimal n) \<Longrightarrow> 48 \<le> (of_char c :: nat) \<and> (of_char c :: nat) \<le> 57"
proof (induction n rule: decimal.induct)
  case (1 n)
  then show ?case by (subst (asm) decimal.simps) (auto split: if_splits)
qed

lemma decimal_key: "decimal n \<noteq> key_missing"
proof
  assume "decimal n = key_missing"
  then have "CHR ''{'' \<in> set (decimal n)" by (simp add: key_missing_def)
  then show False using decimal_digit [of "CHR ''{''" n] by simp
qed

lemma file_reads:
  "get_string (file_profile f) s k d = (case f s k of None \<Rightarrow> d | Some e \<Rightarrow> fst e)"
  "has_key (file_profile f) s k \<longleftrightarrow> (case f s k of None \<Rightarrow> False | Some e \<Rightarrow> fst e \<noteq> key_missing)"
  "get_bool (file_profile f) s k c \<longleftrightarrow> (case f s k of None \<Rightarrow> c | Some e \<Rightarrow> snd e \<noteq> 0)"
  "get_clamped (file_profile f) s k x lo hi =
     word_of_int (clamp (case f s k of None \<Rightarrow> sint (word_of_int (uint x) :: u32) | Some e \<Rightarrow> sint (snd e)) lo hi)"
proof -
  have "sint b = 0 \<longleftrightarrow> b = 0" for b :: u32 by (rule signed_eq_0_iff)
  then show "get_bool (file_profile f) s k c \<longleftrightarrow> (case f s k of None \<Rightarrow> c | Some e \<Rightarrow> snd e \<noteq> 0)"
    by (auto simp: file_profile_def get_bool_def get_int_def split: option.split)
qed (auto simp: file_profile_def get_string_def get_int_def has_key_def get_clamped_def split: option.split)

lemma entries [simp]:
  "fst (name t) = t" "fst (switch b) \<noteq> key_missing" "snd (switch b) = 0 \<longleftrightarrow> \<not> b" "fst (number x) \<noteq> key_missing"
  using decimal_key by (auto simp: name_def switch_def number_def key_missing_def)

lemma number_back:
  fixes x :: "'a::len word"
  assumes "lo \<le> uint x" "uint x \<le> hi" "hi < 2147483648" "LENGTH('a) \<le> 32"
  shows "word_of_int (clamp (sint (snd (number x))) lo hi) = x"
proof -
  have "uint (ucast x :: u32) = uint x"
    using assms by (simp add: unsigned_ucast_eq take_bit_int_eq_self)
  moreover have "signed_take_bit 31 (uint x) = uint x"
    by (rule signed_take_bit_int_eq_self) (use assms order_trans [OF _ uint_ge_0, of "- 2147483648" x] in simp_all)
  ultimately have "sint (ucast x :: u32) = uint x" by (simp add: sint_uint)
  with assms show ?thesis by (simp add: number_def clamp_id)
qed

lemma name_keys:
  "logging_to_string l \<noteq> key_missing" "frontend_to_string fe \<noteq> key_missing" "backend_to_string b \<noteq> key_missing"
  subgoal by (cases l) (simp_all add: key_missing_def)
  subgoal by (cases fe) (simp_all add: key_missing_def)
  subgoal by (cases b) (simp_all add: key_missing_def)
  done

lemma csv_chars: "c \<noteq> CHR '','' \<Longrightarrow> \<forall>x\<in>set xs. c \<notin> set x \<Longrightarrow> c \<notin> set (csv xs)"
  by (induction xs rule: csv.induct) auto

lemma order_keys: "order_text frontend_to_string p \<noteq> key_missing" "order_text backend_to_string q \<noteq> key_missing"
proof -
  have f: "CHR ''{'' \<notin> set (frontend_to_string f)" for f by (cases f) simp_all
  have b: "CHR ''{'' \<notin> set (backend_to_string b)" for b by (cases b) simp_all
  have k: "CHR ''{'' \<in> set key_missing" by (simp add: key_missing_def)
  have "CHR ''{'' \<notin> set (order_text frontend_to_string p)" "CHR ''{'' \<notin> set (order_text backend_to_string q)"
    unfolding order_text_def by (rule csv_chars; simp add: f b)+
  with k show "order_text frontend_to_string p \<noteq> key_missing" "order_text backend_to_string q \<noteq> key_missing" by metis+
qed

section \<open>What a file gives\<close>

text \<open>Without the routing keys of version 1 there is nothing of them.\<close>

definition legacy_ok :: "snapshot \<Rightarrow> bool" where
  "legacy_ok sn \<longleftrightarrow> lg_legacy_keys_seen (sn_legacy sn) \<or>
     (\<not> lg_force_latencyflex (sn_legacy sn) \<and> lg_force_reflex (sn_legacy sn) = 0 \<and> lg_latencyflex_mode (sn_legacy sn) = 0)"

text \<open>Section by section.\<close>

lemma range_facts:
  assumes "ranges_ok sn"
  shows "order_ok FE_Auto 4 (ip_priority (sn_input sn))"
    "order_ok BE_Auto 6 (bo_d3d11 (sn_backend_order sn))" "order_ok BE_Auto 6 (bo_d3d12 (sn_backend_order sn))"
    "order_ok BE_Auto 6 (bo_vulkan (sn_backend_order sn))"
    "uint (ip_minimum_quality (sn_input sn)) \<le> 100"
    "8 \<le> uint (hp_startup_observations (sn_hybrid sn))" "uint (hp_startup_observations (sn_hybrid sn)) \<le> 4096"
    "uint (hp_aspect_minimum_quality (sn_hybrid sn)) \<le> 100" "uint (hp_aspect_switch_margin (sn_hybrid sn)) \<le> 32"
    "uint (hp_secondary_minimum_quality (sn_hybrid sn)) \<le> 100"
    "1 \<le> uint (vf_queue_target_presents (sn_vulkanflex sn))" "uint (vf_queue_target_presents (sn_vulkanflex sn)) \<le> 4"
    "uint (vf_queue_max_delay_us (sn_vulkanflex sn)) \<le> 10000"
    "250 \<le> uint (vf_pipeline_threshold_us (sn_vulkanflex sn))"
    "uint (vf_pipeline_threshold_us (sn_vulkanflex sn)) \<le> 100000"
    "uint (vf_stall_max_compensation_us (sn_vulkanflex sn)) \<le> 250000"
    "uint (vf_minimum_interval_us (sn_vulkanflex sn)) \<le> 1000000"
    "1000 \<le> uint (vf_max_sleep_us (sn_vulkanflex sn))" "uint (vf_max_sleep_us (sn_vulkanflex sn)) \<le> 1000000"
    "50 \<le> uint (ap_clock_probe_interval_ms (sn_audio sn))" "uint (ap_clock_probe_interval_ms (sn_audio sn)) \<le> 5000"
    "500 \<le> uint (ap_period_target_us (sn_audio sn))" "uint (ap_period_target_us (sn_audio sn)) \<le> 50000"
    "10 \<le> uint (ap_period_max_reduction_percent (sn_audio sn))" "uint (ap_period_max_reduction_percent (sn_audio sn)) \<le> 90"
    "250 \<le> uint (ov_duration_ms (sn_overlay sn))" "uint (ov_duration_ms (sn_overlay sn)) \<le> 30000"
    "uint (lg_force_reflex (sn_legacy sn)) \<le> 2" "uint (lg_latencyflex_mode (sn_legacy sn)) \<le> 2"
  using assms unfolding ranges_ok_def atLeastAtMost_iff by blast+

lemmas read_back = file_reads names_read orders_read name_keys order_keys number_back print_policy_def Let_def

lemma general_back: "load_general (file_profile (print_policy sn)) = sn_general sn"
  by (rule general_policy.equality) (simp_all add: load_general_def load_logging_def read_back)

lemma input_back:
  assumes "ranges_ok sn"
  shows "load_input (file_profile (print_policy sn)) = sn_input sn"
  by (rule input_policy.equality) (simp_all add: load_input_def read_back range_facts [OF assms(1)])

lemma output_back: "load_output (file_profile (print_policy sn)) = sn_output sn"
  by (rule output_policy.equality) (simp_all add: load_output_def load_output_of_def read_back)

lemma order_back:
  assumes "ranges_ok sn"
  shows "load_backend_order (file_profile (print_policy sn)) = sn_backend_order sn"
  by (rule backend_order_policy.equality) (simp_all add: load_backend_order_def load_order_of_def read_back range_facts [OF assms(1)])

lemma hybrid_back:
  assumes "ranges_ok sn"
  shows "load_hybrid (file_profile (print_policy sn)) = sn_hybrid sn"
  by (rule hybrid_policy.equality; simp only: load_hybrid_def Let_def hybrid_policy.simps unit_eq;
    simp add: read_back range_facts [OF assms(1)])

lemma vulkan_back: "load_vulkan (file_profile (print_policy sn)) = sn_vulkan sn"
  by (rule vulkan_policy.equality) (simp_all add: load_vulkan_def read_back)

lemma vulkanflex_back:
  assumes "ranges_ok sn"
  shows "load_vulkanflex (file_profile (print_policy sn)) = sn_vulkanflex sn"
  by (rule vulkanflex_policy.equality; simp only: load_vulkanflex_def Let_def vulkanflex_policy.simps unit_eq;
    simp add: read_back range_facts [OF assms(1)])

lemma openxr_back: "load_openxr (file_profile (print_policy sn)) = sn_openxr sn"
  by (rule openxr_policy.equality) (simp_all add: load_openxr_def read_back)

lemma audio_back:
  assumes "ranges_ok sn"
  shows "load_audio (file_profile (print_policy sn)) = sn_audio sn"
  by (rule audio_policy.equality; simp only: load_audio_def Let_def audio_policy.simps unit_eq;
    simp add: read_back range_facts [OF assms(1)])

lemma overlay_back:
  assumes "ranges_ok sn"
  shows "load_overlay (file_profile (print_policy sn)) = sn_overlay sn"
  by (rule overlay_policy.equality) (simp_all add: load_overlay_def read_back range_facts [OF assms(1)])

lemma legacy_back:
  assumes "ranges_ok sn" "legacy_ok sn"
  shows "load_legacy (file_profile (print_policy sn)) = sn_legacy sn"
proof (cases "lg_legacy_keys_seen (sn_legacy sn)")
  case True
  then show ?thesis
    by (intro legacy_policy.equality; simp only: load_legacy_def Let_def legacy_policy.simps unit_eq;
      simp add: read_back range_facts [OF assms(1)])
next
  case False
  then show ?thesis
    using assms(2) by (intro legacy_policy.equality) (simp_all add: load_legacy_def read_back legacy_ok_def clamp_id)
qed

lemma chosen_outputs:
  "has_key (file_profile (print_policy sn)) ''output'' ''d3d11''" "has_key (file_profile (print_policy sn)) ''output'' ''d3d12''"
  "has_key (file_profile (print_policy sn)) ''output'' ''vulkan''"
  by (simp_all add: read_back)

text \<open>C14
  Every policy within the bounds can be written as a file that gives it back: names, lists, numbers and
  switches are read as they were written, and choosing every output keeps the keys of version 1 from
  changing any.
\<close>

theorem config_roundtrip:
  assumes "ranges_ok sn" and "legacy_ok sn" and "sn_routing_signature sn = compute_routing_signature sn"
  shows "load_snapshot (file_profile (print_policy sn)) (sn_generation sn) = sn"
proof -
  let ?p = "file_profile (print_policy sn)"
  have legacy: "apply_legacy ?p r = r" for r
    by (simp add: apply_legacy_def Let_def chosen_outputs)
  have "load_snapshot ?p (sn_generation sn) = sn\<lparr>sn_routing_signature := compute_routing_signature (sn\<lparr>sn_routing_signature := 0\<rparr>)\<rparr>"
    by (rule snapshot.equality)
      (simp_all add: load_snapshot_def legacy Let_def general_back input_back output_back order_back hybrid_back vulkan_back
        vulkanflex_back openxr_back audio_back overlay_back legacy_back assms, simp add: compute_routing_signature_def
        routing_bytes_def Let_def)
  also have "\<dots> = sn" by (simp add: assms(3) [symmetric])
  finally show ?thesis .
qed

text \<open>The defaults themselves, with their signature.\<close>

definition signed_defaults :: snapshot where
  "signed_defaults = default_snapshot\<lparr>sn_routing_signature := compute_routing_signature default_snapshot\<rparr>"

lemma default_ranges: "ranges_ok default_snapshot"
  unfolding ranges_ok_def using default_orders_ok
  by (simp add: default_snapshot_def default_input_def default_hybrid_def default_vulkanflex_def default_audio_def
      default_overlay_def default_legacy_def)

theorem config_roundtrip_witness:
  "load_snapshot (file_profile (print_policy signed_defaults)) (sn_generation signed_defaults) = signed_defaults"
proof (rule config_roundtrip)
  show "ranges_ok signed_defaults" using default_ranges by (simp add: signed_defaults_def ranges_ok_def)
  show "legacy_ok signed_defaults" by (simp add: signed_defaults_def legacy_ok_def default_snapshot_def default_legacy_def)
  show "sn_routing_signature signed_defaults = compute_routing_signature signed_defaults" by (simp add: signed_defaults_def)
qed

lemma update_fields:
  "cf_published (update_config c p) = cf_published c @ [load_snapshot p (sn_generation (config_snapshot c) + 1)]"
  "cf_active (update_config c p) = length (cf_published c)"
  "config_snapshot (update_config c p) = load_snapshot p (sn_generation (config_snapshot c) + 1)"
  by (simp_all add: update_config_def publish_snapshot_def config_snapshot_def)

text \<open>C15
  However often the file is read and whatever it holds, readers always see one published snapshot: the
  defaults, then what each reading gave, numbered in order, each within the bounds, its lists not empty
  and without repetition.
\<close>

theorem published_sane:
  "let c = foldl update_config config_initial ps in
     cf_published c = default_snapshot # map2 load_snapshot ps (map (\<lambda>i. word_of_nat (Suc i)) [0..<length ps]) \<and>
     config_snapshot c = last (cf_published c) \<and> list_all ranges_ok (cf_published c)"
proof -
  have "cf_published (foldl update_config config_initial ps) =
      default_snapshot # map2 load_snapshot ps (map (\<lambda>i. word_of_nat (Suc i)) [0..<length ps]) \<and>
    cf_active (foldl update_config config_initial ps) = length ps \<and>
    sn_generation (config_snapshot (foldl update_config config_initial ps)) = word_of_nat (length ps)"
  proof (induction ps rule: rev_induct)
    case Nil
    then show ?case by (simp add: config_initial_def config_snapshot_def default_snapshot_def)
  next
    case (snoc p ps)
    let ?c = "foldl update_config config_initial ps"
    have "map2 load_snapshot (ps @ [p]) (map (\<lambda>i. word_of_nat (Suc i)) [0..<length (ps @ [p])]) =
        map2 load_snapshot ps (map (\<lambda>i. word_of_nat (Suc i)) [0..<length ps]) @ [load_snapshot p (word_of_nat (Suc (length ps)))]"
      by simp
    with snoc show ?case
      by (simp add: update_fields loaded_parts add.commute)
  qed
  moreover have "list_all ranges_ok (map2 load_snapshot ps xs)" for xs
    by (auto simp: list_all_iff load_ranges)
  ultimately show ?thesis by (simp add: Let_def config_snapshot_def last_conv_nth default_ranges)
qed

text \<open>C16
  A file of version 1 that forces LatencyFleX still forces it: unless it chooses an output or says
  something about fallbacks, LatencyFleX is the only back end tried on every interface, and none is when
  it is ruled out.
\<close>

theorem legacy_force:
  assumes "f ''fakenvapi'' ''force_latencyflex'' = Some (t, n)" and "n \<noteq> 0"
    and "f ''general'' ''allow_fallback'' = None" and "f ''output'' = Map.empty"
  shows "fo_list (build_backend_candidates (load_snapshot (file_profile f) g) api r) =
    (if recognized_usable r LatencyFlex then [LatencyFlex] else [])"
proof -
  let ?sn = "load_snapshot (file_profile f) g"
  have "lg_force_latencyflex (load_legacy (file_profile f))" using assms(1,2) by (simp add: load_legacy_def Let_def file_reads)
  then have "sn_output ?sn = \<lparr>op_d3d11 = LatencyFlex, op_d3d12 = LatencyFlex, op_vulkan = LatencyFlex\<rparr>"
    "\<not> gp_allow_fallback (sn_general ?sn)"
    using assms(3,4) by (simp_all add: load_snapshot_def apply_legacy_def Let_def file_reads)
  then have "requested_backend ?sn api = LatencyFlex" "\<not> gp_allow_fallback (sn_general ?sn)" by (cases api; simp)+
  moreover have "backend_supported api LatencyFlex" by (cases api) simp_all
  ultimately show ?thesis by (simp add: build_backend_candidates_def Let_def fo_list_push)
qed

definition version1_file :: ini where
  "version1_file s k = (if s = ''fakenvapi'' \<and> k = ''force_latencyflex'' then Some (''1'', 1) else None)"

theorem legacy_force_witness:
  "fo_list (build_backend_candidates (load_snapshot (file_profile version1_file) 1) D3D12 None) = [LatencyFlex]"
  using legacy_force [of version1_file "''1''" 1 1 D3D12 None]
  by (simp add: version1_file_def recognized_usable_def fun_eq_iff)

end
