(* ===== verification/Spec2Isabelle.thy ===== *)
theory Spec2Isabelle
  imports RoutingSignature PolicyEngine MpmcConcurrent HybridTimeline TransportTruth FgCadence TimingPolicies AudioTimeline LatencyRuns LatencyApplied FrameReports RegistryStale RegistrySemaphores ConfigFile
begin

text \<open>
  A model of the decision and bookkeeping core of Vulkanized-Fakenvapi, a library that stands between
  games that speak one latency interface (Reflex, XeLL, Anti-Lag, OpenXR) and drivers that offer another.

  \<^bold>\<open>The program.\<close>  Hooks and exported functions turn what the game calls into observations.  The input
  arbiter scores the frontends and selects one; hybrid fusion lets every aspect of control (pacing,
  enabling, boost, interval, markers) have an owner of its own, which is frozen at startup, and
  maps the native frame ids of all frontends to canonical frame tokens and presentation tokens.  The
  output recognizer collects what the probes found out about each back end, and the policy engine turns
  the configuration and these results into an ordered list of candidates.  Timelines record OpenXR
  frames and audio clients; the transport truth records which translation layer the process really
  uses; a detector recognises frame generation from the cadence of presents; small policies decide about
  waits, precision, queue pressure and stalls.  Marker packets travel through a bounded lock-free ring.

  \<^bold>\<open>Theories and sources\<close> (file names under \<open>src/src/\<close>).
  \<^item> \<open>Prelude\<close>: words, clamps, bits, slots of a ring; \<open>Interfaces\<close>: the contracts \<open>machine\<close>,
    \<open>monotone_machine\<close>, \<open>simulation\<close>, \<open>bounded_simulation\<close>, \<open>bounded_fifo\<close>, \<open>slot_ring\<close>, each interpreted on
    the components below; \<open>ProbeTable\<close>: linear probing and the contract \<open>key_table\<close>.
  \<^item> \<open>RuntimePolicy\<close> (\<open>runtime_policy.h\<close>): the policy structures; \<open>RoutingSignature\<close>
    (\<open>runtime_policy.cpp\<close>): their hash, one byte at a time, and that one changed byte changes it.
  \<^item> \<open>ConfigLoad\<close>, \<open>ConfigFile\<close> (\<open>config.cpp\<close>): how a file becomes a policy; bounds, round trip, the keys of version 1.
  \<^item> \<open>OutputRecognizer\<close> (\<open>output_recognizer.*\<close>), \<open>PolicyEngine\<close> (\<open>policy_engine.*\<close>): verdicts independent of
    the order of the probes; soundness and completeness of the candidate list.
  \<^item> \<open>MpmcRing\<close>, \<open>MpmcConcurrent\<close> (\<open>fixed_mpmc_ring.h\<close>): the ring run by one thread refines a bounded list;
    run by any number of threads, one atomic access per step, it never loses, repeats or exposes an element.
  \<^item> \<open>InputArbiter\<close> (\<open>input_arbiter.*\<close>): scores, bounds, selection with hysteresis.
  \<^item> \<open>HybridControl\<close>, \<open>HybridTimeline\<close> (\<open>hybrid_fusion.*\<close>): packed owner words, the startup lock, resolved
    control values; frames, bindings, markers and presentations as one step per public call.
  \<^item> \<open>TransportTruth\<close> (\<open>transport_truth.*\<close>), \<open>FgCadence\<close> (\<open>frame_generation_cadence*.h\<close>): step relations over single
    atomic accesses; the result is independent of the schedule, every router call ends, and the stream is taken
    from its owner only by a producer that has seen it behind.
  \<^item> \<open>TimingPolicies\<close> (\<open>clock_math.h\<close>, \<open>wait_policy.h\<close>, \<open>completion_feedback_policy.h\<close>,
    \<open>vulkan_present_precision.*\<close>, \<open>vulkan_queue_pressure.*\<close>, \<open>vulkan_structural_stall.*\<close>): exactness, bounds and
    the inputs at which 64-bit and 32-bit sums wrap.
  \<^item> \<open>AudioModel\<close> (\<open>audio_latency_math.h\<close>, \<open>audio_period_policy.h\<close>, \<open>audio_queue_model.h\<close>), \<open>AudioTimeline\<close>
    (\<open>audio_timeline.*\<close>): conversions and estimates; the tables refine partial maps.
  \<^item> \<open>XrTimeline\<close> (\<open>openxr_timeline.*\<close>): session table and frame rings refine an unbounded history of the
    frame loops; what an ended frame reports; the statistics.
  \<^item> \<open>LatencyContext\<close>, \<open>LatencyRouting\<close>, \<open>LatencyFrontends\<close> (\<open>low_latency.*\<close>, \<open>low_latency_d3d.cpp\<close>,
    \<open>low_latency_vk.cpp\<close>): the context that owns arbiter, fusion, OpenXR timeline and back end, as a machine
    over the calls of the game; \<open>LatencyLedger\<close>, \<open>LatencyRuns\<close>: what it may tell the back end once the hot
    path is on, composed from the lemmas of \<open>HybridTimeline\<close>; \<open>LatencyApplied\<close>: that what it believes applied
    is what the back end was told; \<open>FrameReports\<close>: the ring of 70 frame reports and its three queries.
  \<^item> \<open>VulkanCapabilities\<close> (\<open>vulkan_capabilities.*\<close>): what the probe of a physical device and the creation of a
    device say of 24 capabilities, exactly.
  \<^item> \<open>HandleTable\<close>, \<open>DeviceRegistry\<close>, \<open>RegistryMaps\<close>, \<open>RegistryReaders\<close>, \<open>RegistryLinear\<close>, \<open>RegistryStale\<close>,
    \<open>RegistrySemaphores\<close> (\<open>vulkan_device_registry.*\<close>): the slot tables and the calls that write them refine
    three bounded maps; the lock-free lookups are linearizable, except that a thread which has asked for the
    notification entry point of a queue may be told that a registered queue is unknown; every semaphore is
    accounted for, and none is lost while devices are published with the semaphore they hold.

  \<^bold>\<open>Conventions.\<close>  Unsigned integers are words of their width and wrap; signed 64-bit values are \<open>int\<close> with the
  clamp of the code written out; enumerations are datatypes with their codes.  Arrays are total functions
  from indices, which the code reduces modulo the size or bounds by its loops.  A pointer to an element is the number of its slot, a
  null pointer is None.  A function that changes state returns it.  Atomic accesses are sequentially
  consistent; each public operation is one step, except in \<open>MpmcConcurrent\<close>, \<open>TransportTruth\<close>, the
  router of \<open>FgCadence\<close>, \<open>RegistryReaders\<close> and the claim of \<open>AudioTimeline\<close>, where each atomic access is one.  The long double quotient of
  \<open>clock_math.h\<close> and the Vulkan flag bits are parameters, and so is, as the record \<open>host\<close> of \<open>LatencyRouting\<close>, what
  COM, the loader, the drivers and the back ends answer to the latency context; the answers of the Vulkan driver to the
  capability probe are the record \<open>probe_dispatch\<close>, the Windows functions that read the configuration the record \<open>profile\<close>.  The calls that context makes to its back end are
  a log in its state.

  \<^bold>\<open>Bounds.\<close>  The retry loops of the ring are \<open>partial_function (option)\<close>, and shown to return.  Properties of counters
  that only grow hold for runs shorter than their range (2 to the 63 insertions, 2 to the 64 frames or calls).  Every other
  function is total by its recursion.

  \<^bold>\<open>Not modelled.\<close>  The hooks, exported entry points and back ends, which call the system and the drivers; logging and the
  watching of the configuration file; the capabilities of translated devices.  Weak memory orders, and the overlap of a reader with an update inside
  the timelines, are not modelled either.
\<close>

end
